(* ===== verification/Prelude.thy ===== *)
theory Prelude
  imports Main "HOL-Library.Word"
begin

text \<open>
  Shared vocabulary of the development: the identifier and time types every component uses,
  the row-set operations that model single-statement SQL over a table kept as a list of rows,
  and the generic lemmas about them. A table is a list of records; \<open>update_where\<close> is an
  SQL \<open>UPDATE ... WHERE\<close>, \<open>find\<close> a lookup by primary key, \<open>count_where\<close> the number of affected
  rows. \<open>time\<close> counts nanoseconds since Go's zero time, so the zero \<open>time.Time\<close> is \<open>0\<close>.
\<close>

named_theorems table_simps \<open>equations for row-set operations\<close>
named_theorems go_simps \<open>equations for Go error values\<close>

type_synonym uuid = "128 word"
type_synonym time = int
type_synonym duration = int

abbreviation nil_uuid :: uuid where
  "nil_uuid \<equiv> 0"

abbreviation zero_time :: time where
  "zero_time \<equiv> 0"

abbreviation second :: duration where
  "second \<equiv> 1000000000"

section \<open>Row sets\<close>

definition update_where :: "('a \<Rightarrow> bool) \<Rightarrow> ('a \<Rightarrow> 'a) \<Rightarrow> 'a list \<Rightarrow> 'a list" where
  "update_where p f rows = map (\<lambda>row. if p row then f row else row) rows"

definition count_where :: "('a \<Rightarrow> bool) \<Rightarrow> 'a list \<Rightarrow> nat" where
  "count_where p rows = length (filter p rows)"

lemma update_where_Nil [simp, table_simps]: "update_where p f [] = []"
  by (simp add: update_where_def)

lemma update_where_Cons [simp, table_simps]:
  "update_where p f (x # xs) = (if p x then f x else x) # update_where p f xs"
  by (simp add: update_where_def)

lemma length_update_where [simp, table_simps]: "length (update_where p f xs) = length xs"
  by (simp add: update_where_def)

lemma set_update_where [table_simps]:
  "y \<in> set (update_where p f xs) \<longleftrightarrow> (\<exists>x \<in> set xs. y = (if p x then f x else x))"
  by (auto simp: update_where_def)

lemma update_where_none [table_simps]: "(\<And>x. x \<in> set xs \<Longrightarrow> \<not> p x) \<Longrightarrow> update_where p f xs = xs"
  by (induction xs) auto

lemma update_where_cong:
  "(\<And>x. x \<in> set xs \<Longrightarrow> p x = q x) \<Longrightarrow> (\<And>x. x \<in> set xs \<Longrightarrow> p x \<Longrightarrow> f x = g x) \<Longrightarrow>
     update_where p f xs = update_where q g xs"
  by (simp add: update_where_def)

lemma ball_update_where:
  assumes "\<forall>x \<in> set xs. P x" and "\<And>x. x \<in> set xs \<Longrightarrow> P x \<Longrightarrow> p x \<Longrightarrow> P (f x)"
  shows "\<forall>y \<in> set (update_where p f xs). P y"
  using assms by (auto simp: update_where_def)

lemma map_key_update_where:
  assumes "\<And>x. key (f x) = key x"
  shows "map key (update_where p f xs) = map key xs"
  using assms by (induction xs) auto

lemma count_where_0 [table_simps]: "count_where p xs = 0 \<longleftrightarrow> (\<forall>x \<in> set xs. \<not> p x)"
  by (auto simp: count_where_def filter_empty_conv)

lemma find_Some_set: "find p xs = Some x \<Longrightarrow> x \<in> set xs \<and> p x"
  by (induction xs) (auto split: if_splits)

lemma find_None_set: "find p xs = None \<longleftrightarrow> (\<forall>x \<in> set xs. \<not> p x)"
  by (induction xs) auto

lemma distinct_key_unique:
  "distinct (map key xs) \<Longrightarrow> x \<in> set xs \<Longrightarrow> y \<in> set xs \<Longrightarrow> key x = key y \<Longrightarrow> x = y"
  by (induction xs) (auto simp: image_iff)

lemma find_key_member:
  assumes "distinct (map key xs)" and "x \<in> set xs"
  shows "find (\<lambda>y. key y = key x) xs = Some x"
  using assms by (induction xs) (auto simp: image_iff)

lemma find_key_iff:
  assumes "distinct (map key xs)"
  shows "find (\<lambda>y. key y = k) xs = Some x \<longleftrightarrow> x \<in> set xs \<and> key x = k"
  using assms by (auto dest: find_Some_set intro: find_key_member)

lemma find_key_update_where:
  assumes "\<And>x. key (f x) = key x"
  shows "find (\<lambda>y. key y = k) (update_where p f xs)
    = map_option (\<lambda>x. if p x then f x else x) (find (\<lambda>y. key y = k) xs)"
  using assms by (induction xs) auto

lemma find_update_where_other:
  assumes "\<And>x. q (f x) = q x" and "\<And>x. q x \<Longrightarrow> \<not> p x"
  shows "find q (update_where p f xs) = find q xs"
  using assms by (induction xs) auto

lemma set_update_unique:
  assumes "distinct (map key xs)" and "r \<in> set xs"
  shows "y \<in> set (update_where (\<lambda>x. key x = key r) f xs) \<longleftrightarrow> y = f r \<or> (y \<in> set xs \<and> y \<noteq> r)"
proof -
  have "update_where (\<lambda>x. key x = key r) f xs = update_where (\<lambda>x. x = r) f xs"
    by (rule update_where_cong) (use distinct_key_unique [OF assms(1) _ assms(2)] in auto)
  then show ?thesis using assms(2) by (auto simp: set_update_where)
qed

lemma count_where_key:
  assumes "distinct (map key xs)" and "r \<in> set xs"
  shows "count_where (\<lambda>x. key x = key r) xs = 1"
proof -
  have "filter (\<lambda>x. key x = key r) xs = [r]" using assms by (induction xs) (auto simp: filter_empty_conv image_iff)
  then show ?thesis by (simp add: count_where_def)
qed

lemma find_update_where_miss:
  assumes "\<And>x. p x \<Longrightarrow> \<not> q x \<and> \<not> q (f x)"
  shows "find q (update_where p f xs) = find q xs"
  using assms by (induction xs) auto

section \<open>First row of an ordered result\<close>

definition first_row :: "'a list \<Rightarrow> 'a option" where
  "first_row rows = (case rows of [] \<Rightarrow> None | r # _ \<Rightarrow> Some r)"

lemma first_row_Some: "first_row rows = Some r \<Longrightarrow> r \<in> set rows"
  by (auto simp: first_row_def split: list.splits)

lemma first_row_None: "first_row rows = None \<longleftrightarrow> rows = []"
  by (auto simp: first_row_def split: list.splits)

lemma first_row_sorted:
  assumes "first_row (sort_key k xs) = Some r" and "x \<in> set xs"
  shows "k r \<le> k x"
proof -
  obtain ys where ys: "sort_key k xs = r # ys"
    using assms(1) by (auto simp: first_row_def split: list.splits)
  have "sorted (map k (r # ys))" using sorted_sort_key [of k xs] unfolding ys .
  moreover have "x \<in> set (r # ys)" using assms(2) by (metis set_sort ys)
  ultimately show ?thesis by auto
qed

lemma sort_filter_Nil: "sort_key k (filter p xs) = [] \<longleftrightarrow> (\<forall>x \<in> set xs. \<not> p x)"
proof -
  have "sort_key k (filter p xs) = [] \<longleftrightarrow> set (sort_key k (filter p xs)) = {}"
    by (rule set_empty [symmetric])
  then show ?thesis by (auto simp: set_filter)
qed

end
