(* ===== verification/Go_Errors.thy ===== *)
theory Go_Errors
  imports Prelude
begin

text \<open>
  Go error values. A nil error is \<open>None\<close>; a non-nil one is a tree: package-level sentinels
  (\<open>errors.New\<close>), \<open>fmt.Errorf\<close> with the errors it wraps through \<open>%w\<close>, \<open>errors.Join\<close>, and the
  typed errors the program defines. \<open>errors_is\<close> is \<open>errors.Is\<close> against a sentinel: the pre-order
  walk over \<open>Unwrap\<close>. The typed errors wrap the sentinel their \<open>Unwrap\<close> method returns.
  Error texts that no code reads back are kept only as the label of a wrap.
\<close>

datatype sentinel =
    ErrCanceled | ErrDeadlineExceeded
  \<comment> \<open>internal/domain/operatoraccount\<close>
  | ErrInvalidTransition | ErrInvalidState | ErrInvalidFailureCode
  | ErrInvalidTelegramIdentity | ErrInvalidAuthenticationExpiry | ErrVersionExhausted
  \<comment> \<open>internal/domain/mailing\<close>
  | MailingErrNotFound | MailingErrInvalidState | ErrNoEligibleRecipients
  | ErrUnresolvedDeliveryOutcomes
  \<comment> \<open>internal/application/commands/delivery\<close>
  | ErrEmpty | ErrLeaseLost | ErrOutcomeFinalization | ErrAccountAdmissionRejected
  | ErrPermanent | ErrTransient | ErrFloodWait | ErrUnknownOutcome | ErrStaleDelivery
  \<comment> \<open>internal/entrypoint/background/deliveryworker\<close>
  | ErrInvalidConfig | ErrShutdownTimeout | ErrMalformedTask
  \<comment> \<open>internal/application/operatoraccounts\<close>
  | ErrInvalidInput | ErrAccountStateConflict | ErrAccountNotFound | ErrAccountVersionConflict
  | ErrSessionNotFound | ErrRemoteLogoutNotConverged | ErrRemoteLogoutFloodWait
  | ErrRemoteLogoutTransient | ErrRemoteLogoutAmbiguous | ErrRemoteLogoutPermanent
  | ErrRuntimeUnavailable | ErrStartupRecovery | ErrInvalidRemoteLogoutFailure
  | ErrInvalidRuntimeOutcome
  \<comment> \<open>internal/application/operatoraccountauth\<close>
  | AuthErrInvalidInput | AuthErrAccountNotFound | AuthErrAccountVersionConflict
  | AuthErrAccountStateConflict | ErrProviderUnavailable | ErrAuthenticationAborted
  | AuthErrInvalidResult | ErrInvalidBeginResult | AuthErrInvalidAuthenticationExpiry
  | ErrInvalidRetryAfter | ErrChallengeNotFound | ErrChallengeExpired | ErrInvalidCode
  | ErrPasswordRequired | ErrInvalidPassword | ErrProviderTransient | AuthErrFloodWait
  | ErrUnauthorized | ErrSessionUnavailable | AuthErrStartupRecovery | ErrAttemptsExceeded
  | ErrServiceClosed | ErrChallengeCapacity
  | ErrRuntimeChallengeExpired | ErrRuntimeChallengeNotFound | ErrRuntimeChallengeAlreadyActive
  | ErrRuntimeAccountStateConflict | ErrRuntimeCapacity | ErrRuntimeClosed
  \<comment> \<open>internal/transport/telegram/accountowner\<close>
  | ErrRegistryStopped | ErrAccountStopped | ErrStaleAdmission | ErrInvalidAdmission
  | OwnerErrRuntimeCapacity | ErrFenceCapacity | ErrRevokeCallbackPanicked | ErrAlreadyRun
  | ErrStopped

text \<open>The bounded diagnostic kinds of \<open>operatoraccountauth.ProviderFailureError\<close>.\<close>

datatype ProviderFailureKind =
    ProviderFailureUnknown | ProviderFailureConfigurationRejected | ProviderFailurePhoneRejected
  | ProviderFailureRuntimeCapacity | ProviderFailureProtocol | ProviderFailureRemoteRejected
  | ProviderFailureRemoteFailure | ProviderFailureTransportUnknown
  | OtherProviderKind string \<comment> \<open>any other string of the Go type\<close>

datatype go_error =
    Sentinel sentinel
  | Wrap string "go_error list"
  | Join "go_error list"
  | FloodWaitError "duration option" \<comment> \<open>\<open>*FloodWaitError\<close>; \<open>None\<close> is the typed nil pointer\<close>
  | RetryAfterError duration         \<comment> \<open>\<open>*RetryAfterError\<close> of the authentication service\<close>
  | ProviderFailureError "ProviderFailureKind option" \<comment> \<open>\<open>None\<close> is the typed nil pointer\<close>
  | PgConstraint string              \<comment> \<open>a PostgreSQL constraint violation\<close>
  | Foreign string                   \<comment> \<open>an error of a dependency\<close>
  | Panicked                         \<comment> \<open>an error whose \<open>Error\<close> method panics\<close>

fun errors_is :: "go_error \<Rightarrow> sentinel \<Rightarrow> bool" where
  "errors_is (Sentinel s) t \<longleftrightarrow> s = t"
| "errors_is (Wrap _ es) t \<longleftrightarrow> list_ex (\<lambda>e. errors_is e t) es"
| "errors_is (Join es) t \<longleftrightarrow> list_ex (\<lambda>e. errors_is e t) es"
| "errors_is (FloodWaitError _) t \<longleftrightarrow> t = ErrFloodWait"
| "errors_is (RetryAfterError _) t \<longleftrightarrow> t = AuthErrFloodWait"
| "errors_is (ProviderFailureError k) t \<longleftrightarrow>
     t = (if k = Some ProviderFailureProtocol then ErrProviderUnavailable else ErrProviderTransient)"
| "errors_is _ t \<longleftrightarrow> False"

text \<open>All \<open>*FloodWaitError\<close> values of the tree in pre-order; \<open>errors.As\<close> stores the first.\<close>

fun flood_waits :: "go_error \<Rightarrow> duration option list" where
  "flood_waits (FloodWaitError d) = [d]"
| "flood_waits (Wrap _ es) = concat (map flood_waits es)"
| "flood_waits (Join es) = concat (map flood_waits es)"
| "flood_waits _ = []"

definition as_flood_wait :: "go_error \<Rightarrow> duration option option" where
  "as_flood_wait e = (case flood_waits e of [] \<Rightarrow> None | d # _ \<Rightarrow> Some d)"

text \<open>\<open>errors.Join\<close> drops nil errors and is nil when nothing is left.\<close>

fun non_nil :: "'a option list \<Rightarrow> 'a list" where
  "non_nil [] = []"
| "non_nil (None # es) = non_nil es"
| "non_nil (Some e # es) = e # non_nil es"

definition errors_join :: "go_error option list \<Rightarrow> go_error option" where
  "errors_join es = (case non_nil es of [] \<Rightarrow> None | xs \<Rightarrow> Some (Join xs))"

lemma set_non_nil [simp]: "x \<in> set (non_nil es) \<longleftrightarrow> Some x \<in> set es"
  by (induction es rule: non_nil.induct) auto

lemma non_nil_Nil [simp]: "non_nil es = [] \<longleftrightarrow> (\<forall>e \<in> set es. e = None)"
  by (induction es rule: non_nil.induct) auto

lemma errors_join_None [go_simps]: "errors_join es = None \<longleftrightarrow> (\<forall>e \<in> set es. e = None)"
  by (metis (no_types, lifting) errors_join_def list.case(1) list.exhaust list.simps(5)
      non_nil_Nil option.distinct(1))

lemma errors_join_is [go_simps]:
  assumes "errors_join es = Some e"
  shows "errors_is e t \<longleftrightarrow> (\<exists>x. Some x \<in> set es \<and> errors_is x t)"
proof -
  from assms have "e = Join (non_nil es)"
    by (auto simp: errors_join_def split: list.splits)
  then show ?thesis by (auto simp: list_ex_iff)
qed

text \<open>How a call ends: it returns a value, returns a non-nil error, or panics.\<close>

datatype 'a outcome = Returns 'a | Fails go_error | Panics

lemma errors_is_Wrap1 [simp, go_simps]: "errors_is (Wrap m [e]) t = errors_is e t"
  by simp

end
