(* ===== verification/Delivery_Failures.thy ===== *)
theory Delivery_Failures
  imports Go_Errors
begin

text \<open>
  The transport-neutral delivery taxonomy of \<open>internal/application/commands/delivery\<close>:
  \<open>Classify\<close> (failures.go) over Go error trees, \<open>BoundedErrorMessage\<close> (failures.go) over byte
  strings with Go's UTF-8 decoding, and \<open>TerminalRunStatus\<close> (reconcile.go).
\<close>

section \<open>Classification\<close>

datatype FailureKind = FailureUnknown | FailurePermanent | FailureTransient | FailureFloodWait

record Classification =
  Kind :: FailureKind
  RetryAfter :: duration

abbreviation classified :: "FailureKind \<Rightarrow> Classification" where
  "classified k \<equiv> \<lparr>Kind = k, RetryAfter = 0\<rparr>"

definition Classify :: "go_error option \<Rightarrow> Classification" where
  "Classify failure = (case failure of
     None \<Rightarrow> classified FailureUnknown
   | Some e \<Rightarrow>
       (case as_flood_wait e of
          Some (Some d) \<Rightarrow>
            (if 0 < d then \<lparr>Kind = FailureFloodWait, RetryAfter = d\<rparr>
             else classified FailureUnknown)
        | Some None \<Rightarrow> classified FailureUnknown
        | None \<Rightarrow>
            (if errors_is e ErrPermanent then classified FailurePermanent
             else if errors_is e ErrTransient then classified FailureTransient
             else if errors_is e ErrUnknownOutcome then classified FailureUnknown
             else classified FailureUnknown)))"

definition wrapFailure :: "sentinel \<Rightarrow> go_error option \<Rightarrow> go_error" where
  "wrapFailure kind cause = (case cause of
     None \<Rightarrow> Sentinel kind
   | Some c \<Rightarrow> Wrap ''%w: %w'' [Sentinel kind, c])"

section \<open>Bounded error messages\<close>

type_synonym byte = nat \<comment> \<open>0 to 255\<close>
type_synonym rune = nat \<comment> \<open>a Unicode code point\<close>

definition RuneError :: rune where
  "RuneError = 65533"

definition valid_rune :: "rune \<Rightarrow> bool" where
  "valid_rune r \<longleftrightarrow> r < 55296 \<or> (57343 < r \<and> r \<le> 1114111)"

definition continuation :: "byte \<Rightarrow> bool" where
  "continuation b \<longleftrightarrow> 128 \<le> b \<and> b \<le> 191"

text \<open>The bytes a second byte may take after each leading byte of three and four byte sequences.\<close>

definition second_ok :: "byte \<Rightarrow> byte \<Rightarrow> bool" where
  "second_ok b0 b1 \<longleftrightarrow>
     (if b0 = 224 then 160 \<le> b1 \<and> b1 \<le> 191
      else if b0 = 237 then 128 \<le> b1 \<and> b1 \<le> 159
      else if b0 = 240 then 144 \<le> b1 \<and> b1 \<le> 191
      else if b0 = 244 then 128 \<le> b1 \<and> b1 \<le> 143
      else continuation b1)"

text \<open>\<open>utf8.DecodeRune\<close>: the rune and the rest of the input; \<open>None\<close> consumes one invalid byte.\<close>

fun decode_rune :: "byte list \<Rightarrow> rune option \<times> byte list" where
  "decode_rune [] = (None, [])"
| "decode_rune (b0 # bs) =
    (if b0 < 128 then (Some b0, bs)
     else if 194 \<le> b0 \<and> b0 \<le> 223 then
       (case bs of
          b1 # rest \<Rightarrow> if continuation b1 then (Some ((b0 - 192) * 64 + (b1 - 128)), rest) else (None, bs)
        | _ \<Rightarrow> (None, bs))
     else if 224 \<le> b0 \<and> b0 \<le> 239 then
       (case bs of
          b1 # b2 # rest \<Rightarrow>
            if second_ok b0 b1 \<and> continuation b2
            then (Some ((b0 - 224) * 4096 + (b1 - 128) * 64 + (b2 - 128)), rest) else (None, bs)
        | _ \<Rightarrow> (None, bs))
     else if 240 \<le> b0 \<and> b0 \<le> 244 then
       (case bs of
          b1 # b2 # b3 # rest \<Rightarrow>
            if second_ok b0 b1 \<and> continuation b2 \<and> continuation b3
            then (Some ((b0 - 240) * 262144 + (b1 - 128) * 4096 + (b2 - 128) * 64 + (b3 - 128)), rest)
            else (None, bs)
        | _ \<Rightarrow> (None, bs))
     else (None, bs))"

lemma decode_rune_shorter: "(r, rest) = decode_rune (b # bs) \<Longrightarrow> length rest < Suc (length bs)"
  by (auto split: list.splits if_splits)

text \<open>\<open>strings.ToValidUTF8\<close>: a run of invalid bytes becomes one replacement rune.\<close>

function ToValidUTF8 :: "bool \<Rightarrow> byte list \<Rightarrow> rune list" where
  "ToValidUTF8 invalid [] = []"
| "ToValidUTF8 invalid (b # bs) =
    (case decode_rune (b # bs) of
       (Some r, rest) \<Rightarrow> r # ToValidUTF8 False rest
     | (None, rest) \<Rightarrow>
         (if invalid then ToValidUTF8 True rest else RuneError # ToValidUTF8 True rest))"
  by pat_completeness auto
termination
  by (relation "measure (\<lambda>(_, bs). length bs)")
     (auto simp del: decode_rune.simps dest: decode_rune_shorter)

text \<open>\<open>unicode.IsSpace\<close>.\<close>

definition is_space :: "rune \<Rightarrow> bool" where
  "is_space r \<longleftrightarrow> (9 \<le> r \<and> r \<le> 13) \<or> r = 32 \<or> r = 133 \<or> r = 160 \<or> r = 5760
     \<or> (8192 \<le> r \<and> r \<le> 8202) \<or> r = 8232 \<or> r = 8233 \<or> r = 8239 \<or> r = 8287 \<or> r = 12288"

definition TrimSpace :: "rune list \<Rightarrow> rune list" where
  "TrimSpace s = rev (dropWhile is_space (rev (dropWhile is_space s)))"

definition runes_of :: "string \<Rightarrow> rune list" where
  "runes_of s = map of_char s"

definition MaxErrorMessageCodePoints :: nat where
  "MaxErrorMessageCodePoints = 1024"

definition defaultErrorMessage :: "rune list" where
  "defaultErrorMessage = runes_of ''delivery outcome has no diagnostic''"

text \<open>What calling \<open>Error()\<close> does: nothing on a nil error, a panic, or a byte string.\<close>

datatype error_text = NilError | ErrorPanics | ErrorText "byte list"

definition BoundedErrorMessage :: "error_text \<Rightarrow> rune list" where
  "BoundedErrorMessage failure =
    (let raw = (case failure of ErrorText bs \<Rightarrow> bs | _ \<Rightarrow> []);
         raw = (if raw = [] then defaultErrorMessage else raw);
         message = TrimSpace (ToValidUTF8 False (filter (\<lambda>b. b \<noteq> 0) raw));
         message = (if message = [] then defaultErrorMessage else message);
         runes = (if MaxErrorMessageCodePoints < length message
                  then take MaxErrorMessageCodePoints message else message);
         message = TrimSpace runes
     in if message = [] then defaultErrorMessage
        else if \<not> list_all valid_rune message then defaultErrorMessage
        else message)"

section \<open>Terminal run status\<close>

datatype DeliveryState =
    DPending | DSending | DSent | DSkipped | DFailed | DUnknown | DOther string

datatype RunTerminalStatus = RunCompleted | RunFailed

text \<open>The loop of \<open>TerminalRunStatus\<close>; the two flags are its local variables.\<close>

fun scan_states :: "bool \<Rightarrow> bool \<Rightarrow> DeliveryState list \<Rightarrow> RunTerminalStatus option" where
  "scan_states failed unknown [] = (if unknown \<or> failed then Some RunFailed else Some RunCompleted)"
| "scan_states failed unknown (DPending # _) = None"
| "scan_states failed unknown (DSending # _) = None"
| "scan_states failed unknown (DUnknown # states) = scan_states failed True states"
| "scan_states failed unknown (DFailed # states) = scan_states True unknown states"
| "scan_states failed unknown (DSent # states) = scan_states failed unknown states"
| "scan_states failed unknown (DSkipped # states) = scan_states failed unknown states"
| "scan_states failed unknown (DOther _ # states) = None"

definition TerminalRunStatus :: "DeliveryState list \<Rightarrow> RunTerminalStatus option" where
  "TerminalRunStatus states = (if states = [] then None else scan_states False False states)"

section \<open>Lemmas\<close>

lemma two_byte_range:
  assumes "194 \<le> (b0::nat)" "b0 \<le> 223" "128 \<le> b1" "b1 \<le> 191"
  shows "128 \<le> (b0 - 192) * 64 + (b1 - 128)" and "(b0 - 192) * 64 + (b1 - 128) < 2048"
  using assms by arith+

lemma three_byte_range:
  assumes "224 \<le> (b0::nat)" "b0 \<le> 239" "128 \<le> b1" "b1 \<le> 191" "128 \<le> b2" "b2 \<le> 191"
    and "b0 = 224 \<longrightarrow> 160 \<le> b1" "b0 = 237 \<longrightarrow> b1 \<le> 159"
  defines "r \<equiv> (b0 - 224) * 4096 + (b1 - 128) * 64 + (b2 - 128)"
  shows "2048 \<le> r" and "valid_rune r"
proof -
  obtain k where k: "b0 = 224 + k" using assms(1) by (auto simp: le_iff_add)
  obtain l where l: "b1 = 128 + l" using assms(3) by (auto simp: le_iff_add)
  obtain n where n: "b2 = 128 + n" using assms(5) by (auto simp: le_iff_add)
  have r: "r = k * 4096 + l * 64 + n" by (simp add: r_def k l n)
  have "k \<le> 15" "l \<le> 63" "n \<le> 63" "k = 0 \<longrightarrow> 32 \<le> l" "k = 13 \<longrightarrow> l \<le> 31"
    using assms k l n by simp_all
  note b = this
  have "k = 0 \<or> 1 \<le> k" by arith
  then show "2048 \<le> r" unfolding r using b by (elim disjE) simp_all
  have "k \<le> 12 \<or> k = 13 \<or> 14 \<le> k" by arith
  then show "valid_rune r"
  proof (elim disjE)
    assume "k \<le> 12"
    then have "r < 55296" unfolding r using b(2,3) by linarith
    then show ?thesis by (simp add: valid_rune_def)
  next
    assume "k = 13"
    then have "l \<le> 31" using b(5) by simp
    then have "r < 55296" unfolding r using b(3) \<open>k = 13\<close> by linarith
    then show ?thesis by (simp add: valid_rune_def)
  next
    assume "14 \<le> k"
    then have "57343 < r" and "r \<le> 1114111" unfolding r using b(1,2,3) by linarith+
    then show ?thesis by (simp add: valid_rune_def)
  qed
qed

lemma four_byte_range:
  assumes "240 \<le> (b0::nat)" "b0 \<le> 244" "128 \<le> b1" "b1 \<le> 191" "128 \<le> b2" "b2 \<le> 191"
    "128 \<le> b3" "b3 \<le> 191" and "b0 = 240 \<longrightarrow> 144 \<le> b1" "b0 = 244 \<longrightarrow> b1 \<le> 143"
  defines "r \<equiv> (b0 - 240) * 262144 + (b1 - 128) * 4096 + (b2 - 128) * 64 + (b3 - 128)"
  shows "65536 \<le> r" and "valid_rune r"
proof -
  obtain k where k: "b0 = 240 + k" using assms(1) by (auto simp: le_iff_add)
  obtain l where l: "b1 = 128 + l" using assms(3) by (auto simp: le_iff_add)
  obtain n where n: "b2 = 128 + n" using assms(5) by (auto simp: le_iff_add)
  obtain o' where o: "b3 = 128 + o'" using assms(7) by (auto simp: le_iff_add)
  have r: "r = k * 262144 + l * 4096 + n * 64 + o'" by (simp add: r_def k l n o)
  have "k \<le> 4" "l \<le> 63" "n \<le> 63" "o' \<le> 63" "k = 0 \<longrightarrow> 16 \<le> l" "k = 4 \<longrightarrow> l \<le> 15"
    using assms k l n o by simp_all
  note b = this
  have "k = 0 \<or> 1 \<le> k" by arith
  then show low: "65536 \<le> r" unfolding r using b by (elim disjE) simp_all
  have "k = 4 \<or> k \<le> 3" using b(1) by arith
  then have "r \<le> 1114111"
  proof (elim disjE)
    assume "k = 4"
    then have "l \<le> 15" using b(6) by simp
    then show ?thesis unfolding r using b(3,4) \<open>k = 4\<close> by linarith
  next
    assume "k \<le> 3"
    then show ?thesis unfolding r using b(2,3,4) by linarith
  qed
  with low show "valid_rune r" by (simp add: valid_rune_def)
qed

text \<open>Decoding yields valid runes only, and a zero rune only from a zero byte.\<close>

lemma decode_rune_Some:
  assumes "decode_rune bs = (Some r, rest)"
  shows "valid_rune r \<and> (r = 0 \<longrightarrow> bs \<noteq> [] \<and> hd bs = 0)"
proof (cases bs)
  case (Cons b0 bs')
  consider "b0 < 128" | "194 \<le> b0" "b0 \<le> 223" | "224 \<le> b0" "b0 \<le> 239" | "240 \<le> b0" "b0 \<le> 244"
    using assms Cons by (force split: if_splits)
  then show ?thesis
  proof cases
    case 1
    then show ?thesis using assms Cons by (auto simp: valid_rune_def)
  next
    case 2
    then obtain b1 where "128 \<le> b1" "b1 \<le> 191" "r = (b0 - 192) * 64 + (b1 - 128)"
      using assms Cons by (auto simp: continuation_def split: list.splits if_splits)
    then show ?thesis using two_byte_range [OF 2, of b1] unfolding valid_rune_def by linarith
  next
    case 3
    then obtain b1 b2 where "second_ok b0 b1" "continuation b2"
      "r = (b0 - 224) * 4096 + (b1 - 128) * 64 + (b2 - 128)"
      using assms Cons by (auto split: list.splits if_splits)
    then show ?thesis using three_byte_range [OF 3, of b1 b2]
      by (auto simp: second_ok_def continuation_def split: if_splits)
  next
    case 4
    then obtain b1 b2 b3 where "second_ok b0 b1" "continuation b2" "continuation b3"
      "r = (b0 - 240) * 262144 + (b1 - 128) * 4096 + (b2 - 128) * 64 + (b3 - 128)"
      using assms Cons by (auto split: list.splits if_splits)
    then show ?thesis using four_byte_range [OF 4, of b1 b2 b3]
      by (auto simp: second_ok_def continuation_def split: if_splits)
  qed
qed (use assms in simp)

lemma decode_rune_suffix: "set (snd (decode_rune bs)) \<subseteq> set bs"
  by (cases bs) (auto split: list.splits)

lemma ToValidUTF8_valid: "r \<in> set (ToValidUTF8 i bs) \<Longrightarrow> valid_rune r"
proof (induction i bs rule: ToValidUTF8.induct)
  case (2 i b bs)
  obtain q rest where d: "decode_rune (b # bs) = (q, rest)" by force
  show ?case
  proof (cases q)
    case None
    with 2 d show ?thesis
      by (auto simp: RuneError_def valid_rune_def simp del: decode_rune.simps split: if_splits)
  next
    case (Some r')
    with 2 d decode_rune_Some [of "b # bs" r' rest] show ?thesis
      by (auto simp del: decode_rune.simps)
  qed
qed simp

lemma ToValidUTF8_no_nul: "0 \<notin> set bs \<Longrightarrow> 0 \<notin> set (ToValidUTF8 i bs)"
proof (induction i bs rule: ToValidUTF8.induct)
  case (2 i b bs)
  obtain q rest where d: "decode_rune (b # bs) = (q, rest)" by force
  have rest: "0 \<notin> set rest"
    using decode_rune_suffix [of "b # bs"] d "2.prems" by auto
  show ?case
  proof (cases q)
    case None
    with "2.IH" d rest show ?thesis by (auto simp: RuneError_def simp del: decode_rune.simps)
  next
    case (Some r)
    then have "r \<noteq> 0" using decode_rune_Some [of "b # bs" r rest] d "2.prems" by auto
    with Some "2.IH" d rest show ?thesis by (auto simp del: decode_rune.simps)
  qed
qed simp

lemma set_TrimSpace: "set (TrimSpace s) \<subseteq> set s"
proof
  fix x assume "x \<in> set (TrimSpace s)"
  then have "x \<in> set (dropWhile is_space (rev (dropWhile is_space s)))"
    unfolding TrimSpace_def by simp
  then have "x \<in> set (dropWhile is_space s)"
    using set_dropWhileD [of x is_space "rev (dropWhile is_space s)"] by simp
  then show "x \<in> set s" by (rule set_dropWhileD)
qed

lemma length_TrimSpace: "length (TrimSpace s) \<le> length s"
  unfolding TrimSpace_def by (metis length_dropWhile_le length_rev le_trans)

lemma TrimSpace_last: "TrimSpace s \<noteq> [] \<Longrightarrow> \<not> is_space (last (TrimSpace s))"
  unfolding TrimSpace_def by (metis hd_dropWhile last_rev rev_is_Nil_conv)

lemma TrimSpace_hd:
  assumes "TrimSpace s \<noteq> []"
  shows "\<not> is_space (hd (TrimSpace s))"
proof -
  let ?t = "dropWhile is_space s"
  obtain u where u: "?t = TrimSpace s @ u"
    unfolding TrimSpace_def
    by (metis rev_append rev_rev_ident takeWhile_dropWhile_id)
  then have "hd ?t = hd (TrimSpace s)" and "?t \<noteq> []" using assms by simp_all
  then show ?thesis using hd_dropWhile by metis
qed

definition bounded_message :: "rune list \<Rightarrow> bool" where
  "bounded_message m \<longleftrightarrow> m \<noteq> [] \<and> length m \<le> MaxErrorMessageCodePoints \<and> 0 \<notin> set m
     \<and> (\<forall>r \<in> set m. valid_rune r) \<and> \<not> is_space (hd m) \<and> \<not> is_space (last m)"

lemma default_bounded: "bounded_message defaultErrorMessage"
  by (simp add: bounded_message_def defaultErrorMessage_def runes_of_def
      MaxErrorMessageCodePoints_def valid_rune_def is_space_def)

text \<open>\<open>btrim(message) <> ''\<close>, the part of the table's evidence constraint about messages.\<close>

definition btrim_nonempty :: "rune list \<Rightarrow> bool" where
  "btrim_nonempty m \<longleftrightarrow> (\<exists>r \<in> set m. r \<noteq> 32)"

lemma bounded_btrim: "bounded_message m \<Longrightarrow> btrim_nonempty m"
  unfolding bounded_message_def btrim_nonempty_def is_space_def
  by (metis hd_in_set)

lemma scan_states_spec:
  "scan_states failed unknown states =
    (if \<forall>s \<in> set states. s \<in> {DSent, DSkipped, DFailed, DUnknown}
     then Some (if failed \<or> unknown \<or> DFailed \<in> set states \<or> DUnknown \<in> set states
                then RunFailed else RunCompleted)
     else None)"
  by (induction failed unknown states rule: scan_states.induct) auto

lemma TerminalRunStatus_no_pending:
  "TerminalRunStatus (map f xs) = Some v \<Longrightarrow> x \<in> set xs \<Longrightarrow> f x \<in> {DSent, DSkipped, DFailed, DUnknown}"
  by (auto simp: TerminalRunStatus_def scan_states_spec split: if_splits)

lemma TerminalRunStatus_set:
  "set xs = set ys \<Longrightarrow> TerminalRunStatus xs = TerminalRunStatus ys"
  by (auto simp: TerminalRunStatus_def scan_states_spec)

lemma bounded_BoundedErrorMessage: "bounded_message (BoundedErrorMessage failure)"
proof -
  define raw where "raw = (case failure of ErrorText bs \<Rightarrow> bs | _ \<Rightarrow> [])"
  define raw' where "raw' = (if raw = [] then defaultErrorMessage else raw)"
  define m where "m = TrimSpace (ToValidUTF8 False (filter (\<lambda>b. b \<noteq> 0) raw'))"
  define m' where "m' = (if m = [] then defaultErrorMessage else m)"
  define t where "t = TrimSpace (if MaxErrorMessageCodePoints < length m'
    then take MaxErrorMessageCodePoints m' else m')"
  have result: "BoundedErrorMessage failure =
      (if t = [] \<or> \<not> list_all valid_rune t then defaultErrorMessage else t)"
    by (simp add: BoundedErrorMessage_def Let_def raw_def raw'_def m_def m'_def t_def)
  have "0 \<notin> set m"
    using ToValidUTF8_no_nul [of "filter (\<lambda>b. b \<noteq> 0) raw'"] set_TrimSpace unfolding m_def by force
  then have "0 \<notin> set m'"
    using default_bounded by (simp add: m'_def bounded_message_def)
  then have "0 \<notin> set t" and "length t \<le> MaxErrorMessageCodePoints"
    unfolding t_def
    using set_TrimSpace length_TrimSpace [of "if MaxErrorMessageCodePoints < length m'
      then take MaxErrorMessageCodePoints m' else m'"]
    by (fastforce dest: in_set_takeD split: if_splits,
        auto intro: le_trans split: if_splits)
  moreover have "t \<noteq> [] \<Longrightarrow> \<not> is_space (hd t) \<and> \<not> is_space (last t)"
    unfolding t_def using TrimSpace_hd TrimSpace_last by blast
  ultimately show ?thesis
    using default_bounded result
    by (auto simp: bounded_message_def list_all_iff)
qed

section \<open>Properties\<close>

text \<open>C17: the diagnostic stored in the \<open>error_message\<close> column is, for every error (nil, with a
  panicking \<open>Error\<close> method, with malformed UTF-8, NUL bytes or unbounded text), non-empty, at most
  1024 code points, free of NUL, made of valid code points, and without leading or trailing space.\<close>
theorem BoundedErrorMessage_bounded: "bounded_message (BoundedErrorMessage failure)"
  by (rule bounded_BoundedErrorMessage)

text \<open>A run is terminal exactly when it has deliveries and every one of them is sent, skipped,
  failed or unknown; it is failed exactly when one of those is failed or unknown. Pending, sending
  and unrecognised states block termination wherever they occur, so the unordered scan of the
  delivery rows cannot change the verdict.\<close>
theorem TerminalRunStatus_spec:
  "TerminalRunStatus states =
    (if states = [] \<or> (\<exists>s \<in> set states. s \<notin> {DSent, DSkipped, DFailed, DUnknown}) then None
     else if DFailed \<in> set states \<or> DUnknown \<in> set states then Some RunFailed
     else Some RunCompleted)"
  by (auto simp: TerminalRunStatus_def scan_states_spec)

text \<open>An automatic retry needs positive evidence. An error is classified transient only when its
  tree has the transient sentinel, no permanent one and no flood-wait value at all, and as a flood wait
  only with a positive server-supplied delay taken from the tree; everything else, in particular a
  malformed or nil flood-wait value, stays out of the retrying classes.\<close>
theorem Classify_retry_evidence:
  "(Kind (Classify (Some e)) = FailureTransient \<longleftrightarrow>
      flood_waits e = [] \<and> errors_is e ErrTransient \<and> \<not> errors_is e ErrPermanent)
   \<and> (Kind (Classify (Some e)) = FailureFloodWait \<longleftrightarrow>
      (\<exists>d ds. flood_waits e = Some d # ds \<and> 0 < d \<and> RetryAfter (Classify (Some e)) = d))
   \<and> (Kind (Classify (Some e)) = FailurePermanent \<longleftrightarrow>
      flood_waits e = [] \<and> errors_is e ErrPermanent)"
  by (auto simp: Classify_def as_flood_wait_def split: list.splits option.splits)

end
