(* ===== verification/Operator_Account.thy ===== *)
theory Operator_Account
  imports Go_Errors
begin

unbundle bit_operations_syntax

text \<open>
  The operator account lifecycle of \<open>internal/domain/operatoraccount\<close>: the account record, its
  constructor and restore path, and the five lifecycle operations with the shared version
  advance. Operations mutate their receiver in Go; here they return the account after the call
  and the error, so that "a failed operation leaves the account unchanged" is a theorem and not
  an assumption. The version is a 64-bit word, as \<open>uint64\<close>.
\<close>

section \<open>Data\<close>

type_synonym version = "64 word"

definition InitialVersion :: version where
  "InitialVersion = 1"

datatype account_status =
    Authenticating | Active | ReauthRequired | Disconnected | Disconnecting
  | OtherStatus string \<comment> \<open>any other string of the Go type \<open>Status\<close>\<close>

fun status_valid :: "account_status \<Rightarrow> bool" where
  "status_valid (OtherStatus _) \<longleftrightarrow> False"
| "status_valid _ \<longleftrightarrow> True"

datatype failure_code =
    NoFailure | AuthExpired | SessionInvalid | AuthorizationRevoked
  | OtherFailure string

fun validFailureCode :: "failure_code \<Rightarrow> bool" where
  "validFailureCode AuthExpired \<longleftrightarrow> True"
| "validFailureCode SessionInvalid \<longleftrightarrow> True"
| "validFailureCode AuthorizationRevoked \<longleftrightarrow> True"
| "validFailureCode _ \<longleftrightarrow> False"

record account =
  acc_id :: uuid
  acc_status :: account_status
  acc_version :: version
  acc_failureCode :: failure_code
  acc_telegramUserID :: int
  acc_authExpiresAt :: time
  acc_remoteLogoutRequired :: bool

definition zero_account :: account where
  "zero_account = \<lparr>acc_id = nil_uuid, acc_status = OtherStatus [], acc_version = 0,
     acc_failureCode = NoFailure, acc_telegramUserID = 0, acc_authExpiresAt = zero_time,
     acc_remoteLogoutRequired = False\<rparr>"

text \<open>\<open>New\<close> panics on a zero identity; \<open>None\<close> is the panic.\<close>

definition new_account :: "uuid \<Rightarrow> account option" where
  "new_account i = (if i = nil_uuid then None
     else Some (zero_account\<lparr>acc_id := i, acc_status := Disconnected,
                 acc_version := InitialVersion\<rparr>))"

section \<open>Validation and restore\<close>

definition invalid_state :: "string \<Rightarrow> go_error" where
  "invalid_state m = Wrap m [Sentinel ErrInvalidState]"

definition validate_account :: "account \<Rightarrow> go_error option" where
  "validate_account a =
    (if acc_id a = nil_uuid then Some (invalid_state ''account identity is required'')
     else if \<not> status_valid (acc_status a) then Some (invalid_state ''unknown status'')
     else if acc_remoteLogoutRequired a \<and> acc_status a \<noteq> Disconnecting
       then Some (invalid_state ''remote logout requirement is only valid while disconnecting'')
     else if acc_version a = 0 then Some (invalid_state ''version must be positive'')
     else if acc_telegramUserID a < 0
       then Some (invalid_state ''Telegram user ID must not be negative'')
     else if (acc_status a = Active \<or> acc_status a = ReauthRequired) \<and> acc_telegramUserID a \<le> 0
       then Some (invalid_state ''requires a canonical Telegram identity'')
     else if acc_status a = Authenticating \<and> acc_authExpiresAt a = zero_time
       then Some (invalid_state ''authenticating account requires an expiry'')
     else if acc_status a \<noteq> Authenticating \<and> acc_authExpiresAt a \<noteq> zero_time
       then Some (invalid_state ''authentication expiry is only valid while authenticating'')
     else if acc_status a = ReauthRequired \<and> \<not> validFailureCode (acc_failureCode a)
       then Some (invalid_state ''reauthentication-required account needs a stable code'')
     else if acc_status a \<noteq> ReauthRequired \<and> acc_failureCode a \<noteq> NoFailure
       then Some (invalid_state ''failure code is only valid while reauthentication is required'')
     else None)"

definition Restore ::
  "uuid \<Rightarrow> account_status \<Rightarrow> version \<Rightarrow> failure_code \<Rightarrow> int \<Rightarrow> time \<Rightarrow> bool list
   \<Rightarrow> go_error + account" where
  "Restore i st v code tid expiry logout =
    (if 1 < length logout
     then Inl (invalid_state ''remote logout requirement must be provided once'')
     else let a = \<lparr>acc_id = i, acc_status = st, acc_version = v, acc_failureCode = code,
                   acc_telegramUserID = tid, acc_authExpiresAt = expiry,
                   acc_remoteLogoutRequired = (case logout of [b] \<Rightarrow> b | _ \<Rightarrow> False)\<rparr>
          in (case validate_account a of Some e \<Rightarrow> Inl e | None \<Rightarrow> Inr a))"

section \<open>Lifecycle operations\<close>

definition advanceVersion :: "account \<Rightarrow> account \<times> go_error option" where
  "advanceVersion a =
    (if acc_version a = NOT 0 then (a, Some (Sentinel ErrVersionExhausted))
     else (a\<lparr>acc_version := acc_version a + 1\<rparr>, None))"

fun move :: "account_status \<Rightarrow> account_status list \<Rightarrow> account \<Rightarrow> account \<times> go_error option" where
  "move nxt [] a = (a, Some (Wrap ''cannot move'' [Sentinel ErrInvalidTransition]))"
| "move nxt (current # allowed) a =
    (if acc_status a = current
     then (case advanceVersion a of
             (a', Some failure) \<Rightarrow> (a', Some failure)
           | (a', None) \<Rightarrow> (a'\<lparr>acc_status := nxt\<rparr>, None))
     else move nxt allowed a)"

definition BeginAuthentication :: "time \<Rightarrow> account \<Rightarrow> account \<times> go_error option" where
  "BeginAuthentication expiresAt a =
    (if expiresAt = zero_time then (a, Some (Sentinel ErrInvalidAuthenticationExpiry))
     else (case move Authenticating [Disconnected, ReauthRequired] a of
             (a', Some failure) \<Rightarrow> (a', Some failure)
           | (a', None) \<Rightarrow> (a'\<lparr>acc_authExpiresAt := expiresAt, acc_failureCode := NoFailure\<rparr>, None)))"

definition Activate :: "int \<Rightarrow> account \<Rightarrow> account \<times> go_error option" where
  "Activate telegramUserID a =
    (if telegramUserID \<le> 0 then (a, Some (Sentinel ErrInvalidTelegramIdentity))
     else (case move Active [Authenticating] a of
             (a', Some failure) \<Rightarrow> (a', Some failure)
           | (a', None) \<Rightarrow> (a'\<lparr>acc_telegramUserID := telegramUserID,
                            acc_authExpiresAt := zero_time, acc_failureCode := NoFailure\<rparr>, None)))"

definition RequireReauthentication :: "failure_code \<Rightarrow> account \<Rightarrow> account \<times> go_error option" where
  "RequireReauthentication code a =
    (if \<not> validFailureCode code then (a, Some (Sentinel ErrInvalidFailureCode))
     else if acc_telegramUserID a \<le> 0 then (a, Some (Sentinel ErrInvalidTelegramIdentity))
     else (case move ReauthRequired [Active] a of
             (a', Some failure) \<Rightarrow> (a', Some failure)
           | (a', None) \<Rightarrow> (a'\<lparr>acc_authExpiresAt := zero_time, acc_failureCode := code\<rparr>, None)))"

definition BeginDisconnect :: "account \<Rightarrow> account \<times> go_error option" where
  "BeginDisconnect a =
    (let remoteIntent = (acc_status a = Active \<or> acc_status a = ReauthRequired) in
     case move Disconnecting [Authenticating, Active, ReauthRequired] a of
       (a', Some failure) \<Rightarrow> (a', Some failure)
     | (a', None) \<Rightarrow> (a'\<lparr>acc_authExpiresAt := zero_time, acc_failureCode := NoFailure,
                       acc_remoteLogoutRequired := remoteIntent\<rparr>, None))"

definition MarkDisconnected :: "account \<Rightarrow> account \<times> go_error option" where
  "MarkDisconnected a =
    (case move Disconnected [Disconnecting] a of
       (a', Some failure) \<Rightarrow> (a', Some failure)
     | (a', None) \<Rightarrow> (a'\<lparr>acc_authExpiresAt := zero_time, acc_failureCode := NoFailure,
                       acc_remoteLogoutRequired := False\<rparr>, None))"

text \<open>One value per lifecycle call, and the effect of a call.\<close>

datatype lifecycle_op =
    OpBeginAuthentication time
  | OpActivate int
  | OpRequireReauthentication failure_code
  | OpBeginDisconnect
  | OpMarkDisconnected

fun apply_lifecycle :: "lifecycle_op \<Rightarrow> account \<Rightarrow> account \<times> go_error option" where
  "apply_lifecycle (OpBeginAuthentication t) a = BeginAuthentication t a"
| "apply_lifecycle (OpActivate uid) a = Activate uid a"
| "apply_lifecycle (OpRequireReauthentication c) a = RequireReauthentication c a"
| "apply_lifecycle OpBeginDisconnect a = BeginDisconnect a"
| "apply_lifecycle OpMarkDisconnected a = MarkDisconnected a"

fun run_lifecycle :: "lifecycle_op list \<Rightarrow> account \<Rightarrow> account" where
  "run_lifecycle [] a = a"
| "run_lifecycle (op # ops) a = run_lifecycle ops (fst (apply_lifecycle op a))"

section \<open>The documented transition graph\<close>

text \<open>The only transitions the comment of \<open>status.go\<close> lists.\<close>

inductive lifecycle_edge :: "account_status \<Rightarrow> account_status \<Rightarrow> bool" where
  edge_activate: "lifecycle_edge Authenticating Active"
| edge_abort: "lifecycle_edge Authenticating Disconnecting"
| edge_reauth: "lifecycle_edge Active ReauthRequired"
| edge_disconnect: "lifecycle_edge Active Disconnecting"
| edge_retry: "lifecycle_edge ReauthRequired Authenticating"
| edge_leave: "lifecycle_edge ReauthRequired Disconnecting"
| edge_begin: "lifecycle_edge Disconnected Authenticating"
| edge_done: "lifecycle_edge Disconnecting Disconnected"

code_pred lifecycle_edge .

inductive_cases lifecycle_edgeE: "lifecycle_edge s t"

section \<open>Lemmas\<close>

lemmas lifecycle_op_defs =
  BeginAuthentication_def Activate_def RequireReauthentication_def BeginDisconnect_def
  MarkDisconnected_def advanceVersion_def

lemma move_cases:
  "move nxt allowed a =
    (if acc_status a \<notin> set allowed
     then (a, Some (Wrap ''cannot move'' [Sentinel ErrInvalidTransition]))
     else if acc_version a = NOT 0 then (a, Some (Sentinel ErrVersionExhausted))
     else (a\<lparr>acc_version := acc_version a + 1, acc_status := nxt\<rparr>, None))"
  by (induction nxt allowed a rule: move.induct) (auto simp: advanceVersion_def)

lemma validate_account_None:
  "validate_account a = None \<longleftrightarrow>
     acc_id a \<noteq> nil_uuid \<and> status_valid (acc_status a)
   \<and> (acc_remoteLogoutRequired a \<longrightarrow> acc_status a = Disconnecting)
   \<and> acc_version a \<noteq> 0 \<and> 0 \<le> acc_telegramUserID a
   \<and> (acc_status a = Active \<or> acc_status a = ReauthRequired \<longrightarrow> 0 < acc_telegramUserID a)
   \<and> (acc_status a = Authenticating \<longleftrightarrow> acc_authExpiresAt a \<noteq> zero_time)
   \<and> (acc_status a = ReauthRequired \<longrightarrow> validFailureCode (acc_failureCode a))
   \<and> (acc_status a \<noteq> ReauthRequired \<longrightarrow> acc_failureCode a = NoFailure)"
  by (auto simp: validate_account_def)

lemma word64_inc_nonzero: "v \<noteq> NOT 0 \<Longrightarrow> (v::version) + 1 \<noteq> 0"
  by (auto simp: add_eq_0_iff2)

lemma word64_inc_iff: "(v::version) + 1 = 0 \<longleftrightarrow> v = - 1"
  by (simp add: add_eq_0_iff2)

lemma word64_inc_unat: "v \<noteq> NOT 0 \<Longrightarrow> unat ((v::version) + 1) = Suc (unat v)"
  using unatSuc [of v] word64_inc_nonzero [of v] by (simp add: add.commute)

text \<open>Every operation: what it does to the version and the identity, and its edge.\<close>

lemma lifecycle_failure_unchanged:
  "apply_lifecycle op a = (a', Some e) \<Longrightarrow> a' = a"
  by (cases op) (auto simp: lifecycle_op_defs move_cases Let_def split: if_splits)

lemma lifecycle_success_edge:
  "apply_lifecycle op a = (a', None) \<Longrightarrow> lifecycle_edge (acc_status a) (acc_status a')"
  by (cases op)
     (auto simp: lifecycle_op_defs move_cases Let_def intro: lifecycle_edge.intros
       split: if_splits)

lemma lifecycle_success_version:
  "apply_lifecycle op a = (a', None) \<Longrightarrow>
     acc_id a' = acc_id a \<and> acc_version a \<noteq> NOT 0 \<and> acc_version a' = acc_version a + 1"
  by (cases op) (auto simp: lifecycle_op_defs move_cases Let_def split: if_splits)

lemma lifecycle_preserves_valid:
  assumes "validate_account a = None"
  shows "validate_account (fst (apply_lifecycle op a)) = None"
proof (cases op)
  case (OpBeginAuthentication t)
  with assms show ?thesis
    by (auto simp: lifecycle_op_defs move_cases validate_account_None
        word64_inc_iff)
next
  case (OpActivate uid)
  with assms show ?thesis
    by (auto simp: lifecycle_op_defs move_cases validate_account_None
        word64_inc_iff)
next
  case (OpRequireReauthentication c)
  with assms show ?thesis
    by (auto simp: lifecycle_op_defs move_cases validate_account_None
        word64_inc_iff)
next
  case OpBeginDisconnect
  with assms show ?thesis
    by (auto simp: lifecycle_op_defs move_cases validate_account_None Let_def
        word64_inc_iff)
next
  case OpMarkDisconnected
  with assms show ?thesis
    by (auto simp: lifecycle_op_defs move_cases validate_account_None
        word64_inc_iff)
qed

lemma new_account_valid: "new_account i = Some a \<Longrightarrow> validate_account a = None"
  by (auto simp: new_account_def zero_account_def validate_account_None InitialVersion_def
      split: if_splits)

lemma run_lifecycle_valid:
  "validate_account a = None \<Longrightarrow> validate_account (run_lifecycle ops a) = None"
  by (induction ops arbitrary: a) (simp_all add: lifecycle_preserves_valid)

text \<open>An operation that takes a given edge, for a valid account whose version can advance.\<close>

lemma lifecycle_edge_taken:
  assumes valid: "validate_account a = None" and room: "acc_version a \<noteq> NOT 0"
    and edge: "lifecycle_edge (acc_status a) t"
  shows "\<exists>op a'. apply_lifecycle op a = (a', None) \<and> acc_status a' = t"
proof -
  have room: "acc_version a \<noteq> - 1" using room by simp
  have uid: "acc_status a = Active \<Longrightarrow> 0 < acc_telegramUserID a"
    using valid by (simp add: validate_account_None)
  show ?thesis
    using edge
  proof (cases rule: lifecycle_edge.cases)
    case edge_activate
    then show ?thesis
      by (intro exI [of _ "OpActivate 1"]) (simp add: lifecycle_op_defs move_cases room)
  next
    case edge_abort
    then show ?thesis
      by (intro exI [of _ OpBeginDisconnect]) (simp add: lifecycle_op_defs move_cases room)
  next
    case edge_reauth
    with uid have "\<not> acc_telegramUserID a \<le> 0" by simp
    with edge_reauth show ?thesis
      by (intro exI [of _ "OpRequireReauthentication SessionInvalid"])
         (simp add: lifecycle_op_defs move_cases room)
  next
    case edge_disconnect
    then show ?thesis
      by (intro exI [of _ OpBeginDisconnect]) (simp add: lifecycle_op_defs move_cases room)
  next
    case edge_retry
    then show ?thesis
      by (intro exI [of _ "OpBeginAuthentication 1"]) (simp add: lifecycle_op_defs move_cases room)
  next
    case edge_leave
    then show ?thesis
      by (intro exI [of _ OpBeginDisconnect]) (simp add: lifecycle_op_defs move_cases room)
  next
    case edge_begin
    then show ?thesis
      by (intro exI [of _ "OpBeginAuthentication 1"]) (simp add: lifecycle_op_defs move_cases room)
  next
    case edge_done
    then show ?thesis
      by (intro exI [of _ OpMarkDisconnected]) (simp add: lifecycle_op_defs move_cases room)
  qed
qed

definition sample_account :: account where
  "sample_account = zero_account\<lparr>acc_id := 7, acc_status := Disconnected, acc_version := 1\<rparr>"

section \<open>Properties\<close>

text \<open>C15: whatever lifecycle calls follow \<open>New\<close>, successful or rejected, the account always
  satisfies the persisted-state invariant \<open>validate\<close>: identity and version set, Telegram identity
  present while active or reauthentication-required, expiry exactly while authenticating, failure
  code exactly while reauthentication-required, logout requirement only while disconnecting.\<close>
theorem account_invariant:
  assumes "new_account i = Some a"
  shows "validate_account (run_lifecycle ops a) = None"
  using assms by (intro run_lifecycle_valid new_account_valid)

theorem account_invariant_witness:
  "validate_account (run_lifecycle
     [OpBeginAuthentication 5, OpActivate 42, OpBeginDisconnect] sample_account) = None"
proof -
  have "new_account 7 = Some sample_account"
    by (simp add: new_account_def sample_account_def InitialVersion_def)
  then show ?thesis by (rule account_invariant)
qed

text \<open>C16: the five operations implement exactly the documented transition graph. From a valid
  account whose version can still advance, a status is reached by a successful call if and only if
  it is an edge of the graph; a successful call advances the version by exactly one without
  wrapping and keeps the identity; a failed call changes nothing at all.\<close>
theorem lifecycle_refines_graph:
  assumes "validate_account a = None" and "acc_version a \<noteq> NOT 0"
  shows "((\<exists>op a'. apply_lifecycle op a = (a', None) \<and> acc_status a' = t)
            \<longleftrightarrow> lifecycle_edge (acc_status a) t)
       \<and> (case apply_lifecycle op a of
            (a', None) \<Rightarrow> unat (acc_version a') = Suc (unat (acc_version a)) \<and> acc_id a' = acc_id a
          | (a', Some e) \<Rightarrow> a' = a)"
proof (rule conjI)
  show "(\<exists>op a'. apply_lifecycle op a = (a', None) \<and> acc_status a' = t)
          \<longleftrightarrow> lifecycle_edge (acc_status a) t"
    using lifecycle_edge_taken [OF assms] by (auto dest: lifecycle_success_edge)
  show "case apply_lifecycle op a of
      (a', None) \<Rightarrow> unat (acc_version a') = Suc (unat (acc_version a)) \<and> acc_id a' = acc_id a
    | (a', Some e) \<Rightarrow> a' = a"
    using word64_inc_unat
    by (auto split: prod.splits option.splits
        dest: lifecycle_success_version lifecycle_failure_unchanged)
qed

theorem lifecycle_refines_graph_witness:
  "(\<exists>op a'. apply_lifecycle op sample_account = (a', None) \<and> acc_status a' = Authenticating)
     \<longleftrightarrow> lifecycle_edge (acc_status sample_account) Authenticating"
  by (rule conjunct1, rule lifecycle_refines_graph [where op = OpMarkDisconnected])
     (simp_all add: sample_account_def zero_account_def validate_account_None)

end
