(* ===== verification/Schema.thy ===== *)
theory Schema
  imports Delivery_Failures Operator_Account "HOL-Library.Product_Lexorder"
begin

text \<open>
  The PostgreSQL tables the stores work on, one record per row, and the table constraints of
  \<open>migrations/\<close> the stores rely on. A nullable column is an option. The database is a record of
  tables; \<open>find_*\<close> are lookups by primary key. \<open>coordinates\<close> is the composite delivery key of
  \<open>pg/coordinates\<close>, ordered lexicographically as in the \<open>ORDER BY\<close> clauses.
\<close>

section \<open>Delivery coordinates\<close>

datatype coordinates = Coordinates (mailing_of: uuid) (run_of: uuid) (recipient_of: uuid)

instantiation coordinates :: linorder
begin

definition less_eq_coordinates :: "coordinates \<Rightarrow> coordinates \<Rightarrow> bool" where
  "less_eq_coordinates a b \<longleftrightarrow>
     (mailing_of a, run_of a, recipient_of a) \<le> (mailing_of b, run_of b, recipient_of b)"

definition less_coordinates :: "coordinates \<Rightarrow> coordinates \<Rightarrow> bool" where
  "less_coordinates a b \<longleftrightarrow>
     (mailing_of a, run_of a, recipient_of a) < (mailing_of b, run_of b, recipient_of b)"

instance
proof
  fix x y z :: coordinates
  show "(x < y) = (x \<le> y \<and> \<not> y \<le> x)"
    unfolding less_coordinates_def less_eq_coordinates_def by (rule less_le_not_le)
  show "x \<le> x" unfolding less_eq_coordinates_def by (rule order_refl)
  show "x \<le> y \<Longrightarrow> y \<le> z \<Longrightarrow> x \<le> z"
    unfolding less_eq_coordinates_def by (rule order_trans)
  show "x \<le> y \<Longrightarrow> y \<le> x \<Longrightarrow> x = y"
    unfolding less_eq_coordinates_def by (metis Pair_inject coordinates.expand order_antisym)
  show "x \<le> y \<or> y \<le> x" unfolding less_eq_coordinates_def by (rule linear)
qed

end

section \<open>Rows\<close>

datatype mailing_status =
    MDraft | MQueued | MRunning | MPaused | MStopped | MCompleted | MFailed

datatype run_status = RQueued | RRunning | RCompleted | RCancelled | RFailed

datatype repeat_mode = Once | Rounds

record mailing_row =
  mailing_id :: uuid
  mailing_operator :: uuid
  mailing_message :: "rune list"
  mailing_status :: mailing_status
  mailing_repeat :: repeat_mode
  mailing_updated :: time

record run_row =
  run_mailing :: uuid
  run_id :: uuid
  run_number :: nat
  run_status :: run_status
  run_generation :: int
  run_queued_at :: time
  run_started_at :: "time option"
  run_finished_at :: "time option"

record delivery_row =
  d_key :: coordinates
  d_status :: DeliveryState
  d_attempts :: nat
  d_max :: nat
  d_ready :: time
  d_started :: "time option"
  d_sent :: "time option"
  d_skip :: "rune list option"
  d_error :: "rune list option"
  d_token :: "uuid option"
  d_until :: "time option"
  d_gen :: "int option"
  d_updated :: time

record telegram_row =
  t_key :: coordinates
  t_random :: int

record account_row =
  oa_id :: uuid
  oa_operator :: uuid
  oa_phone :: "rune list option"
  oa_username :: "rune list option"
  oa_first_name :: "rune list option"
  oa_last_name :: "rune list option"
  oa_telegram_user_id :: "int option"
  oa_status :: account_status
  oa_version :: int
  oa_auth_expires :: "time option"
  oa_failure :: "failure_code option"
  oa_remote_logout :: bool
  oa_created :: time
  oa_updated :: time

datatype dialog_sync_status = SyncPending | SyncRunning | SyncDone | SyncFailed

record dialog_sync_row =
  ds_account :: uuid
  ds_status :: dialog_sync_status
  ds_needs_sync :: time
  ds_next_retry :: "time option"
  ds_attempts :: nat
  ds_max :: nat
  ds_last_error :: "rune list option"
  ds_token :: "uuid option"
  ds_until :: "time option"
  ds_generation :: "int option"
  ds_finished :: "time option"
  ds_updated :: time

record db =
  operator_accounts :: "account_row list"
  sessions :: "uuid list" \<comment> \<open>account ids with a stored session\<close>
  dialog_syncs :: "dialog_sync_row list"
  mailings :: "mailing_row list"
  routes :: "(uuid \<times> uuid) list" \<comment> \<open>mailing, account\<close>
  recipients :: "(uuid \<times> uuid) list" \<comment> \<open>mailing, recipient\<close>
  runs :: "run_row list"
  deliveries :: "delivery_row list"
  telegram_deliveries :: "telegram_row list"
  random_seq :: int \<comment> \<open>next value of mailing_delivery_random_id_seq\<close>

section \<open>Lookups\<close>

definition find_mailing :: "db \<Rightarrow> uuid \<Rightarrow> mailing_row option" where
  "find_mailing s m = find (\<lambda>r. mailing_id r = m) (mailings s)"

definition find_run :: "db \<Rightarrow> uuid \<Rightarrow> uuid \<Rightarrow> run_row option" where
  "find_run s m r = find (\<lambda>x. (run_mailing x, run_id x) = (m, r)) (runs s)"

definition find_delivery :: "db \<Rightarrow> coordinates \<Rightarrow> delivery_row option" where
  "find_delivery s k = find (\<lambda>x. d_key x = k) (deliveries s)"

definition find_telegram :: "db \<Rightarrow> coordinates \<Rightarrow> telegram_row option" where
  "find_telegram s k = find (\<lambda>x. t_key x = k) (telegram_deliveries s)"

definition find_route :: "db \<Rightarrow> uuid \<Rightarrow> uuid option" where
  "find_route s m = map_option snd (find (\<lambda>x. fst x = m) (routes s))"

text \<open>The status pair every delivery operation requires of the parents.\<close>

definition activePair :: "mailing_status \<Rightarrow> run_status \<Rightarrow> bool" where
  "activePair m r \<longleftrightarrow> (m = MQueued \<and> r = RQueued) \<or> (m = MRunning \<and> r = RRunning)"

section \<open>Constraints\<close>

definition no_lease :: "delivery_row \<Rightarrow> bool" where
  "no_lease d \<longleftrightarrow> d_token d = None \<and> d_until d = None \<and> d_gen d = None"

definition full_lease :: "delivery_row \<Rightarrow> bool" where
  "full_lease d \<longleftrightarrow> d_token d \<noteq> None \<and> d_until d \<noteq> None
     \<and> (case d_gen d of None \<Rightarrow> False | Some g \<Rightarrow> 1 \<le> g)"

text \<open>The CHECK constraints of \<open>mailing_deliveries\<close>.\<close>

definition delivery_checks :: "delivery_row \<Rightarrow> bool" where
  "delivery_checks d \<longleftrightarrow>
     (d_status d = DSent \<longrightarrow> d_sent d \<noteq> None)
   \<and> (d_status d = DSkipped \<longrightarrow> d_skip d \<noteq> None)
   \<and> 1 \<le> d_max d
   \<and> (no_lease d \<or> full_lease d)
   \<and> (d_status d = DSending \<longrightarrow> full_lease d)
   \<and> (d_status d \<in> {DSent, DSkipped, DFailed, DUnknown} \<longrightarrow> no_lease d)
   \<and> (d_status d = DUnknown \<longrightarrow> 1 \<le> d_attempts d \<and> d_started d \<noteq> None
        \<and> (case d_error d of None \<Rightarrow> False | Some m \<Rightarrow> btrim_nonempty m))
   \<and> (d_status d = DSending \<longrightarrow> 1 \<le> d_attempts d \<and> d_started d \<noteq> None)"

text \<open>The CHECK constraints of \<open>mailing_runs\<close>.\<close>

definition run_checks :: "run_row \<Rightarrow> bool" where
  "run_checks r \<longleftrightarrow> 1 \<le> run_number r \<and> 1 \<le> run_generation r
   \<and> (case run_started_at r of None \<Rightarrow> True | Some t \<Rightarrow> run_queued_at r \<le> t)
   \<and> (case run_finished_at r of None \<Rightarrow> True | Some f \<Rightarrow>
        (case run_started_at r of
           None \<Rightarrow> run_status r = RCancelled \<and> run_queued_at r \<le> f
         | Some t \<Rightarrow> t \<le> f))
   \<and> (run_status r = RCancelled \<longrightarrow> run_started_at r \<noteq> None \<or> run_finished_at r \<noteq> None)"

text \<open>The \<open>ck_operator_accounts_phone\<close> pattern: a plus, a digit 1 to 9, and 1 to 14 more digits.\<close>

definition ascii_digit :: "rune \<Rightarrow> bool" where
  "ascii_digit r \<longleftrightarrow> 48 \<le> r \<and> r \<le> 57"

definition phone_check :: "rune list \<Rightarrow> bool" where
  "phone_check p \<longleftrightarrow> (case p of
     c # d # rest \<Rightarrow> c = 43 \<and> 49 \<le> d \<and> d \<le> 57 \<and> 1 \<le> length rest \<and> length rest \<le> 14
        \<and> list_all ascii_digit rest
   | _ \<Rightarrow> False)"

text \<open>The CHECK constraints of \<open>operator_accounts\<close>.\<close>

definition account_checks :: "account_row \<Rightarrow> bool" where
  "account_checks a \<longleftrightarrow>
     (case oa_phone a of None \<Rightarrow> True | Some p \<Rightarrow> phone_check p)
   \<and> oa_first_name a \<noteq> Some []
   \<and> 0 < oa_version a
   \<and> (case oa_telegram_user_id a of None \<Rightarrow> True | Some u \<Rightarrow> 0 < u)
   \<and> (oa_status a \<in> {Active, ReauthRequired} \<longrightarrow> oa_telegram_user_id a \<noteq> None)
   \<and> (oa_status a = Authenticating \<longleftrightarrow> oa_auth_expires a \<noteq> None)
   \<and> ((oa_status a = ReauthRequired \<and> (case oa_failure a of None \<Rightarrow> False | Some c \<Rightarrow> validFailureCode c))
      \<or> (oa_status a \<noteq> ReauthRequired \<and> oa_failure a = None))
   \<and> (oa_remote_logout a \<longrightarrow> oa_status a = Disconnecting)
   \<and> oa_created a \<le> oa_updated a"

section \<open>The constraints as facts about the columns\<close>

lemma full_lease_iff:
  "full_lease d \<longleftrightarrow> d_token d \<noteq> None \<and> d_until d \<noteq> None \<and> (\<exists>g. d_gen d = Some g \<and> 1 \<le> g)"
  by (auto simp: full_lease_def split: option.splits)

lemma delivery_checks_iff:
  "delivery_checks d \<longleftrightarrow>
     (d_status d = DSent \<longrightarrow> d_sent d \<noteq> None)
   \<and> (d_status d = DSkipped \<longrightarrow> d_skip d \<noteq> None)
   \<and> 1 \<le> d_max d
   \<and> (no_lease d \<or> full_lease d)
   \<and> (d_status d = DSending \<longrightarrow> full_lease d)
   \<and> (d_status d \<in> {DSent, DSkipped, DFailed, DUnknown} \<longrightarrow> no_lease d)
   \<and> (d_status d = DUnknown \<longrightarrow> 1 \<le> d_attempts d \<and> d_started d \<noteq> None
        \<and> (\<exists>m. d_error d = Some m \<and> btrim_nonempty m))
   \<and> (d_status d = DSending \<longrightarrow> 1 \<le> d_attempts d \<and> d_started d \<noteq> None)"
  unfolding delivery_checks_def by (cases "d_error d") simp_all

lemma run_checks_iff:
  "run_checks r \<longleftrightarrow> 1 \<le> run_number r \<and> 1 \<le> run_generation r
   \<and> (\<forall>t. run_started_at r = Some t \<longrightarrow> run_queued_at r \<le> t)
   \<and> (\<forall>f. run_finished_at r = Some f \<longrightarrow>
        (run_status r = RCancelled \<and> run_started_at r = None \<and> run_queued_at r \<le> f)
      \<or> (\<exists>t. run_started_at r = Some t \<and> t \<le> f))
   \<and> (run_status r = RCancelled \<longrightarrow> run_started_at r \<noteq> None \<or> run_finished_at r \<noteq> None)"
  unfolding run_checks_def by (cases "run_started_at r"; cases "run_finished_at r") simp_all

lemma account_checks_iff:
  "account_checks a \<longleftrightarrow>
     (case oa_phone a of None \<Rightarrow> True | Some p \<Rightarrow> phone_check p)
   \<and> oa_first_name a \<noteq> Some []
   \<and> 0 < oa_version a
   \<and> (\<forall>u. oa_telegram_user_id a = Some u \<longrightarrow> 0 < u)
   \<and> (oa_status a \<in> {Active, ReauthRequired} \<longrightarrow> oa_telegram_user_id a \<noteq> None)
   \<and> (oa_status a = Authenticating \<longleftrightarrow> oa_auth_expires a \<noteq> None)
   \<and> ((oa_status a = ReauthRequired \<and> (\<exists>c. oa_failure a = Some c \<and> validFailureCode c))
      \<or> (oa_status a \<noteq> ReauthRequired \<and> oa_failure a = None))
   \<and> (oa_remote_logout a \<longrightarrow> oa_status a = Disconnecting)
   \<and> oa_created a \<le> oa_updated a"
  unfolding account_checks_def by (cases "oa_telegram_user_id a"; cases "oa_failure a") simp_all

end
