(* ===== verification/Mailing_Store.thy ===== *)
theory Mailing_Store
  imports Schema
begin

text \<open>
  The mailing lifecycle of \<open>pg/mailings/mailing.go\<close>: \<open>Queue\<close> and \<open>Stop\<close>, each one transaction.
  A transaction takes the database and the transaction timestamp and returns the database after it
  (unchanged when it rolls back) with its outcome. \<open>Queue\<close> takes the identifier PostgreSQL
  generates for the run.
\<close>

datatype scope = SystemScope | OperatorScope uuid

definition valid_scope :: "uuid \<Rightarrow> scope \<Rightarrow> bool" where
  "valid_scope m sc \<longleftrightarrow> m \<noteq> nil_uuid \<and> sc \<noteq> OperatorScope nil_uuid"

definition scoped_mailing :: "db \<Rightarrow> scope \<Rightarrow> uuid \<Rightarrow> mailing_row option" where
  "scoped_mailing s sc m = (case find_mailing s m of
     None \<Rightarrow> None
   | Some row \<Rightarrow> (case sc of
       SystemScope \<Rightarrow> Some row
     | OperatorScope operator \<Rightarrow> if mailing_operator row = operator then Some row else None))"

section \<open>Queue\<close>

definition lifecycleFailure :: "string \<Rightarrow> sentinel \<Rightarrow> go_error" where
  "lifecycleFailure m cause = Wrap m [Sentinel cause]"

definition active_run :: "run_row \<Rightarrow> bool" where
  "active_run r \<longleftrightarrow> run_status r = RQueued \<or> run_status r = RRunning"

definition unresolved_delivery :: "delivery_row \<Rightarrow> bool" where
  "unresolved_delivery d \<longleftrightarrow>
     d_status d = DSending \<or> d_status d = DUnknown \<or> (d_status d = DPending \<and> 0 < d_attempts d)"

definition has_unresolved :: "db \<Rightarrow> uuid \<Rightarrow> bool" where
  "has_unresolved s m \<longleftrightarrow>
     list_ex (\<lambda>d. mailing_of (d_key d) = m \<and> unresolved_delivery d) (deliveries s)"

definition next_number :: "db \<Rightarrow> uuid \<Rightarrow> nat" where
  "next_number s m = Suc (foldr max (map run_number (filter (\<lambda>r. run_mailing r = m) (runs s))) 0)"

definition new_run :: "time \<Rightarrow> uuid \<Rightarrow> uuid \<Rightarrow> nat \<Rightarrow> run_row" where
  "new_run now m rid number = \<lparr>run_mailing = m, run_id = rid, run_number = number,
     run_status = RQueued, run_generation = 1, run_queued_at = now,
     run_started_at = None, run_finished_at = None\<rparr>"

definition already_sent :: "db \<Rightarrow> uuid \<Rightarrow> uuid \<Rightarrow> bool" where
  "already_sent s m recipient \<longleftrightarrow> list_ex (\<lambda>d. mailing_of (d_key d) = m
     \<and> recipient_of (d_key d) = recipient \<and> d_status d = DSent) (deliveries s)"

definition eligible_recipients :: "db \<Rightarrow> mailing_row \<Rightarrow> uuid list" where
  "eligible_recipients s row =
     filter (\<lambda>r. \<not> (mailing_repeat row = Once \<and> already_sent s (mailing_id row) r))
       (map snd (filter (\<lambda>(m, _). m = mailing_id row) (recipients s)))"

definition new_delivery :: "time \<Rightarrow> uuid \<Rightarrow> uuid \<Rightarrow> uuid \<Rightarrow> delivery_row" where
  "new_delivery now m rid recipient = \<lparr>d_key = Coordinates m rid recipient, d_status = DPending,
     d_attempts = 0, d_max = 5, d_ready = now, d_started = None, d_sent = None, d_skip = None,
     d_error = None, d_token = None, d_until = None, d_gen = None, d_updated = now\<rparr>"

definition new_telegram :: "uuid \<Rightarrow> uuid \<Rightarrow> uuid \<Rightarrow> int \<Rightarrow> telegram_row" where
  "new_telegram m rid recipient random = \<lparr>t_key = Coordinates m rid recipient, t_random = random\<rparr>"

definition max_sequence :: int where
  "max_sequence = 2 ^ 63 - 1"

text \<open>The primary key of \<open>mailing_runs\<close> and its partial unique index on active runs.\<close>

definition run_insert_violation :: "db \<Rightarrow> uuid \<Rightarrow> uuid \<Rightarrow> bool" where
  "run_insert_violation s m rid \<longleftrightarrow>
     list_ex (\<lambda>r. run_id r = rid \<or> (run_mailing r = m \<and> active_run r)) (runs s)"

definition set_mailing_status :: "time \<Rightarrow> uuid \<Rightarrow> mailing_status \<Rightarrow> db \<Rightarrow> db" where
  "set_mailing_status now m st s = s\<lparr>mailings :=
     update_where (\<lambda>r. mailing_id r = m)
       (\<lambda>r. r\<lparr>mailing_status := st, mailing_updated := now\<rparr>) (mailings s)\<rparr>"

definition Queue :: "time \<Rightarrow> uuid \<Rightarrow> scope \<Rightarrow> uuid \<Rightarrow> db \<Rightarrow> db \<times> unit outcome" where
  "Queue now rid sc m s =
    (if \<not> valid_scope m sc then (s, Panics)
     else case scoped_mailing s sc m of
       None \<Rightarrow> (s, Fails (lifecycleFailure ''mailing does not exist'' MailingErrNotFound))
     | Some row \<Rightarrow>
         if mailing_status row \<noteq> MDraft \<and> mailing_status row \<noteq> MStopped
         then (s, Fails (lifecycleFailure ''queue mailing from invalid status'' MailingErrInvalidState))
         else if has_unresolved s m
         then (s, Fails (lifecycleFailure ''queue mailing with unresolved delivery outcomes''
                           ErrUnresolvedDeliveryOutcomes))
         else if run_insert_violation s m rid
         then (s, Fails (Wrap ''create run for mailing'' [PgConstraint ''mailing_runs'']))
         else
           let eligible = eligible_recipients s row;
               n = int (length eligible)
           in if eligible = []
              then (s, Fails (lifecycleFailure ''queue mailing without eligible recipients''
                                ErrNoEligibleRecipients))
              else if max_sequence < random_seq s + n - 1
              then (s, Fails (Wrap ''create deliveries for mailing'' [Foreign ''nextval'']))
              else (set_mailing_status now m MQueued
                      (s\<lparr>runs := runs s @ [new_run now m rid (next_number s m)],
                        deliveries := deliveries s @ map (new_delivery now m rid) eligible,
                        telegram_deliveries := telegram_deliveries s
                          @ map2 (new_telegram m rid) eligible
                              (map (\<lambda>i. random_seq s + int i) [0..<length eligible]),
                        random_seq := random_seq s + n\<rparr>), Returns ()))"

section \<open>Stop\<close>

definition btrim :: "rune list \<Rightarrow> rune list" where
  "btrim m = rev (dropWhile (\<lambda>r. r = 32) (rev (dropWhile (\<lambda>r. r = 32) m)))"

text \<open>\<open>COALESCE(NULLIF(btrim(error_message), ''), fallback)\<close>.\<close>

definition coalesce_message :: "rune list option \<Rightarrow> rune list \<Rightarrow> rune list" where
  "coalesce_message e fallback = (case e of
     None \<Rightarrow> fallback
   | Some m \<Rightarrow> if btrim m = [] then fallback else btrim m)"

definition active_run_of :: "db \<Rightarrow> uuid \<Rightarrow> run_row option" where
  "active_run_of s m = first_row (rev (sort_key (\<lambda>r. (run_number r, run_id r))
     (filter (\<lambda>r. run_mailing r = m \<and> active_run r) (runs s))))"

definition clear_lease :: "delivery_row \<Rightarrow> delivery_row" where
  "clear_lease d = d\<lparr>d_token := None, d_until := None, d_gen := None\<rparr>"

definition stop_delivery :: "time \<Rightarrow> delivery_row \<Rightarrow> delivery_row" where
  "stop_delivery now d = clear_lease
    (d\<lparr>d_status := (if d_attempts d = 0 then DSkipped else DUnknown),
      d_skip := (if d_attempts d = 0 then Some (runes_of ''mailing stopped'') else None),
      d_error := (if d_attempts d = 0 then d_error d
                  else Some (coalesce_message (d_error d)
                         (runes_of ''mailing stopped with retry-pending delivery''))),
      d_updated := now\<rparr>)"

definition cancel_run :: "time \<Rightarrow> run_row \<Rightarrow> run_row" where
  "cancel_run now r = r\<lparr>run_status := RCancelled, run_generation := run_generation r + 1,
     run_finished_at := Some now\<rparr>"

definition Stop :: "time \<Rightarrow> scope \<Rightarrow> uuid \<Rightarrow> db \<Rightarrow> db \<times> unit outcome" where
  "Stop now sc m s =
    (if \<not> valid_scope m sc then (s, Panics)
     else case scoped_mailing s sc m of
       None \<Rightarrow> (s, Fails (lifecycleFailure ''stop mailing''
                   (if sc = SystemScope then MailingErrInvalidState else MailingErrNotFound)))
     | Some row \<Rightarrow>
         if mailing_status row = MStopped then (s, Returns ())
         else if mailing_status row \<notin> {MQueued, MRunning, MPaused}
         then (s, Fails (lifecycleFailure ''stop mailing from invalid status'' MailingErrInvalidState))
         else case active_run_of s m of
           None \<Rightarrow> (s, Fails (lifecycleFailure ''stop mailing without an active run''
                                MailingErrInvalidState))
         | Some run \<Rightarrow>
             (set_mailing_status now m MStopped
               (s\<lparr>runs := update_where
                   (\<lambda>r. run_mailing r = m \<and> run_id r = run_id run \<and> active_run r)
                   (cancel_run now) (runs s),
                 deliveries := update_where
                   (\<lambda>d. mailing_of (d_key d) = m \<and> run_of (d_key d) = run_id run \<and> d_status d = DPending)
                   (stop_delivery now) (deliveries s)\<rparr>), Returns ()))"

section \<open>Lemmas\<close>

lemma btrim_nonempty_btrim: "btrim m \<noteq> [] \<Longrightarrow> btrim_nonempty (btrim m)"
proof -
  assume "btrim m \<noteq> []"
  then have "last (btrim m) \<noteq> 32"
    unfolding btrim_def by (metis (mono_tags, lifting) hd_dropWhile last_rev rev_is_Nil_conv)
  then show ?thesis
    using \<open>btrim m \<noteq> []\<close> unfolding btrim_nonempty_def by (meson last_in_set)
qed

lemma coalesce_message_nonempty:
  "btrim_nonempty fallback \<Longrightarrow> btrim_nonempty (coalesce_message e fallback)"
  unfolding coalesce_message_def by (auto simp: btrim_nonempty_btrim split: option.splits)

lemma stop_reason_nonempty:
  "btrim_nonempty (runes_of ''mailing stopped with retry-pending delivery'')"
  by (auto simp: btrim_nonempty_def runes_of_def)

lemma le_foldr_max: "(x::nat) \<in> set xs \<Longrightarrow> x \<le> foldr max xs 0"
  by (induction xs) auto

lemma next_number_greater:
  "r \<in> set (runs s) \<Longrightarrow> run_mailing r = m \<Longrightarrow> run_number r < next_number s m"
  unfolding next_number_def by (auto intro!: le_imp_less_Suc le_foldr_max)

lemma active_run_of_Some:
  "active_run_of s m = Some r \<Longrightarrow> r \<in> set (runs s) \<and> run_mailing r = m \<and> active_run r"
  unfolding active_run_of_def by (drule first_row_Some) simp

lemma active_run_of_None:
  "active_run_of s m = None \<longleftrightarrow> (\<forall>r \<in> set (runs s). \<not> (run_mailing r = m \<and> active_run r))"
  unfolding active_run_of_def first_row_None by (simp add: sort_filter_Nil)

lemma scoped_mailing_Some:
  "scoped_mailing s sc m = Some row \<Longrightarrow> row \<in> set (mailings s) \<and> mailing_id row = m"
  by (auto simp: scoped_mailing_def find_mailing_def split: option.splits scope.splits if_splits
      dest: find_Some_set)

end
