(* ===== verification/Delivery_Store.thy ===== *)
theory Delivery_Store
  imports Mailing_Store
begin

text \<open>
  The leased delivery queue: \<open>Claim\<close> (pg/claims/claims.go), \<open>Renew\<close> and \<open>Release\<close> of a claimed task
  (pg/claims/claim.go), and \<open>Dispatch\<close> with its three finalisations (pg/deliveries/delivery.go).
  Every SQL statement or transaction is one function from the database to the database.
  \<open>locked\<close> is the set of deliveries whose rows other transactions hold, which \<open>SKIP LOCKED\<close>
  passes over. \<open>Dispatch\<close> is the admission, the call of the transport port, during which the
  database may change arbitrarily, and the finalisation.
\<close>

section \<open>Claim\<close>

record task =
  task_route :: uuid
  task_version :: version
  task_key :: coordinates
  task_token :: uuid

definition find_active_account :: "db \<Rightarrow> uuid \<Rightarrow> uuid \<Rightarrow> account_row option" where
  "find_active_account s account operator =
     find (\<lambda>a. oa_id a = account \<and> oa_operator a = operator \<and> oa_status a = Active)
       (operator_accounts s)"

text \<open>The joins of the candidate query: the run and the account of a delivery.\<close>

definition claim_join :: "db \<Rightarrow> delivery_row \<Rightarrow> (run_row \<times> account_row) option" where
  "claim_join s d =
    (case find_mailing s (mailing_of (d_key d)) of None \<Rightarrow> None | Some mailing \<Rightarrow>
     (case find_run s (mailing_of (d_key d)) (run_of (d_key d)) of None \<Rightarrow> None | Some run \<Rightarrow>
     (case find_route s (mailing_of (d_key d)) of None \<Rightarrow> None | Some account_id \<Rightarrow>
     (case find_active_account s account_id (mailing_operator mailing) of None \<Rightarrow> None
      | Some account \<Rightarrow>
          if activePair (mailing_status mailing) (run_status run) then Some (run, account) else None))))"

definition claimable :: "time \<Rightarrow> delivery_row \<Rightarrow> bool" where
  "claimable now d \<longleftrightarrow> d_status d = DPending \<and> d_ready d \<le> now \<and> d_attempts d < d_max d
     \<and> (case d_until d of None \<Rightarrow> True | Some u \<Rightarrow> u < now)"

definition claim_candidate :: "time \<Rightarrow> coordinates set \<Rightarrow> db \<Rightarrow> delivery_row option" where
  "claim_candidate now locked s = first_row (sort_key (\<lambda>d. (d_ready d, d_key d))
     (filter (\<lambda>d. claimable now d \<and> claim_join s d \<noteq> None \<and> d_key d \<notin> locked) (deliveries s)))"

definition lease_delivery ::
  "time \<Rightarrow> duration \<Rightarrow> uuid \<Rightarrow> int \<Rightarrow> delivery_row \<Rightarrow> delivery_row" where
  "lease_delivery now lease token gen d =
     d\<lparr>d_until := Some (now + lease), d_token := Some token, d_gen := Some gen, d_updated := now\<rparr>"

definition Claim ::
  "duration \<Rightarrow> time \<Rightarrow> uuid \<Rightarrow> coordinates set \<Rightarrow> db \<Rightarrow> db \<times> task outcome" where
  "Claim lease now token locked s =
    (if lease \<le> 0 then (s, Panics)
     else case claim_candidate now locked s of
       None \<Rightarrow> (s, Fails (Sentinel ErrEmpty))
     | Some d \<Rightarrow>
         (case claim_join s d of
            None \<Rightarrow> (s, Fails (Sentinel ErrEmpty))
          | Some (run, account) \<Rightarrow>
              (s\<lparr>deliveries := update_where (\<lambda>x. d_key x = d_key d)
                   (lease_delivery now lease token (run_generation run)) (deliveries s)\<rparr>,
               if oa_version account \<le> 0 then Fails (Wrap ''invalid account status version'' [])
               else Returns \<lparr>task_route = oa_id account, task_version = of_int (oa_version account),
                      task_key = d_key d, task_token = token\<rparr>)))"

section \<open>Renew and release\<close>

definition holds_lease :: "uuid \<Rightarrow> delivery_row \<Rightarrow> bool" where
  "holds_lease token d \<longleftrightarrow> d_status d = DPending \<and> d_token d = Some token"

definition renewable :: "time \<Rightarrow> coordinates \<Rightarrow> uuid \<Rightarrow> int \<Rightarrow> delivery_row \<Rightarrow> bool" where
  "renewable clock k token gen d \<longleftrightarrow> d_key d = k \<and> holds_lease token d
     \<and> (case d_until d of None \<Rightarrow> False | Some u \<Rightarrow> clock < u) \<and> d_gen d = Some gen"

definition Renew :: "time \<Rightarrow> duration \<Rightarrow> task \<Rightarrow> db \<Rightarrow> db \<times> unit outcome" where
  "Renew clock lease t s =
    (if lease \<le> 0 then (s, Panics)
     else case find_mailing s (mailing_of (task_key t)) of
       None \<Rightarrow> (s, Fails (Sentinel ErrLeaseLost))
     | Some mailing \<Rightarrow>
         (case find_run s (mailing_of (task_key t)) (run_of (task_key t)) of
            None \<Rightarrow> (s, Fails (Sentinel ErrLeaseLost))
          | Some run \<Rightarrow>
              if \<not> activePair (mailing_status mailing) (run_status run)
              then (s, Fails (Sentinel ErrLeaseLost))
              else let hit = renewable clock (task_key t) (task_token t) (run_generation run)
                   in if count_where hit (deliveries s) = 0 then (s, Fails (Sentinel ErrLeaseLost))
                      else (s\<lparr>deliveries := update_where hit
                              (\<lambda>d. d\<lparr>d_until := Some (clock + lease)\<rparr>) (deliveries s)\<rparr>, Returns ())))"

definition release_delivery :: "time \<Rightarrow> error_text \<Rightarrow> delivery_row \<Rightarrow> delivery_row" where
  "release_delivery now cause d = clear_lease
     (d\<lparr>d_ready := now + 5 * second, d_error := Some (BoundedErrorMessage cause), d_updated := now\<rparr>)"

definition Release :: "time \<Rightarrow> error_text \<Rightarrow> task \<Rightarrow> db \<Rightarrow> db \<times> unit outcome" where
  "Release now cause t s =
    (if cause = NilError then (s, Panics)
     else (s\<lparr>deliveries := update_where (\<lambda>d. d_key d = task_key t \<and> holds_lease (task_token t) d)
             (release_delivery now cause) (deliveries s)\<rparr>, Returns ()))"

section \<open>Dispatch\<close>

text \<open>What the admission statement returns: message, random id, admitted attempt.\<close>

type_synonym admitted = "rune list \<times> int \<times> nat"

definition admit_row :: "time \<Rightarrow> delivery_row \<Rightarrow> delivery_row" where
  "admit_row now d = d\<lparr>d_status := DSending, d_started := Some now,
     d_attempts := Suc (d_attempts d), d_updated := now\<rparr>"

definition admissible :: "time \<Rightarrow> uuid \<Rightarrow> int \<Rightarrow> delivery_row \<Rightarrow> bool" where
  "admissible now token gen d \<longleftrightarrow> holds_lease token d
     \<and> (case d_until d of None \<Rightarrow> False | Some u \<Rightarrow> now < u)
     \<and> d_gen d = Some gen \<and> d_attempts d < d_max d"

definition admit :: "time \<Rightarrow> coordinates \<Rightarrow> uuid \<Rightarrow> db \<Rightarrow> db \<times> admitted option" where
  "admit now k token s =
    (case (find_delivery s k, find_mailing s (mailing_of k), find_run s (mailing_of k) (run_of k),
           find_telegram s k) of
       (Some d, Some mailing, Some run, Some telegram) \<Rightarrow>
         (if admissible now token (run_generation run) d
             \<and> activePair (mailing_status mailing) (run_status run)
          then (s\<lparr>deliveries := update_where (\<lambda>x. d_key x = k) (admit_row now) (deliveries s)\<rparr>,
                Some (mailing_message mailing, t_random telegram, Suc (d_attempts d)))
          else (s, None))
     | _ \<Rightarrow> (s, None))"

definition random_matches :: "db \<Rightarrow> coordinates \<Rightarrow> int \<Rightarrow> bool" where
  "random_matches s k random \<longleftrightarrow>
     (case find_telegram s k of None \<Rightarrow> False | Some t \<Rightarrow> t_random t = random)"

definition sent_row :: "time \<Rightarrow> delivery_row \<Rightarrow> delivery_row" where
  "sent_row now d = clear_lease
     (d\<lparr>d_status := DSent, d_sent := Some now, d_skip := None, d_error := None, d_updated := now\<rparr>)"

definition sendable :: "coordinates \<Rightarrow> nat \<Rightarrow> delivery_row \<Rightarrow> bool" where
  "sendable k attempt d \<longleftrightarrow> d_key d = k \<and> attempt \<le> d_attempts d \<and> d_started d \<noteq> None
     \<and> d_status d \<in> {DPending, DSending, DUnknown, DFailed, DSkipped}"

definition finalize_sent ::
  "time \<Rightarrow> coordinates \<Rightarrow> int \<Rightarrow> nat \<Rightarrow> db \<Rightarrow> db \<times> unit outcome" where
  "finalize_sent now k random attempt s =
    (if random_matches s k random \<and> count_where (sendable k attempt) (deliveries s) \<noteq> 0
     then (s\<lparr>deliveries := update_where (sendable k attempt) (sent_row now) (deliveries s)\<rparr>, Returns ())
     else case (find_delivery s k, find_telegram s k) of
       (Some d, Some t) \<Rightarrow>
         (s, if d_status d \<noteq> DSent \<or> t_random t \<noteq> random \<or> d_attempts d < attempt \<or> d_started d = None
             then Fails (Wrap ''verify already-sent mailing delivery proof'' [Sentinel ErrOutcomeFinalization])
             else Returns ())
     | _ \<Rightarrow> (s, Fails (Wrap ''verify already-sent mailing delivery''
                        [Sentinel ErrOutcomeFinalization, Foreign ''no rows''])))"

definition retry_delay :: "Classification \<Rightarrow> duration" where
  "retry_delay c = (case Kind c of FailureTransient \<Rightarrow> 5 * second
     | FailureFloodWait \<Rightarrow> RetryAfter c | _ \<Rightarrow> 0)"

definition negative_row ::
  "time \<Rightarrow> Classification \<Rightarrow> rune list \<Rightarrow> int \<Rightarrow> bool \<Rightarrow> delivery_row \<Rightarrow> delivery_row" where
  "negative_row now c message generation active d = clear_lease
    (d\<lparr>d_status :=
        (if d_gen d \<noteq> Some generation \<or> \<not> active then DUnknown
         else if Kind c = FailureUnknown then DUnknown
         else if Kind c = FailurePermanent then DFailed
         else if d_max d \<le> d_attempts d then DFailed
         else DPending),
      d_ready :=
        (if Kind c \<in> {FailureTransient, FailureFloodWait} \<and> d_attempts d < d_max d
            \<and> d_gen d = Some generation \<and> active
         then now + retry_delay c else d_ready d),
      d_sent := None, d_skip := None, d_error := Some message, d_updated := now\<rparr>)"

text \<open>The row an outcome may still write: sending, under the same token and attempt.\<close>

definition owns_attempt :: "coordinates \<Rightarrow> uuid \<Rightarrow> nat \<Rightarrow> delivery_row \<Rightarrow> bool" where
  "owns_attempt k token attempt d \<longleftrightarrow> d_key d = k \<and> d_status d = DSending
     \<and> d_token d = Some token \<and> d_attempts d = attempt \<and> d_started d \<noteq> None"

definition finalizeNegative ::
  "time \<Rightarrow> coordinates \<Rightarrow> uuid \<Rightarrow> go_error \<Rightarrow> error_text \<Rightarrow> nat \<Rightarrow> int \<Rightarrow> db \<Rightarrow> db" where
  "finalizeNegative now k token cause text attempt random s =
    (case (find_mailing s (mailing_of k), find_run s (mailing_of k) (run_of k)) of
       (Some mailing, Some run) \<Rightarrow>
         (let active = activePair (mailing_status mailing) (run_status run) in
          if random_matches s k random
          then s\<lparr>deliveries := update_where (owns_attempt k token attempt)
                  (negative_row now (Classify (Some cause)) (BoundedErrorMessage text)
                     (run_generation run) active) (deliveries s)\<rparr>
          else s)
     | _ \<Rightarrow> s)"

definition quarantine ::
  "time \<Rightarrow> coordinates \<Rightarrow> uuid \<Rightarrow> error_text \<Rightarrow> nat \<Rightarrow> int \<Rightarrow> db \<Rightarrow> db" where
  "quarantine now k token text attempt random s =
    (if random_matches s k random
     then s\<lparr>deliveries := update_where (owns_attempt k token attempt)
             (\<lambda>d. d\<lparr>d_error := Some (BoundedErrorMessage text), d_updated := now\<rparr>) (deliveries s)\<rparr>
     else s)"

text \<open>
  The port sends one message to one recipient under the random id. It returns the database at
  the time it answers, since other transactions run meanwhile, and the send error. \<open>error_of\<close>
  is what \<open>Error()\<close> yields.
\<close>

type_synonym port = "uuid \<Rightarrow> rune list \<Rightarrow> int \<Rightarrow> db \<Rightarrow> db \<times> go_error option"

definition is_context_error :: "go_error \<Rightarrow> bool" where
  "is_context_error e \<longleftrightarrow> errors_is e ErrCanceled \<or> errors_is e ErrDeadlineExceeded"

definition Dispatch ::
  "time \<Rightarrow> time \<Rightarrow> port option \<Rightarrow> (go_error \<Rightarrow> error_text) \<Rightarrow> coordinates \<Rightarrow> uuid \<Rightarrow> db
   \<Rightarrow> db \<times> unit outcome" where
  "Dispatch now later port error_of k token s =
    (case port of None \<Rightarrow> (s, Panics) | Some send \<Rightarrow>
       (case admit now k token s of
          (s1, None) \<Rightarrow> (s1, Fails (Sentinel ErrStaleDelivery))
        | (s1, Some (body, random, attempt)) \<Rightarrow>
            (case send (recipient_of k) body random s1 of
               (s2, Some failure) \<Rightarrow>
                 (if is_context_error failure
                  then (quarantine later k token (error_of failure) attempt random s2, Returns ())
                  else (finalizeNegative later k token failure (error_of failure) attempt random s2,
                        Returns ()))
             | (s2, None) \<Rightarrow> finalize_sent later k random attempt s2)))"

section \<open>Lemmas\<close>

lemmas row_defs = lease_delivery_def release_delivery_def admit_row_def sent_row_def
  negative_row_def clear_lease_def stop_delivery_def

lemma row_updates_key [simp]:
  "d_key (lease_delivery now lease token gen d) = d_key d"
  "d_key (release_delivery now cause d) = d_key d"
  "d_key (admit_row now d) = d_key d"
  "d_key (sent_row now d) = d_key d"
  "d_key (negative_row now c m g a d) = d_key d"
  "d_key (stop_delivery now d) = d_key d"
  "d_key (clear_lease d) = d_key d"
  by (simp_all add: row_defs)

lemma claim_candidate_Some:
  "claim_candidate now locked s = Some d \<Longrightarrow>
     d \<in> set (deliveries s) \<and> claimable now d \<and> claim_join s d \<noteq> None \<and> d_key d \<notin> locked"
  unfolding claim_candidate_def by (drule first_row_Some) simp

lemma claim_candidate_least:
  assumes "claim_candidate now locked s = Some d"
    and "x \<in> set (deliveries s)" "claimable now x" "claim_join s x \<noteq> None" "d_key x \<notin> locked"
  shows "(d_ready d, d_key d) \<le> (d_ready x, d_key x)"
proof -
  have "x \<in> set (filter (\<lambda>d. claimable now d \<and> claim_join s d \<noteq> None \<and> d_key d \<notin> locked) (deliveries s))"
    using assms(2-) by simp
  from first_row_sorted [OF assms(1) [unfolded claim_candidate_def] this] show ?thesis .
qed

lemma claim_candidate_None:
  "claim_candidate now locked s = None \<longleftrightarrow>
     (\<forall>d \<in> set (deliveries s). \<not> (claimable now d \<and> claim_join s d \<noteq> None \<and> d_key d \<notin> locked))"
  unfolding claim_candidate_def first_row_None sort_filter_Nil ..

end
