(* ===== verification/Run_Store.thy ===== *)
theory Run_Store
  imports Delivery_Store
begin

text \<open>
  The two recovery passes over the queue: the reaper of expired sending leases
  (pg/reaper/reaper.go, one statement) and the reconciler that terminates runs whose deliveries
  all have an outcome (pg/reconciler/reconciler.go, a bounded scan and one transaction per run).
\<close>

section \<open>Reaper\<close>

record ReaperConfig =
  BatchSize :: int
  ExpiredLeaseGrace :: duration
  RetryDelay :: duration

definition ReaperDefaults :: ReaperConfig where
  "ReaperDefaults = \<lparr>BatchSize = 100, ExpiredLeaseGrace = 60 * second, RetryDelay = 5 * second\<rparr>"

definition MaxBatchSize :: int where
  "MaxBatchSize = 1000"

definition normalize_reaper :: "ReaperConfig \<Rightarrow> ReaperConfig outcome" where
  "normalize_reaper c =
    (if BatchSize c \<le> 0 then Panics
     else if ExpiredLeaseGrace c < 0 then Panics
     else if RetryDelay c < 0 then Panics
     else Returns (if MaxBatchSize < BatchSize c then c\<lparr>BatchSize := MaxBatchSize\<rparr> else c))"

definition new_reaper :: "ReaperConfig \<Rightarrow> ReaperConfig outcome" where
  "new_reaper c = normalize_reaper
     (if c = \<lparr>BatchSize = 0, ExpiredLeaseGrace = 0, RetryDelay = 0\<rparr> then ReaperDefaults else c)"

definition parents :: "db \<Rightarrow> coordinates \<Rightarrow> (mailing_row \<times> run_row) option" where
  "parents s k = (case (find_mailing s (mailing_of k), find_run s (mailing_of k) (run_of k)) of
     (Some m, Some r) \<Rightarrow> Some (m, r) | _ \<Rightarrow> None)"

definition expired_sending :: "ReaperConfig \<Rightarrow> time \<Rightarrow> db \<Rightarrow> delivery_row \<Rightarrow> bool" where
  "expired_sending c now s d \<longleftrightarrow> d_status d = DSending \<and> parents s (d_key d) \<noteq> None
     \<and> (case d_until d of None \<Rightarrow> False | Some u \<Rightarrow> u < now - ExpiredLeaseGrace c)"

definition reap_candidates ::
  "ReaperConfig \<Rightarrow> time \<Rightarrow> coordinates set \<Rightarrow> db \<Rightarrow> coordinates list" where
  "reap_candidates c now locked s = take (nat (BatchSize c))
     (map d_key (sort_key (\<lambda>d. (the (d_until d), d_key d))
        (filter (\<lambda>d. expired_sending c now s d \<and> d_key d \<notin> locked) (deliveries s))))"

text \<open>
  The verdict on a candidate. The SQL comparison of a null lease generation is null, and a null
  lease token equals nothing: such a row is neither retried nor made unknown.
\<close>

datatype reap_verdict = ReapRetry | ReapUnknown "rune list" | ReapNothing

definition reap_decision :: "db \<Rightarrow> delivery_row \<Rightarrow> reap_verdict" where
  "reap_decision s d =
    (case parents s (d_key d) of None \<Rightarrow> ReapNothing | Some (m, r) \<Rightarrow>
      let active = activePair (mailing_status m) (run_status r);
          room = d_attempts d < d_max d;
          reason = (if \<not> room then runes_of ''maximum delivery attempts exhausted''
                    else if d_gen d \<noteq> Some (run_generation r)
                      then runes_of ''execution generation no longer matches''
                    else if \<not> active then runes_of ''mailing or run is no longer active''
                    else runes_of ''expired sending lease is not retryable'')
      in if d_token d = None then ReapNothing
         else if active \<and> room \<and> d_gen d = None then ReapNothing
         else if active \<and> d_gen d = Some (run_generation r) \<and> room then ReapRetry
         else if 1 \<le> d_attempts d \<and> d_started d \<noteq> None then ReapUnknown reason
         else ReapNothing)"

definition reap_row :: "ReaperConfig \<Rightarrow> time \<Rightarrow> db \<Rightarrow> delivery_row \<Rightarrow> delivery_row" where
  "reap_row c now s d = (case reap_decision s d of
     ReapRetry \<Rightarrow> clear_lease (d\<lparr>d_status := DPending, d_ready := now + RetryDelay c, d_updated := now\<rparr>)
   | ReapUnknown reason \<Rightarrow> clear_lease (d\<lparr>d_status := DUnknown,
       d_error := Some (coalesce_message (d_error d) reason), d_updated := now\<rparr>)
   | ReapNothing \<Rightarrow> d)"

record ReapResult =
  Retried :: nat
  Unknown :: nat

fun is_reap_unknown :: "reap_verdict \<Rightarrow> bool" where
  "is_reap_unknown (ReapUnknown _) \<longleftrightarrow> True"
| "is_reap_unknown _ \<longleftrightarrow> False"

definition Reap ::
  "ReaperConfig \<Rightarrow> time \<Rightarrow> coordinates set \<Rightarrow> db \<Rightarrow> db \<times> ReapResult" where
  "Reap c now locked s =
    (let keys = set (reap_candidates c now locked s) in
     (s\<lparr>deliveries := update_where (\<lambda>d. d_key d \<in> keys) (reap_row c now s) (deliveries s)\<rparr>,
      \<lparr>Retried = count_where (\<lambda>d. d_key d \<in> keys \<and> reap_decision s d = ReapRetry) (deliveries s),
       Unknown = count_where (\<lambda>d. d_key d \<in> keys \<and> is_reap_unknown (reap_decision s d)) (deliveries s)\<rparr>))"

text \<open>
  The statement locks the delivery rows but not the mailing and run rows it reads. Under READ
  COMMITTED the candidates and the parents they are judged by are those of the statement's
  snapshot; a candidate that a transaction changed meanwhile is rechecked on its current version,
  with the parents of the snapshot, and a transaction that changes the parents is not seen.
  \<open>Reap_snapshot\<close> separates the snapshot from the database the update lands on: \<open>skipped\<close> are the
  candidates that were locked, or no longer sending, when the statement reached them. \<open>Reap\<close> is
  the undisturbed pass.
\<close>

definition reaped ::
  "ReaperConfig \<Rightarrow> time \<Rightarrow> coordinates set \<Rightarrow> db \<Rightarrow> delivery_row \<Rightarrow> bool" where
  "reaped c now skipped snapshot d \<longleftrightarrow>
     d_key d \<in> set (reap_candidates c now skipped snapshot) \<and> expired_sending c now snapshot d"

definition Reap_snapshot ::
  "ReaperConfig \<Rightarrow> time \<Rightarrow> coordinates set \<Rightarrow> db \<Rightarrow> db \<Rightarrow> db" where
  "Reap_snapshot c now skipped snapshot s =
     s\<lparr>deliveries := update_where (reaped c now skipped snapshot) (reap_row c now snapshot) (deliveries s)\<rparr>"

text \<open>Some row the statement rewrites has lost the parents it is judged by.\<close>

definition raced :: "ReaperConfig \<Rightarrow> time \<Rightarrow> coordinates set \<Rightarrow> db \<Rightarrow> db \<Rightarrow> bool" where
  "raced c now skipped snapshot s \<longleftrightarrow> (\<exists>d \<in> set (deliveries s).
     reaped c now skipped snapshot d \<and> parents snapshot (d_key d) \<noteq> parents s (d_key d))"

section \<open>Reconciler\<close>

record ReconciliationCandidate =
  c_mailing :: uuid
  c_run :: uuid
  c_generation :: int

definition normalize_batch :: "int \<Rightarrow> int outcome" where
  "normalize_batch b = (if b \<le> 0 then Panics
     else Returns (if MaxBatchSize < b then MaxBatchSize else b))"

definition DefaultBatchSize :: int where
  "DefaultBatchSize = 100"

definition new_reconciler :: "int \<Rightarrow> int outcome" where
  "new_reconciler b = normalize_batch (if b = 0 then DefaultBatchSize else b)"

definition run_deliveries :: "db \<Rightarrow> uuid \<Rightarrow> uuid \<Rightarrow> delivery_row list" where
  "run_deliveries s m r =
     filter (\<lambda>d. mailing_of (d_key d) = m \<and> run_of (d_key d) = r) (deliveries s)"

definition reconcilable :: "db \<Rightarrow> run_row \<Rightarrow> bool" where
  "reconcilable s r \<longleftrightarrow>
     (case find_mailing s (run_mailing r) of None \<Rightarrow> False
      | Some m \<Rightarrow> activePair (mailing_status m) (run_status r))
   \<and> run_deliveries s (run_mailing r) (run_id r) \<noteq> []
   \<and> list_all (\<lambda>d. d_status d \<in> {DSent, DSkipped, DFailed, DUnknown})
       (run_deliveries s (run_mailing r) (run_id r))"

definition findCandidates :: "int \<Rightarrow> db \<Rightarrow> ReconciliationCandidate list" where
  "findCandidates batch s = take (nat batch)
     (map (\<lambda>r. \<lparr>c_mailing = run_mailing r, c_run = run_id r, c_generation = run_generation r\<rparr>)
       (sort_key (\<lambda>r. (run_queued_at r, run_mailing r, run_id r)) (filter (reconcilable s) (runs s))))"

fun terminal_run :: "RunTerminalStatus \<Rightarrow> run_status" where
  "terminal_run RunCompleted = RCompleted"
| "terminal_run RunFailed = RFailed"

fun terminal_mailing :: "RunTerminalStatus \<Rightarrow> mailing_status" where
  "terminal_mailing RunCompleted = MCompleted"
| "terminal_mailing RunFailed = MFailed"

definition coalesce_time :: "time option \<Rightarrow> time \<Rightarrow> time option" where
  "coalesce_time t now = (case t of None \<Rightarrow> Some now | Some x \<Rightarrow> Some x)"

definition terminate_run :: "time \<Rightarrow> RunTerminalStatus \<Rightarrow> run_row \<Rightarrow> run_row" where
  "terminate_run now v r = r\<lparr>run_status := terminal_run v,
     run_started_at := coalesce_time (run_started_at r) now,
     run_finished_at := coalesce_time (run_finished_at r) now\<rparr>"

definition reconcileCandidate ::
  "time \<Rightarrow> ReconciliationCandidate \<Rightarrow> db \<Rightarrow> db \<times> RunTerminalStatus option outcome" where
  "reconcileCandidate now c s =
    (case find_mailing s (c_mailing c) of None \<Rightarrow> (s, Returns None) | Some m \<Rightarrow>
     (case find_run s (c_mailing c) (c_run c) of None \<Rightarrow> (s, Returns None) | Some r \<Rightarrow>
       if run_generation r \<noteq> c_generation c \<or> \<not> activePair (mailing_status m) (run_status r)
       then (s, Returns None)
       else case TerminalRunStatus (map d_status (run_deliveries s (c_mailing c) (c_run c))) of
         None \<Rightarrow> (s, Returns None)
       | Some v \<Rightarrow>
           let run_hit = (\<lambda>x. run_mailing x = c_mailing c \<and> run_id x = c_run c
                 \<and> run_generation x = c_generation c \<and> run_status x = run_status r);
               mailing_hit = (\<lambda>x. mailing_id x = c_mailing c \<and> mailing_status x = mailing_status m);
               s1 = s\<lparr>runs := update_where run_hit (terminate_run now v) (runs s)\<rparr>
           in if count_where run_hit (runs s) \<noteq> 1 then (s1, Returns None)
              else if count_where mailing_hit (mailings s1) \<noteq> 1
              then (s, Fails (Wrap ''terminalize parent mailing'' []))
              else (s1\<lparr>mailings := update_where mailing_hit
                      (\<lambda>x. x\<lparr>mailing_status := terminal_mailing v, mailing_updated := now\<rparr>)
                      (mailings s1)\<rparr>, Returns (Some v))))"

record ReconciliationResult =
  Candidates :: nat
  Completed :: nat
  Failed :: nat

fun tally :: "RunTerminalStatus option \<Rightarrow> ReconciliationResult \<Rightarrow> ReconciliationResult" where
  "tally None r = r"
| "tally (Some RunCompleted) r = r\<lparr>Completed := Suc (Completed r)\<rparr>"
| "tally (Some RunFailed) r = r\<lparr>Failed := Suc (Failed r)\<rparr>"

text \<open>
  A pass discovers its candidates in one query and then runs one transaction per candidate. A turn
  is what the database does for one candidate: the transactions others commit before this one gets
  its locks, its clock, and whether it succeeds, is rolled back by an error of the database, or is
  committed while the answer is lost.
\<close>

datatype db_fault = NoFault | RolledBack go_error | Unanswered go_error

record turn =
  turn_others :: "db \<Rightarrow> db"
  turn_now :: time
  turn_fault :: db_fault

definition reconcile_turn ::
  "turn \<Rightarrow> ReconciliationCandidate \<Rightarrow> db \<Rightarrow> db \<times> RunTerminalStatus option outcome" where
  "reconcile_turn turn c s =
    (case turn_fault turn of
       NoFault \<Rightarrow> reconcileCandidate (turn_now turn) c (turn_others turn s)
     | RolledBack e \<Rightarrow> (turn_others turn s, Fails e)
     | Unanswered e \<Rightarrow> (fst (reconcileCandidate (turn_now turn) c (turn_others turn s)), Fails e))"

fun reconcile_loop ::
  "(nat \<Rightarrow> turn) \<Rightarrow> ReconciliationCandidate list \<Rightarrow> ReconciliationResult \<Rightarrow> db
   \<Rightarrow> db \<times> ReconciliationResult \<times> go_error option" where
  "reconcile_loop turns [] result s = (s, result, None)"
| "reconcile_loop turns (c # cs) result s =
    (case reconcile_turn (turns 0) c s of
       (s', Returns v) \<Rightarrow> reconcile_loop (\<lambda>i. turns (Suc i)) cs (tally v result) s'
     | (s', Fails e) \<Rightarrow> (s', result, Some (Wrap ''reconcile mailing run'' [e]))
     | (s', Panics) \<Rightarrow> (s', result, Some Panicked))"

definition Reconcile ::
  "int \<Rightarrow> go_error option \<Rightarrow> (nat \<Rightarrow> turn) \<Rightarrow> db \<Rightarrow> db \<times> ReconciliationResult \<times> go_error option" where
  "Reconcile batch discovery turns s =
    (case discovery of
       Some e \<Rightarrow> (s, \<lparr>Candidates = 0, Completed = 0, Failed = 0\<rparr>,
                  Some (Wrap ''discover delivery run reconciliation candidates'' [e]))
     | None \<Rightarrow>
         (let candidates = findCandidates batch s in
          reconcile_loop turns candidates
            \<lparr>Candidates = length candidates, Completed = 0, Failed = 0\<rparr> s))"

section \<open>Lemmas\<close>

lemma reap_row_key [simp]: "d_key (reap_row c now s d) = d_key d"
  by (simp add: reap_row_def split: reap_verdict.split)

lemma reap_candidates_expired:
  assumes "k \<in> set (reap_candidates c now locked s)"
  shows "\<exists>d \<in> set (deliveries s). d_key d = k \<and> expired_sending c now s d \<and> k \<notin> locked"
  using assms unfolding reap_candidates_def by (auto dest!: in_set_takeD)

lemma length_reap_candidates: "length (reap_candidates c now locked s) \<le> nat (BatchSize c)"
  unfolding reap_candidates_def by simp

lemma ReapRetry_iff:
  "reap_decision s d = ReapRetry \<longleftrightarrow>
    (\<exists>m r. parents s (d_key d) = Some (m, r) \<and> activePair (mailing_status m) (run_status r)
       \<and> d_gen d = Some (run_generation r) \<and> d_attempts d < d_max d \<and> d_token d \<noteq> None)"
  by (auto simp: reap_decision_def Let_def split: option.splits)

lemma reap_reason_nonempty:
  "reap_decision s d = ReapUnknown reason \<Longrightarrow> btrim_nonempty reason"
  by (auto simp: reap_decision_def Let_def btrim_nonempty_def runes_of_def
      split: option.splits if_splits)

lemma ReapUnknown_evidence:
  "reap_decision s d = ReapUnknown reason \<Longrightarrow> 1 \<le> d_attempts d \<and> d_started d \<noteq> None"
  by (auto simp: reap_decision_def Let_def split: option.splits if_splits)

end
