(* ===== verification/Queue_Invariant.thy ===== *)
theory Queue_Invariant
  imports Run_Store
begin

text \<open>
  The invariant of the queue tables and its preservation by every transaction of the delivery
  pipeline. \<open>row_ok\<close> is what a delivery row satisfies beyond its CHECK constraints: a pending
  delivery has an active run and an attempt left, a started attempt a start time. The flag
  \<open>strict\<close> is off once a reaper pass has judged a delivery by parents that had changed meanwhile:
  then an attempted delivery without a lease may be pending under a run that is over. \<open>runs_ok\<close> relates
  the latest run of a mailing to the mailing: only the latest run may be active, and its status
  agrees with the mailing's. \<open>queue_inv\<close> puts them together with the keys and unique indexes.
\<close>

section \<open>Queue invariant\<close>

definition row_ok :: "bool \<Rightarrow> run_row list \<Rightarrow> delivery_row \<Rightarrow> bool" where
  "row_ok strict rs d \<longleftrightarrow> delivery_checks d
     \<and> (\<exists>r \<in> set rs. run_mailing r = mailing_of (d_key d) \<and> run_id r = run_of (d_key d)
          \<and> (d_status d = DPending \<longrightarrow> active_run r \<or> (\<not> strict \<and> 1 \<le> d_attempts d \<and> d_token d = None)))
     \<and> d_attempts d \<le> d_max d
     \<and> (d_status d = DPending \<longrightarrow> d_attempts d < d_max d)
     \<and> (1 \<le> d_attempts d \<longleftrightarrow> d_started d \<noteq> None)
     \<and> (d_status d = DSent \<longrightarrow> 1 \<le> d_attempts d)
     \<and> d_status d \<in> {DPending, DSending, DSent, DSkipped, DFailed, DUnknown}"

definition run_times_ok :: "run_row \<Rightarrow> bool" where
  "run_times_ok r \<longleftrightarrow> (case run_status r of
     RQueued \<Rightarrow> run_started_at r = None \<and> run_finished_at r = None
   | RRunning \<Rightarrow> run_started_at r \<noteq> None \<and> run_finished_at r = None
   | RCompleted \<Rightarrow> run_started_at r \<noteq> None \<and> run_finished_at r \<noteq> None
   | RCancelled \<Rightarrow> run_finished_at r \<noteq> None
   | RFailed \<Rightarrow> run_finished_at r \<noteq> None)"

definition run_ok :: "time \<Rightarrow> run_row \<Rightarrow> bool" where
  "run_ok now r \<longleftrightarrow> run_checks r \<and> run_times_ok r \<and> run_status r \<noteq> RRunning
     \<and> run_queued_at r \<le> now"

definition latest :: "run_row list \<Rightarrow> run_row \<Rightarrow> bool" where
  "latest rs r \<longleftrightarrow> (\<forall>x \<in> set rs. run_mailing x = run_mailing r \<longrightarrow> run_number x \<le> run_number r)"

fun verdict_ok :: "mailing_status \<Rightarrow> run_status \<Rightarrow> bool" where
  "verdict_ok MQueued r \<longleftrightarrow> r = RQueued"
| "verdict_ok MStopped r \<longleftrightarrow> r = RCancelled"
| "verdict_ok MCompleted r \<longleftrightarrow> r = RCompleted"
| "verdict_ok MFailed r \<longleftrightarrow> r = RFailed"
| "verdict_ok _ r \<longleftrightarrow> False"

definition runs_ok :: "mailing_row list \<Rightarrow> run_row list \<Rightarrow> bool" where
  "runs_ok ms rs \<longleftrightarrow>
     (\<forall>r \<in> set rs. \<exists>m \<in> set ms. mailing_id m = run_mailing r
        \<and> (if latest rs r then verdict_ok (mailing_status m) (run_status r) else \<not> active_run r))
   \<and> (\<forall>m \<in> set ms. mailing_status m \<noteq> MRunning \<and> mailing_status m \<noteq> MPaused)"

definition keys_ok :: "db \<Rightarrow> bool" where
  "keys_ok s \<longleftrightarrow> distinct (map mailing_id (mailings s)) \<and> distinct (map run_id (runs s))
     \<and> distinct (map (\<lambda>r. (run_mailing r, run_number r)) (runs s))
     \<and> distinct (map d_key (deliveries s))
     \<and> map t_key (telegram_deliveries s) = map d_key (deliveries s)
     \<and> distinct (map t_random (telegram_deliveries s))
     \<and> (\<forall>t \<in> set (telegram_deliveries s). 1 \<le> t_random t \<and> t_random t < random_seq s)
     \<and> 1 \<le> random_seq s \<and> distinct (recipients s)"

definition queue_inv :: "bool \<Rightarrow> time \<Rightarrow> db \<Rightarrow> bool" where
  "queue_inv strict now s \<longleftrightarrow> keys_ok s \<and> runs_ok (mailings s) (runs s)
     \<and> (\<forall>r \<in> set (runs s). run_ok now r) \<and> (\<forall>d \<in> set (deliveries s). row_ok strict (runs s) d)"

lemma queue_inv_parts:
  assumes "queue_inv b now s"
  shows "distinct (map mailing_id (mailings s))" "distinct (map run_id (runs s))"
    "distinct (map d_key (deliveries s))" "distinct (map (\<lambda>r. (run_mailing r, run_number r)) (runs s))"
    "runs_ok (mailings s) (runs s)"
    "r \<in> set (runs s) \<Longrightarrow> run_ok now r" "d \<in> set (deliveries s) \<Longrightarrow> row_ok b (runs s) d"
  using assms by (auto simp: queue_inv_def keys_ok_def)

lemma queue_inv_mono: "queue_inv b now s \<Longrightarrow> now \<le> later \<Longrightarrow> queue_inv b later s"
  by (fastforce simp: queue_inv_def run_ok_def)

section \<open>Rows and their parents\<close>

lemma find_mailing_iff:
  "queue_inv b now s \<Longrightarrow> find_mailing s i = Some m \<longleftrightarrow> m \<in> set (mailings s) \<and> mailing_id m = i"
  unfolding find_mailing_def by (rule find_key_iff) (simp add: queue_inv_def keys_ok_def)

lemma find_run_iff:
  assumes "queue_inv b now s"
  shows "find_run s i j = Some r \<longleftrightarrow> r \<in> set (runs s) \<and> run_mailing r = i \<and> run_id r = j"
proof -
  have "distinct (map (\<lambda>x. (run_mailing x, run_id x)) (runs s))"
    using queue_inv_parts(2) [OF assms]
    by (auto simp: distinct_map inj_on_def)
  from find_key_iff [OF this, of "(i, j)" r] show ?thesis
    unfolding find_run_def by auto
qed

lemma find_delivery_iff:
  "queue_inv b now s \<Longrightarrow> find_delivery s k = Some d \<longleftrightarrow> d \<in> set (deliveries s) \<and> d_key d = k"
  unfolding find_delivery_def by (rule find_key_iff) (simp add: queue_inv_def keys_ok_def)

lemma find_telegram_iff:
  "queue_inv b now s \<Longrightarrow> find_telegram s k = Some t \<longleftrightarrow> t \<in> set (telegram_deliveries s) \<and> t_key t = k"
  unfolding find_telegram_def by (rule find_key_iff) (simp add: queue_inv_def keys_ok_def)

lemma telegram_of_delivery:
  assumes "queue_inv b now s" and "d \<in> set (deliveries s)"
  shows "\<exists>t. find_telegram s (d_key d) = Some t"
proof -
  have "d_key d \<in> set (map t_key (telegram_deliveries s))"
    using assms by (auto simp: queue_inv_def keys_ok_def)
  then show ?thesis using find_telegram_iff [OF assms(1)] by fastforce
qed

lemma row_parents:
  assumes "queue_inv b now s" and "d \<in> set (deliveries s)"
  obtains m r where "parents s (d_key d) = Some (m, r)"
    "find_mailing s (mailing_of (d_key d)) = Some m"
    "find_run s (mailing_of (d_key d)) (run_of (d_key d)) = Some r"
    "r \<in> set (runs s)" "m \<in> set (mailings s)" "run_mailing r = mailing_of (d_key d)"
    "run_id r = run_of (d_key d)" "d_status d = DPending \<and> (b \<or> d_token d \<noteq> None) \<longrightarrow> active_run r"
proof -
  obtain r where r: "r \<in> set (runs s)" "run_mailing r = mailing_of (d_key d)"
    "run_id r = run_of (d_key d)" "d_status d = DPending \<and> (b \<or> d_token d \<noteq> None) \<longrightarrow> active_run r"
    using queue_inv_parts(7) [OF assms] unfolding row_ok_def by blast
  obtain m where m: "m \<in> set (mailings s)" "mailing_id m = run_mailing r"
    using queue_inv_parts(5) [OF assms(1)] r(1) by (fastforce simp: runs_ok_def)
  have "find_mailing s (mailing_of (d_key d)) = Some m"
    using find_mailing_iff [OF assms(1)] m r by simp
  moreover have "find_run s (mailing_of (d_key d)) (run_of (d_key d)) = Some r"
    using find_run_iff [OF assms(1)] r by simp
  ultimately show thesis using that r m by (simp add: parents_def)
qed

lemma activePair_active: "activePair m r \<Longrightarrow> r = RQueued \<or> r = RRunning"
  by (auto simp: activePair_def)

lemma active_run_active: "activePair m (run_status r) \<Longrightarrow> active_run r"
  by (auto simp: activePair_def active_run_def)

text \<open>Every statement that only rewrites delivery rows keeps the invariant when each rewritten
  row keeps its key and stays well formed.\<close>

lemma queue_inv_update_deliveries:
  assumes inv: "queue_inv b now s" and key: "\<And>d. d_key (f d) = d_key d"
    and ok: "\<And>d. d \<in> set (deliveries s) \<Longrightarrow> p d \<Longrightarrow> row_ok b (runs s) d \<Longrightarrow> row_ok b (runs s) (f d)"
  shows "queue_inv b now (s\<lparr>deliveries := update_where p f (deliveries s)\<rparr>)"
proof -
  have "\<forall>d \<in> set (update_where p f (deliveries s)). row_ok b (runs s) d"
    by (rule ball_update_where) (use inv ok in \<open>auto simp: queue_inv_def\<close>)
  then show ?thesis
    using inv map_key_update_where [of d_key f p "deliveries s", OF key]
    by (simp add: queue_inv_def keys_ok_def)
qed

lemma row_ok_lease:
  assumes "row_ok b rs d" "d_status d = DPending" "1 \<le> gen"
    and "r \<in> set rs" "run_mailing r = mailing_of (d_key d)" "run_id r = run_of (d_key d)" "active_run r"
  shows "row_ok b rs (lease_delivery now lease token gen d)"
  using assms by (auto simp: row_ok_def lease_delivery_def delivery_checks_iff full_lease_iff no_lease_def)

lemma row_ok_release:
  assumes "row_ok b rs d" "d_status d = DPending"
  shows "row_ok b rs (release_delivery now cause d)"
  using assms by (auto simp: row_ok_def release_delivery_def clear_lease_def delivery_checks_iff
      full_lease_iff no_lease_def)

lemma row_ok_full_lease:
  assumes "row_ok b rs d" "d_token d \<noteq> None" shows "full_lease d"
  using assms unfolding row_ok_def delivery_checks_iff no_lease_def by blast

lemma row_ok_renew:
  assumes "row_ok b rs d" "d_status d = DPending" "d_token d \<noteq> None"
  shows "row_ok b rs (d\<lparr>d_until := Some u\<rparr>)"
proof -
  have "full_lease (d\<lparr>d_until := Some u\<rparr>)"
    using row_ok_full_lease [OF assms(1,3)] by (simp add: full_lease_iff)
  then show ?thesis using assms by (auto simp: row_ok_def delivery_checks_iff)
qed

lemma row_ok_admit:
  assumes "row_ok b rs d" "admissible now token gen d"
  shows "row_ok b rs (admit_row now d)"
proof -
  have pending: "d_status d = DPending" "d_token d \<noteq> None" "d_attempts d < d_max d"
    using assms(2) by (simp_all add: admissible_def holds_lease_def)
  have "full_lease (admit_row now d)"
    using row_ok_full_lease [OF assms(1) pending(2)] by (simp add: full_lease_iff admit_row_def)
  then show ?thesis using assms(1) pending
    by (auto simp: row_ok_def delivery_checks_iff admit_row_def)
qed

lemma row_ok_sent:
  assumes "row_ok b rs d" "d_started d \<noteq> None" shows "row_ok b rs (sent_row now d)"
proof -
  have "delivery_checks (sent_row now d)"
    using assms by (simp add: row_ok_def delivery_checks_iff no_lease_def sent_row_def clear_lease_def)
  then show ?thesis using assms by (auto simp add: row_ok_def sent_row_def clear_lease_def)
qed

lemma row_ok_message:
  assumes "row_ok b rs d" "d_status d = DSending"
  shows "row_ok b rs (d\<lparr>d_error := e, d_updated := u\<rparr>)"
proof -
  have "full_lease (d\<lparr>d_error := e, d_updated := u\<rparr>)"
    using assms by (simp add: row_ok_def delivery_checks_iff full_lease_iff)
  then show ?thesis using assms by (simp add: row_ok_def delivery_checks_iff)
qed

text \<open>A rewrite to an outcome without a lease, or back to pending: while the run is active, or without
  the strict flag.\<close>

lemma row_ok_outcome:
  assumes "row_ok b rs d" "d_status d = DSending \<or> 1 \<le> d_attempts d \<and> d_started d \<noteq> None"
    and "st = DPending \<longrightarrow> d_attempts d < d_max d
      \<and> (b \<longrightarrow> (\<exists>r \<in> set rs. run_mailing r = mailing_of (d_key d) \<and> run_id r = run_of (d_key d) \<and> active_run r))"
    and "st \<in> {DPending, DFailed, DUnknown}"
    and "d_key d' = d_key d" "d_status d' = st" "d_attempts d' = d_attempts d" "d_max d' = d_max d"
      "d_started d' = d_started d" "no_lease d'"
      "st = DUnknown \<longrightarrow> (\<exists>m. d_error d' = Some m \<and> btrim_nonempty m)"
  shows "row_ok b rs d'"
proof -
  have ev: "1 \<le> d_attempts d" "d_started d \<noteq> None" "1 \<le> d_max d" "d_attempts d \<le> d_max d"
    using assms(1,2) by (auto simp: row_ok_def delivery_checks_iff)
  have "delivery_checks d'"
    using assms(4-) ev by (auto simp: delivery_checks_iff)
  moreover have "d_token d' = None" using assms(10) by (simp add: no_lease_def)
  then have "\<exists>r \<in> set rs. run_mailing r = mailing_of (d_key d') \<and> run_id r = run_of (d_key d')
      \<and> (d_status d' = DPending \<longrightarrow> active_run r \<or> (\<not> b \<and> 1 \<le> d_attempts d' \<and> d_token d' = None))"
  proof (cases "st = DPending \<and> b")
    case True then show ?thesis using assms(3,5,6) by auto
  next
    case False then show ?thesis using assms(1,5-7) ev(1) \<open>d_token d' = None\<close> by (auto simp: row_ok_def)
  qed
  ultimately show ?thesis using assms(3-) ev by (auto simp: row_ok_def)
qed

section \<open>Statements on deliveries\<close>

lemma claim_join_Some:
  assumes "claim_join s d = Some (run, account)"
  shows "find_run s (mailing_of (d_key d)) (run_of (d_key d)) = Some run"
    "account \<in> set (operator_accounts s)" "oa_status account = Active"
    "\<exists>m. find_mailing s (mailing_of (d_key d)) = Some m \<and> activePair (mailing_status m) (run_status run)
       \<and> oa_operator account = mailing_operator m"
  using assms by (auto simp: claim_join_def find_active_account_def split: option.splits if_splits
      dest: find_Some_set)

lemma queue_inv_Claim:
  assumes "queue_inv b now s" "Claim lease at token locked s = (s', res)"
  shows "queue_inv b now s'"
proof (cases "0 < lease \<and> (\<exists>d. claim_candidate at locked s = Some d)")
  case True
  then obtain d where d: "claim_candidate at locked s = Some d" by auto
  then obtain run account where join: "claim_join s d = Some (run, account)"
    using claim_candidate_Some by fastforce
  have s': "s' = s\<lparr>deliveries := update_where (\<lambda>x. d_key x = d_key d)
      (lease_delivery at lease token (run_generation run)) (deliveries s)\<rparr>"
    using assms(2) True d join by (simp add: Claim_def)
  have gen: "1 \<le> run_generation run"
    using claim_join_Some(1) [OF join] find_run_iff [OF assms(1)] queue_inv_parts(6) [OF assms(1)]
    by (auto simp: run_ok_def run_checks_iff)
  have pending: "x = d" if "x \<in> set (deliveries s)" "d_key x = d_key d" for x
    using distinct_key_unique [OF queue_inv_parts(3) [OF assms(1)]] that
      claim_candidate_Some [OF d] by blast
  have run: "run \<in> set (runs s)" "run_mailing run = mailing_of (d_key d)" "run_id run = run_of (d_key d)"
      "active_run run"
    using claim_join_Some(1,4) [OF join] find_run_iff [OF assms(1)] active_run_active by auto
  show ?thesis unfolding s'
    by (rule queue_inv_update_deliveries [OF assms(1)])
      (use gen pending run claim_candidate_Some [OF d] in \<open>auto simp: claimable_def intro!: row_ok_lease\<close>)
next
  case False
  then have "s' = s" using assms(2) by (auto simp: Claim_def split: option.splits if_splits)
  then show ?thesis using assms(1) by simp
qed

lemma Renew_cases:
  assumes "Renew clock lease t s = (s', res)"
  obtains "s' = s" "res \<noteq> Returns ()"
  | m r where "find_mailing s (mailing_of (task_key t)) = Some m"
      "find_run s (mailing_of (task_key t)) (run_of (task_key t)) = Some r"
      "activePair (mailing_status m) (run_status r)" "0 < lease" "res = Returns ()"
      "count_where (renewable clock (task_key t) (task_token t) (run_generation r)) (deliveries s) \<noteq> 0"
      "s' = s\<lparr>deliveries := update_where (renewable clock (task_key t) (task_token t) (run_generation r))
        (\<lambda>d. d\<lparr>d_until := Some (clock + lease)\<rparr>) (deliveries s)\<rparr>"
proof (cases "find_mailing s (mailing_of (task_key t))")
  case None
  then show thesis using assms that(1) by (auto simp: Renew_def split: if_splits)
next
  case (Some m)
  note m = this
  show thesis
  proof (cases "find_run s (mailing_of (task_key t)) (run_of (task_key t))")
    case None
    then show thesis using assms that(1) m by (auto simp: Renew_def split: if_splits)
  next
    case (Some r)
    show thesis
      by (cases "0 < lease \<and> activePair (mailing_status m) (run_status r)
          \<and> count_where (renewable clock (task_key t) (task_token t) (run_generation r)) (deliveries s) \<noteq> 0")
        (use assms m Some that(1) that(2) [OF m Some] in \<open>auto simp: Renew_def Let_def split: if_splits\<close>)
  qed
qed

lemma queue_inv_Renew:
  assumes "queue_inv b now s" "Renew clock lease t s = (s', res)"
  shows "queue_inv b now s'"
  using assms(2)
proof (cases rule: Renew_cases)
  case 1
  then show ?thesis using assms(1) by simp
next
  case (2 m r)
  show ?thesis unfolding 2
    by (rule queue_inv_update_deliveries [OF assms(1)])
      (auto simp: renewable_def holds_lease_def intro!: row_ok_renew)
qed

lemma queue_inv_Release:
  assumes "queue_inv b now s" "Release at cause t s = (s', res)"
  shows "queue_inv b now s'"
proof (cases "cause = NilError")
  case False
  have "queue_inv b now (s\<lparr>deliveries := update_where (\<lambda>d. d_key d = task_key t \<and> holds_lease (task_token t) d)
      (release_delivery at cause) (deliveries s)\<rparr>)"
    by (rule queue_inv_update_deliveries [OF assms(1)])
      (auto simp: holds_lease_def intro!: row_ok_release)
  then show ?thesis using assms(2) False by (auto simp: Release_def)
qed (use assms in \<open>simp add: Release_def\<close>)

lemma admit_Some:
  assumes "admit at k token s = (s', Some (body, random, attempt))"
  obtains d m r t where "find_delivery s k = Some d" "find_mailing s (mailing_of k) = Some m"
    "find_run s (mailing_of k) (run_of k) = Some r" "find_telegram s k = Some t"
    "admissible at token (run_generation r) d" "activePair (mailing_status m) (run_status r)"
    "body = mailing_message m" "random = t_random t" "attempt = Suc (d_attempts d)"
    "s' = s\<lparr>deliveries := update_where (\<lambda>x. d_key x = k) (admit_row at) (deliveries s)\<rparr>"
  using assms unfolding admit_def
  by (cases "find_delivery s k"; cases "find_mailing s (mailing_of k)";
      cases "find_run s (mailing_of k) (run_of k)"; cases "find_telegram s k")
    (auto split: if_splits)

lemma admit_None: "admit at k token s = (s', None) \<Longrightarrow> s' = s"
  unfolding admit_def
  by (cases "find_delivery s k"; cases "find_mailing s (mailing_of k)";
      cases "find_run s (mailing_of k) (run_of k)"; cases "find_telegram s k")
    (auto split: if_splits)

lemma queue_inv_admit:
  assumes "queue_inv b now s" "admit at k token s = (s', res)"
  shows "queue_inv b now s'"
proof (cases res)
  case None
  then show ?thesis using assms admit_None by blast
next
  case (Some a)
  obtain body random attempt where a: "a = (body, random, attempt)" by (cases a) auto
  from assms(2) [unfolded Some a] show ?thesis
  proof (cases rule: admit_Some)
    case (1 d m r t)
    have "x = d" if "x \<in> set (deliveries s)" "d_key x = k" for x
      using find_delivery_iff [OF assms(1)] that 1(1) by (metis option.inject)
    then show ?thesis unfolding 1(10)
      by (intro queue_inv_update_deliveries [OF assms(1)]) (use 1(5) row_ok_admit in auto)
  qed
qed

lemma finalize_sent_cases:
  assumes "finalize_sent at k random attempt s = (s', res)"
  obtains "s' = s" | "res = Returns ()" "random_matches s k random"
      "s' = s\<lparr>deliveries := update_where (sendable k attempt) (sent_row at) (deliveries s)\<rparr>"
proof (cases "random_matches s k random \<and> count_where (sendable k attempt) (deliveries s) \<noteq> 0")
  case True
  then show thesis using assms that(2) by (simp add: finalize_sent_def)
next
  case False
  then have "s' = s" using assms unfolding finalize_sent_def if_not_P [OF False]
    by (cases "find_delivery s k"; cases "find_telegram s k") simp_all
  then show thesis by (rule that(1))
qed

lemma queue_inv_finalize_sent:
  assumes "queue_inv b now s" "finalize_sent at k random attempt s = (s', res)"
  shows "queue_inv b now s'"
  using assms(2)
proof (cases rule: finalize_sent_cases)
  case 1
  then show ?thesis using assms(1) by simp
next
  case 2
  show ?thesis unfolding 2(3)
    by (rule queue_inv_update_deliveries [OF assms(1)]) (auto simp: sendable_def intro!: row_ok_sent)
qed

text \<open>The row after a negative outcome is well formed; it is pending only under an active run.\<close>

lemma negative_row_simps:
  "d_attempts (negative_row at c msg g a d) = d_attempts d"
  "d_max (negative_row at c msg g a d) = d_max d"
  "d_started (negative_row at c msg g a d) = d_started d"
  "no_lease (negative_row at c msg g a d)"
  "d_error (negative_row at c msg g a d) = Some msg"
  by (simp_all add: negative_row_def clear_lease_def no_lease_def)

lemma negative_row_status:
  "d_status (negative_row at c msg g a d) \<in> {DPending, DFailed, DUnknown}"
  "d_status (negative_row at c msg g a d) = DPending \<longleftrightarrow>
     d_gen d = Some g \<and> a \<and> d_attempts d < d_max d \<and> Kind c \<in> {FailureTransient, FailureFloodWait}"
  by (simp_all add: negative_row_def clear_lease_def) (cases "Kind c"; auto)

lemma row_ok_negative:
  assumes "row_ok b rs d" "d_status d = DSending" "btrim_nonempty msg"
    and "a \<Longrightarrow> \<exists>r \<in> set rs. run_mailing r = mailing_of (d_key d) \<and> run_id r = run_of (d_key d) \<and> active_run r"
  shows "row_ok b rs (negative_row at c msg g a d)"
  by (rule row_ok_outcome [OF assms(1), of "d_status (negative_row at c msg g a d)"])
    (use assms negative_row_status [of at c msg g a d] in \<open>auto simp: negative_row_simps\<close>)

lemma finalizeNegative_cases:
  obtains "finalizeNegative at k token cause text attempt random s = s"
  | m r where "find_mailing s (mailing_of k) = Some m" "find_run s (mailing_of k) (run_of k) = Some r"
      "random_matches s k random"
      "finalizeNegative at k token cause text attempt random s =
        s\<lparr>deliveries := update_where (owns_attempt k token attempt)
          (negative_row at (Classify (Some cause)) (BoundedErrorMessage text)
            (run_generation r) (activePair (mailing_status m) (run_status r))) (deliveries s)\<rparr>"
proof (cases "find_mailing s (mailing_of k)")
  case None
  then show thesis using that(1) by (simp add: finalizeNegative_def)
next
  case (Some m)
  note m = this
  show thesis
  proof (cases "find_run s (mailing_of k) (run_of k)")
    case None
    then show thesis using that(1) m by (simp add: finalizeNegative_def)
  next
    case (Some r)
    then show thesis using that(1) that(2) [OF m Some] m
      by (cases "random_matches s k random") (simp_all add: finalizeNegative_def Let_def)
  qed
qed

lemma BoundedErrorMessage_btrim: "btrim_nonempty (BoundedErrorMessage failure)"
  by (rule bounded_btrim [OF bounded_BoundedErrorMessage])

lemma queue_inv_finalizeNegative:
  assumes inv: "queue_inv b now s"
  shows "queue_inv b now (finalizeNegative at k token cause text attempt random s)"
proof (cases rule: finalizeNegative_cases [of at k token cause "text" attempt random s])
  case 1
  then show ?thesis using inv by simp
next
  case (2 m r)
  have r: "r \<in> set (runs s)" "run_mailing r = mailing_of k" "run_id r = run_of k"
    using 2(2) find_run_iff [OF inv] by auto
  show ?thesis unfolding 2(4)
  proof (rule queue_inv_update_deliveries [OF inv])
    fix d assume "owns_attempt k token attempt d" "row_ok b (runs s) d"
    then show "row_ok b (runs s) (negative_row at (Classify (Some cause)) (BoundedErrorMessage text)
        (run_generation r) (activePair (mailing_status m) (run_status r)) d)"
      by (intro row_ok_negative) (use r active_run_active BoundedErrorMessage_btrim in
          \<open>auto simp: owns_attempt_def\<close>)
  qed simp
qed

lemma queue_inv_quarantine:
  assumes "queue_inv b now s"
  shows "queue_inv b now (quarantine at k token text attempt random s)"
proof -
  have "queue_inv b now (s\<lparr>deliveries := update_where (owns_attempt k token attempt)
      (\<lambda>d. d\<lparr>d_error := Some (BoundedErrorMessage text), d_updated := at\<rparr>) (deliveries s)\<rparr>)"
    by (rule queue_inv_update_deliveries [OF assms])
      (auto simp: owns_attempt_def intro!: row_ok_message)
  then show ?thesis using assms by (simp add: quarantine_def)
qed

lemma row_ok_reap:
  assumes inv: "queue_inv b now s" and d: "d \<in> set (deliveries s)" "d_status d = DSending"
  shows "row_ok b (runs s) (reap_row c at s d)"
proof (cases "reap_decision s d")
  case ReapRetry
  then obtain m r where mr: "parents s (d_key d) = Some (m, r)" "active_run r" "d_attempts d < d_max d"
    unfolding ReapRetry_iff using active_run_active by blast
  have r: "r \<in> set (runs s)" "run_mailing r = mailing_of (d_key d)" "run_id r = run_of (d_key d)"
    using mr(1) find_run_iff [OF inv] by (auto simp: parents_def split: option.splits)
  show ?thesis
    by (rule row_ok_outcome [OF queue_inv_parts(7) [OF inv d(1)], of DPending])
      (use r mr d ReapRetry in \<open>auto simp: reap_row_def clear_lease_def no_lease_def\<close>)
next
  case (ReapUnknown reason)
  show ?thesis
    by (rule row_ok_outcome [OF queue_inv_parts(7) [OF inv d(1)], of DUnknown])
      (use d ReapUnknown coalesce_message_nonempty [OF reap_reason_nonempty [OF ReapUnknown]] in
        \<open>auto simp: reap_row_def clear_lease_def no_lease_def\<close>)
next
  case ReapNothing
  then show ?thesis using queue_inv_parts(7) [OF inv d(1)] by (simp add: reap_row_def)
qed

lemma reap_candidate_sending:
  assumes "queue_inv b now s" "d \<in> set (deliveries s)" "d_key d \<in> set (reap_candidates c at locked s)"
  shows "expired_sending c at s d \<and> d_key d \<notin> locked"
proof -
  from reap_candidates_expired [OF assms(3)] obtain x where
    "x \<in> set (deliveries s)" "d_key x = d_key d" "expired_sending c at s x" "d_key d \<notin> locked"
    by auto
  moreover have "x = d"
    using distinct_key_unique [OF queue_inv_parts(3) [OF assms(1)] \<open>x \<in> _\<close> assms(2)] calculation by simp
  ultimately show ?thesis by simp
qed

text \<open>The statement as a whole, judged by the parents of its snapshot: \<open>raced\<close> says that some row it
  rewrites had its parents changed meanwhile. Without that, each row gets the verdict the current
  parents would give it.\<close>

lemma reap_row_parents:
  "parents s (d_key d) = parents t (d_key d) \<Longrightarrow> reap_row c at s d = reap_row c at t d"
  by (simp add: reap_row_def reap_decision_def)

lemma row_ok_reap_stale:
  assumes ok: "row_ok False rs d" and d: "d_status d = DSending"
  shows "row_ok False rs (reap_row c at snapshot d)"
proof (cases "reap_decision snapshot d")
  case ReapRetry
  then have "d_attempts d < d_max d" unfolding ReapRetry_iff by blast
  then show ?thesis
    by (intro row_ok_outcome [OF ok, of DPending])
      (use d ReapRetry in \<open>auto simp: reap_row_def clear_lease_def no_lease_def\<close>)
next
  case (ReapUnknown reason)
  show ?thesis
    by (rule row_ok_outcome [OF ok, of DUnknown])
      (use d ReapUnknown coalesce_message_nonempty [OF reap_reason_nonempty [OF ReapUnknown]] in
        \<open>auto simp: reap_row_def clear_lease_def no_lease_def\<close>)
next
  case ReapNothing
  then show ?thesis using ok by (simp add: reap_row_def)
qed

lemma queue_inv_relax: "queue_inv b now s \<Longrightarrow> queue_inv False now s"
  unfolding queue_inv_def row_ok_def by blast

lemma queue_inv_Reap_snapshot:
  assumes inv: "queue_inv b now s"
  shows "queue_inv (b \<and> \<not> raced c at skipped snapshot s) now (Reap_snapshot c at skipped snapshot s)"
proof (cases "raced c at skipped snapshot s \<or> \<not> b")
  case True
  have "queue_inv False now (Reap_snapshot c at skipped snapshot s)"
    unfolding Reap_snapshot_def
    by (rule queue_inv_update_deliveries [OF queue_inv_relax [OF inv]])
      (auto simp: reaped_def expired_sending_def intro: row_ok_reap_stale)
  then show ?thesis using True by auto
next
  case False
  have "queue_inv b now (Reap_snapshot c at skipped snapshot s)"
    unfolding Reap_snapshot_def
  proof (rule queue_inv_update_deliveries [OF inv])
    fix d assume d: "d \<in> set (deliveries s)" "reaped c at skipped snapshot d" "row_ok b (runs s) d"
    then have "parents snapshot (d_key d) = parents s (d_key d)" using False unfolding raced_def by blast
    then show "row_ok b (runs s) (reap_row c at snapshot d)"
      using row_ok_reap [OF inv d(1), of c at] d(2) reap_row_parents
      by (metis expired_sending_def reaped_def)
  qed simp
  then show ?thesis using False by simp
qed

text \<open>An undisturbed pass is the statement run on its own snapshot.\<close>

lemma Reap_snapshot_same:
  assumes "queue_inv b now s"
  shows "fst (Reap c at locked s) = Reap_snapshot c at locked s s" "\<not> raced c at locked s s"
proof -
  have "reaped c at locked s d \<longleftrightarrow> d_key d \<in> set (reap_candidates c at locked s)"
    if "d \<in> set (deliveries s)" for d
    using reap_candidate_sending [OF assms that] by (auto simp: reaped_def)
  then show "fst (Reap c at locked s) = Reap_snapshot c at locked s s"
    unfolding Reap_def Reap_snapshot_def Let_def fst_conv
    by (intro arg_cong [where f = "\<lambda>ds. s\<lparr>deliveries := ds\<rparr>"] update_where_cong) simp_all
qed (simp add: raced_def)

lemma queue_inv_Reap:
  assumes "queue_inv b now s"
  shows "queue_inv b now (fst (Reap c at locked s))"
  using queue_inv_Reap_snapshot [OF assms, of c at locked s] Reap_snapshot_same [OF assms, of c at locked]
  by simp

end
