(* ===== verification/Run_Invariant.thy ===== *)
theory Run_Invariant
  imports Queue_Invariant
begin

text \<open>
  Preservation of the queue invariant by the transactions that change runs and mailings:
  \<open>Queue\<close> appends a run, \<open>Stop\<close> and the reconciler retire the active one. Both retirements are
  instances of \<open>queue_inv_retire\<close>.
\<close>

section \<open>Latest runs\<close>

lemma latest_update_where:
  assumes "\<And>r. run_mailing (f r) = run_mailing r" "\<And>r. run_number (f r) = run_number r"
  shows "latest (update_where p f rs) x \<longleftrightarrow> latest rs x"
  unfolding latest_def by (induction rs) (auto simp: assms)

lemma latest_cong:
  "run_mailing x = run_mailing y \<Longrightarrow> run_number x = run_number y \<Longrightarrow> latest rs x = latest rs y"
  unfolding latest_def by simp

lemma active_latest:
  "runs_ok ms rs \<Longrightarrow> r \<in> set rs \<Longrightarrow> active_run r \<Longrightarrow> latest rs r"
  unfolding runs_ok_def by (metis (no_types, lifting))

lemma latest_unique:
  assumes "distinct (map (\<lambda>r. (run_mailing r, run_number r)) rs)"
    and "latest rs r" "latest rs x" "r \<in> set rs" "x \<in> set rs" "run_mailing r = run_mailing x"
  shows "r = x"
proof -
  have "run_number r = run_number x"
    using assms unfolding latest_def by (metis order_antisym)
  then show ?thesis using distinct_key_unique [OF assms(1,4,5)] assms(6) by simp
qed

section \<open>Retiring the active run\<close>

lemma queue_inv_retire:
  assumes inv: "queue_inv b now s"
    and m: "m \<in> set (mailings s)"
    and r: "r \<in> set (runs s)" "run_mailing r = mailing_id m" "active_run r"
    and f: "\<And>x. run_mailing (f x) = run_mailing x" "\<And>x. run_id (f x) = run_id x"
      "\<And>x. run_number (f x) = run_number x" "\<not> active_run (f r)" "run_ok now (f r)"
    and g: "\<And>x. mailing_id (g x) = mailing_id x" "verdict_ok (mailing_status (g m)) (run_status (f r))"
    and ds: "map d_key ds = map d_key (deliveries s)"
      "\<And>d. d \<in> set ds \<Longrightarrow> row_ok b (runs s) d"
      "\<And>d. d \<in> set ds \<Longrightarrow> run_of (d_key d) = run_id r \<Longrightarrow> d_status d \<noteq> DPending"
  shows "queue_inv b now (s\<lparr>runs := update_where (\<lambda>x. run_id x = run_id r) f (runs s),
    deliveries := ds, mailings := update_where (\<lambda>x. mailing_id x = mailing_id m) g (mailings s)\<rparr>)"
    (is "queue_inv b now (s\<lparr>runs := ?rs, deliveries := ds, mailings := ?ms\<rparr>)")
proof -
  note parts = queue_inv_parts [OF inv]
  have rs: "y \<in> set ?rs \<longleftrightarrow> y = f r \<or> (y \<in> set (runs s) \<and> y \<noteq> r)" for y
    by (rule set_update_unique [OF parts(2) r(1)])
  have ms: "y \<in> set ?ms \<longleftrightarrow> y = g m \<or> (y \<in> set (mailings s) \<and> y \<noteq> m)" for y
    by (rule set_update_unique [OF parts(1) m])
  have latest_rs: "latest ?rs x = latest (runs s) x" for x
    by (rule latest_update_where) (simp_all add: f)
  have r_latest: "latest (runs s) r" by (rule active_latest [OF parts(5) r(1,3)])
  have keys: "keys_ok (s\<lparr>runs := ?rs, deliveries := ds, mailings := ?ms\<rparr>)"
    using inv f g ds(1) map_key_update_where [of mailing_id g] map_key_update_where [of run_id f]
      map_key_update_where [of "\<lambda>r. (run_mailing r, run_number r)" f]
    by (simp add: queue_inv_def keys_ok_def)
  have agree: "\<exists>w \<in> set ?ms. mailing_id w = run_mailing x
        \<and> (if latest ?rs x then verdict_ok (mailing_status w) (run_status x) else \<not> active_run x)"
    if x: "x \<in> set ?rs" for x
  proof (cases "x = f r")
    case True
    have "latest ?rs x"
      unfolding latest_rs True using latest_cong [of "f r" r] f r_latest by simp
    then show ?thesis using True ms g f r by auto
  next
    case False
    then have x': "x \<in> set (runs s)" "x \<noteq> r" using x rs by auto
    obtain w where w: "w \<in> set (mailings s)" "mailing_id w = run_mailing x"
      "if latest (runs s) x then verdict_ok (mailing_status w) (run_status x) else \<not> active_run x"
      using parts(5) x' unfolding runs_ok_def by meson
    show ?thesis
    proof (cases "w = m")
      case True
      have "\<not> latest (runs s) x"
        using latest_unique [OF parts(4) _ r_latest x'(1) r(1)] x'(2) w(2) r(2) True by auto
      moreover have "g m \<in> set ?ms" using ms by blast
      ultimately show ?thesis using w True latest_rs g(1) by (intro bexI [of _ "g m"]) auto
    next
      case False
      then show ?thesis using w latest_rs ms by auto
    qed
  qed
  have "mailing_status (g m) \<noteq> MRunning \<and> mailing_status (g m) \<noteq> MPaused"
    using g(2) by (cases "mailing_status (g m)") auto
  then have "runs_ok ?ms ?rs"
    unfolding runs_ok_def
  proof (intro conjI ballI)
    fix w assume "w \<in> set ?ms"
    then show "mailing_status w \<noteq> MRunning" "mailing_status w \<noteq> MPaused"
      using \<open>mailing_status (g m) \<noteq> MRunning \<and> _\<close> ms parts(5) unfolding runs_ok_def by auto
  qed (rule agree)
  moreover have "\<forall>x \<in> set ?rs. run_ok now x"
    using rs f(5) parts(6) by auto
  moreover have "row_ok b ?rs d" if d: "d \<in> set ds" for d
  proof -
    obtain x where x: "x \<in> set (runs s)" "run_mailing x = mailing_of (d_key d)" "run_id x = run_of (d_key d)"
      "d_status d = DPending \<longrightarrow> active_run x \<or> (\<not> b \<and> 1 \<le> d_attempts d \<and> d_token d = None)"
      using ds(2) [OF d] unfolding row_ok_def by blast
    have "\<exists>y \<in> set ?rs. run_mailing y = mailing_of (d_key d) \<and> run_id y = run_of (d_key d)
        \<and> (d_status d = DPending \<longrightarrow> active_run y \<or> (\<not> b \<and> 1 \<le> d_attempts d \<and> d_token d = None))"
    proof (cases "x = r")
      case True
      then have "d_status d \<noteq> DPending" using ds(3) [OF d] x(3) by simp
      moreover have "f r \<in> set ?rs" using rs by blast
      ultimately show ?thesis using f x True by (intro bexI [of _ "f r"]) auto
    next
      case False
      then show ?thesis using rs x by blast
    qed
    then show ?thesis using ds(2) [OF d] unfolding row_ok_def by blast
  qed
  ultimately show ?thesis using keys by (simp add: queue_inv_def)
qed

section \<open>Stop\<close>

lemma Stop_cases:
  assumes "Stop at sc m s = (s', res)"
  obtains "s' = s" "res = Returns () \<longrightarrow> (\<exists>w. find_mailing s m = Some w \<and> mailing_status w = MStopped)"
  | row run where "find_mailing s m = Some row" "mailing_status row \<in> {MQueued, MRunning, MPaused}"
      "run \<in> set (runs s)" "run_mailing run = m" "active_run run" "res = Returns ()"
      "s' = set_mailing_status at m MStopped
         (s\<lparr>runs := update_where
             (\<lambda>r. run_mailing r = m \<and> run_id r = run_id run \<and> active_run r) (cancel_run at) (runs s),
            deliveries := update_where
             (\<lambda>d. mailing_of (d_key d) = m \<and> run_of (d_key d) = run_id run \<and> d_status d = DPending)
             (stop_delivery at) (deliveries s)\<rparr>)"
proof (cases "scoped_mailing s sc m")
  case None
  then show thesis using assms that(1) by (auto simp: Stop_def split: if_splits)
next
  case (Some row)
  have row: "find_mailing s m = Some row"
    using Some by (auto simp: scoped_mailing_def split: option.splits scope.splits if_splits)
  show thesis
  proof (cases "active_run_of s m")
    case None
    then show thesis using assms that(1) Some row by (auto simp: Stop_def split: if_splits)
  next
    case act: (Some run)
    show thesis
    proof (cases "valid_scope m sc \<and> mailing_status row \<in> {MQueued, MRunning, MPaused}")
      case True
      then have ok: "(mailing_status row = MStopped) = False"
        "(mailing_status row \<notin> {MQueued, MRunning, MPaused}) = False" "(\<not> valid_scope m sc) = False"
        by auto
      have "(s', res) = (set_mailing_status at m MStopped
         (s\<lparr>runs := update_where
             (\<lambda>r. run_mailing r = m \<and> run_id r = run_id run \<and> active_run r) (cancel_run at) (runs s),
            deliveries := update_where
             (\<lambda>d. mailing_of (d_key d) = m \<and> run_of (d_key d) = run_id run \<and> d_status d = DPending)
             (stop_delivery at) (deliveries s)\<rparr>), Returns ())"
        using assms unfolding Stop_def ok Some act option.case if_False by (rule sym)
      then show thesis using that(2) [OF row] True active_run_of_Some [OF act] by blast
    next
      case False
      have "s' = s \<and> (res = Returns () \<longrightarrow> mailing_status row = MStopped)"
      proof (cases "valid_scope m sc \<and> mailing_status row \<noteq> MStopped")
        case True
        then have ok: "(mailing_status row = MStopped) = False" "(\<not> valid_scope m sc) = False"
          "(mailing_status row \<notin> {MQueued, MRunning, MPaused}) = True" using False by auto
        show ?thesis using assms unfolding Stop_def ok Some option.case if_False if_True by auto
      next
        case False
        then show ?thesis using assms Some unfolding Stop_def
          by (cases "valid_scope m sc") auto
      qed
      then show thesis using that(1) row by blast
    qed
  qed
qed

lemma row_ok_stop:
  assumes "row_ok b rs d" "d_status d = DPending"
  shows "row_ok b rs (stop_delivery at d)"
proof (cases "d_attempts d = 0")
  case True
  have "delivery_checks (stop_delivery at d)"
    using assms True by (simp add: row_ok_def delivery_checks_iff stop_delivery_def clear_lease_def no_lease_def)
  then show ?thesis using assms True by (auto simp: row_ok_def stop_delivery_def clear_lease_def)
next
  case False
  show ?thesis
    by (rule row_ok_outcome [OF assms(1), of DUnknown])
      (use assms False coalesce_message_nonempty [OF stop_reason_nonempty] in
        \<open>auto simp: stop_delivery_def clear_lease_def no_lease_def row_ok_def\<close>)
qed

lemma stop_not_pending: "d_status (stop_delivery at d) \<noteq> DPending"
  by (simp add: stop_delivery_def clear_lease_def)

text \<open>Within the invariant, a mailing with an active run is queued and its run is queued.\<close>

lemma active_run_queued:
  assumes "queue_inv b now s" "r \<in> set (runs s)" "active_run r"
  shows "run_status r = RQueued" "run_started_at r = None" "run_finished_at r = None"
    "run_queued_at r \<le> now" "1 \<le> run_number r" "1 \<le> run_generation r"
  using queue_inv_parts(6) [OF assms(1,2)] assms(3)
  by (auto simp: run_ok_def active_run_def run_times_ok_def run_checks_iff)

lemma run_of_row:
  assumes inv: "queue_inv b now s" and d: "d \<in> set (deliveries s)" and r: "r \<in> set (runs s)"
    and eq: "run_of (d_key d) = run_id r"
  shows "mailing_of (d_key d) = run_mailing r"
proof -
  obtain x where "x \<in> set (runs s)" "run_mailing x = mailing_of (d_key d)" "run_id x = run_of (d_key d)"
    using queue_inv_parts(7) [OF inv d] by (auto simp: row_ok_def)
  moreover have "x = r"
    using distinct_key_unique [OF queue_inv_parts(2) [OF inv] _ r] calculation eq by simp
  ultimately show ?thesis by simp
qed

lemma queue_inv_Stop:
  assumes inv: "queue_inv b now s" and stop: "Stop now sc m s = (s', res)"
  shows "queue_inv b now s'"
  using stop
proof (cases rule: Stop_cases)
  case 1
  then show ?thesis using inv by simp
next
  case (2 row run)
  have row: "row \<in> set (mailings s)" "mailing_id row = m"
    using 2(1) find_mailing_iff [OF inv] by auto
  let ?ds = "update_where (\<lambda>d. mailing_of (d_key d) = m \<and> run_of (d_key d) = run_id run
      \<and> d_status d = DPending) (stop_delivery now) (deliveries s)"
  have runs: "update_where (\<lambda>r. run_mailing r = m \<and> run_id r = run_id run \<and> active_run r) (cancel_run now) (runs s)
      = update_where (\<lambda>r. run_id r = run_id run) (cancel_run now) (runs s)"
    by (rule update_where_cong)
      (use distinct_key_unique [OF queue_inv_parts(2) [OF inv] _ 2(3)] 2 in auto)
  have s': "s' = s\<lparr>runs := update_where (\<lambda>r. run_id r = run_id run) (cancel_run now) (runs s),
      deliveries := ?ds,
      mailings := update_where (\<lambda>x. mailing_id x = mailing_id row)
        (\<lambda>r. r\<lparr>mailing_status := MStopped, mailing_updated := now\<rparr>) (mailings s)\<rparr>"
    unfolding 2(7) runs by (simp add: set_mailing_status_def row)
  note q = active_run_queued [OF inv 2(3,5)]
  show ?thesis unfolding s'
  proof (rule queue_inv_retire [OF inv row(1) 2(3)])
    show "run_mailing run = mailing_id row" using 2(4) row by simp
    show "active_run run" by (fact 2(5))
    show "run_ok now (cancel_run now run)"
      using q by (simp add: run_ok_def run_checks_iff run_times_ok_def cancel_run_def)
    show "map d_key ?ds = map d_key (deliveries s)"
      by (rule map_key_update_where) simp
    fix d assume "d \<in> set ?ds"
    then obtain x where x: "x \<in> set (deliveries s)" and d: "d = (if mailing_of (d_key x) = m
        \<and> run_of (d_key x) = run_id run \<and> d_status x = DPending then stop_delivery now x else x)"
      by (auto simp: set_update_where)
    show "row_ok b (runs s) d"
      using d row_ok_stop queue_inv_parts(7) [OF inv x] by auto
    assume "run_of (d_key d) = run_id run"
    then show "d_status d \<noteq> DPending"
      using d run_of_row [OF inv x 2(3)] 2(4) stop_not_pending by (auto split: if_splits)
  qed (simp_all add: cancel_run_def active_run_def)
qed

section \<open>Reconciliation\<close>

lemma reconcile_cases:
  assumes "reconcileCandidate at c s = (s', res)"
  obtains "s' = s" "\<And>v. res \<noteq> Returns (Some v)"
  | m r v where "find_mailing s (c_mailing c) = Some m" "find_run s (c_mailing c) (c_run c) = Some r"
      "run_generation r = c_generation c" "activePair (mailing_status m) (run_status r)"
      "TerminalRunStatus (map d_status (run_deliveries s (c_mailing c) (c_run c))) = Some v"
proof (cases "find_mailing s (c_mailing c)")
  case None
  then show thesis using assms that(1) by (auto simp add: reconcileCandidate_def)
next
  case (Some m)
  note m = this
  show thesis
  proof (cases "find_run s (c_mailing c) (c_run c)")
    case None
    then show thesis using assms that(1) m by (auto simp add: reconcileCandidate_def)
  next
    case (Some r)
    then show thesis
      using assms that(1) that(2) [OF m Some] m
      by (cases "run_generation r = c_generation c \<and> activePair (mailing_status m) (run_status r)";
          cases "TerminalRunStatus (map d_status (run_deliveries s (c_mailing c) (c_run c)))")
        (auto simp: reconcileCandidate_def)
  qed
qed

text \<open>Within the invariant the guarded updates of the reconciler hit exactly one row each.\<close>

lemma reconcile_success:
  assumes inv: "queue_inv b now s"
    and m: "find_mailing s (c_mailing c) = Some m"
    and r: "find_run s (c_mailing c) (c_run c) = Some r"
    and gen: "run_generation r = c_generation c" and act: "activePair (mailing_status m) (run_status r)"
    and v: "TerminalRunStatus (map d_status (run_deliveries s (c_mailing c) (c_run c))) = Some v"
  shows "reconcileCandidate at c s =
    (s\<lparr>runs := update_where (\<lambda>x. run_id x = run_id r) (terminate_run at v) (runs s),
       mailings := update_where (\<lambda>x. mailing_id x = mailing_id m)
         (\<lambda>x. x\<lparr>mailing_status := terminal_mailing v, mailing_updated := at\<rparr>) (mailings s)\<rparr>,
     Returns (Some v))"
proof -
  have mm: "m \<in> set (mailings s)" "mailing_id m = c_mailing c"
    using m find_mailing_iff [OF inv] by auto
  have rr: "r \<in> set (runs s)" "run_mailing r = c_mailing c" "run_id r = c_run c"
    using r find_run_iff [OF inv] by auto
  have run_hit: "(run_mailing x = c_mailing c \<and> run_id x = c_run c
      \<and> run_generation x = c_generation c \<and> run_status x = run_status r) = (run_id x = run_id r)"
    if "x \<in> set (runs s)" for x
    using distinct_key_unique [OF queue_inv_parts(2) [OF inv] that rr(1)] rr gen by auto
  have mailing_hit: "(mailing_id x = c_mailing c \<and> mailing_status x = mailing_status m)
      = (mailing_id x = mailing_id m)" if "x \<in> set (mailings s)" for x
    using distinct_key_unique [OF queue_inv_parts(1) [OF inv] that mm(1)] mm by auto
  have c1: "count_where (\<lambda>x. run_mailing x = c_mailing c \<and> run_id x = c_run c
      \<and> run_generation x = c_generation c \<and> run_status x = run_status r) (runs s) = 1"
    using count_where_key [OF queue_inv_parts(2) [OF inv] rr(1)] run_hit
    by (simp add: count_where_def cong: filter_cong)
  have c2: "count_where (\<lambda>x. mailing_id x = c_mailing c \<and> mailing_status x = mailing_status m) (mailings s) = 1"
    using count_where_key [OF queue_inv_parts(1) [OF inv] mm(1)] mailing_hit
    by (simp add: count_where_def cong: filter_cong)
  have u1: "update_where (\<lambda>x. run_mailing x = c_mailing c \<and> run_id x = c_run c
      \<and> run_generation x = c_generation c \<and> run_status x = run_status r) (terminate_run at v) (runs s)
    = update_where (\<lambda>x. run_id x = run_id r) (terminate_run at v) (runs s)"
    by (rule update_where_cong) (use run_hit in auto)
  have u2: "update_where (\<lambda>x. mailing_id x = c_mailing c \<and> mailing_status x = mailing_status m) g (mailings s)
    = update_where (\<lambda>x. mailing_id x = mailing_id m) g (mailings s)" for g
    by (rule update_where_cong) (use mailing_hit in auto)
  show ?thesis
    using c1 c2 by (simp add: reconcileCandidate_def Let_def m r gen act v u1 u2)
qed

lemma queue_inv_reconcileCandidate:
  assumes inv: "queue_inv b now s" and rec: "reconcileCandidate now c s = (s', res)"
  shows "queue_inv b now s'"
  using rec
proof (cases rule: reconcile_cases)
  case 1
  then show ?thesis using inv by simp
next
  case (2 m r v)
  have mm: "m \<in> set (mailings s)" "mailing_id m = c_mailing c"
    using 2(1) find_mailing_iff [OF inv] by auto
  have rr: "r \<in> set (runs s)" "run_mailing r = c_mailing c" "run_id r = c_run c"
    using 2(2) find_run_iff [OF inv] by auto
  have act: "active_run r" by (rule active_run_active [OF 2(4)])
  note q = active_run_queued [OF inv rr(1) act]
  have "queue_inv b now (s\<lparr>runs := update_where (\<lambda>x. run_id x = run_id r) (terminate_run now v) (runs s),
       deliveries := deliveries s,
       mailings := update_where (\<lambda>x. mailing_id x = mailing_id m)
         (\<lambda>x. x\<lparr>mailing_status := terminal_mailing v, mailing_updated := now\<rparr>) (mailings s)\<rparr>)"
  proof (rule queue_inv_retire [OF inv mm(1) rr(1)])
    show "run_mailing r = mailing_id m" using mm rr by simp
    show "active_run r" by (fact act)
    show "\<not> active_run (terminate_run now v r)"
      by (cases v) (simp_all add: terminate_run_def active_run_def)
    show "run_ok now (terminate_run now v r)"
      using q by (cases v) (simp_all add: run_ok_def run_checks_iff run_times_ok_def terminate_run_def coalesce_time_def)
    show "verdict_ok (mailing_status (m\<lparr>mailing_status := terminal_mailing v, mailing_updated := now\<rparr>))
       (run_status (terminate_run now v r))"
      by (cases v) (simp_all add: terminate_run_def)
    fix d assume d: "d \<in> set (deliveries s)"
    show "row_ok b (runs s) d" by (rule queue_inv_parts(7) [OF inv d])
    assume "run_of (d_key d) = run_id r"
    then have "d \<in> set (run_deliveries s (c_mailing c) (c_run c))"
      using d run_of_row [OF inv d rr(1)] rr by (simp add: run_deliveries_def)
    then show "d_status d \<noteq> DPending"
      using TerminalRunStatus_no_pending [OF 2(5)] by force
  qed (simp_all add: terminate_run_def)
  then show ?thesis using reconcile_success [OF inv 2] rec by simp
qed

section \<open>Queue\<close>

definition queued_db :: "time \<Rightarrow> uuid \<Rightarrow> uuid \<Rightarrow> uuid list \<Rightarrow> db \<Rightarrow> db" where
  "queued_db now rid m eligible s = set_mailing_status now m MQueued
     (s\<lparr>runs := runs s @ [new_run now m rid (next_number s m)],
       deliveries := deliveries s @ map (new_delivery now m rid) eligible,
       telegram_deliveries := telegram_deliveries s @ map2 (new_telegram m rid) eligible
         (map (\<lambda>i. random_seq s + int i) [0..<length eligible]),
       random_seq := random_seq s + int (length eligible)\<rparr>)"

lemma Queue_cases:
  assumes "Queue at rid sc m s = (s', res)"
  obtains "s' = s" "res \<noteq> Returns ()"
  | row where "find_mailing s m = Some row" "mailing_status row \<in> {MDraft, MStopped}"
      "\<not> has_unresolved s m" "\<not> run_insert_violation s m rid" "eligible_recipients s row \<noteq> []"
      "res = Returns ()" "s' = queued_db at rid m (eligible_recipients s row) s"
proof (cases "scoped_mailing s sc m")
  case None
  then show thesis using assms that(1) by (auto simp: Queue_def split: if_split_asm)
next
  case (Some row)
  have row: "find_mailing s m = Some row"
    using Some by (auto simp: scoped_mailing_def split: option.splits scope.splits if_splits)
  show thesis
  proof (cases "valid_scope m sc \<and> mailing_status row \<in> {MDraft, MStopped} \<and> \<not> has_unresolved s m
      \<and> \<not> run_insert_violation s m rid \<and> eligible_recipients s row \<noteq> []
      \<and> \<not> max_sequence < random_seq s + int (length (eligible_recipients s row)) - 1")
    case True
    then have ok: "(mailing_status row \<noteq> MDraft \<and> mailing_status row \<noteq> MStopped) = False"
      "(\<not> valid_scope m sc) = False" "has_unresolved s m = False" "run_insert_violation s m rid = False"
      "(eligible_recipients s row = []) = False"
      "(max_sequence < random_seq s + int (length (eligible_recipients s row)) - 1) = False"
      by auto
    have "(s', res) = (queued_db at rid m (eligible_recipients s row) s, Returns ())"
      using assms unfolding Queue_def Let_def ok Some option.case if_False queued_db_def by (rule sym)
    then show thesis using that(2) [OF row] True by blast
  next
    case False
    have "s' = s \<and> res \<noteq> Returns ()"
      using assms False unfolding Queue_def Let_def Some option.case
      by (auto split: if_split_asm)
    then show thesis using that(1) by blast
  qed
qed

lemma eligible_distinct: "distinct (recipients s) \<Longrightarrow> distinct (eligible_recipients s row)"
  unfolding eligible_recipients_def
  by (auto simp: distinct_map inj_on_def intro!: distinct_filter)

lemma map_key_map2:
  "length xs = length ys \<Longrightarrow> map t_key (map2 (new_telegram m rid) xs ys) = map (Coordinates m rid) xs"
  by (induction xs ys rule: list_induct2) (simp_all add: new_telegram_def)

lemma map_random_map2:
  "length xs = length ys \<Longrightarrow> map t_random (map2 (new_telegram m rid) xs ys) = ys"
  by (induction xs ys rule: list_induct2) (simp_all add: new_telegram_def)

lemma row_ok_more_runs: "row_ok b rs d \<Longrightarrow> set rs \<subseteq> set rs' \<Longrightarrow> row_ok b rs' d"
  unfolding row_ok_def by blast

lemma row_ok_new:
  "new_run now m rid n \<in> set rs \<Longrightarrow> row_ok b rs (new_delivery now m rid x)"
  unfolding row_ok_def
  by (auto simp: new_delivery_def new_run_def delivery_checks_iff no_lease_def active_run_def intro!: bexI)

lemma keys_ok_append:
  assumes "keys_ok s" "map mailing_id ms = map mailing_id (mailings s)"
    "run_id x \<notin> set (map run_id (runs s))"
    "(run_mailing x, run_number x) \<notin> set (map (\<lambda>r. (run_mailing r, run_number r)) (runs s))"
    "distinct (map d_key (deliveries s @ ds))" "map t_key ts = map d_key ds"
    "distinct (map t_random (telegram_deliveries s @ ts))"
    "\<forall>t \<in> set ts. 1 \<le> t_random t \<and> t_random t < n" "random_seq s \<le> n"
  shows "keys_ok (s\<lparr>runs := runs s @ [x], deliveries := deliveries s @ ds,
    telegram_deliveries := telegram_deliveries s @ ts, random_seq := n, mailings := ms\<rparr>)"
proof -
  have "\<forall>t \<in> set (telegram_deliveries s @ ts). 1 \<le> t_random t \<and> t_random t < n"
    using assms(1,8,9) by (fastforce simp: keys_ok_def)
  then show ?thesis using assms unfolding keys_ok_def
    by (intro conjI) (simp_all del: set_map)
qed

lemma queue_keys_ok:
  assumes inv: "queue_inv b now s" and fresh: "\<not> run_insert_violation s m rid"
    and row: "row \<in> set (mailings s)"
  shows "keys_ok (queued_db now rid m (eligible_recipients s row) s)"
proof -
  define es where "es = eligible_recipients s row"
  define ys where "ys = map (\<lambda>i. random_seq s + int i) [0..<length es]"
  define ts where "ts = map2 (new_telegram m rid) es ys"
  have k: "keys_ok s" using inv by (simp add: queue_inv_def)
  have rid: "run_id r \<noteq> rid" if "r \<in> set (runs s)" for r
    using fresh that by (auto simp: run_insert_violation_def list_ex_iff)
  have old: "run_of (d_key d) \<noteq> rid" if d: "d \<in> set (deliveries s)" for d
    using queue_inv_parts(7) [OF inv d] rid by (auto simp: row_ok_def)
  have nums: "(m, next_number s m) \<notin> set (map (\<lambda>r. (run_mailing r, run_number r)) (runs s))"
    using next_number_greater by fastforce
  have es: "distinct es" using k eligible_distinct by (simp add: es_def keys_ok_def)
  have tkeys: "map t_key ts = map (Coordinates m rid) es" and trand: "map t_random ts = ys"
    unfolding ts_def ys_def by (rule map_key_map2, simp, rule map_random_map2, simp)
  have dkeys: "map d_key (map (new_delivery now m rid) es) = map (Coordinates m rid) es"
    by (simp add: new_delivery_def)
  have low: "x < random_seq s" if "x \<in> set (map t_random (telegram_deliveries s))" for x
    using k that by (auto simp: keys_ok_def)
  have "keys_ok (s\<lparr>runs := runs s @ [new_run now m rid (next_number s m)],
      deliveries := deliveries s @ map (new_delivery now m rid) es,
      telegram_deliveries := telegram_deliveries s @ ts,
      random_seq := random_seq s + int (length es),
      mailings := update_where (\<lambda>r. mailing_id r = m)
        (\<lambda>r. r\<lparr>mailing_status := MQueued, mailing_updated := now\<rparr>) (mailings s)\<rparr>)"
  proof (rule keys_ok_append [OF k])
    show "map mailing_id (update_where (\<lambda>r. mailing_id r = m)
        (\<lambda>r. r\<lparr>mailing_status := MQueued, mailing_updated := now\<rparr>) (mailings s))
        = map mailing_id (mailings s)"
      by (rule map_key_update_where) simp
    have "set (map d_key (deliveries s)) \<inter> set (map (Coordinates m rid) es) = {}"
      using old by (auto simp: set_eq_iff) (metis coordinates.sel(2))
    then show "distinct (map d_key (deliveries s @ map (new_delivery now m rid) es))"
      unfolding map_append dkeys
      using queue_inv_parts(3) [OF inv] es by (simp add: distinct_map inj_on_def)
    have "set (map t_random (telegram_deliveries s)) \<inter> set ys = {}"
      using low unfolding ys_def by fastforce
    moreover have "distinct ys" by (simp add: ys_def distinct_map inj_on_def)
    ultimately show "distinct (map t_random (telegram_deliveries s @ ts))"
      unfolding map_append trand using k by (simp add: keys_ok_def)
    show "\<forall>t \<in> set ts. 1 \<le> t_random t \<and> t_random t < random_seq s + int (length es)"
    proof
      fix t assume "t \<in> set ts"
      then have "t_random t \<in> set (map t_random ts)" by simp
      then show "1 \<le> t_random t \<and> t_random t < random_seq s + int (length es)"
        unfolding trand ys_def using k by (auto simp: keys_ok_def)
    qed
  qed (use rid nums tkeys dkeys in \<open>auto simp: new_run_def\<close>)
  then show ?thesis
    unfolding queued_db_def set_mailing_status_def es_def [symmetric] ys_def [symmetric] ts_def [symmetric]
    by simp
qed

lemma queue_runs_ok:
  assumes inv: "queue_inv b now s" and fresh: "\<not> run_insert_violation s m rid"
    and row: "row \<in> set (mailings s)" "mailing_id row = m"
  shows "runs_ok (mailings (queued_db now rid m es s)) (runs (queued_db now rid m es s))"
proof -
  note parts = queue_inv_parts [OF inv]
  let ?new = "new_run now m rid (next_number s m)"
  let ?g = "\<lambda>r. r\<lparr>mailing_status := MQueued, mailing_updated := now\<rparr>"
  let ?ms = "update_where (\<lambda>x. mailing_id x = mailing_id row) ?g (mailings s)"
  have ms: "y \<in> set ?ms \<longleftrightarrow> y = ?g row \<or> (y \<in> set (mailings s) \<and> y \<noteq> row)" for y
    by (rule set_update_unique [OF parts(1) row(1)])
  have inactive: "\<not> active_run r" if "r \<in> set (runs s)" "run_mailing r = m" for r
    using fresh that by (auto simp: run_insert_violation_def list_ex_iff)
  have new_latest: "latest (runs s @ [?new]) ?new"
    using next_number_greater [of _ s m] by (auto simp: latest_def new_run_def less_imp_le)
  have old_latest: "latest (runs s @ [?new]) r \<longleftrightarrow> run_mailing r \<noteq> m \<and> latest (runs s) r"
    if "r \<in> set (runs s)" for r
    using next_number_greater [of r s m] that by (auto simp: latest_def new_run_def)
  have agree: "\<exists>w \<in> set ?ms. mailing_id w = run_mailing x
      \<and> (if latest (runs s @ [?new]) x then verdict_ok (mailing_status w) (run_status x) else \<not> active_run x)"
    if x: "x \<in> set (runs s @ [?new])" for x
  proof (cases "x = ?new")
    case True
    have "?g row \<in> set ?ms" using ms by blast
    then show ?thesis using True new_latest row(2) by (intro bexI [of _ "?g row"]) (auto simp: new_run_def)
  next
    case False
    then have x': "x \<in> set (runs s)" using x by simp
    obtain w where w: "w \<in> set (mailings s)" "mailing_id w = run_mailing x"
      "if latest (runs s) x then verdict_ok (mailing_status w) (run_status x) else \<not> active_run x"
      using parts(5) x' unfolding runs_ok_def by meson
    show ?thesis
    proof (cases "run_mailing x = m")
      case True
      have "?g row \<in> set ?ms" using ms by blast
      then show ?thesis using True old_latest [OF x'] inactive [OF x' True] row(2)
        by (intro bexI [of _ "?g row"]) auto
    next
      case False
      then have "w \<noteq> row" using w(2) row(2) by auto
      then have "w \<in> set ?ms" using w(1) ms by blast
      moreover have "latest (runs s @ [?new]) x = latest (runs s) x"
        using False old_latest [OF x'] by simp
      ultimately show ?thesis using w(2,3) by (intro bexI [of _ w]) simp_all
    qed
  qed
  have "\<forall>w \<in> set ?ms. mailing_status w \<noteq> MRunning \<and> mailing_status w \<noteq> MPaused"
  proof
    fix w assume "w \<in> set ?ms"
    then show "mailing_status w \<noteq> MRunning \<and> mailing_status w \<noteq> MPaused"
      using ms parts(5) unfolding runs_ok_def by auto
  qed
  with agree have "runs_ok ?ms (runs s @ [?new])" unfolding runs_ok_def by blast
  then show ?thesis unfolding row(2) by (simp add: queued_db_def set_mailing_status_def)
qed

lemma queue_inv_Queue:
  assumes inv: "queue_inv b now s" and q: "Queue now rid sc m s = (s', res)"
  shows "queue_inv b now s'"
  using q
proof (cases rule: Queue_cases)
  case 1
  then show ?thesis using inv by simp
next
  case (2 row)
  have row: "row \<in> set (mailings s)" "mailing_id row = m"
    using 2(1) find_mailing_iff [OF inv] by auto
  let ?es = "eligible_recipients s row"
  let ?new = "new_run now m rid (next_number s m)"
  have runs: "runs s' = runs s @ [?new]"
    and dels: "deliveries s' = deliveries s @ map (new_delivery now m rid) ?es"
    unfolding 2(7) by (simp_all add: queued_db_def set_mailing_status_def)
  have "run_ok now ?new"
    by (simp add: run_ok_def run_checks_iff run_times_ok_def new_run_def next_number_def)
  then have "\<forall>r \<in> set (runs s'). run_ok now r"
    unfolding runs using queue_inv_parts(6) [OF inv] by auto
  moreover have "\<forall>d \<in> set (deliveries s'). row_ok b (runs s') d"
  proof
    fix d assume "d \<in> set (deliveries s')"
    then consider "d \<in> set (deliveries s)" | x where "d = new_delivery now m rid x"
      unfolding dels by auto
    then show "row_ok b (runs s') d"
    proof cases
      case 1
      show ?thesis by (rule row_ok_more_runs [OF queue_inv_parts(7) [OF inv 1]]) (auto simp: runs)
    next
      case 2
      show ?thesis unfolding 2 by (rule row_ok_new [of _ _ _ "next_number s m"]) (simp add: runs)
    qed
  qed
  ultimately show ?thesis
    unfolding queue_inv_def
    using queue_keys_ok [OF inv 2(4) row(1)] queue_runs_ok [OF inv 2(4) row, of ?es] unfolding 2(7)
    by blast
qed

end
