(* ===== verification/Transition_System.thy ===== *)
theory Transition_System
  imports Main
begin

text \<open>
  Reachable states of a step relation, and the interface every state machine of the development
  is proved correct through: \<open>invariant_system\<close> takes the initial states, the steps and an invariant,
  assumes the two laws of an inductive invariant, and yields the invariant in every reachable
  state and along every run. \<open>absorbing_system\<close> adds a set of rows that no step removes.
\<close>

inductive reachable :: "('s \<Rightarrow> bool) \<Rightarrow> ('s \<Rightarrow> 's \<Rightarrow> bool) \<Rightarrow> 's \<Rightarrow> bool"
  for init :: "'s \<Rightarrow> bool" and step :: "'s \<Rightarrow> 's \<Rightarrow> bool" where
  initial: "init s \<Longrightarrow> reachable init step s"
| later: "reachable init step s \<Longrightarrow> step s t \<Longrightarrow> reachable init step t"

lemma reachable_run: "reachable init step s \<Longrightarrow> rtranclp step s t \<Longrightarrow> reachable init step t"
  by (rotate_tac, induction rule: rtranclp_induct) (auto intro: reachable.later)

locale invariant_system =
  fixes init :: "'s \<Rightarrow> bool" and step :: "'s \<Rightarrow> 's \<Rightarrow> bool" and inv :: "'s \<Rightarrow> bool"
  assumes inv_initial: "init s \<Longrightarrow> inv s"
    and inv_step: "inv s \<Longrightarrow> step s t \<Longrightarrow> inv t"
begin

lemma inv_reachable: "reachable init step s \<Longrightarrow> inv s"
  by (induction rule: reachable.induct) (auto intro: inv_initial inv_step)

lemma inv_run: "rtranclp step s t \<Longrightarrow> inv s \<Longrightarrow> inv t"
  by (induction rule: rtranclp_induct) (auto intro: inv_step)

end

text \<open>A fact \<open>holds\<close> about a state that, once true within the invariant, stays true.\<close>

locale absorbing_system = invariant_system init step inv
  for init :: "'s \<Rightarrow> bool" and step :: "'s \<Rightarrow> 's \<Rightarrow> bool" and inv :: "'s \<Rightarrow> bool" +
  fixes holds :: "'x \<Rightarrow> 's \<Rightarrow> bool"
  assumes absorbs: "inv s \<Longrightarrow> step s t \<Longrightarrow> holds x s \<Longrightarrow> holds x t"
begin

lemma holds_run: "rtranclp step s t \<Longrightarrow> inv s \<Longrightarrow> holds x s \<Longrightarrow> holds x t"
  by (induction rule: rtranclp_induct) (auto intro: absorbs inv_run)

end

end
