(* ===== verification/Pipeline.thy ===== *)
theory Pipeline
  imports Run_Invariant Transition_System
begin

text \<open>
  The delivery pipeline as a state machine: the database, the clock, the sends a worker has under
  way, and the logs of all admissions and of all hand-overs to the transport. A step is one
  transaction of a store, a tick of the clock, an arbitrary change of the accounts by other
  components, the hand-over of an admitted delivery to the transport, or the loss of a send under
  way (a crash). Steps interleave freely: other transactions commit between the admission of a
  delivery and the call of the transport, and between that call and the finalisation. The commit
  of an admission may succeed without its answer reaching the worker (\<open>admit_unheard\<close>).

  All transactions but one lock and recheck the rows they judge by, so each is one step. The
  reaper's statement reads the mailing and run rows from its snapshot without locking them: its
  read (\<open>reap_read\<close>) and its commit (\<open>reap\<close>) are two steps, and \<open>p_raced\<close> records that some pass has
  judged a delivery by parents changed in between.
\<close>

record flight =
  fl_key :: coordinates
  fl_token :: uuid
  fl_attempt :: nat
  fl_random :: int
  fl_sent :: bool

record pipeline =
  p_db :: db
  p_now :: time
  p_flights :: "flight list"
  p_admissions :: "(coordinates \<times> int) list"
  p_sends :: "(coordinates \<times> int) list"
  p_reads :: "(time \<times> db) list"
  p_raced :: bool

inductive pipeline_step :: "pipeline \<Rightarrow> pipeline \<Rightarrow> bool" where
  tick: "p_now p \<le> later \<Longrightarrow> pipeline_step p (p\<lparr>p_now := later\<rparr>)"
| accounts: "pipeline_step p (p\<lparr>p_db := p_db p\<lparr>operator_accounts := xs, sessions := ys,
    dialog_syncs := zs\<rparr>\<rparr>)"
| queue: "Queue (p_now p) rid sc m (p_db p) = (s', queued) \<Longrightarrow> pipeline_step p (p\<lparr>p_db := s'\<rparr>)"
| stop: "Stop (p_now p) sc m (p_db p) = (s', stopped) \<Longrightarrow> pipeline_step p (p\<lparr>p_db := s'\<rparr>)"
| claim: "Claim lease (p_now p) token locked (p_db p) = (s', claimed) \<Longrightarrow>
    pipeline_step p (p\<lparr>p_db := s'\<rparr>)"
| renew: "Renew (p_now p) lease t (p_db p) = (s', renewed) \<Longrightarrow> pipeline_step p (p\<lparr>p_db := s'\<rparr>)"
| release: "Release (p_now p) cause t (p_db p) = (s', released) \<Longrightarrow>
    pipeline_step p (p\<lparr>p_db := s'\<rparr>)"
| admit: "admit (p_now p) k token (p_db p) = (s', Some (body, random, attempt)) \<Longrightarrow>
    pipeline_step p (p\<lparr>p_db := s',
      p_flights := \<lparr>fl_key = k, fl_token = token, fl_attempt = attempt, fl_random = random,
        fl_sent = False\<rparr> # p_flights p,
      p_admissions := (k, random) # p_admissions p\<rparr>)"
| admit_unheard: "admit (p_now p) k token (p_db p) = (s', Some (body, random, attempt)) \<Longrightarrow>
    pipeline_step p (p\<lparr>p_db := s', p_admissions := (k, random) # p_admissions p\<rparr>)"
| transport: "fl \<in> set (p_flights p) \<Longrightarrow> \<not> fl_sent fl \<Longrightarrow>
    pipeline_step p (p\<lparr>p_flights := fl\<lparr>fl_sent := True\<rparr> # remove1 fl (p_flights p),
      p_sends := (fl_key fl, fl_random fl) # p_sends p\<rparr>)"
| delivered: "fl \<in> set (p_flights p) \<Longrightarrow> fl_sent fl \<Longrightarrow>
    finalize_sent (p_now p) (fl_key fl) (fl_random fl) (fl_attempt fl) (p_db p) = (s', finalized) \<Longrightarrow>
    pipeline_step p (p\<lparr>p_db := s', p_flights := remove1 fl (p_flights p)\<rparr>)"
| refused: "fl \<in> set (p_flights p) \<Longrightarrow> fl_sent fl \<Longrightarrow>
    pipeline_step p (p\<lparr>p_db := finalizeNegative (p_now p) (fl_key fl) (fl_token fl) failure message
        (fl_attempt fl) (fl_random fl) (p_db p),
      p_flights := remove1 fl (p_flights p)\<rparr>)"
| interrupted: "fl \<in> set (p_flights p) \<Longrightarrow> fl_sent fl \<Longrightarrow>
    pipeline_step p (p\<lparr>p_db := quarantine (p_now p) (fl_key fl) (fl_token fl) message
        (fl_attempt fl) (fl_random fl) (p_db p),
      p_flights := remove1 fl (p_flights p)\<rparr>)"
| lost: "fl \<in> set (p_flights p) \<Longrightarrow>
    pipeline_step p (p\<lparr>p_flights := remove1 fl (p_flights p)\<rparr>)"
| reap_read: "pipeline_step p (p\<lparr>p_reads := (p_now p, p_db p) # p_reads p\<rparr>)"
| reap: "(at, snapshot) \<in> set (p_reads p) \<Longrightarrow>
    pipeline_step p (p\<lparr>p_db := Reap_snapshot c at skipped snapshot (p_db p),
      p_reads := remove1 (at, snapshot) (p_reads p),
      p_raced := p_raced p \<or> raced c at skipped snapshot (p_db p)\<rparr>)"
| reconcile: "reconcileCandidate (p_now p) candidate (p_db p) = (s', verdict) \<Longrightarrow>
    pipeline_step p (p\<lparr>p_db := s'\<rparr>)"

definition pipeline_init :: "pipeline \<Rightarrow> bool" where
  "pipeline_init p \<longleftrightarrow> runs (p_db p) = [] \<and> deliveries (p_db p) = [] \<and> telegram_deliveries (p_db p) = []
     \<and> random_seq (p_db p) = 1 \<and> distinct (map mailing_id (mailings (p_db p)))
     \<and> list_all (\<lambda>m. mailing_status m = MDraft) (mailings (p_db p)) \<and> distinct (recipients (p_db p))
     \<and> p_flights p = [] \<and> p_admissions p = [] \<and> p_sends p = [] \<and> p_reads p = [] \<and> \<not> p_raced p"

section \<open>Attempts and the logs\<close>

definition attempts_of :: "db \<Rightarrow> (coordinates \<times> nat) list" where
  "attempts_of s = map (\<lambda>d. (d_key d, d_attempts d)) (deliveries s)"

definition sent_keys :: "db \<Rightarrow> coordinates set" where
  "sent_keys s = d_key ` {d \<in> set (deliveries s). d_status d = DSent}"

definition admissions_of :: "pipeline \<Rightarrow> coordinates \<Rightarrow> nat" where
  "admissions_of p k = count_list (map fst (p_admissions p)) k"

definition sends_of :: "pipeline \<Rightarrow> coordinates \<Rightarrow> nat" where
  "sends_of p k = count_list (map fst (p_sends p)) k"

text \<open>The admitted sends of a delivery that have not reached the transport yet.\<close>

definition unsent :: "coordinates \<Rightarrow> flight \<Rightarrow> bool" where
  "unsent k fl \<longleftrightarrow> fl_key fl = k \<and> \<not> fl_sent fl"

definition waiting :: "pipeline \<Rightarrow> coordinates \<Rightarrow> nat" where
  "waiting p k = length (filter (unsent k) (p_flights p))"

definition sends_inv :: "pipeline \<Rightarrow> bool" where
  "sends_inv p \<longleftrightarrow>
     (\<forall>(k, n) \<in> set (attempts_of (p_db p)). admissions_of p k = n)
   \<and> (\<forall>k. sends_of p k + waiting p k \<le> admissions_of p k)
   \<and> (\<forall>(k, r) \<in> set (p_admissions p). \<exists>t \<in> set (telegram_deliveries (p_db p)). t_key t = k \<and> t_random t = r)
   \<and> (\<forall>fl \<in> set (p_flights p). (fl_key fl, fl_random fl) \<in> set (p_admissions p))
   \<and> (\<forall>fl \<in> set (p_flights p). fl_sent fl \<longrightarrow> (fl_key fl, fl_random fl) \<in> set (p_sends p))
   \<and> set (p_sends p) \<subseteq> set (p_admissions p)
   \<and> (\<forall>k \<in> sent_keys (p_db p). 1 \<le> sends_of p k)
   \<and> (\<forall>d \<in> set (deliveries (p_db p)). d_max d = 5)"

lemma sends_inv_parts:
  assumes "sends_inv p"
  shows "d \<in> set (deliveries (p_db p)) \<Longrightarrow> admissions_of p (d_key d) = d_attempts d"
    "sends_of p k + waiting p k \<le> admissions_of p k"
    "(k, r) \<in> set (p_admissions p) \<Longrightarrow> \<exists>t \<in> set (telegram_deliveries (p_db p)). t_key t = k \<and> t_random t = r"
    "fl \<in> set (p_flights p) \<Longrightarrow> (fl_key fl, fl_random fl) \<in> set (p_admissions p)"
    "fl \<in> set (p_flights p) \<Longrightarrow> fl_sent fl \<Longrightarrow> (fl_key fl, fl_random fl) \<in> set (p_sends p)"
    "set (p_sends p) \<subseteq> set (p_admissions p)"
    "d \<in> set (deliveries (p_db p)) \<Longrightarrow> d_status d = DSent \<Longrightarrow> 1 \<le> sends_of p (d_key d)"
    "d \<in> set (deliveries (p_db p)) \<Longrightarrow> d_max d = 5"
  using assms by (auto simp: sends_inv_def attempts_of_def sent_keys_def)

lemma length_filter_remove1:
  "x \<in> set xs \<Longrightarrow> P x \<Longrightarrow> length (filter P xs) = Suc (length (filter P (remove1 x xs)))"
  "\<not> P x \<Longrightarrow> filter P (remove1 x xs) = filter P xs"
  by (induction xs) auto

lemma length_filter_remove1_le: "length (filter P (remove1 x xs)) \<le> length (filter P xs)"
  by (induction xs) auto

text \<open>What the statements other than queueing and admission keep; only a confirmed send makes a row
  sent.\<close>

definition same_sends :: "coordinates set \<Rightarrow> db \<Rightarrow> db \<Rightarrow> bool" where
  "same_sends ks s s' \<longleftrightarrow> attempts_of s' = attempts_of s
     \<and> telegram_deliveries s' = telegram_deliveries s
     \<and> map d_max (deliveries s') = map d_max (deliveries s)
     \<and> sent_keys s' \<subseteq> sent_keys s \<union> ks"

lemma same_sends_refl [simp]: "same_sends ks s s"
  by (simp add: same_sends_def)

lemma same_sends_update:
  assumes "\<And>d. d_key (f d) = d_key d" "\<And>d. d_attempts (f d) = d_attempts d" "\<And>d. d_max (f d) = d_max d"
    and "\<And>d. p d \<Longrightarrow> d_status (f d) = DSent \<Longrightarrow> d_status d = DSent \<or> d_key d \<in> ks"
  shows "same_sends ks s (s\<lparr>deliveries := update_where p f (deliveries s)\<rparr>)"
proof -
  have "sent_keys (s\<lparr>deliveries := update_where p f (deliveries s)\<rparr>) \<subseteq> sent_keys s \<union> ks"
    using assms(1,4) by (fastforce simp: sent_keys_def set_update_where split: if_split_asm)
  then show ?thesis
    unfolding same_sends_def attempts_of_def
    using map_key_update_where [of "\<lambda>d. (d_key d, d_attempts d)" f] map_key_update_where [of d_max f] assms
    by simp
qed

lemma row_updates_attempts [simp]:
  "d_attempts (lease_delivery now lease token gen d) = d_attempts d"
  "d_attempts (release_delivery now cause d) = d_attempts d"
  "d_attempts (sent_row now d) = d_attempts d"
  "d_attempts (stop_delivery now d) = d_attempts d"
  "d_attempts (negative_row now c m g a d) = d_attempts d"
  "d_attempts (reap_row rc now s d) = d_attempts d"
  "d_max (lease_delivery now lease token gen d) = d_max d"
  "d_max (release_delivery now cause d) = d_max d"
  "d_max (sent_row now d) = d_max d"
  "d_max (stop_delivery now d) = d_max d"
  "d_max (admit_row now d) = d_max d"
  "d_max (negative_row now c m g a d) = d_max d"
  "d_max (reap_row rc now s d) = d_max d"
  by (simp_all add: row_defs reap_row_def split: reap_verdict.split)

lemma row_updates_not_sent [simp]:
  "d_status (lease_delivery now lease token gen d) = d_status d"
  "d_status (release_delivery now cause d) = d_status d"
  "d_status (stop_delivery now d) \<noteq> DSent"
  "d_status (admit_row now d) \<noteq> DSent"
  "d_status (negative_row now c m g a d) \<noteq> DSent"
  "d_status (reap_row rc now s d) = DSent \<longleftrightarrow> reap_decision s d = ReapNothing \<and> d_status d = DSent"
  by (simp_all add: row_defs reap_row_def split: reap_verdict.split)

lemma same_sends_runs:
  "same_sends ks s s' \<Longrightarrow> same_sends ks s (s'\<lparr>runs := rs, mailings := ms\<rparr>)"
  by (simp add: same_sends_def attempts_of_def sent_keys_def)

lemma same_sends_Claim: "Claim lease at token locked s = (s', res) \<Longrightarrow> same_sends ks s s'"
  by (auto simp: Claim_def split: option.splits if_split_asm intro!: same_sends_update)

lemma same_sends_Renew: "Renew at lease t s = (s', res) \<Longrightarrow> same_sends ks s s'"
  by (erule Renew_cases) (auto intro!: same_sends_update)

lemma same_sends_Release: "Release at cause t s = (s', res) \<Longrightarrow> same_sends ks s s'"
  by (auto simp: Release_def split: if_split_asm intro!: same_sends_update)

lemma same_sends_finalize_sent:
  "finalize_sent at k random attempt s = (s', res) \<Longrightarrow> same_sends {k} s s'"
  by (erule finalize_sent_cases) (auto simp: sendable_def intro!: same_sends_update)

lemma same_sends_finalizeNegative:
  "same_sends ks s (finalizeNegative at k token cause message attempt random s)"
  by (rule finalizeNegative_cases [of at k token cause message attempt random s])
    (auto intro!: same_sends_update)

lemma same_sends_quarantine: "same_sends ks s (quarantine at k token message attempt random s)"
  unfolding quarantine_def by (auto intro!: same_sends_update)

lemma same_sends_Reap_snapshot: "same_sends ks s (Reap_snapshot c at skipped snapshot s)"
  unfolding Reap_snapshot_def by (auto intro!: same_sends_update)

lemma same_sends_Stop: "Stop at sc m s = (s', res) \<Longrightarrow> same_sends ks s s'"
proof (erule Stop_cases)
  fix run
  let ?ds = "update_where (\<lambda>d. mailing_of (d_key d) = m \<and> run_of (d_key d) = run_id run
      \<and> d_status d = DPending) (stop_delivery at) (deliveries s)"
  assume s': "s' = set_mailing_status at m MStopped
      (s\<lparr>runs := update_where (\<lambda>r. run_mailing r = m \<and> run_id r = run_id run \<and> active_run r)
           (cancel_run at) (runs s), deliveries := ?ds\<rparr>)"
  have "same_sends ks s (s\<lparr>deliveries := ?ds\<rparr>)" by (rule same_sends_update) simp_all
  then show "same_sends ks s s'"
    unfolding s' by (simp add: same_sends_def attempts_of_def set_mailing_status_def sent_keys_def)
qed simp

lemma same_sends_reconcile:
  assumes "queue_inv b now s" "reconcileCandidate at c s = (s', res)"
  shows "same_sends ks s s'"
  using assms(2)
proof (cases rule: reconcile_cases)
  case (2 m r v)
  then show ?thesis
    using reconcile_success [OF assms(1) 2, of at] assms(2) by (simp add: same_sends_runs)
qed simp

lemma sends_inv_same:
  assumes inv: "sends_inv p" and same: "same_sends ks (p_db p) (p_db q)"
    and logs: "p_admissions q = p_admissions p" "p_sends q = p_sends p"
    and flights: "set (p_flights q) \<subseteq> set (p_flights p)" "\<And>k. waiting q k \<le> waiting p k"
    and ks: "\<And>k. k \<in> ks \<Longrightarrow> 1 \<le> sends_of p k"
  shows "sends_inv q"
proof -
  have counts: "admissions_of q = admissions_of p" "sends_of q = sends_of p"
    using logs by (simp_all add: admissions_of_def [abs_def] sends_of_def [abs_def])
  have "\<forall>d \<in> set (deliveries (p_db q)). d_max d = 5"
  proof
    fix d assume "d \<in> set (deliveries (p_db q))"
    then have "d_max d \<in> set (map d_max (deliveries (p_db p)))"
      using same unfolding same_sends_def by (metis image_eqI set_map)
    then show "d_max d = 5" using inv by (auto simp: sends_inv_def)
  qed
  moreover have "sends_of q k + waiting q k \<le> admissions_of q k" for k
    using sends_inv_parts(2) [OF inv, of k] flights(2) [of k] by (simp add: counts)
  moreover have "1 \<le> sends_of q k" if "k \<in> sent_keys (p_db q)" for k
    using same ks inv that unfolding counts same_sends_def sends_inv_def by blast
  moreover have "attempts_of (p_db q) = attempts_of (p_db p)"
    "telegram_deliveries (p_db q) = telegram_deliveries (p_db p)"
    using same by (simp_all add: same_sends_def)
  moreover have "\<forall>fl \<in> set (p_flights q). (fl_key fl, fl_random fl) \<in> set (p_admissions p)"
    "\<forall>fl \<in> set (p_flights q). fl_sent fl \<longrightarrow> (fl_key fl, fl_random fl) \<in> set (p_sends p)"
    using flights(1) sends_inv_parts(4,5) [OF inv] by blast+
  ultimately show ?thesis
    using inv by (simp add: sends_inv_def counts logs)
qed

text \<open>An admission increments the attempt counter and the log together; the send it starts, if the
  worker hears of it, waits for the transport.\<close>

lemma sends_inv_admit:
  assumes inv: "queue_inv b now (p_db p)" "sends_inv p"
    and adm: "admit at k token (p_db p) = (s', Some (body, random, attempt))"
    and q: "p_db q = s'" "p_admissions q = (k, random) # p_admissions p" "p_sends q = p_sends p"
    and flights: "p_flights q = p_flights p \<or> p_flights q = \<lparr>fl_key = k, fl_token = token,
      fl_attempt = attempt, fl_random = random, fl_sent = False\<rparr> # p_flights p"
  shows "sends_inv q"
  using adm
proof (cases rule: admit_Some)
  case (1 d m r t)
  have t: "t \<in> set (telegram_deliveries (p_db p))" "t_key t = k"
    using 1(4) find_telegram_iff [OF inv(1)] by auto
  have adms: "admissions_of q x = (if x = k then Suc (admissions_of p x) else admissions_of p x)" for x
    using q(2) by (simp add: admissions_of_def)
  have sends: "sends_of q x = sends_of p x" for x using q(3) by (simp add: sends_of_def)
  have waits: "waiting q x \<le> (if x = k then Suc (waiting p x) else waiting p x)" for x
    using flights by (auto simp: waiting_def unsent_def)
  have rows: "admissions_of q (d_key x) = d_attempts x \<and> d_max x = 5
      \<and> (d_status x = DSent \<longrightarrow> 1 \<le> sends_of q (d_key x))" if x: "x \<in> set (deliveries s')" for x
  proof -
    obtain y where y: "y \<in> set (deliveries (p_db p))" "x = (if d_key y = k then admit_row at y else y)"
      using x unfolding 1(10) by (auto simp: set_update_where)
    then show ?thesis
      using sends_inv_parts(1,7,8) [OF inv(2) y(1)] by (auto simp: adms sends admit_row_def)
  qed
  have "sends_of q x + waiting q x \<le> admissions_of q x" for x
    using sends_inv_parts(2) [OF inv(2), of x] waits [of x] by (auto simp: adms sends split: if_split_asm)
  moreover have "telegram_deliveries s' = telegram_deliveries (p_db p)" by (simp add: 1(10))
  ultimately show ?thesis
    using inv(2) t 1(8) rows flights q unfolding sends_inv_def attempts_of_def sent_keys_def
    by auto
qed

lemma sends_inv_transport:
  assumes inv: "sends_inv p" and fl: "fl \<in> set (p_flights p)" "\<not> fl_sent fl"
  shows "sends_inv (p\<lparr>p_flights := fl\<lparr>fl_sent := True\<rparr> # remove1 fl (p_flights p),
      p_sends := (fl_key fl, fl_random fl) # p_sends p\<rparr>)" (is "sends_inv ?q")
proof -
  have sub: "set (remove1 fl (p_flights p)) \<subseteq> set (p_flights p)" by (rule set_remove1_subset)
  have "sends_of ?q k + waiting ?q k = sends_of p k + waiting p k" for k
    using length_filter_remove1(1) [of fl "p_flights p" "unsent k"]
      length_filter_remove1(2) [of "unsent k" fl "p_flights p"] fl
    by (auto simp: sends_of_def waiting_def unsent_def)
  moreover have "sends_of p k \<le> sends_of ?q k" for k by (simp add: sends_of_def)
  then have "1 \<le> sends_of ?q k" if "k \<in> sent_keys (p_db p)" for k
    using inv that unfolding sends_inv_def by (meson le_trans)
  moreover have "admissions_of ?q = admissions_of p" by (simp add: admissions_of_def [abs_def])
  ultimately show ?thesis
    using inv sub sends_inv_parts(4) [OF inv fl(1)] unfolding sends_inv_def by auto
qed

lemma sends_inv_Queue:
  assumes inv: "queue_inv b now (p_db p)" "sends_inv p"
    and q: "Queue at rid sc m (p_db p) = (s', res)"
  shows "sends_inv (p\<lparr>p_db := s'\<rparr>)"
  using q
proof (cases rule: Queue_cases)
  case 1
  then show ?thesis using inv(2) by simp
next
  case (2 row)
  let ?es = "eligible_recipients (p_db p) row" and ?q = "p\<lparr>p_db := s'\<rparr>"
  have dels: "deliveries s' = deliveries (p_db p) @ map (new_delivery at m rid) ?es"
    and tele: "set (telegram_deliveries (p_db p)) \<subseteq> set (telegram_deliveries s')"
    unfolding 2(7) by (auto simp: queued_db_def set_mailing_status_def)
  have keys: "map t_key (telegram_deliveries (p_db p)) = map d_key (deliveries (p_db p))"
    using inv(1) by (simp add: queue_inv_def keys_ok_def)
  have counts: "admissions_of ?q = admissions_of p" "sends_of ?q = sends_of p" "waiting ?q = waiting p"
    by (simp_all add: admissions_of_def [abs_def] sends_of_def [abs_def] waiting_def [abs_def])
  have none: "admissions_of p (Coordinates m rid x) = 0" for x
  proof -
    have "Coordinates m rid x \<notin> set (map fst (p_admissions p))"
    proof
      assume "Coordinates m rid x \<in> set (map fst (p_admissions p))"
      then have "Coordinates m rid x \<in> set (map t_key (telegram_deliveries (p_db p)))"
        using inv(2) unfolding sends_inv_def by fastforce
      then obtain d where d: "d \<in> set (deliveries (p_db p))" "d_key d = Coordinates m rid x"
        unfolding keys by auto
      obtain r where "r \<in> set (runs (p_db p))" "run_id r = rid"
        using queue_inv_parts(7) [OF inv(1) d(1)] d(2) by (auto simp: row_ok_def)
      then show False using 2(4) by (auto simp: run_insert_violation_def list_ex_iff)
    qed
    then show ?thesis by (simp add: admissions_of_def count_list_0_iff)
  qed
  have "admissions_of p (d_key d) = d_attempts d \<and> d_max d = 5
      \<and> (d_status d = DSent \<longrightarrow> 1 \<le> sends_of p (d_key d))" if "d \<in> set (deliveries s')" for d
    using that sends_inv_parts(1,7,8) [OF inv(2)] none unfolding dels
    by (auto simp: new_delivery_def)
  moreover have "\<exists>t \<in> set (telegram_deliveries s'). t_key t = k \<and> t_random t = r"
    if "(k, r) \<in> set (p_admissions p)" for k r
    using sends_inv_parts(3) [OF inv(2) that] tele by blast
  ultimately show ?thesis
    using inv(2) unfolding sends_inv_def counts by (auto simp: attempts_of_def sent_keys_def)
qed

section \<open>The invariant of the pipeline\<close>

definition pipeline_inv :: "pipeline \<Rightarrow> bool" where
  "pipeline_inv p \<longleftrightarrow> queue_inv (\<not> p_raced p) (p_now p) (p_db p) \<and> sends_inv p"

lemma queue_inv_accounts:
  "queue_inv b now s \<Longrightarrow> queue_inv b now (s\<lparr>operator_accounts := xs, sessions := ys, dialog_syncs := zs\<rparr>)"
  by (simp add: queue_inv_def keys_ok_def)

lemma pipeline_inv_same:
  assumes "sends_inv p" and "queue_inv (\<not> p_raced q) (p_now q) (p_db q)"
    and "same_sends {} (p_db p) (p_db q)" "p_admissions q = p_admissions p" "p_sends q = p_sends p"
    and "p_flights q = p_flights p \<or> p_flights q = remove1 fl (p_flights p)"
  shows "pipeline_inv q"
proof -
  have "waiting q k \<le> waiting p k" for k
    using assms(6) length_filter_remove1_le by (auto simp: waiting_def)
  moreover have "set (p_flights q) \<subseteq> set (p_flights p)" using assms(6) set_remove1_subset [of fl "p_flights p"] by auto
  ultimately have "sends_inv q" using sends_inv_same [OF assms(1,3-5)] by blast
  then show ?thesis using assms(2) by (simp add: pipeline_inv_def)
qed

lemma pipeline_inv_step:
  assumes inv: "pipeline_inv p" and step: "pipeline_step p q"
  shows "pipeline_inv q"
proof -
  note q = inv [unfolded pipeline_inv_def, THEN conjunct1] and s = inv [unfolded pipeline_inv_def, THEN conjunct2]
  note same = pipeline_inv_same [OF s, of q]
  from step show ?thesis
  proof cases
    case (tick later)
    then show ?thesis using queue_inv_mono [OF q] by (intro same) simp_all
  next
    case (accounts xs ys zs)
    then show ?thesis using queue_inv_accounts [OF q]
      by (intro same) (simp_all add: same_sends_def attempts_of_def sent_keys_def)
  next
    case (queue rid sc m s' queued)
    then show ?thesis using queue_inv_Queue [OF q] sends_inv_Queue [OF q s] by (simp add: pipeline_inv_def)
  next
    case (stop sc m s' stopped)
    then show ?thesis using queue_inv_Stop [OF q] same_sends_Stop by (intro same) simp_all
  next
    case (claim lease token locked s' claimed)
    then show ?thesis using queue_inv_Claim [OF q] same_sends_Claim by (intro same) simp_all
  next
    case (renew lease t s' renewed)
    then show ?thesis using queue_inv_Renew [OF q] same_sends_Renew by (intro same) simp_all
  next
    case (release cause t s' released)
    then show ?thesis using queue_inv_Release [OF q] same_sends_Release by (intro same) simp_all
  next
    case (admit k token s' body random attempt)
    then show ?thesis using queue_inv_admit [OF q admit(2)] sends_inv_admit [OF q s admit(2), of q]
      by (simp add: pipeline_inv_def)
  next
    case (admit_unheard k token s' body random attempt)
    then show ?thesis using queue_inv_admit [OF q admit_unheard(2)] sends_inv_admit [OF q s admit_unheard(2), of q]
      by (simp add: pipeline_inv_def)
  next
    case (transport fl)
    then show ?thesis using q sends_inv_transport [OF s transport(2,3)] by (simp add: pipeline_inv_def)
  next
    case (delivered fl s' finalized)
    have "1 \<le> sends_of p (fl_key fl)"
      using sends_inv_parts(5) [OF s delivered(2,3)] unfolding sends_of_def
      by (metis One_nat_def Suc_leI count_list_0_iff fst_conv gr0I image_eqI set_map)
    then have "sends_inv q"
      using delivered same_sends_finalize_sent [OF delivered(4)] length_filter_remove1_le set_remove1_subset [of fl "p_flights p"]
      by (intro sends_inv_same [OF s, of "{fl_key fl}"]) (auto simp: waiting_def)
    then show ?thesis using queue_inv_finalize_sent [OF q delivered(4)] delivered(1) by (simp add: pipeline_inv_def)
  next
    case (refused fl failure message)
    then show ?thesis
      using queue_inv_finalizeNegative [OF q] same_sends_finalizeNegative by (intro same [of fl]) simp_all
  next
    case (interrupted fl message)
    then show ?thesis
      using queue_inv_quarantine [OF q] same_sends_quarantine by (intro same [of fl]) simp_all
  next
    case (lost fl)
    then show ?thesis using q by (intro same [of fl]) simp_all
  next
    case reap_read
    then show ?thesis using q by (intro same) simp_all
  next
    case (reap at snapshot c skipped)
    then show ?thesis
      using queue_inv_Reap_snapshot [OF q, of c at skipped snapshot] same_sends_Reap_snapshot
      by (intro same) simp_all
  next
    case (reconcile candidate s' verdict)
    then show ?thesis
      using queue_inv_reconcileCandidate [OF q] same_sends_reconcile [OF q] by (intro same) simp_all
  qed
qed

lemma pipeline_inv_init: "pipeline_init p \<Longrightarrow> pipeline_inv p"
  by (auto simp: pipeline_init_def pipeline_inv_def queue_inv_def keys_ok_def runs_ok_def
      sends_inv_def attempts_of_def sent_keys_def sends_of_def waiting_def list_all_iff)

interpretation pipeline_sys: invariant_system pipeline_init pipeline_step pipeline_inv
  by unfold_locales (auto intro: pipeline_inv_init pipeline_inv_step)

end
