(* ===== verification/Pipeline_Final.thy ===== *)
theory Pipeline_Final
  imports Pipeline
begin

text \<open>
  What the pipeline never undoes: a sent delivery row, the end of a run, and the stranding of a
  delivery by a reaper pass that lost its race against a stop. All are absorbing facts of the
  pipeline (\<open>absorbing_system\<close>), so they hold along every later run of it.
\<close>

section \<open>Sent rows\<close>

definition keeps_sent :: "db \<Rightarrow> db \<Rightarrow> bool" where
  "keeps_sent s s' \<longleftrightarrow> (\<forall>d \<in> set (deliveries s). d_status d = DSent \<longrightarrow> d \<in> set (deliveries s'))"

lemma kept_row: "d \<in> set xs \<Longrightarrow> \<not> p d \<Longrightarrow> d \<in> set (update_where p f xs)"
  by (induction xs) auto

lemma keeps_sent_refl [simp]: "keeps_sent s s"
  by (simp add: keeps_sent_def)

lemma keeps_sent_update:
  assumes "\<And>d. d \<in> set (deliveries s) \<Longrightarrow> d_status d = DSent \<Longrightarrow> \<not> p d"
  shows "keeps_sent s (s\<lparr>deliveries := update_where p f (deliveries s)\<rparr>)"
  using assms by (simp add: keeps_sent_def kept_row)

lemma keeps_sent_Claim:
  assumes inv: "queue_inv b now s" and c: "Claim lease at token locked s = (s', res)"
  shows "keeps_sent s s'"
proof (cases "claim_candidate at locked s")
  case None
  then show ?thesis using c by (auto simp: Claim_def split: if_split_asm)
next
  case (Some d)
  have other: "d_key x \<noteq> d_key d" if "x \<in> set (deliveries s)" "d_status x = DSent" for x
    using distinct_key_unique [OF queue_inv_parts(3) [OF inv] that(1), of d] that(2)
      claim_candidate_Some [OF Some] by (auto simp: claimable_def)
  then show ?thesis using c Some
    by (auto simp: Claim_def split: option.splits if_split_asm intro!: keeps_sent_update)
qed

lemma keeps_sent_Renew: "Renew at lease t s = (s', res) \<Longrightarrow> keeps_sent s s'"
  by (erule Renew_cases)
    (auto simp: renewable_def holds_lease_def intro!: keeps_sent_update)

lemma keeps_sent_Release: "Release at cause t s = (s', res) \<Longrightarrow> keeps_sent s s'"
  by (auto simp: Release_def holds_lease_def split: if_split_asm intro!: keeps_sent_update)

lemma keeps_sent_admit:
  assumes inv: "queue_inv b now s" and a: "admit at k token s = (s', Some (body, random, attempt))"
  shows "keeps_sent s s'"
  using a
proof (cases rule: admit_Some)
  case (1 d m r t)
  have "d_key x \<noteq> k" if "x \<in> set (deliveries s)" "d_status x = DSent" for x
    using 1(1,5) find_delivery_iff [OF inv, of k x] that by (auto simp: admissible_def holds_lease_def)
  then show ?thesis unfolding 1(10) by (intro keeps_sent_update)
qed

lemma keeps_sent_finalize_sent:
  "finalize_sent at k random attempt s = (s', res) \<Longrightarrow> keeps_sent s s'"
  by (erule finalize_sent_cases) (auto simp: sendable_def intro!: keeps_sent_update)

lemma keeps_sent_finalizeNegative:
  "keeps_sent s (finalizeNegative at k token cause message attempt random s)"
  by (rule finalizeNegative_cases [of at k token cause message attempt random s])
    (auto simp: owns_attempt_def intro!: keeps_sent_update)

lemma keeps_sent_quarantine: "keeps_sent s (quarantine at k token message attempt random s)"
  by (auto simp: quarantine_def owns_attempt_def intro!: keeps_sent_update)

lemma keeps_sent_Reap_snapshot: "keeps_sent s (Reap_snapshot c at skipped snapshot s)"
  unfolding Reap_snapshot_def
  by (rule keeps_sent_update) (simp add: reaped_def expired_sending_def)

lemma keeps_sent_Stop: "Stop at sc m s = (s', res) \<Longrightarrow> keeps_sent s s'"
  by (erule Stop_cases) (auto simp: keeps_sent_def set_mailing_status_def intro!: kept_row)

lemma keeps_sent_Queue: "Queue at rid sc m s = (s', res) \<Longrightarrow> keeps_sent s s'"
  by (erule Queue_cases) (auto simp: keeps_sent_def queued_db_def set_mailing_status_def)

lemma keeps_sent_reconcile:
  assumes "queue_inv b now s" "reconcileCandidate at c s = (s', res)"
  shows "keeps_sent s s'"
  using assms(2)
proof (cases rule: reconcile_cases)
  case (2 m r v)
  then show ?thesis using reconcile_success [OF assms(1) 2, of at] assms(2) by (simp add: keeps_sent_def)
qed simp

lemma keeps_sent_step:
  assumes inv: "pipeline_inv p" and step: "pipeline_step p q"
  shows "keeps_sent (p_db p) (p_db q)"
proof -
  note q = inv [unfolded pipeline_inv_def, THEN conjunct1]
  from step show ?thesis
    by cases (auto simp: keeps_sent_def [of _ "_\<lparr>operator_accounts := _, sessions := _, dialog_syncs := _\<rparr>"]
      intro: keeps_sent_Queue keeps_sent_Stop keeps_sent_Claim [OF q] keeps_sent_Renew keeps_sent_Release
        keeps_sent_admit [OF q] keeps_sent_finalize_sent keeps_sent_finalizeNegative
        keeps_sent_quarantine keeps_sent_Reap_snapshot keeps_sent_reconcile [OF q])
qed

section \<open>Admissions and runs\<close>

text \<open>A step admits only a pending delivery of an active run; any other step leaves the admissions
  and can only move a waiting send to the transport.\<close>

lemma admissible_row:
  assumes "queue_inv b now s" "admit at k token s = (s', Some (body, random, attempt))"
  shows "\<exists>d r. d \<in> set (deliveries s) \<and> d_key d = k \<and> d_status d = DPending
     \<and> d_attempts d < d_max d \<and> r \<in> set (runs s)
     \<and> run_mailing r = mailing_of k \<and> run_id r = run_of k \<and> active_run r"
  using assms(2)
proof (cases rule: admit_Some)
  case (1 d m r t)
  then show ?thesis
    using find_delivery_iff [OF assms(1)] find_run_iff [OF assms(1)] active_run_active
    unfolding admissible_def holds_lease_def by blast
qed

definition same_log :: "coordinates \<Rightarrow> pipeline \<Rightarrow> pipeline \<Rightarrow> bool" where
  "same_log k p q \<longleftrightarrow> admissions_of q k = admissions_of p k
     \<and> sends_of q k + waiting q k \<le> sends_of p k + waiting p k"

lemma same_log_flights:
  assumes "p_admissions q = p_admissions p" "p_sends q = p_sends p"
    and "p_flights q = p_flights p \<or> p_flights q = remove1 fl (p_flights p)"
  shows "same_log k p q"
  using assms length_filter_remove1_le
  by (auto simp: same_log_def admissions_of_def sends_of_def waiting_def)

lemma same_log_transport:
  assumes "fl \<in> set (p_flights p)" "\<not> fl_sent fl"
  shows "same_log k p (p\<lparr>p_flights := fl\<lparr>fl_sent := True\<rparr> # remove1 fl (p_flights p),
      p_sends := (fl_key fl, fl_random fl) # p_sends p\<rparr>)"
  using length_filter_remove1(1) [of fl "p_flights p" "unsent k"]
    length_filter_remove1(2) [of "unsent k" fl "p_flights p"] assms
  by (auto simp: same_log_def admissions_of_def sends_of_def waiting_def unsent_def)

lemma log_step:
  assumes inv: "pipeline_inv p" and step: "pipeline_step p q"
  shows "same_log k p q \<or>
    (\<exists>d r. d \<in> set (deliveries (p_db p)) \<and> d_key d = k \<and> d_status d = DPending
       \<and> d_attempts d < d_max d \<and> r \<in> set (runs (p_db p))
       \<and> run_mailing r = mailing_of k \<and> run_id r = run_of k \<and> active_run r)"
proof -
  note q = inv [unfolded pipeline_inv_def, THEN conjunct1]
  from step show ?thesis
  proof cases
    case (admit k' token s' body random attempt)
    show ?thesis
    proof (cases "k = k'")
      case True
      then show ?thesis using admissible_row [OF q admit(2)] by blast
    next
      case False
      then show ?thesis using admit(1)
        by (simp add: same_log_def admissions_of_def sends_of_def waiting_def unsent_def)
    qed
  next
    case (admit_unheard k' token s' body random attempt)
    show ?thesis
    proof (cases "k = k'")
      case True
      then show ?thesis using admissible_row [OF q admit_unheard(2)] by blast
    next
      case False
      then show ?thesis using admit_unheard(1)
        by (simp add: same_log_def admissions_of_def sends_of_def waiting_def)
    qed
  next
    case (transport fl)
    then show ?thesis using same_log_transport by simp
  qed (auto intro: same_log_flights)
qed

text \<open>A sent row, the number of its admissions, and a bound on its hand-overs.\<close>

definition sent_for_good :: "delivery_row \<times> nat \<times> nat \<Rightarrow> pipeline \<Rightarrow> bool" where
  "sent_for_good x p \<longleftrightarrow> (case x of (d, n, b) \<Rightarrow> d \<in> set (deliveries (p_db p)) \<and> d_status d = DSent
     \<and> admissions_of p (d_key d) = n \<and> sends_of p (d_key d) + waiting p (d_key d) \<le> b)"

lemma sent_for_good_step:
  assumes inv: "pipeline_inv p" and step: "pipeline_step p q" and sent: "sent_for_good x p"
  shows "sent_for_good x q"
proof -
  note q = inv [unfolded pipeline_inv_def, THEN conjunct1]
  obtain d n b where x: "x = (d, n, b)" by (cases x) auto
  have d: "d \<in> set (deliveries (p_db p))" "d_status d = DSent" "admissions_of p (d_key d) = n"
      "sends_of p (d_key d) + waiting p (d_key d) \<le> b"
    using sent by (auto simp: sent_for_good_def x)
  have "same_log (d_key d) p q"
    using log_step [OF inv step, of "d_key d"]
  proof (elim disjE exE conjE)
    fix y assume "y \<in> set (deliveries (p_db p))" "d_key y = d_key d" "d_status y = DPending"
    then have "d_status d = DPending"
      using distinct_key_unique [OF queue_inv_parts(3) [OF q] _ d(1)] by blast
    then show ?thesis using d(2) by simp
  qed
  then show ?thesis
    using keeps_sent_step [OF inv step] d by (auto simp: sent_for_good_def x keeps_sent_def same_log_def)
qed

interpretation sent_sys: absorbing_system pipeline_init pipeline_step pipeline_inv sent_for_good
  by unfold_locales (rule sent_for_good_step)

section \<open>Ended runs\<close>

definition keeps_ended :: "db \<Rightarrow> db \<Rightarrow> bool" where
  "keeps_ended s s' \<longleftrightarrow> (\<forall>r \<in> set (runs s). \<not> active_run r \<longrightarrow> r \<in> set (runs s'))"

lemma keeps_ended_same [simp]: "runs s' = runs s \<Longrightarrow> keeps_ended s s'"
  by (simp add: keeps_ended_def)

lemma keeps_ended_Stop: "Stop at sc m s = (s', res) \<Longrightarrow> keeps_ended s s'"
  by (erule Stop_cases) (auto simp: keeps_ended_def set_mailing_status_def intro!: kept_row)

lemma keeps_ended_Queue: "Queue at rid sc m s = (s', res) \<Longrightarrow> keeps_ended s s'"
  by (erule Queue_cases) (auto simp: keeps_ended_def queued_db_def set_mailing_status_def)

lemma keeps_ended_reconcile:
  assumes inv: "queue_inv b now s" and rec: "reconcileCandidate at c s = (s', res)"
  shows "keeps_ended s s'"
  using rec
proof (cases rule: reconcile_cases)
  case (2 m r v)
  have r: "r \<in> set (runs s)" "active_run r"
    using 2(2) find_run_iff [OF inv] active_run_active [OF 2(4)] by auto
  have "x \<in> set (update_where (\<lambda>x. run_id x = run_id r) f (runs s))"
    if "x \<in> set (runs s)" "\<not> active_run x" for x f
    using distinct_key_unique [OF queue_inv_parts(2) [OF inv] that(1) r(1)] that r(2)
    by (auto intro!: kept_row)
  then show ?thesis using reconcile_success [OF inv 2, of at] rec by (simp add: keeps_ended_def)
qed simp

lemma runs_same:
  "Claim lease at token locked s = (s', res1) \<Longrightarrow> runs s' = runs s"
  "Renew at lease t s = (s', res2) \<Longrightarrow> runs s' = runs s"
  "Release at cause t s = (s', res3) \<Longrightarrow> runs s' = runs s"
  "admit at k token s = (s', Some (body, random, attempt)) \<Longrightarrow> runs s' = runs s"
  "finalize_sent at k random attempt s = (s', res4) \<Longrightarrow> runs s' = runs s"
  "runs (finalizeNegative at k token failure message attempt random s) = runs s"
  "runs (quarantine at k token message attempt random s) = runs s"
  "runs (Reap_snapshot c at skipped snapshot s) = runs s"
proof -
  show "runs (finalizeNegative at k token failure message attempt random s) = runs s"
    by (rule finalizeNegative_cases [of at k token failure message attempt random s]) simp_all
qed (auto simp: Claim_def Release_def quarantine_def Reap_snapshot_def split: option.splits if_split_asm
    elim: Renew_cases admit_Some finalize_sent_cases)

lemma keeps_ended_step:
  assumes inv: "pipeline_inv p" and step: "pipeline_step p q"
  shows "keeps_ended (p_db p) (p_db q)"
proof -
  note q = inv [unfolded pipeline_inv_def, THEN conjunct1]
  from step show ?thesis
    by cases (auto simp: runs_same intro: keeps_ended_Queue keeps_ended_Stop
      keeps_ended_reconcile [OF q])
qed

definition ended :: "run_row \<times> coordinates \<times> nat \<times> nat \<Rightarrow> pipeline \<Rightarrow> bool" where
  "ended x p \<longleftrightarrow> (case x of (r, k, n, b) \<Rightarrow> r \<in> set (runs (p_db p)) \<and> \<not> active_run r
     \<and> run_id r = run_of k \<and> admissions_of p k = n \<and> sends_of p k + waiting p k \<le> b)"

lemma ended_step:
  assumes inv: "pipeline_inv p" and step: "pipeline_step p q" and e: "ended x p"
  shows "ended x q"
proof -
  note q = inv [unfolded pipeline_inv_def, THEN conjunct1]
  obtain r k n b where x: "x = (r, k, n, b)" by (cases x) auto
  have r: "r \<in> set (runs (p_db p))" "\<not> active_run r" "run_id r = run_of k" "admissions_of p k = n"
      "sends_of p k + waiting p k \<le> b"
    using e by (auto simp: ended_def x)
  have "same_log k p q"
    using log_step [OF inv step, of k]
  proof (elim disjE exE conjE)
    fix y assume "y \<in> set (runs (p_db p))" "run_id y = run_of k" "active_run y"
    then have "active_run r"
      using distinct_key_unique [OF queue_inv_parts(2) [OF q] _ r(1)] r(3) by simp
    then show ?thesis using r(2) by simp
  qed
  then show ?thesis
    using keeps_ended_step [OF inv step] r by (auto simp: ended_def x keeps_ended_def same_log_def)
qed

interpretation ended_sys: absorbing_system pipeline_init pipeline_step pipeline_inv ended
  by unfold_locales (rule ended_step)

section \<open>Stopped mailings\<close>

lemma find_mailing_set_status:
  "find_mailing (set_mailing_status at m st s) m
    = map_option (\<lambda>r. r\<lparr>mailing_status := st, mailing_updated := at\<rparr>) (find_mailing s m)"
  unfolding find_mailing_def set_mailing_status_def
  by (simp add: find_key_update_where) (cases "find (\<lambda>r. mailing_id r = m) (mailings s)";
      auto dest: find_Some_set)

lemma Stop_success:
  assumes "Stop at sc m s = (s', Returns ())"
  shows "\<exists>w. find_mailing s' m = Some w \<and> mailing_status w = MStopped"
  using assms
proof (cases rule: Stop_cases)
  case (2 row run)
  then show ?thesis unfolding 2(7) find_mailing_set_status by (simp add: find_mailing_def)
qed simp

lemma stopped_inactive:
  assumes inv: "queue_inv b now s"
    and "\<exists>w. find_mailing s m = Some w \<and> mailing_status w = MStopped"
    and r: "r \<in> set (runs s)" "run_mailing r = m"
  shows "\<not> active_run r"
proof
  assume act: "active_run r"
  obtain w where w: "w \<in> set (mailings s)" "mailing_id w = m" "mailing_status w = MStopped"
    using assms(2) find_mailing_iff [OF inv] by auto
  obtain x where x: "x \<in> set (mailings s)" "mailing_id x = m" "verdict_ok (mailing_status x) (run_status r)"
    using queue_inv_parts(5) [OF inv] r active_latest [OF queue_inv_parts(5) [OF inv] r(1) act]
    unfolding runs_ok_def by metis
  have "x = w" using distinct_key_unique [OF queue_inv_parts(1) [OF inv] x(1) w(1)] w x by simp
  then show False using x(3) w(3) act by (simp add: active_run_def)
qed

section \<open>Stranded deliveries\<close>

text \<open>A delivery is stranded when it is pending again, with an attempt behind it and no lease, under a
  stopped mailing.\<close>

definition stopped_mailing :: "db \<Rightarrow> uuid \<Rightarrow> bool" where
  "stopped_mailing s m \<longleftrightarrow> (\<exists>w. find_mailing s m = Some w \<and> mailing_status w = MStopped)"

definition stranded :: "delivery_row \<Rightarrow> db \<Rightarrow> bool" where
  "stranded d s \<longleftrightarrow> d \<in> set (deliveries s) \<and> d_status d = DPending \<and> d_token d = None
     \<and> 1 \<le> d_attempts d \<and> stopped_mailing s (mailing_of (d_key d))"

definition keeps_stranded :: "db \<Rightarrow> db \<Rightarrow> bool" where
  "keeps_stranded s s' \<longleftrightarrow> (\<forall>d. stranded d s \<longrightarrow> stranded d s' \<or> d_key d \<in> sent_keys s')"

lemma keeps_stranded_refl [simp]: "keeps_stranded s s"
  by (simp add: keeps_stranded_def)

lemma stopped_mailing_same [simp]:
  "stopped_mailing (s\<lparr>deliveries := ds\<rparr>) m = stopped_mailing s m"
  "stopped_mailing (s\<lparr>runs := rs\<rparr>) m = stopped_mailing s m"
  "stopped_mailing (s\<lparr>operator_accounts := xs\<rparr>) m = stopped_mailing s m"
  "stopped_mailing (s\<lparr>sessions := ys\<rparr>) m = stopped_mailing s m"
  "stopped_mailing (s\<lparr>dialog_syncs := zs\<rparr>) m = stopped_mailing s m"
  "stopped_mailing (s\<lparr>telegram_deliveries := ts\<rparr>) m = stopped_mailing s m"
  "stopped_mailing (s\<lparr>random_seq := n\<rparr>) m = stopped_mailing s m"
  by (simp_all add: stopped_mailing_def find_mailing_def)

lemma keeps_stranded_update:
  assumes "\<And>d. stranded d s \<Longrightarrow> \<not> p d"
  shows "keeps_stranded s (s\<lparr>deliveries := update_where p f (deliveries s)\<rparr>)"
  using assms by (auto simp: keeps_stranded_def stranded_def intro!: kept_row)

lemma stranded_not_sending: "stranded d s \<Longrightarrow> d_status d \<noteq> DSending"
  by (simp add: stranded_def)

lemma stranded_no_lease: "stranded d s \<Longrightarrow> \<not> holds_lease token d"
  by (simp add: stranded_def holds_lease_def)

lemma stranded_unclaimed:
  assumes "stranded d s" shows "claim_join s d = None"
  using assms
  by (auto simp: stranded_def stopped_mailing_def claim_join_def activePair_def split: option.splits)

lemma keeps_stranded_Claim:
  assumes inv: "queue_inv b now s" and c: "Claim lease at token locked s = (s', res)"
  shows "keeps_stranded s s'"
proof (cases "claim_candidate at locked s")
  case None
  then show ?thesis using c by (auto simp: Claim_def split: if_split_asm)
next
  case (Some d)
  have other: "d_key x \<noteq> d_key d" if "stranded x s" for x
    using distinct_key_unique [OF queue_inv_parts(3) [OF inv], of x d] stranded_unclaimed [OF that]
      that claim_candidate_Some [OF Some] by (auto simp: stranded_def)
  then show ?thesis using c Some
    by (auto simp: Claim_def split: option.splits if_split_asm intro!: keeps_stranded_update)
qed

lemma keeps_stranded_Renew: "Renew at lease t s = (s', res) \<Longrightarrow> keeps_stranded s s'"
  by (erule Renew_cases) (auto simp: renewable_def stranded_no_lease intro!: keeps_stranded_update)

lemma keeps_stranded_Release: "Release at cause t s = (s', res) \<Longrightarrow> keeps_stranded s s'"
  by (auto simp: Release_def stranded_no_lease split: if_split_asm intro!: keeps_stranded_update)

lemma keeps_stranded_admit:
  assumes inv: "queue_inv b now s" and a: "admit at k token s = (s', Some (body, random, attempt))"
  shows "keeps_stranded s s'"
  using a
proof (cases rule: admit_Some)
  case (1 d m r t)
  have "d_key x \<noteq> k" if "stranded x s" for x
    using 1(1,5) find_delivery_iff [OF inv, of k x] that stranded_no_lease [OF that]
    by (auto simp: admissible_def stranded_def)
  then show ?thesis unfolding 1(10) by (rule keeps_stranded_update)
qed

lemma keeps_stranded_finalize_sent:
  assumes "finalize_sent at k random attempt s = (s', res)" shows "keeps_stranded s s'"
  using assms
proof (cases rule: finalize_sent_cases)
  case 2
  have "d \<in> set (deliveries s') \<or> d_key d \<in> sent_keys s'" if "d \<in> set (deliveries s)" for d
  proof (cases "sendable k attempt d")
    case True
    then have "sent_row at d \<in> set (deliveries s')" using that by (auto simp: 2(3) set_update_where)
    moreover have "d_status (sent_row at d) = DSent" by (simp add: sent_row_def clear_lease_def)
    ultimately have "d_key (sent_row at d) \<in> sent_keys s'" unfolding sent_keys_def by blast
    then show ?thesis by simp
  qed (simp add: 2(3) kept_row that)
  then show ?thesis by (auto simp: keeps_stranded_def stranded_def 2(3))
qed simp

lemma keeps_stranded_finalizeNegative:
  "keeps_stranded s (finalizeNegative at k token cause message attempt random s)"
  by (rule finalizeNegative_cases [of at k token cause message attempt random s])
    (auto simp: owns_attempt_def dest: stranded_not_sending intro!: keeps_stranded_update)

lemma keeps_stranded_quarantine: "keeps_stranded s (quarantine at k token message attempt random s)"
  by (auto simp: quarantine_def owns_attempt_def dest: stranded_not_sending intro!: keeps_stranded_update)

lemma keeps_stranded_Reap_snapshot: "keeps_stranded s (Reap_snapshot c at skipped snapshot s)"
  unfolding Reap_snapshot_def
  by (rule keeps_stranded_update) (auto simp: reaped_def expired_sending_def dest: stranded_not_sending)

lemma stopped_mailing_other:
  assumes "i \<noteq> m" shows "stopped_mailing (set_mailing_status at m st s) i = stopped_mailing s i"
proof -
  have "find_mailing (set_mailing_status at m st s) i = find_mailing s i"
    unfolding find_mailing_def set_mailing_status_def using assms
    by simp (rule find_update_where_other; simp)
  then show ?thesis by (simp add: stopped_mailing_def)
qed

lemma stranded_elsewhere:
  assumes "stranded d s" "find_mailing s m = Some w" "mailing_status w \<noteq> MStopped"
  shows "mailing_of (d_key d) \<noteq> m"
  using assms by (auto simp: stranded_def stopped_mailing_def)

lemma keeps_stranded_Stop:
  assumes "Stop at sc m s = (s', res)" shows "keeps_stranded s s'"
  using assms
proof (cases rule: Stop_cases)
  case (2 row run)
  have "stranded d s'" if d: "stranded d s" for d
  proof -
    have m: "mailing_of (d_key d) \<noteq> m"
      by (rule stranded_elsewhere [OF d 2(1)]) (use 2(2) in auto)
    have "d \<in> set (deliveries s')"
      unfolding 2(7) set_mailing_status_def using d m by (auto simp: stranded_def intro!: kept_row)
    moreover have "stopped_mailing s' (mailing_of (d_key d))"
      unfolding 2(7) stopped_mailing_other [OF m] using d
      by (simp add: stranded_def stopped_mailing_def find_mailing_def)
    ultimately show ?thesis using d by (simp add: stranded_def)
  qed
  then show ?thesis by (simp add: keeps_stranded_def)
qed simp

text \<open>A mailing with a stranded delivery cannot be queued again.\<close>

lemma Queue_stranded:
  assumes "Queue at rid sc m s = (s', res)" "stranded d s" "mailing_of (d_key d) = m"
  shows "s' = s \<and> res \<noteq> Returns ()"
  using assms(1)
proof (cases rule: Queue_cases)
  case (2 row)
  have "has_unresolved s m"
    using assms(2,3) by (auto simp: has_unresolved_def list_ex_iff stranded_def unresolved_delivery_def)
  then show ?thesis using 2(3) by simp
qed simp

lemma keeps_stranded_Queue:
  assumes q: "Queue at rid sc m s = (s', res)" shows "keeps_stranded s s'"
proof -
  have "stranded d s'" if d: "stranded d s" for d
  proof (cases "mailing_of (d_key d) = m")
    case True
    then show ?thesis using Queue_stranded [OF q d] d by simp
  next
    case False
    from q show ?thesis
    proof (cases rule: Queue_cases)
      case (2 row)
      have "stopped_mailing s' (mailing_of (d_key d))"
        unfolding 2(7) queued_db_def stopped_mailing_other [OF False] using d
        by (simp add: stranded_def stopped_mailing_def find_mailing_def)
      moreover have "d \<in> set (deliveries s')"
        unfolding 2(7) using d by (simp add: queued_db_def set_mailing_status_def stranded_def)
      ultimately show ?thesis using d by (simp add: stranded_def)
    qed (use d in simp)
  qed
  then show ?thesis by (simp add: keeps_stranded_def)
qed

lemma keeps_stranded_reconcile:
  assumes inv: "queue_inv b now s" and rec: "reconcileCandidate at c s = (s', res)"
  shows "keeps_stranded s s'"
  using rec
proof (cases rule: reconcile_cases)
  case (2 m r v)
  have s': "s' = set_mailing_status at (c_mailing c) (terminal_mailing v)
      (s\<lparr>runs := update_where (\<lambda>x. run_id x = run_id r) (terminate_run at v) (runs s)\<rparr>)"
    using reconcile_success [OF inv 2, of at] rec 2(1) find_mailing_iff [OF inv]
    by (auto simp: set_mailing_status_def)
  have "stranded d s'" if d: "stranded d s" for d
  proof -
    have "mailing_of (d_key d) \<noteq> c_mailing c"
      by (rule stranded_elsewhere [OF d 2(1)]) (use 2(4) in \<open>auto simp: activePair_def\<close>)
    from stopped_mailing_other [OF this] d show ?thesis
      unfolding s' by (simp add: stranded_def stopped_mailing_def find_mailing_def)
        (simp add: set_mailing_status_def)
  qed
  then show ?thesis by (simp add: keeps_stranded_def)
qed simp

lemma keeps_stranded_step:
  assumes inv: "pipeline_inv p" and step: "pipeline_step p q"
  shows "keeps_stranded (p_db p) (p_db q)"
proof -
  note q = inv [unfolded pipeline_inv_def, THEN conjunct1]
  have "keeps_stranded s (s\<lparr>operator_accounts := xs, sessions := ys, dialog_syncs := zs\<rparr>)" for s xs ys zs
    by (simp add: keeps_stranded_def stranded_def)
  with step show ?thesis
    by cases (auto intro: keeps_stranded_Queue keeps_stranded_Stop keeps_stranded_Claim [OF q]
      keeps_stranded_Renew keeps_stranded_Release keeps_stranded_admit [OF q]
      keeps_stranded_finalize_sent keeps_stranded_finalizeNegative keeps_stranded_quarantine
      keeps_stranded_Reap_snapshot keeps_stranded_reconcile [OF q])
qed

definition stranded_or_sent :: "delivery_row \<Rightarrow> pipeline \<Rightarrow> bool" where
  "stranded_or_sent d p \<longleftrightarrow> stranded d (p_db p) \<or> d_key d \<in> sent_keys (p_db p)"

lemma stranded_or_sent_step:
  assumes inv: "pipeline_inv p" and step: "pipeline_step p q" and d: "stranded_or_sent d p"
  shows "stranded_or_sent d q"
proof -
  have "sent_keys (p_db p) \<subseteq> sent_keys (p_db q)"
    using keeps_sent_step [OF inv step] by (auto simp: keeps_sent_def sent_keys_def)
  then show ?thesis
    using keeps_stranded_step [OF inv step] d by (auto simp: stranded_or_sent_def keeps_stranded_def)
qed

interpretation stranded_sys: absorbing_system pipeline_init pipeline_step pipeline_inv stranded_or_sent
  by unfold_locales (rule stranded_or_sent_step)

end
