(* ===== verification/Pipeline_Demo.thy ===== *)
theory Pipeline_Demo
  imports Pipeline_Final
begin

text \<open>
  Concrete runs of the pipeline, used by the witnesses: a mailing with two recipients is queued,
  its first delivery is claimed, admitted, handed to the transport and finalised as sent, the
  second is claimed, admitted and handed over, and the mailing is stopped while that send is under
  way. Branches of the run stop the mailing between the second admission and its hand-over, and
  between the read and the commit of a reaper pass.
\<close>

definition demo_account :: account_row where
  "demo_account = \<lparr>oa_id = 20, oa_operator = 1, oa_phone = None, oa_username = None,
     oa_first_name = None, oa_last_name = None, oa_telegram_user_id = Some 7, oa_status = Active,
     oa_version = 3, oa_auth_expires = None, oa_failure = None, oa_remote_logout = False,
     oa_created = 0, oa_updated = 0\<rparr>"

definition demo_db :: db where
  "demo_db = \<lparr>operator_accounts = [demo_account], sessions = [20], dialog_syncs = [],
     mailings = [\<lparr>mailing_id = 10, mailing_operator = 1, mailing_message = [104, 105],
       mailing_status = MDraft, mailing_repeat = Once, mailing_updated = 0\<rparr>],
     routes = [(10, 20)], recipients = [(10, 30), (10, 31)], runs = [], deliveries = [],
     telegram_deliveries = [], random_seq = 1\<rparr>"

definition demo_start :: pipeline where
  "demo_start = \<lparr>p_db = demo_db, p_now = 5, p_flights = [], p_admissions = [], p_sends = [], p_reads = [],
     p_raced = False\<rparr>"

definition with_db :: "pipeline \<Rightarrow> db \<Rightarrow> pipeline" where
  "with_db p s = p\<lparr>p_db := s\<rparr>"

definition flight_of :: "coordinates \<Rightarrow> uuid \<Rightarrow> nat \<Rightarrow> int \<Rightarrow> flight" where
  "flight_of k token attempt random = \<lparr>fl_key = k, fl_token = token, fl_attempt = attempt,
     fl_random = random, fl_sent = False\<rparr>"

definition with_admit :: "pipeline \<Rightarrow> coordinates \<Rightarrow> uuid \<Rightarrow> nat \<Rightarrow> int \<Rightarrow> pipeline" where
  "with_admit p k token attempt random = p\<lparr>p_db := fst (admit (p_now p) k token (p_db p)),
      p_flights := flight_of k token attempt random # p_flights p,
      p_admissions := (k, random) # p_admissions p\<rparr>"

definition with_transport :: "pipeline \<Rightarrow> flight \<Rightarrow> pipeline" where
  "with_transport p fl = p\<lparr>p_flights := fl\<lparr>fl_sent := True\<rparr> # remove1 fl (p_flights p),
      p_sends := (fl_key fl, fl_random fl) # p_sends p\<rparr>"

definition demo_queued :: pipeline where
  "demo_queued = with_db demo_start (fst (Queue 5 40 SystemScope 10 demo_db))"

definition demo_claimed :: pipeline where
  "demo_claimed = with_db demo_queued (fst (Claim (30 * second) 5 50 {} (p_db demo_queued)))"

definition demo_waiting :: pipeline where
  "demo_waiting = with_admit demo_claimed (Coordinates 10 40 30) 50 1 1"

definition demo_sending :: pipeline where
  "demo_sending = with_transport demo_waiting (flight_of (Coordinates 10 40 30) 50 1 1)"

definition demo_sent :: pipeline where
  "demo_sent = demo_sending\<lparr>p_db := fst (finalize_sent 5 (Coordinates 10 40 30) 1 1 (p_db demo_sending)),
     p_flights := []\<rparr>"

definition demo_claimed2 :: pipeline where
  "demo_claimed2 = with_db demo_sent (fst (Claim (30 * second) 5 51 {} (p_db demo_sent)))"

definition demo_waiting2 :: pipeline where
  "demo_waiting2 = with_admit demo_claimed2 (Coordinates 10 40 31) 51 1 2"

definition demo_sending2 :: pipeline where
  "demo_sending2 = with_transport demo_waiting2 (flight_of (Coordinates 10 40 31) 51 1 2)"

definition demo_stopped :: pipeline where
  "demo_stopped = with_db demo_sending2 (fst (Stop 5 SystemScope 10 (p_db demo_sending2)))"

lemma demo_init: "pipeline_init demo_start"
  by code_simp

lemma demo_admitted: "snd (admit 5 (Coordinates 10 40 30) 50 (p_db demo_claimed)) = Some ([104, 105], 1, 1)"
  by code_simp

lemma demo_admitted2: "snd (admit 5 (Coordinates 10 40 31) 51 (p_db demo_claimed2)) = Some ([104, 105], 2, 1)"
  by code_simp

section \<open>The run is one\<close>

lemma demo_nows:
  "p_now demo_start = 5" "p_now demo_queued = 5" "p_now demo_claimed = 5" "p_now demo_waiting = 5"
  "p_now demo_sending = 5" "p_now demo_sent = 5" "p_now demo_claimed2 = 5" "p_now demo_waiting2 = 5"
  "p_now demo_sending2 = 5"
  by (simp_all add: demo_start_def demo_queued_def demo_claimed_def demo_waiting_def demo_sending_def
      demo_sent_def demo_claimed2_def demo_waiting2_def demo_sending2_def with_db_def with_admit_def
      with_transport_def)

lemma demo_flights:
  "p_flights demo_claimed = []" "p_flights demo_claimed2 = []"
  "p_flights demo_waiting = [flight_of (Coordinates 10 40 30) 50 1 1]"
  "p_flights demo_sending = [(flight_of (Coordinates 10 40 30) 50 1 1)\<lparr>fl_sent := True\<rparr>]"
  "p_flights demo_waiting2 = [flight_of (Coordinates 10 40 31) 51 1 2]"
  "p_flights demo_sending2 = [(flight_of (Coordinates 10 40 31) 51 1 2)\<lparr>fl_sent := True\<rparr>]"
proof -
  show c: "p_flights demo_claimed = []" "p_flights demo_claimed2 = []"
    by (simp_all add: demo_start_def demo_queued_def demo_claimed_def demo_sent_def demo_claimed2_def with_db_def)
  show w: "p_flights demo_waiting = [flight_of (Coordinates 10 40 30) 50 1 1]"
      "p_flights demo_waiting2 = [flight_of (Coordinates 10 40 31) 51 1 2]"
    by (simp_all add: demo_waiting_def demo_waiting2_def with_admit_def c)
  show "p_flights demo_sending = [(flight_of (Coordinates 10 40 30) 50 1 1)\<lparr>fl_sent := True\<rparr>]"
      "p_flights demo_sending2 = [(flight_of (Coordinates 10 40 31) 51 1 2)\<lparr>fl_sent := True\<rparr>]"
    by (simp_all add: demo_sending_def demo_sending2_def with_transport_def w)
qed

lemma step_with_admit:
  assumes "snd (admit (p_now p) k token (p_db p)) = Some (body, random, attempt)"
  shows "pipeline_step p (with_admit p k token attempt random)"
  unfolding with_admit_def flight_of_def
  by (rule pipeline_step.admit) (use assms in \<open>simp add: prod_eq_iff\<close>)

lemma step_with_transport:
  assumes "p_flights p = [flight_of k token attempt random]"
  shows "pipeline_step p (with_transport p (flight_of k token attempt random))"
  unfolding with_transport_def
  by (rule pipeline_step.transport) (simp_all add: assms, simp add: flight_of_def)

lemma step_with_finalize:
  assumes "p_flights p = [(flight_of k token attempt random)\<lparr>fl_sent := True\<rparr>]"
  shows "pipeline_step p (p\<lparr>p_db := fst (finalize_sent (p_now p) k random attempt (p_db p)), p_flights := []\<rparr>)"
proof -
  let ?fl = "(flight_of k token attempt random)\<lparr>fl_sent := True\<rparr>"
  have "pipeline_step p (p\<lparr>p_db := fst (finalize_sent (p_now p) k random attempt (p_db p)),
      p_flights := remove1 ?fl (p_flights p)\<rparr>)"
    by (rule pipeline_step.delivered) (simp_all add: assms, simp_all add: flight_of_def prod_eq_iff)
  then show ?thesis by (simp add: assms)
qed

lemma demo_steps:
  "pipeline_step demo_start demo_queued" "pipeline_step demo_queued demo_claimed"
  "pipeline_step demo_claimed demo_waiting" "pipeline_step demo_waiting demo_sending"
  "pipeline_step demo_sending demo_sent" "pipeline_step demo_sent demo_claimed2"
  "pipeline_step demo_claimed2 demo_waiting2" "pipeline_step demo_waiting2 demo_sending2"
  "pipeline_step demo_sending2 demo_stopped"
proof -
  have "p_db demo_start = demo_db" by (simp add: demo_start_def)
  then show "pipeline_step demo_start demo_queued"
    unfolding demo_queued_def with_db_def
    using pipeline_step.queue [of demo_start 40 SystemScope 10] demo_nows by (simp add: prod_eq_iff)
  show "pipeline_step demo_queued demo_claimed"
    unfolding demo_claimed_def with_db_def
    using pipeline_step.claim [of "30 * second" demo_queued 50 "{}"] demo_nows by (simp add: prod_eq_iff)
  show "pipeline_step demo_claimed demo_waiting"
    unfolding demo_waiting_def by (rule step_with_admit) (unfold demo_nows, rule demo_admitted)
  show "pipeline_step demo_waiting demo_sending"
    unfolding demo_sending_def by (rule step_with_transport [OF demo_flights(3)])
  show "pipeline_step demo_sending demo_sent"
    using step_with_finalize [OF demo_flights(4)] unfolding demo_sent_def demo_nows .
  show "pipeline_step demo_sent demo_claimed2"
    unfolding demo_claimed2_def with_db_def
    using pipeline_step.claim [of "30 * second" demo_sent 51 "{}"] demo_nows by (simp add: prod_eq_iff)
  show "pipeline_step demo_claimed2 demo_waiting2"
    unfolding demo_waiting2_def by (rule step_with_admit) (unfold demo_nows, rule demo_admitted2)
  show "pipeline_step demo_waiting2 demo_sending2"
    unfolding demo_sending2_def by (rule step_with_transport [OF demo_flights(5)])
  show "pipeline_step demo_sending2 demo_stopped"
    unfolding demo_stopped_def with_db_def
    using pipeline_step.stop [of demo_sending2 SystemScope 10] demo_nows by (simp add: prod_eq_iff)
qed

lemmas pipeline_reachable = reachable.later [of pipeline_init pipeline_step]

lemma demo_reachable:
  "reachable pipeline_init pipeline_step demo_queued"
  "reachable pipeline_init pipeline_step demo_claimed"
  "reachable pipeline_init pipeline_step demo_waiting"
  "reachable pipeline_init pipeline_step demo_sending"
  "reachable pipeline_init pipeline_step demo_sent"
  "reachable pipeline_init pipeline_step demo_claimed2"
  "reachable pipeline_init pipeline_step demo_waiting2"
  "reachable pipeline_init pipeline_step demo_sending2"
  "reachable pipeline_init pipeline_step demo_stopped"
proof -
  show a: "reachable pipeline_init pipeline_step demo_queued"
    by (rule pipeline_reachable [OF reachable.initial [of pipeline_init, OF demo_init] demo_steps(1)])
  show b: "reachable pipeline_init pipeline_step demo_claimed"
    by (rule pipeline_reachable [OF a demo_steps(2)])
  show c: "reachable pipeline_init pipeline_step demo_waiting"
    by (rule pipeline_reachable [OF b demo_steps(3)])
  show d: "reachable pipeline_init pipeline_step demo_sending"
    by (rule pipeline_reachable [OF c demo_steps(4)])
  show e: "reachable pipeline_init pipeline_step demo_sent"
    by (rule pipeline_reachable [OF d demo_steps(5)])
  show f: "reachable pipeline_init pipeline_step demo_claimed2"
    by (rule pipeline_reachable [OF e demo_steps(6)])
  show g: "reachable pipeline_init pipeline_step demo_waiting2"
    by (rule pipeline_reachable [OF f demo_steps(7)])
  show h: "reachable pipeline_init pipeline_step demo_sending2"
    by (rule pipeline_reachable [OF g demo_steps(8)])
  show "reachable pipeline_init pipeline_step demo_stopped"
    by (rule pipeline_reachable [OF h demo_steps(9)])
qed

text \<open>The states of the deliveries at the end, and the stop's answer.\<close>

lemma demo_stopped_rows:
  "map d_status (deliveries (p_db demo_stopped)) = [DSent, DSending]"
  "map mailing_status (mailings (p_db demo_stopped)) = [MStopped]"
  "map run_status (runs (p_db demo_stopped)) = [RCancelled]"
  "map run_generation (runs (p_db demo_stopped)) = [2]"
  by code_simp+

text \<open>Much later the lease of the second send has expired.\<close>

definition demo_late :: pipeline where
  "demo_late = demo_stopped\<lparr>p_now := 200 * second\<rparr>"

lemma demo_late_reachable: "reachable pipeline_init pipeline_step demo_late"
proof -
  have "p_now demo_stopped = 5" by (simp add: demo_stopped_def with_db_def demo_nows)
  then show ?thesis unfolding demo_late_def
    by (intro pipeline_reachable [OF demo_reachable(9)] pipeline_step.tick) simp
qed

text \<open>Without the stop, the second send is finalised too and the run is complete.\<close>

definition demo_done :: pipeline where
  "demo_done = demo_sending2\<lparr>p_db := fst (finalize_sent 5 (Coordinates 10 40 31) 2 1 (p_db demo_sending2)),
     p_flights := []\<rparr>"

lemma demo_done_reachable: "reachable pipeline_init pipeline_step demo_done"
proof -
  have "pipeline_step demo_sending2 demo_done"
    using step_with_finalize [OF demo_flights(6)] unfolding demo_done_def demo_nows .
  then show ?thesis by (rule pipeline_reachable [OF demo_reachable(8)])
qed

section \<open>A stop between admission and hand-over\<close>

definition demo_held :: pipeline where
  "demo_held = demo_waiting2\<lparr>p_db := fst (Stop 5 SystemScope 10 (p_db demo_waiting2))\<rparr>"

definition demo_late_send :: pipeline where
  "demo_late_send = with_transport demo_held (flight_of (Coordinates 10 40 31) 51 1 2)"

lemma demo_late_send_step: "pipeline_step demo_held demo_late_send"
  unfolding demo_late_send_def
  by (rule step_with_transport) (simp add: demo_held_def demo_flights)

section \<open>A stop between the read and the commit of a reaper pass\<close>

text \<open>The second send has lost its lease; a reaper pass takes its snapshot, then the mailing is
  stopped.\<close>

definition demo_expired :: pipeline where
  "demo_expired = demo_sending2\<lparr>p_now := 200 * second\<rparr>"

definition demo_read :: pipeline where
  "demo_read = demo_expired\<lparr>p_reads := [(200 * second, p_db demo_sending2)]\<rparr>"

definition demo_overtaken :: pipeline where
  "demo_overtaken = demo_read\<lparr>p_db := fst (Stop (200 * second) SystemScope 10 (p_db demo_sending2))\<rparr>"

lemma demo_expired_reachable: "reachable pipeline_init pipeline_step demo_expired"
  unfolding demo_expired_def
  by (intro pipeline_reachable [OF demo_reachable(8)] pipeline_step.tick) (simp add: demo_nows)

lemma demo_overtaken_reachable: "reachable pipeline_init pipeline_step demo_overtaken"
proof -
  have reads: "p_reads demo_expired = []"
    by (simp add: demo_expired_def demo_sending2_def demo_waiting2_def demo_claimed2_def demo_sent_def
        demo_sending_def demo_waiting_def demo_claimed_def demo_queued_def demo_start_def with_db_def
        with_admit_def with_transport_def)
  have "pipeline_step demo_expired demo_read"
    using pipeline_step.reap_read [of demo_expired] reads
    by (simp add: demo_read_def demo_expired_def)
  then have r: "reachable pipeline_init pipeline_step demo_read"
    by (rule pipeline_reachable [OF demo_expired_reachable])
  have "pipeline_step demo_read demo_overtaken"
    unfolding demo_overtaken_def
    by (rule pipeline_step.stop [of _ SystemScope 10 _ "snd (Stop (200 * second) SystemScope 10 (p_db demo_sending2))"])
      (simp add: demo_read_def demo_expired_def)
  then show ?thesis by (rule pipeline_reachable [OF r])
qed

end
