(* ===== verification/Invariant_Checks.thy ===== *)
theory Invariant_Checks
  imports Pipeline_Demo
begin

text \<open>
  The consistency checks of pg/invariants/invariants.go. Each check is the query's row predicate;
  \<open>runCheck\<close> counts, orders and samples the violating rows; \<open>Check\<close> runs all of them. The lemmas
  relate the checks to the invariant of the pipeline. The grace period, which the code passes to
  SQL as fractional seconds, is compared exactly.
\<close>

section \<open>The checker\<close>

datatype CheckName =
    CheckStoppedMailingWithClaimableDelivery
  | CheckCancelledRunWithClaimableDelivery
  | CheckSendingDeliveryWithoutLease
  | CheckExpiredSendingLease
  | CheckRunStatusTimestampContradiction
  | CheckMailingRunStatusContradiction
  | CheckSendingDeliveryWithStaleExecutionGeneration
  | CheckSendingDeliveryWithInactiveParent

datatype Severity = SeverityError | SeverityWarning

record result =
  r_name :: CheckName
  r_severity :: Severity
  r_count :: nat
  r_sample :: "coordinates list"

record checker =
  sampleLimit :: int
  expiredLeaseGrace :: duration

definition DefaultSampleLimit :: int where
  "DefaultSampleLimit = 10"

definition MaxSampleLimit :: int where
  "MaxSampleLimit = 100"

definition DefaultExpiredLeaseGrace :: duration where
  "DefaultExpiredLeaseGrace = 60 * second"

definition New :: checker where
  "New = \<lparr>sampleLimit = DefaultSampleLimit, expiredLeaseGrace = DefaultExpiredLeaseGrace\<rparr>"

definition NewWithSampleLimitAndExpiredLeaseGrace :: "int \<Rightarrow> duration \<Rightarrow> checker outcome" where
  "NewWithSampleLimitAndExpiredLeaseGrace limit grace =
    (if limit \<le> 0 then Panics
     else if grace < 0 then Panics
     else Returns \<lparr>sampleLimit = (if MaxSampleLimit < limit then MaxSampleLimit else limit),
            expiredLeaseGrace = grace\<rparr>)"

definition NewWithSampleLimit :: "int \<Rightarrow> checker outcome" where
  "NewWithSampleLimit limit = NewWithSampleLimitAndExpiredLeaseGrace limit DefaultExpiredLeaseGrace"

section \<open>The queries\<close>

definition mailing_status_of :: "db \<Rightarrow> delivery_row \<Rightarrow> mailing_status option" where
  "mailing_status_of s d = map_option mailing_status (find_mailing s (mailing_of (d_key d)))"

definition run_of_delivery :: "db \<Rightarrow> delivery_row \<Rightarrow> run_row option" where
  "run_of_delivery s d = find_run s (mailing_of (d_key d)) (run_of (d_key d))"

definition expired_past_grace :: "duration \<Rightarrow> time \<Rightarrow> delivery_row \<Rightarrow> bool" where
  "expired_past_grace grace now d \<longleftrightarrow> d_status d = DSending
     \<and> (case d_until d of None \<Rightarrow> False | Some u \<Rightarrow> grace < now - u)"

text \<open>The delivery checks, as a predicate on the rows of \<open>mailing_deliveries\<close>.\<close>

fun delivery_violation :: "duration \<Rightarrow> time \<Rightarrow> db \<Rightarrow> CheckName \<Rightarrow> delivery_row \<Rightarrow> bool" where
  "delivery_violation grace now s CheckStoppedMailingWithClaimableDelivery d \<longleftrightarrow>
     mailing_status_of s d = Some MStopped \<and> find_route s (mailing_of (d_key d)) \<noteq> None \<and> claimable now d"
| "delivery_violation grace now s CheckCancelledRunWithClaimableDelivery d \<longleftrightarrow>
     map_option run_status (run_of_delivery s d) = Some RCancelled
     \<and> find_route s (mailing_of (d_key d)) \<noteq> None \<and> claimable now d"
| "delivery_violation grace now s CheckSendingDeliveryWithoutLease d \<longleftrightarrow>
     d_status d = DSending \<and> (d_token d = None \<or> d_until d = None \<or> d_gen d = None)"
| "delivery_violation grace now s CheckExpiredSendingLease d \<longleftrightarrow> expired_past_grace grace now d"
| "delivery_violation grace now s CheckSendingDeliveryWithStaleExecutionGeneration d \<longleftrightarrow>
     d_status d = DSending
     \<and> (case run_of_delivery s d of None \<Rightarrow> False | Some r \<Rightarrow> d_gen d \<noteq> Some (run_generation r))"
| "delivery_violation grace now s CheckSendingDeliveryWithInactiveParent d \<longleftrightarrow>
     expired_past_grace grace now d
     \<and> (case parents s (d_key d) of None \<Rightarrow> False
        | Some (m, r) \<Rightarrow> \<not> activePair (mailing_status m) (run_status r))"
| "delivery_violation grace now s _ d \<longleftrightarrow> False"

definition run_time_violation :: "run_row \<Rightarrow> bool" where
  "run_time_violation r \<longleftrightarrow>
     (run_status r = RQueued \<and> (run_started_at r \<noteq> None \<or> run_finished_at r \<noteq> None))
   \<or> (run_status r = RRunning \<and> (run_started_at r = None \<or> run_finished_at r \<noteq> None))
   \<or> (run_status r = RCompleted \<and> (run_started_at r = None \<or> run_finished_at r = None))
   \<or> (run_status r \<in> {RCancelled, RFailed} \<and> run_finished_at r = None)"

definition latest_run :: "db \<Rightarrow> uuid \<Rightarrow> run_row option" where
  "latest_run s m = first_row (rev (sort_key (\<lambda>r. (run_number r, run_id r))
     (filter (\<lambda>r. run_mailing r = m) (runs s))))"

definition status_contradiction :: "mailing_status \<Rightarrow> run_status \<Rightarrow> bool" where
  "status_contradiction m r \<longleftrightarrow>
     m = MDraft
   \<or> (m = MQueued \<and> r \<noteq> RQueued)
   \<or> (m = MRunning \<and> r \<noteq> RRunning)
   \<or> (m = MStopped \<and> r \<in> {RQueued, RRunning})
   \<or> (m = MPaused \<and> r \<notin> {RQueued, RRunning})
   \<or> (m = MCompleted \<and> r \<noteq> RCompleted)
   \<or> (m = MFailed \<and> r \<noteq> RFailed)"

definition contradictions :: "db \<Rightarrow> coordinates list" where
  "contradictions s = concat (map (\<lambda>m. case latest_run s (mailing_id m) of None \<Rightarrow> []
     | Some r \<Rightarrow> if status_contradiction (mailing_status m) (run_status r)
                 then [Coordinates (mailing_id m) (run_id r) nil_uuid] else []) (mailings s))"

definition violations :: "duration \<Rightarrow> time \<Rightarrow> db \<Rightarrow> CheckName \<Rightarrow> coordinates list" where
  "violations grace now s name =
    (case name of
       CheckRunStatusTimestampContradiction \<Rightarrow>
         map (\<lambda>r. Coordinates (run_mailing r) (run_id r) nil_uuid) (filter run_time_violation (runs s))
     | CheckMailingRunStatusContradiction \<Rightarrow> contradictions s
     | _ \<Rightarrow> map d_key (filter (delivery_violation grace now s name) (deliveries s)))"

section \<open>Running the checks\<close>

definition check_specs :: "(CheckName \<times> Severity) list" where
  "check_specs =
    [(CheckStoppedMailingWithClaimableDelivery, SeverityError),
     (CheckCancelledRunWithClaimableDelivery, SeverityError),
     (CheckSendingDeliveryWithoutLease, SeverityError),
     (CheckExpiredSendingLease, SeverityWarning),
     (CheckRunStatusTimestampContradiction, SeverityError),
     (CheckMailingRunStatusContradiction, SeverityError),
     (CheckSendingDeliveryWithStaleExecutionGeneration, SeverityError),
     (CheckSendingDeliveryWithInactiveParent, SeverityError)]"

definition runCheck :: "checker \<Rightarrow> time \<Rightarrow> db \<Rightarrow> CheckName \<times> Severity \<Rightarrow> result" where
  "runCheck c now s spec =
    (let rows = sort_key (\<lambda>k. k) (violations (expiredLeaseGrace c) now s (fst spec))
     in \<lparr>r_name = fst spec, r_severity = snd spec, r_count = length rows,
         r_sample = take (nat (sampleLimit c)) rows\<rparr>)"

definition Check :: "checker \<Rightarrow> time \<Rightarrow> db \<Rightarrow> result list outcome" where
  "Check c now s =
    (if sampleLimit c \<le> 0
     then Fails (Wrap ''check PostgreSQL invariants with invalid sample limit'' [])
     else if expiredLeaseGrace c < 0
     then Fails (Wrap ''check PostgreSQL invariants with negative expired lease grace'' [])
     else Returns (map (runCheck c now s) check_specs))"

definition HasViolations :: "result list \<Rightarrow> bool" where
  "HasViolations report = list_ex (\<lambda>r. 0 < r_count r) report"

definition leaseExpiryExceedsGrace :: "duration \<Rightarrow> duration \<Rightarrow> bool" where
  "leaseExpiryExceedsGrace expiredFor grace \<longleftrightarrow> grace < expiredFor"

section \<open>Lemmas\<close>

lemma latest_run_Some:
  assumes "latest_run s m = Some r"
  shows "r \<in> set (runs s)" "run_mailing r = m" "latest (runs s) r"
proof -
  let ?rs = "filter (\<lambda>r. run_mailing r = m) (runs s)"
  let ?k = "\<lambda>r. (run_number r, run_id r)"
  have "r \<in> set (rev (sort_key ?k ?rs))"
    using assms unfolding latest_run_def by (rule first_row_Some)
  then show r: "r \<in> set (runs s)" "run_mailing r = m" by auto
  obtain ys where ys: "rev (sort_key ?k ?rs) = r # ys"
    using assms unfolding latest_run_def first_row_def by (auto split: list.splits)
  then have snoc: "sort_key ?k ?rs = rev ys @ [r]" by (simp add: rev_swap)
  have "sorted (map ?k (rev ys @ [r]))" unfolding snoc [symmetric] by (rule sorted_sort_key)
  then have le: "?k x \<le> ?k r" if "x \<in> set (rev ys @ [r])" for x
    using that by (auto simp: sorted_append)
  show "latest (runs s) r"
    unfolding latest_def
  proof (intro ballI impI)
    fix x assume "x \<in> set (runs s)" "run_mailing x = run_mailing r"
    then have "x \<in> set (sort_key ?k ?rs)" using r(2) by simp
    then show "run_number x \<le> run_number r" using le [of x] unfolding snoc by auto
  qed
qed

lemma inv_run_times: "run_ok now r \<Longrightarrow> \<not> run_time_violation r"
  by (cases "run_status r") (auto simp: run_ok_def run_times_ok_def run_time_violation_def)

lemma verdict_no_contradiction: "verdict_ok m r \<Longrightarrow> \<not> status_contradiction m r"
  by (cases m) (auto simp: status_contradiction_def)

lemma inv_no_contradictions:
  assumes inv: "queue_inv b now s" shows "contradictions s = []"
proof -
  have "(case latest_run s (mailing_id m) of None \<Rightarrow> []
     | Some r \<Rightarrow> if status_contradiction (mailing_status m) (run_status r)
                 then [Coordinates (mailing_id m) (run_id r) nil_uuid] else []) = []"
    if m: "m \<in> set (mailings s)" for m
  proof (cases "latest_run s (mailing_id m)")
    case (Some r)
    note r = latest_run_Some [OF Some]
    obtain w where w: "w \<in> set (mailings s)" "mailing_id w = run_mailing r"
      "verdict_ok (mailing_status w) (run_status r)"
      using queue_inv_parts(5) [OF inv] r unfolding runs_ok_def by metis
    then have "w = m" using distinct_key_unique [OF queue_inv_parts(1) [OF inv] w(1) m] r(2) by simp
    then show ?thesis using Some w(3) verdict_no_contradiction by simp
  qed simp
  then show ?thesis unfolding contradictions_def by (simp add: concat_eq_Nil_conv)
qed

lemma pending_queued:
  assumes inv: "queue_inv True now s" and d: "d \<in> set (deliveries s)" "d_status d = DPending"
  shows "mailing_status_of s d = Some MQueued" "map_option run_status (run_of_delivery s d) = Some RQueued"
proof -
  obtain m r where p: "find_mailing s (mailing_of (d_key d)) = Some m"
    "find_run s (mailing_of (d_key d)) (run_of (d_key d)) = Some r"
    "r \<in> set (runs s)" "m \<in> set (mailings s)" "run_mailing r = mailing_of (d_key d)" "active_run r"
    using row_parents [OF inv d(1)] d(2) by metis
  note q = active_run_queued(1) [OF inv p(3,6)]
  obtain w where w: "w \<in> set (mailings s)" "mailing_id w = run_mailing r"
      "verdict_ok (mailing_status w) (run_status r)"
    using queue_inv_parts(5) [OF inv] p(3) active_latest [OF queue_inv_parts(5) [OF inv] p(3,6)]
    unfolding runs_ok_def by metis
  have "w = m"
    using distinct_key_unique [OF queue_inv_parts(1) [OF inv] w(1) p(4)] w(2) p(1,5)
      find_mailing_iff [OF inv] by auto
  then have "mailing_status m = MQueued" using w(3) q by (cases "mailing_status m") auto
  then show "mailing_status_of s d = Some MQueued" "map_option run_status (run_of_delivery s d) = Some RQueued"
    using p q by (simp_all add: mailing_status_of_def run_of_delivery_def)
qed

lemma inv_leased:
  assumes "queue_inv b now s" "d \<in> set (deliveries s)" "d_status d = DSending"
  shows "full_lease d" "1 \<le> d_attempts d" "d_started d \<noteq> None"
  using queue_inv_parts(7) [OF assms(1,2)] assms(3) by (auto simp: row_ok_def delivery_checks_iff)

text \<open>Without the strict flag only the two checks on claimable deliveries can report a row.\<close>

lemma clean_checks:
  assumes inv: "queue_inv b now s"
    and name: "name \<in> {CheckSendingDeliveryWithoutLease, CheckRunStatusTimestampContradiction,
      CheckMailingRunStatusContradiction}"
  shows "violations grace at s name = []"
proof -
  have lease: "\<not> (d_status d = DSending \<and> (d_token d = None \<or> d_until d = None \<or> d_gen d = None))"
    if "d \<in> set (deliveries s)" for d
    using inv_leased(1) [OF inv that] by (auto simp: full_lease_iff)
  show ?thesis
    using name lease inv_run_times [OF queue_inv_parts(6) [OF inv]] inv_no_contradictions [OF inv]
    by (auto simp: violations_def filter_empty_conv)
qed

lemma clean_claimable_checks:
  assumes inv: "queue_inv True now s"
    and name: "name \<in> {CheckStoppedMailingWithClaimableDelivery, CheckCancelledRunWithClaimableDelivery}"
  shows "violations grace at s name = []"
proof -
  have "\<not> (claimable at d \<and> mailing_status_of s d = Some MStopped)"
      "\<not> (claimable at d \<and> map_option run_status (run_of_delivery s d) = Some RCancelled)"
    if "d \<in> set (deliveries s)" for d
    using pending_queued [OF inv that] by (auto simp: claimable_def)
  then show ?thesis using name by (auto simp: violations_def filter_empty_conv)
qed

end
