(* ===== verification/Pipeline_Properties.thy ===== *)
theory Pipeline_Properties
  imports Invariant_Checks
begin

text \<open>
  The properties of the delivery pipeline: bounds on sends, finality of sent rows and stopped
  runs, the table constraints, the consistency checks, and the contracts of the single
  operations. The first group holds in every reachable state and rests on the interpretations
  \<open>pipeline_sys\<close>, \<open>sent_sys\<close> and \<open>ended_sys\<close>.
\<close>

section \<open>Reachable states\<close>

lemma reachable_queue_inv:
  "reachable pipeline_init pipeline_step p \<Longrightarrow> queue_inv (\<not> p_raced p) (p_now p) (p_db p) \<and> sends_inv p"
  using pipeline_sys.inv_reachable unfolding pipeline_inv_def by blast

lemma sends_inv_random:
  assumes "sends_inv p" "(k, r) \<in> set (p_sends p)"
  shows "\<exists>t \<in> set (telegram_deliveries (p_db p)). t_key t = k \<and> t_random t = r"
  using sends_inv_parts(3,6) [OF assms(1)] assms(2) by blast

lemma admissions_row:
  assumes "reachable pipeline_init pipeline_step p" "0 < admissions_of p k"
  shows "\<exists>d \<in> set (deliveries (p_db p)). d_key d = k"
proof -
  have keys: "map t_key (telegram_deliveries (p_db p)) = map d_key (deliveries (p_db p))"
    and s: "sends_inv p"
    using reachable_queue_inv [OF assms(1)] by (auto simp: queue_inv_def keys_ok_def)
  have "k \<in> set (map fst (p_admissions p))"
    using assms(2) count_notin unfolding admissions_of_def by fastforce
  then have "k \<in> set (map t_key (telegram_deliveries (p_db p)))"
    using s unfolding sends_inv_def by fastforce
  then show ?thesis unfolding keys by auto
qed

lemma row_admissions:
  assumes "reachable pipeline_init pipeline_step p" "d \<in> set (deliveries (p_db p))"
  shows "admissions_of p (d_key d) = d_attempts d" "d_attempts d \<le> 5"
    "d_status d = DSent \<Longrightarrow> 1 \<le> sends_of p (d_key d)"
proof -
  note i = reachable_queue_inv [OF assms(1)]
  note s = sends_inv_parts [OF i [THEN conjunct2]]
  show "admissions_of p (d_key d) = d_attempts d" by (rule s(1) [OF assms(2)])
  show "d_status d = DSent \<Longrightarrow> 1 \<le> sends_of p (d_key d)" by (rule s(7) [OF assms(2)])
  show "d_attempts d \<le> 5"
    using queue_inv_parts(7) [OF i [THEN conjunct1] assms(2)] s(8) [OF assms(2)] by (simp add: row_ok_def)
qed

text \<open>C1: whatever the interleaving of queueing, claims, admissions, hand-overs, outcomes, crashes, lost
  commit answers, lease reaping and reconciliation, a delivery is admitted at most five times and
  handed to the transport at most once per admission; its attempt counter is exactly the number of
  its admissions, and a sent delivery was handed over at least once.\<close>
theorem sends_bounded:
  assumes "reachable pipeline_init pipeline_step p"
  shows "admissions_of p k \<le> 5 \<and> sends_of p k \<le> admissions_of p k
    \<and> (\<forall>d \<in> set (deliveries (p_db p)). d_attempts d = admissions_of p (d_key d)
      \<and> (d_status d = DSent \<longrightarrow> 1 \<le> sends_of p (d_key d)))"
proof (intro conjI)
  show "admissions_of p k \<le> 5"
  proof (cases "0 < admissions_of p k")
    case True
    then obtain d where "d \<in> set (deliveries (p_db p))" "d_key d = k"
      using admissions_row [OF assms] by blast
    then show ?thesis using row_admissions(1,2) [OF assms] by metis
  qed simp
  show "sends_of p k \<le> admissions_of p k"
    using sends_inv_parts(2) [of p k] reachable_queue_inv [OF assms] by simp
  show "\<forall>d \<in> set (deliveries (p_db p)). d_attempts d = admissions_of p (d_key d)
      \<and> (d_status d = DSent \<longrightarrow> 1 \<le> sends_of p (d_key d))"
    using row_admissions [OF assms] by simp
qed

theorem sends_bounded_witness:
  "admissions_of demo_stopped (Coordinates 10 40 30) \<le> 5
   \<and> sends_of demo_stopped (Coordinates 10 40 30) \<le> admissions_of demo_stopped (Coordinates 10 40 30)"
  using sends_bounded [OF demo_reachable(9), of "Coordinates 10 40 30"] by blast

text \<open>Every attempt of a delivery reuses the delivery's random id, and two deliveries never share
  one, so the transport can recognise a repeated send of a delivery and only that.\<close>
theorem random_id_identifies_delivery:
  assumes "reachable pipeline_init pipeline_step p"
    and "(k, r) \<in> set (p_sends p)" "(k', r') \<in> set (p_sends p)"
  shows "(k = k') = (r = r')"
proof -
  have s: "sends_inv p" and keys: "keys_ok (p_db p)"
    using reachable_queue_inv [OF assms(1)] by (auto simp: queue_inv_def)
  obtain t t' where t: "t \<in> set (telegram_deliveries (p_db p))" "t_key t = k" "t_random t = r"
      and t': "t' \<in> set (telegram_deliveries (p_db p))" "t_key t' = k'" "t_random t' = r'"
    using sends_inv_random [OF s assms(2)] sends_inv_random [OF s assms(3)] by blast
  have "distinct (map t_key (telegram_deliveries (p_db p)))" "distinct (map t_random (telegram_deliveries (p_db p)))"
    using keys by (simp_all add: keys_ok_def)
  from distinct_key_unique [OF this(1) t(1) t'(1)] distinct_key_unique [OF this(2) t(1) t'(1)]
  show ?thesis using t t' by auto
qed

theorem random_id_identifies_delivery_witness:
  "(Coordinates 10 40 30 = Coordinates 10 40 31) = ((1::int) = 2)"
proof -
  have "(Coordinates 10 40 30, 1) \<in> set (p_sends demo_stopped)"
    "(Coordinates 10 40 31, 2) \<in> set (p_sends demo_stopped)"
    by (simp_all add: demo_stopped_def demo_sending2_def demo_waiting2_def demo_claimed2_def demo_sent_def
        demo_sending_def with_db_def with_admit_def with_transport_def flight_of_def)
  then show ?thesis by (rule random_id_identifies_delivery [OF demo_reachable(9)])
qed

text \<open>C7: in every reachable state the CHECK constraints of \<open>mailing_deliveries\<close> and \<open>mailing_runs\<close> hold,
  so no statement of the stores is ever rejected by them, and a mailing has at most one active run,
  which is its latest.\<close>
theorem constraints_hold:
  assumes "reachable pipeline_init pipeline_step p"
  shows "(\<forall>d \<in> set (deliveries (p_db p)). delivery_checks d) \<and> (\<forall>r \<in> set (runs (p_db p)). run_checks r)
    \<and> (\<forall>r \<in> set (runs (p_db p)). \<forall>x \<in> set (runs (p_db p)).
         run_mailing x = run_mailing r \<and> active_run r \<longrightarrow> run_number x \<le> run_number r \<and> (active_run x \<longrightarrow> x = r))"
proof -
  have inv: "queue_inv (\<not> p_raced p) (p_now p) (p_db p)" using reachable_queue_inv [OF assms] ..
  note parts = queue_inv_parts [OF inv]
  have "run_number x \<le> run_number r \<and> (active_run x \<longrightarrow> x = r)"
    if "r \<in> set (runs (p_db p))" "x \<in> set (runs (p_db p))" "run_mailing x = run_mailing r" "active_run r" for r x
  proof -
    have l: "latest (runs (p_db p)) r" by (rule active_latest [OF parts(5) that(1,4)])
    have "active_run x \<Longrightarrow> x = r"
      by (rule latest_unique [OF parts(4) active_latest [OF parts(5) that(2)] l that(2,1,3)])
    then show ?thesis using l that by (auto simp: latest_def)
  qed
  then show ?thesis using parts(6,7) by (auto simp: run_ok_def row_ok_def)
qed

theorem constraints_hold_witness: "delivery_checks (hd (deliveries (p_db demo_stopped)))"
proof -
  have "deliveries (p_db demo_stopped) \<noteq> []" using demo_stopped_rows(1) by auto
  then show ?thesis
    using constraints_hold [OF demo_reachable(9), THEN conjunct1] by simp
qed

text \<open>C3: a sent delivery is final. Its row is never rewritten by any later step, late failures, reaping
  and stopping included, it is never admitted again, and the transport can only still be handed
  the sends of it that were admitted before, each at most once.\<close>
theorem sent_is_final:
  assumes "reachable pipeline_init pipeline_step p" "rtranclp pipeline_step p q"
    and "d \<in> set (deliveries (p_db p))" "d_status d = DSent"
  shows "d \<in> set (deliveries (p_db q)) \<and> admissions_of q (d_key d) = admissions_of p (d_key d)
    \<and> sends_of q (d_key d) + waiting q (d_key d) \<le> sends_of p (d_key d) + waiting p (d_key d)"
  using sent_sys.holds_run [OF assms(2) pipeline_sys.inv_reachable [OF assms(1)],
      of "(d, admissions_of p (d_key d), sends_of p (d_key d) + waiting p (d_key d))"] assms(3,4)
  by (simp add: sent_for_good_def)

lemma demo_sent_row:
  "d_key (hd (deliveries (p_db demo_sent))) = Coordinates 10 40 30"
  "d_status (hd (deliveries (p_db demo_sent))) = DSent" "deliveries (p_db demo_sent) \<noteq> []"
  by code_simp+

lemma demo_after_sent: "rtranclp pipeline_step demo_sent demo_stopped"
  by (meson demo_steps converse_rtranclp_into_rtranclp rtranclp.rtrancl_refl)

theorem sent_is_final_witness:
  "hd (deliveries (p_db demo_sent)) \<in> set (deliveries (p_db demo_stopped))
   \<and> admissions_of demo_stopped (d_key (hd (deliveries (p_db demo_sent))))
     = admissions_of demo_sent (d_key (hd (deliveries (p_db demo_sent))))"
  using sent_is_final [OF demo_reachable(5) demo_after_sent _ demo_sent_row(2)]
    hd_in_set [OF demo_sent_row(3)] by blast

text \<open>C2: stopping is final for the deliveries of the mailing's runs. Once \<open>Stop\<close> has answered
  successfully, no delivery of that mailing that exists at that moment is ever admitted again,
  whichever tasks were claimed, leased or waiting, and even if the mailing is queued anew. What can
  still reach the transport are the sends a worker had already been granted when \<open>Stop\<close> committed
  and not yet started: the hand-overs of a delivery grow by at most their number.\<close>
theorem stop_is_final:
  assumes "reachable pipeline_init pipeline_step p"
    and "Stop (p_now p) sc m (p_db p) = (s', Returns ())"
    and "rtranclp pipeline_step (p\<lparr>p_db := s'\<rparr>) q"
    and "d \<in> set (deliveries (p_db p))" "mailing_of (d_key d) = m"
  shows "admissions_of q (d_key d) = admissions_of p (d_key d)
    \<and> sends_of q (d_key d) + waiting q (d_key d) \<le> sends_of p (d_key d) + waiting p (d_key d)"
proof -
  let ?p' = "p\<lparr>p_db := s'\<rparr>" and ?k = "d_key d"
  have inv: "pipeline_inv p" by (rule pipeline_sys.inv_reachable [OF assms(1)])
  have inv': "pipeline_inv ?p'"
    by (rule pipeline_inv_step [OF inv pipeline_step.stop [OF assms(2)]])
  have i': "queue_inv (\<not> p_raced p) (p_now p) s'"
    using inv' by (simp add: pipeline_inv_def)
  have stopped: "\<exists>w. find_mailing s' m = Some w \<and> mailing_status w = MStopped"
    by (rule Stop_success [OF assms(2)])
  have "d_key d \<in> set (map d_key (deliveries s'))"
    using assms(4) same_sends_Stop [OF assms(2)] unfolding same_sends_def attempts_of_def
    by (metis (no_types, lifting) comp_apply fst_conv image_eqI list.map_comp list.map_cong0 set_map)
  then obtain x where x: "x \<in> set (deliveries s')" "d_key x = d_key d" by auto
  obtain r where r: "r \<in> set (runs s')" "run_mailing r = m" "run_id r = run_of (d_key d)"
    using queue_inv_parts(7) [OF i' x(1)] x(2) assms(5) by (auto simp: row_ok_def)
  have "\<not> active_run r" by (rule stopped_inactive [OF i' stopped r(1,2)])
  then have "ended (r, ?k, admissions_of p ?k, sends_of p ?k + waiting p ?k) ?p'"
    using r by (simp add: ended_def admissions_of_def sends_of_def waiting_def)
  from ended_sys.holds_run [OF assms(3) inv' this] show ?thesis by (simp add: ended_def)
qed

lemma demo_stop: "snd (Stop 5 SystemScope 10 (p_db demo_waiting2)) = Returns ()"
  by code_simp

lemma demo_pending_row:
  "map d_key (deliveries (p_db demo_waiting2)) = [Coordinates 10 40 30, Coordinates 10 40 31]"
  by code_simp

lemma demo_late_send_logs:
  "sends_of demo_waiting2 (Coordinates 10 40 31) = 0" "waiting demo_waiting2 (Coordinates 10 40 31) = 1"
  "sends_of demo_late_send (Coordinates 10 40 31) = 1"
  by code_simp+

text \<open>The stop commits while the second delivery waits for the transport, which then gets it: the
  bound is reached.\<close>
theorem stop_is_final_witness:
  "admissions_of demo_late_send (Coordinates 10 40 31) = admissions_of demo_waiting2 (Coordinates 10 40 31)
   \<and> waiting demo_late_send (Coordinates 10 40 31) = 0
   \<and> sends_of demo_late_send (Coordinates 10 40 31)
     = sends_of demo_waiting2 (Coordinates 10 40 31) + waiting demo_waiting2 (Coordinates 10 40 31)"
proof -
  have stop: "Stop (p_now demo_waiting2) SystemScope 10 (p_db demo_waiting2)
      = (fst (Stop 5 SystemScope 10 (p_db demo_waiting2)), Returns ())"
    using demo_stop demo_nows by (simp add: prod_eq_iff)
  have run: "rtranclp pipeline_step
      (demo_waiting2\<lparr>p_db := fst (Stop 5 SystemScope 10 (p_db demo_waiting2))\<rparr>) demo_late_send"
    using demo_late_send_step unfolding demo_held_def by (rule r_into_rtranclp)
  obtain d where "d \<in> set (deliveries (p_db demo_waiting2))" "d_key d = Coordinates 10 40 31"
    using demo_pending_row by (metis (no_types, lifting) imageE list.set_intros(1,2) list.set_map)
  then show ?thesis
    using stop_is_final [OF demo_reachable(7) stop run, of d] demo_late_send_logs by simp
qed

section \<open>The consistency checks\<close>

text \<open>C13: in every reachable state, at any time and with any grace period, the report of the
  invariant checker has count zero and an empty sample for the error checks on sending rows without
  lease, run timestamps and mailing/run status; and as long as no reaper pass has committed against
  a mailing or run changed since its snapshot, also for the two on claimable deliveries of stopped
  mailings and cancelled runs.\<close>
theorem error_checks_clean:
  assumes "reachable pipeline_init pipeline_step p" "Check c at (p_db p) = Returns report"
    and "x \<in> set report" "r_severity x = SeverityError"
    and "r_name x \<noteq> CheckSendingDeliveryWithStaleExecutionGeneration"
    and "r_name x \<noteq> CheckSendingDeliveryWithInactiveParent"
    and "p_raced p \<longrightarrow> r_name x \<noteq> CheckStoppedMailingWithClaimableDelivery
      \<and> r_name x \<noteq> CheckCancelledRunWithClaimableDelivery"
  shows "r_count x = 0 \<and> r_sample x = []"
proof -
  have inv: "queue_inv (\<not> p_raced p) (p_now p) (p_db p)" using reachable_queue_inv [OF assms(1)] ..
  have report: "report = map (runCheck c at (p_db p)) check_specs"
    using assms(2) by (auto simp: Check_def split: if_split_asm)
  obtain spec where spec: "spec \<in> set check_specs" "x = runCheck c at (p_db p) spec"
    using assms(3) unfolding report by auto
  have "fst spec \<in> {CheckSendingDeliveryWithoutLease, CheckRunStatusTimestampContradiction,
      CheckMailingRunStatusContradiction} \<or> \<not> p_raced p \<and> fst spec \<in>
      {CheckStoppedMailingWithClaimableDelivery, CheckCancelledRunWithClaimableDelivery}"
    using spec assms(4-) by (auto simp: check_specs_def runCheck_def Let_def)
  then have "violations (expiredLeaseGrace c) at (p_db p) (fst spec) = []"
    using clean_checks [OF inv] clean_claimable_checks inv by auto
  then show ?thesis by (simp add: spec(2) runCheck_def Let_def)
qed

lemma demo_not_raced: "\<not> p_raced demo_stopped"
  by (simp add: demo_stopped_def demo_sending2_def demo_waiting2_def demo_claimed2_def demo_sent_def
      demo_sending_def demo_waiting_def demo_claimed_def demo_queued_def demo_start_def with_db_def
      with_admit_def with_transport_def)

definition demo_report :: "result list" where
  "demo_report = map (runCheck New 5 (p_db demo_stopped)) check_specs"

theorem error_checks_clean_witness:
  "r_count (runCheck New 5 (p_db demo_stopped) (CheckStoppedMailingWithClaimableDelivery, SeverityError)) = 0
   \<and> r_sample (runCheck New 5 (p_db demo_stopped) (CheckStoppedMailingWithClaimableDelivery, SeverityError)) = []"
proof (rule error_checks_clean [OF demo_reachable(9), of New 5 demo_report])
  show "Check New 5 (p_db demo_stopped) = Returns demo_report"
    by (simp add: Check_def New_def demo_report_def DefaultSampleLimit_def DefaultExpiredLeaseGrace_def)
  show "runCheck New 5 (p_db demo_stopped) (CheckStoppedMailingWithClaimableDelivery, SeverityError) \<in> set demo_report"
    by (simp add: demo_report_def check_specs_def)
qed (simp_all add: runCheck_def Let_def demo_not_raced)

text \<open>The stale-generation check is not an invariant of normal operation: stopping a mailing while
  one of its deliveries is being sent raises the run's generation above the one of the lease, and
  the checker reports that delivery as an error at once, within its lease.\<close>
lemma stale_generation_reachable:
  "reachable pipeline_init pipeline_step demo_stopped
   \<and> violations (60 * second) 5 (p_db demo_stopped) CheckSendingDeliveryWithStaleExecutionGeneration
       = [Coordinates 10 40 31]
   \<and> violations (60 * second) 5 (p_db demo_stopped) CheckExpiredSendingLease = []"
  using demo_reachable(9) by (intro conjI) (assumption, code_simp, code_simp)

lemma expired_past_grace_iff:
  assumes inv: "queue_inv b now s" and d: "d \<in> set (deliveries s)" and "grace = ExpiredLeaseGrace c"
  shows "expired_past_grace grace at d \<longleftrightarrow> expired_sending c at s d"
proof -
  have "parents s (d_key d) \<noteq> None" using row_parents [OF inv d] by (metis option.distinct(1))
  then show ?thesis using assms(3)
    by (cases "d_until d") (auto simp: expired_past_grace_def expired_sending_def)
qed

lemma reap_not_sending:
  assumes inv: "queue_inv b now s" and d: "d \<in> set (deliveries s)" "d_status d = DSending"
  shows "d_status (reap_row c at s d) \<noteq> DSending"
proof -
  obtain m r where "parents s (d_key d) = Some (m, r)" using row_parents [OF inv d(1)] by metis
  then have "reap_decision s d \<noteq> ReapNothing"
    using inv_leased [OF inv d] by (auto simp: reap_decision_def Let_def full_lease_iff)
  then show ?thesis
    by (cases "reap_decision s d") (simp_all add: reap_row_def clear_lease_def)
qed

lemma reap_candidates_all:
  assumes "length (deliveries s) \<le> nat (BatchSize c)" and "d \<in> set (deliveries s)"
    and "expired_sending c at s d"
  shows "d_key d \<in> set (reap_candidates c at {} s)"
proof -
  let ?rows = "sort_key (\<lambda>d. (the (d_until d), d_key d)) (filter (\<lambda>d. expired_sending c at s d \<and> d_key d \<notin> {}) (deliveries s))"
  have "length (map d_key ?rows) \<le> nat (BatchSize c)"
    using le_trans [OF length_filter_le assms(1)] by simp
  then have "take (nat (BatchSize c)) (map d_key ?rows) = map d_key ?rows" by (rule take_all)
  then show ?thesis using assms(2,3) unfolding reap_candidates_def by simp
qed

text \<open>A reaper pass whose batch is large enough and that no other transaction disturbs leaves no
  expired sending delivery: right after it both grace-based checks of the checker, expired lease and
  inactive parent, are clean for the same grace period.\<close>
lemma reap_clears_expired:
  assumes "reachable pipeline_init pipeline_step p"
    and "length (deliveries (p_db p)) \<le> nat (BatchSize c)"
    and "name = CheckExpiredSendingLease \<or> name = CheckSendingDeliveryWithInactiveParent"
  shows "violations (ExpiredLeaseGrace c) (p_now p) (fst (Reap c (p_now p) {} (p_db p))) name = []"
proof -
  let ?s = "p_db p" and ?at = "p_now p"
  have inv: "queue_inv (\<not> p_raced p) ?at ?s" using reachable_queue_inv [OF assms(1)] ..
  have "\<not> expired_past_grace (ExpiredLeaseGrace c) ?at d"
    if d: "d \<in> set (deliveries (fst (Reap c ?at {} ?s)))" for d
  proof -
    obtain x where x: "x \<in> set (deliveries ?s)"
      "d = (if d_key x \<in> set (reap_candidates c ?at {} ?s) then reap_row c ?at ?s x else x)"
      using d unfolding Reap_def Let_def by (auto simp: set_update_where)
    show ?thesis
    proof (cases "expired_sending c ?at ?s x")
      case True
      then have "d_status d \<noteq> DSending"
        using reap_candidates_all [OF assms(2) x(1) True] x(2) reap_not_sending [OF inv x(1)]
        by (simp add: expired_sending_def)
      then show ?thesis by (simp add: expired_past_grace_def)
    next
      case False
      then have "d = x" using reap_candidate_sending [OF inv x(1)] x(2) by auto
      then show ?thesis using False expired_past_grace_iff [OF inv x(1) refl] by simp
    qed
  qed
  then show ?thesis using assms(3) by (auto simp: violations_def filter_empty_conv)
qed

theorem reap_clears_expired_witness:
  "violations (ExpiredLeaseGrace ReaperDefaults) (p_now demo_late) (p_db demo_late) CheckExpiredSendingLease
     = [Coordinates 10 40 31]
   \<and> violations (ExpiredLeaseGrace ReaperDefaults) (p_now demo_late)
     (fst (Reap ReaperDefaults (p_now demo_late) {} (p_db demo_late))) CheckExpiredSendingLease = []"
proof (rule conjI [OF _ reap_clears_expired [OF demo_late_reachable]])
  show "violations (ExpiredLeaseGrace ReaperDefaults) (p_now demo_late) (p_db demo_late) CheckExpiredSendingLease
     = [Coordinates 10 40 31]" by code_simp
  have "length (map d_status (deliveries (p_db demo_stopped))) = 2" by (simp add: demo_stopped_rows)
  then show "length (deliveries (p_db demo_late)) \<le> nat (BatchSize ReaperDefaults)"
    by (simp add: ReaperDefaults_def demo_late_def)
qed simp

end
