(* ===== verification/Operation_Properties.thy ===== *)
theory Operation_Properties
  imports Pipeline_Properties
begin

text \<open>
  Contracts of single operations on a state that satisfies the queue invariant, stated for
  reachable states of the pipeline: claiming, queueing, reaping, dispatching.
\<close>

section \<open>Claim\<close>

lemma Claim_Returns:
  assumes "Claim lease now token locked s = (s', Returns t)"
  obtains d run account where "0 < lease" "claim_candidate now locked s = Some d"
    "claim_join s d = Some (run, account)" "0 < oa_version account"
    "s' = s\<lparr>deliveries := update_where (\<lambda>x. d_key x = d_key d)
       (lease_delivery now lease token (run_generation run)) (deliveries s)\<rparr>"
    "t = \<lparr>task_route = oa_id account, task_version = of_int (oa_version account),
       task_key = d_key d, task_token = token\<rparr>"
proof (cases "claim_candidate now locked s")
  case None
  then show thesis using assms by (auto simp: Claim_def split: if_split_asm)
next
  case (Some d)
  obtain run account where "claim_join s d = Some (run, account)"
    using claim_candidate_Some [OF Some] by auto
  then show thesis using that [of d run account] assms Some
    by (auto simp: Claim_def split: if_split_asm)
qed

lemma find_updated:
  assumes inv: "queue_inv b now s" and d: "d \<in> set (deliveries s)" and key: "\<And>x. d_key (f x) = d_key x"
  shows "find_delivery (s\<lparr>deliveries := update_where (\<lambda>x. d_key x = d_key d) f (deliveries s)\<rparr>) (d_key d)
    = Some (f d)"
proof -
  have "find (\<lambda>x. d_key x = d_key d) (deliveries s) = Some d"
    by (rule find_key_member [OF queue_inv_parts(3) [OF inv] d])
  then show ?thesis
    unfolding find_delivery_def by (simp add: find_key_update_where [of d_key f, OF key])
qed

text \<open>C10: a claim hands out the oldest ready delivery (by ready time, then key) among the claimable,
  joined and unlocked ones, leases exactly that row under the claim's token and the run's current
  generation, leaves every other row as it was, and until the lease has run out no other claim
  can hand out the same delivery.\<close>
theorem Claim_contract:
  assumes "reachable pipeline_init pipeline_step p"
    and "Claim lease now token locked (p_db p) = (s', Returns t)"
  shows "\<exists>d \<in> set (deliveries (p_db p)). d_key d = task_key t \<and> claimable now d
    \<and> (\<forall>x \<in> set (deliveries (p_db p)). claimable now x \<and> claim_join (p_db p) x \<noteq> None \<and> d_key x \<notin> locked
         \<longrightarrow> (d_ready d, d_key d) \<le> (d_ready x, d_key x))
    \<and> (\<exists>r a. claim_join (p_db p) d = Some (r, a) \<and> oa_id a = task_route t \<and> oa_status a = Active
         \<and> find_delivery s' (task_key t) = Some (lease_delivery now lease (task_token t) (run_generation r) d))
    \<and> (\<forall>x \<in> set (deliveries (p_db p)). d_key x \<noteq> task_key t \<longrightarrow> x \<in> set (deliveries s'))
    \<and> (\<forall>later others x. later \<le> now + lease \<and> claim_candidate later others s' = Some x
         \<longrightarrow> d_key x \<noteq> task_key t)"
proof -
  let ?s = "p_db p"
  have inv: "queue_inv (\<not> p_raced p) (p_now p) ?s" using reachable_queue_inv [OF assms(1)] ..
  from assms(2) obtain d run account where c: "0 < lease" "claim_candidate now locked ?s = Some d"
    "claim_join ?s d = Some (run, account)"
    "s' = ?s\<lparr>deliveries := update_where (\<lambda>x. d_key x = d_key d)
       (lease_delivery now lease token (run_generation run)) (deliveries ?s)\<rparr>"
    "t = \<lparr>task_route = oa_id account, task_version = of_int (oa_version account),
       task_key = d_key d, task_token = token\<rparr>"
    by (rule Claim_Returns)
  note cand = claim_candidate_Some [OF c(2)]
  have inv': "queue_inv (\<not> p_raced p) (p_now p) s'" by (rule queue_inv_Claim [OF inv assms(2)])
  have found: "find_delivery s' (d_key d) = Some (lease_delivery now lease token (run_generation run) d)"
    unfolding c(4) using cand by (intro find_updated [OF inv]) auto
  have exclusive: "d_key x \<noteq> d_key d"
    if "later \<le> now + lease" "claim_candidate later others s' = Some x" for later others x
  proof
    assume "d_key x = d_key d"
    then have "find_delivery s' (d_key d) = Some x"
      using claim_candidate_Some [OF that(2)] find_delivery_iff [OF inv'] by blast
    then have "x = lease_delivery now lease token (run_generation run) d" using found by simp
    then show False
      using claim_candidate_Some [OF that(2)] that(1) by (auto simp: claimable_def lease_delivery_def)
  qed
  have others: "x \<in> set (deliveries s')" if "x \<in> set (deliveries ?s)" "d_key x \<noteq> d_key d" for x
    unfolding c(4) using that by (simp add: kept_row)
  show ?thesis
  proof (intro bexI [of _ d] conjI)
    show "\<forall>x \<in> set (deliveries ?s). claimable now x \<and> claim_join ?s x \<noteq> None \<and> d_key x \<notin> locked
         \<longrightarrow> (d_ready d, d_key d) \<le> (d_ready x, d_key x)"
      using claim_candidate_least [OF c(2)] by blast
    show "\<exists>r a. claim_join ?s d = Some (r, a) \<and> oa_id a = task_route t \<and> oa_status a = Active
         \<and> find_delivery s' (task_key t) = Some (lease_delivery now lease (task_token t) (run_generation r) d)"
      using c(3,5) found claim_join_Some(3) [OF c(3)] by simp
  qed (use c(5) cand others exclusive in auto)
qed

lemma demo_claim:
  "snd (Claim (30 * second) 5 50 {} (p_db demo_queued))
     = Returns \<lparr>task_route = 20, task_version = 3, task_key = Coordinates 10 40 30, task_token = 50\<rparr>"
  by code_simp

theorem Claim_contract_witness:
  "\<exists>d \<in> set (deliveries (p_db demo_queued)). d_key d = Coordinates 10 40 30 \<and> claimable 5 d"
  using Claim_contract [OF demo_reachable(1), of "30 * second" 5 50 "{}"
      "fst (Claim (30 * second) 5 50 {} (p_db demo_queued))"
      "\<lparr>task_route = 20, task_version = 3, task_key = Coordinates 10 40 30, task_token = 50\<rparr>"]
    demo_claim by (auto simp: prod_eq_iff)

section \<open>Queue\<close>

text \<open>C11: a successful \<open>Queue\<close> starts from a draft or stopped mailing none of whose deliveries has an
  open outcome, adds one queued run numbered above all runs of the mailing, and one unattempted
  delivery for exactly the recipients of the mailing, less those a one-time mailing has already
  been sent to; the earlier deliveries are untouched. A failed one changes nothing.\<close>
theorem Queue_contract:
  assumes "reachable pipeline_init pipeline_step p"
    and "Queue now rid sc m (p_db p) = (s', res)"
  shows "(res \<noteq> Returns () \<longrightarrow> s' = p_db p)
    \<and> (res = Returns () \<longrightarrow> (\<exists>row \<in> set (mailings (p_db p)). mailing_id row = m
        \<and> mailing_status row \<in> {MDraft, MStopped}
        \<and> (\<forall>d \<in> set (deliveries (p_db p)). mailing_of (d_key d) = m \<longrightarrow> \<not> unresolved_delivery d)
        \<and> (\<exists>r. runs s' = runs (p_db p) @ [r] \<and> run_mailing r = m \<and> run_status r = RQueued
             \<and> (\<forall>x \<in> set (runs (p_db p)). run_id x \<noteq> run_id r \<and> (run_mailing x = m \<longrightarrow> run_number x < run_number r)))
        \<and> (\<exists>ds. deliveries s' = deliveries (p_db p) @ ds \<and> distinct (map d_key ds)
             \<and> (\<forall>d \<in> set ds. d_status d = DPending \<and> d_attempts d = 0)
             \<and> d_key ` set ds = {Coordinates m rid u |u. (m, u) \<in> set (recipients (p_db p))
                  \<and> \<not> (mailing_repeat row = Once \<and> (\<exists>d \<in> set (deliveries (p_db p)).
                         mailing_of (d_key d) = m \<and> recipient_of (d_key d) = u \<and> d_status d = DSent))})))"
proof -
  let ?s = "p_db p"
  have inv: "queue_inv (\<not> p_raced p) (p_now p) ?s" using reachable_queue_inv [OF assms(1)] ..
  from assms(2) show ?thesis
  proof (cases rule: Queue_cases)
    case 1
    then show ?thesis by simp
  next
    case (2 row)
    have row: "row \<in> set (mailings ?s)" "mailing_id row = m" using 2(1) find_mailing_iff [OF inv] by auto
    let ?es = "eligible_recipients ?s row" and ?r = "new_run now m rid (next_number ?s m)"
    have runs: "runs s' = runs ?s @ [?r]"
      and dels: "deliveries s' = deliveries ?s @ map (new_delivery now m rid) ?es"
      unfolding 2(7) by (simp_all add: queued_db_def set_mailing_status_def)
    have unresolved: "\<forall>d \<in> set (deliveries ?s). mailing_of (d_key d) = m \<longrightarrow> \<not> unresolved_delivery d"
      using 2(3) by (auto simp: has_unresolved_def list_ex_iff)
    have fresh: "\<forall>x \<in> set (runs ?s). run_id x \<noteq> run_id ?r \<and> (run_mailing x = m \<longrightarrow> run_number x < run_number ?r)"
      using 2(4) next_number_greater by (auto simp: run_insert_violation_def list_ex_iff new_run_def)
    have keys: "map d_key (map (new_delivery now m rid) ?es) = map (Coordinates m rid) ?es"
      by (simp add: new_delivery_def)
    have dist: "distinct (map d_key (map (new_delivery now m rid) ?es))"
      unfolding keys using inv eligible_distinct
      by (simp add: distinct_map inj_on_def queue_inv_def keys_ok_def)
    have es: "set ?es = {u. (m, u) \<in> set (recipients ?s) \<and> \<not> (mailing_repeat row = Once
        \<and> (\<exists>d \<in> set (deliveries ?s). mailing_of (d_key d) = m \<and> recipient_of (d_key d) = u \<and> d_status d = DSent))}"
      using row(2) by (auto simp: eligible_recipients_def already_sent_def list_ex_iff image_iff)
    have "d_key ` set (map (new_delivery now m rid) ?es) = Coordinates m rid ` set ?es"
      using keys by (metis list.set_map)
    then have image: "d_key ` set (map (new_delivery now m rid) ?es) = {Coordinates m rid u |u. (m, u) \<in> set (recipients ?s)
        \<and> \<not> (mailing_repeat row = Once \<and> (\<exists>d \<in> set (deliveries ?s).
             mailing_of (d_key d) = m \<and> recipient_of (d_key d) = u \<and> d_status d = DSent))}"
      unfolding es by blast
    have new: "\<forall>d \<in> set (map (new_delivery now m rid) ?es). d_status d = DPending \<and> d_attempts d = 0"
      by (simp add: new_delivery_def)
    have "\<exists>r. runs s' = runs ?s @ [r] \<and> run_mailing r = m \<and> run_status r = RQueued
        \<and> (\<forall>x \<in> set (runs ?s). run_id x \<noteq> run_id r \<and> (run_mailing x = m \<longrightarrow> run_number x < run_number r))"
      using runs fresh by (intro exI [of _ ?r]) (simp add: new_run_def)
    then show ?thesis using row 2(2,6) unresolved dels dist image new by blast
  qed
qed

lemma demo_queue: "snd (Queue 5 40 SystemScope 10 demo_db) = Returns ()"
  by code_simp

theorem Queue_contract_witness:
  "\<exists>row \<in> set (mailings demo_db). mailing_id row = 10 \<and> mailing_status row \<in> {MDraft, MStopped}
     \<and> (\<exists>ds. deliveries (fst (Queue 5 40 SystemScope 10 demo_db)) = deliveries demo_db @ ds
          \<and> d_key ` set ds = {Coordinates 10 40 u |u. (10, u) \<in> set (recipients demo_db)
              \<and> \<not> (mailing_repeat row = Once \<and> (\<exists>d \<in> set (deliveries demo_db).
                     mailing_of (d_key d) = 10 \<and> recipient_of (d_key d) = u \<and> d_status d = DSent))})"
proof -
  have q: "Queue 5 40 SystemScope 10 (p_db demo_start) = (fst (Queue 5 40 SystemScope 10 demo_db), Returns ())"
    using demo_queue by (simp add: demo_start_def prod_eq_iff)
  have db: "p_db demo_start = demo_db" by (simp add: demo_start_def)
  from Queue_contract [OF reachable.initial [of pipeline_init, OF demo_init] q] show ?thesis
    unfolding db by (elim conjE impE [OF _ refl] bexE exE) (intro bexI conjI exI; assumption)
qed

section \<open>Reap\<close>

lemma count_where_key_set:
  assumes "distinct (map key xs)"
  shows "count_where (\<lambda>x. key x \<in> set ks \<and> A x) xs + count_where (\<lambda>x. key x \<in> set ks \<and> B x \<and> \<not> A x) xs
    \<le> length ks"
proof -
  have "count_where (\<lambda>x. key x \<in> set ks \<and> A x) xs + count_where (\<lambda>x. key x \<in> set ks \<and> B x \<and> \<not> A x) xs
      \<le> length (filter (\<lambda>x. key x \<in> set ks) xs)"
    unfolding count_where_def by (induction xs) auto
  also have "\<dots> = card (set (map key (filter (\<lambda>x. key x \<in> set ks) xs)))"
    using assms distinct_card [of "map key (filter (\<lambda>x. key x \<in> set ks) xs)"]
    by (simp add: distinct_map_filter)
  also have "\<dots> \<le> card (set ks)" by (intro card_mono) auto
  also have "\<dots> \<le> length ks" by (rule card_length)
  finally show ?thesis .
qed

text \<open>A reaper pass touches at most a batch of rows, all of them sending with a lease expired beyond
  the grace period and unlocked. It makes a row pending again only under an active run of the lease's
  own generation with attempts left, and unknown otherwise, with a non-empty reason; either way
  the attempt count and the random id stay and the lease is gone.\<close>
theorem Reap_contract:
  assumes "reachable pipeline_init pipeline_step p"
    and "Reap c now locked (p_db p) = (s', res)"
  shows "Retried res + Unknown res \<le> nat (BatchSize c)
    \<and> telegram_deliveries s' = telegram_deliveries (p_db p)
    \<and> (\<forall>d \<in> set (deliveries (p_db p)). d \<in> set (deliveries s') \<or>
         (expired_sending c now (p_db p) d \<and> d_key d \<notin> locked
          \<and> (\<exists>d' \<in> set (deliveries s'). d_key d' = d_key d \<and> d_attempts d' = d_attempts d \<and> no_lease d'
              \<and> (if \<exists>m r. parents (p_db p) (d_key d) = Some (m, r) \<and> activePair (mailing_status m) (run_status r)
                      \<and> d_gen d = Some (run_generation r) \<and> d_attempts d < d_max d
                 then d_status d' = DPending
                 else d_status d' = DUnknown \<and> (\<exists>e. d_error d' = Some e \<and> btrim_nonempty e)))))"
proof -
  let ?s = "p_db p" and ?keys = "reap_candidates c now locked (p_db p)"
  have inv: "queue_inv (\<not> p_raced p) (p_now p) ?s" using reachable_queue_inv [OF assms(1)] ..
  have dels: "deliveries s' = update_where (\<lambda>d. d_key d \<in> set ?keys) (reap_row c now ?s) (deliveries ?s)"
    and tele: "telegram_deliveries s' = telegram_deliveries ?s"
    and res: "Retried res = count_where (\<lambda>d. d_key d \<in> set ?keys \<and> reap_decision ?s d = ReapRetry) (deliveries ?s)"
      "Unknown res = count_where (\<lambda>d. d_key d \<in> set ?keys \<and> is_reap_unknown (reap_decision ?s d)) (deliveries ?s)"
    using assms(2) unfolding Reap_def Let_def by auto
  have "Unknown res = count_where (\<lambda>d. d_key d \<in> set ?keys \<and> is_reap_unknown (reap_decision ?s d)
      \<and> \<not> reap_decision ?s d = ReapRetry) (deliveries ?s)"
    unfolding res(2) by (intro arg_cong2 [where f = count_where] ext) auto
  then have "Retried res + Unknown res \<le> length ?keys"
    unfolding res(1) using count_where_key_set [OF queue_inv_parts(3) [OF inv]] by simp
  then have bound: "Retried res + Unknown res \<le> nat (BatchSize c)"
    using length_reap_candidates le_trans by blast
  have "d \<in> set (deliveries s') \<or>
         (expired_sending c now ?s d \<and> d_key d \<notin> locked
          \<and> (\<exists>d' \<in> set (deliveries s'). d_key d' = d_key d \<and> d_attempts d' = d_attempts d \<and> no_lease d'
              \<and> (if \<exists>m r. parents ?s (d_key d) = Some (m, r) \<and> activePair (mailing_status m) (run_status r)
                      \<and> d_gen d = Some (run_generation r) \<and> d_attempts d < d_max d
                 then d_status d' = DPending
                 else d_status d' = DUnknown \<and> (\<exists>e. d_error d' = Some e \<and> btrim_nonempty e))))"
    if d: "d \<in> set (deliveries ?s)" for d
  proof (cases "d_key d \<in> set ?keys")
    case False
    then show ?thesis using d unfolding dels by (simp add: kept_row)
  next
    case True
    have exp: "expired_sending c now ?s d \<and> d_key d \<notin> locked" by (rule reap_candidate_sending [OF inv d True])
    have sending: "d_status d = DSending" using exp by (simp add: expired_sending_def)
    have lease: "d_token d \<noteq> None" using inv_leased(1) [OF inv d sending] by (simp add: full_lease_iff)
    have in': "reap_row c now ?s d \<in> set (deliveries s')" using d True unfolding dels set_update_where by auto
    have retry: "reap_decision ?s d = ReapRetry \<longleftrightarrow> (\<exists>m r. parents ?s (d_key d) = Some (m, r)
        \<and> activePair (mailing_status m) (run_status r) \<and> d_gen d = Some (run_generation r) \<and> d_attempts d < d_max d)"
      unfolding ReapRetry_iff using lease by blast
    have row: "no_lease (reap_row c now ?s d) \<and> (if reap_decision ?s d = ReapRetry
        then d_status (reap_row c now ?s d) = DPending
        else d_status (reap_row c now ?s d) = DUnknown
          \<and> (\<exists>e. d_error (reap_row c now ?s d) = Some e \<and> btrim_nonempty e))"
      using reap_not_sending [OF inv d sending, of c now] sending
        coalesce_message_nonempty [OF reap_reason_nonempty]
      by (cases "reap_decision ?s d") (auto simp: reap_row_def clear_lease_def no_lease_def)
    show ?thesis
      by (intro disjI2 conjI exp [THEN conjunct1] exp [THEN conjunct2] bexI [OF _ in'])
        (use row retry in simp_all)
  qed
  then show ?thesis using bound tele by blast
qed

lemma demo_reap:
  "map d_status (deliveries (fst (Reap ReaperDefaults (200 * second) {} (p_db demo_late)))) = [DSent, DUnknown]"
  by code_simp

theorem Reap_contract_witness:
  "Retried (snd (Reap ReaperDefaults (200 * second) {} (p_db demo_late)))
     + Unknown (snd (Reap ReaperDefaults (200 * second) {} (p_db demo_late))) \<le> 100"
  using Reap_contract [OF demo_late_reachable, of ReaperDefaults "200 * second" "{}", OF surjective_pairing]
  by (simp add: ReaperDefaults_def)

lemma reap_retry_row:
  assumes "reap_decision snapshot d = ReapRetry" "1 \<le> d_attempts d"
  shows "d_status (reap_row c at snapshot d) = DPending" "d_token (reap_row c at snapshot d) = None"
    "1 \<le> d_attempts (reap_row c at snapshot d)" "at + RetryDelay c \<le> now \<Longrightarrow> claimable now (reap_row c at snapshot d)"
proof -
  have "d_attempts d < d_max d" using assms(1) unfolding ReapRetry_iff by blast
  then show "d_status (reap_row c at snapshot d) = DPending" "d_token (reap_row c at snapshot d) = None"
    "1 \<le> d_attempts (reap_row c at snapshot d)" "at + RetryDelay c \<le> now \<Longrightarrow> claimable now (reap_row c at snapshot d)"
    using assms by (simp_all add: reap_row_def clear_lease_def claimable_def)
qed

text \<open>What holds of a stranded delivery at any moment.\<close>

definition stuck :: "delivery_row \<Rightarrow> db \<Rightarrow> bool" where
  "stuck d s \<longleftrightarrow> d \<in> set (deliveries s) \<and> d_status d = DPending \<and> stopped_mailing s (mailing_of (d_key d))
     \<and> (\<forall>now locked x. claim_candidate now locked s = Some x \<longrightarrow> d_key x \<noteq> d_key d)
     \<and> (\<forall>now rid sc. fst (Queue now rid sc (mailing_of (d_key d)) s) = s
          \<and> snd (Queue now rid sc (mailing_of (d_key d)) s) \<noteq> Returns ())
     \<and> (\<forall>now grace. claimable now d \<and> find_route s (mailing_of (d_key d)) \<noteq> None \<longrightarrow>
          d_key d \<in> set (violations grace now s CheckStoppedMailingWithClaimableDelivery))"

lemma stranded_stuck:
  assumes inv: "queue_inv b now s" and d: "stranded d s"
  shows "stuck d s"
proof -
  have row: "d \<in> set (deliveries s)" "d_status d = DPending" "stopped_mailing s (mailing_of (d_key d))"
    using d by (simp_all add: stranded_def)
  have "d_key x \<noteq> d_key d" if "claim_candidate at locked s = Some x" for at locked x
    using claim_candidate_Some [OF that] stranded_unclaimed [OF d]
      distinct_key_unique [OF queue_inv_parts(3) [OF inv] _ row(1), of x] by auto
  moreover have "fst (Queue at rid sc (mailing_of (d_key d)) s) = s
      \<and> snd (Queue at rid sc (mailing_of (d_key d)) s) \<noteq> Returns ()" for at rid sc
    using Queue_stranded [OF surjective_pairing d refl] by blast
  moreover have "d_key d \<in> set (violations grace at s CheckStoppedMailingWithClaimableDelivery)"
    if "claimable at d" "find_route s (mailing_of (d_key d)) \<noteq> None" for grace at
    using that row by (auto simp: violations_def mailing_status_of_def stopped_mailing_def)
  ultimately show ?thesis using row by (simp add: stuck_def)
qed

text \<open>C14: the reaper's statement is not serialisable with \<open>Stop\<close>. Whenever a mailing is stopped between
  the snapshot and the commit of a pass that has judged one of its deliveries retryable, the commit
  makes that delivery pending again under the ended run, and along every later run of the pipeline
  it is never admitted again: unless the late confirmation of an earlier hand-over makes it sent, its
  row stays as it is, no claim can pick it, its mailing stays stopped and every attempt to queue
  it again fails, and once its retry delay has passed the checker reports it as a claimable delivery
  of a stopped mailing.\<close>
theorem reap_stop_race:
  assumes "reachable pipeline_init pipeline_step p" and read: "(at, snapshot) \<in> set (p_reads p)"
    and d: "d \<in> set (deliveries (p_db p))" "reaped c at skipped snapshot d"
    and retry: "reap_decision snapshot d = ReapRetry"
    and stopped: "stopped_mailing (p_db p) (mailing_of (d_key d))"
  shows "\<exists>q. pipeline_step p q \<and> p_db q = Reap_snapshot c at skipped snapshot (p_db p)
    \<and> (\<forall>z. rtranclp pipeline_step q z \<longrightarrow> admissions_of z (d_key d) = admissions_of p (d_key d)
        \<and> (d_key d \<in> sent_keys (p_db z) \<or> stuck (reap_row c at snapshot d) (p_db z)))
    \<and> (\<forall>now. at + RetryDelay c \<le> now \<longrightarrow> claimable now (reap_row c at snapshot d))"
proof -
  let ?d = "reap_row c at snapshot d" and ?s = "Reap_snapshot c at skipped snapshot (p_db p)"
  let ?q = "p\<lparr>p_db := ?s, p_reads := remove1 (at, snapshot) (p_reads p),
      p_raced := p_raced p \<or> raced c at skipped snapshot (p_db p)\<rparr>"
  have inv: "pipeline_inv p" by (rule pipeline_sys.inv_reachable [OF assms(1)])
  then have qi: "queue_inv (\<not> p_raced p) (p_now p) (p_db p)" by (simp add: pipeline_inv_def)
  have step: "pipeline_step p ?q" by (rule pipeline_step.reap [OF read])
  have inv': "pipeline_inv ?q" by (rule pipeline_inv_step [OF inv step])
  have sending: "d_status d = DSending" using d(2) by (simp add: reaped_def expired_sending_def)
  note row = reap_retry_row [OF retry inv_leased(2) [OF qi d(1) sending]]
  have "?d \<in> set (deliveries ?s)" using d by (auto simp: Reap_snapshot_def set_update_where)
  moreover have "stopped_mailing ?s (mailing_of (d_key ?d))" using stopped by (simp add: Reap_snapshot_def)
  ultimately have str: "stranded ?d ?s" using row by (simp add: stranded_def)
  obtain r where r: "r \<in> set (runs (p_db p))" "run_mailing r = mailing_of (d_key d)" "run_id r = run_of (d_key d)"
    using queue_inv_parts(7) [OF qi d(1)] by (auto simp: row_ok_def)
  have over: "\<not> active_run r"
    by (rule stopped_inactive [OF qi stopped [unfolded stopped_mailing_def] r(1,2)])
  have "admissions_of z (d_key d) = admissions_of p (d_key d)
      \<and> (d_key d \<in> sent_keys (p_db z) \<or> stuck ?d (p_db z))" if z: "rtranclp pipeline_step ?q z" for z
  proof -
    have "ended (r, d_key d, admissions_of p (d_key d), sends_of p (d_key d) + waiting p (d_key d)) ?q"
      using r over by (simp add: ended_def admissions_of_def sends_of_def waiting_def Reap_snapshot_def)
    note ended_sys.holds_run [OF z inv' this]
    moreover have "stranded_or_sent ?d z"
      by (rule stranded_sys.holds_run [OF z inv']) (use str in \<open>simp add: stranded_or_sent_def\<close>)
    moreover have "pipeline_inv z" by (rule pipeline_sys.inv_run [OF z inv'])
    ultimately show ?thesis
      using stranded_stuck by (auto simp: ended_def stranded_or_sent_def pipeline_inv_def)
  qed
  then show ?thesis using step row(4) by (intro exI [of _ ?q]) simp
qed

definition demo_row :: delivery_row where
  "demo_row = deliveries (p_db demo_overtaken) ! 1"

lemma demo_race_row: "d_key demo_row = Coordinates 10 40 31" "length (deliveries (p_db demo_overtaken)) = 2"
  by code_simp+

lemma demo_race_candidate:
  "d_key demo_row \<in> set (reap_candidates ReaperDefaults (200 * second) {} (p_db demo_sending2))"
  by code_simp

lemma demo_race_expired: "expired_sending ReaperDefaults (200 * second) (p_db demo_sending2) demo_row"
  by code_simp

lemma demo_race_retry: "reap_decision (p_db demo_sending2) demo_row = ReapRetry"
  by code_simp

lemma demo_race_mailings:
  "map (\<lambda>m. (mailing_id m, mailing_status m)) (mailings (p_db demo_overtaken)) = [(10, MStopped)]"
  by code_simp

lemma demo_race_log: "admissions_of demo_overtaken (Coordinates 10 40 31) = 1"
  by code_simp

lemma demo_overtaken_stopped: "stopped_mailing (p_db demo_overtaken) 10"
proof -
  obtain w where "mailings (p_db demo_overtaken) = [w]"
    using demo_race_mailings by (cases "mailings (p_db demo_overtaken)") auto
  then show ?thesis using demo_race_mailings by (simp add: stopped_mailing_def find_mailing_def)
qed

theorem reap_stop_race_witness:
  "\<exists>q. pipeline_step demo_overtaken q
    \<and> (\<forall>z. rtranclp pipeline_step q z \<longrightarrow> admissions_of z (Coordinates 10 40 31) = 1
        \<and> (Coordinates 10 40 31 \<in> sent_keys (p_db z)
            \<or> stuck (reap_row ReaperDefaults (200 * second) (p_db demo_sending2) demo_row) (p_db z)))"
proof -
  have read: "(200 * second, p_db demo_sending2) \<in> set (p_reads demo_overtaken)"
    by (simp add: demo_overtaken_def demo_read_def)
  have row: "demo_row \<in> set (deliveries (p_db demo_overtaken))"
    unfolding demo_row_def by (rule nth_mem) (simp add: demo_race_row)
  have "stopped_mailing (p_db demo_overtaken) (mailing_of (d_key demo_row))"
    by (simp add: demo_race_row demo_overtaken_stopped)
  moreover have "reaped ReaperDefaults (200 * second) {} (p_db demo_sending2) demo_row"
    using demo_race_candidate demo_race_expired by (simp add: reaped_def)
  ultimately show ?thesis
    using reap_stop_race [OF demo_overtaken_reachable read row _ demo_race_retry]
    unfolding demo_race_row(1) demo_race_log by blast
qed

section \<open>Dispatch\<close>

lemma Dispatch_Some:
  "Dispatch now later (Some send) error_of k token s =
    (case admit now k token s of
       (s1, None) \<Rightarrow> (s1, Fails (Sentinel ErrStaleDelivery))
     | (s1, Some (body, random, attempt)) \<Rightarrow>
         (case send (recipient_of k) body random s1 of
            (s2, Some failure) \<Rightarrow>
              (if is_context_error failure
               then (quarantine later k token (error_of failure) attempt random s2, Returns ())
               else (finalizeNegative later k token failure (error_of failure) attempt random s2, Returns ()))
          | (s2, None) \<Rightarrow> finalize_sent later k random attempt s2))"
  by (simp add: Dispatch_def)

definition after_admission :: "pipeline \<Rightarrow> coordinates \<Rightarrow> uuid \<Rightarrow> db \<Rightarrow> int \<Rightarrow> nat \<Rightarrow> pipeline" where
  "after_admission p k token s1 random attempt = p\<lparr>p_db := s1,
     p_flights := flight_of k token attempt random # p_flights p,
     p_admissions := (k, random) # p_admissions p\<rparr>"

text \<open>C8: a whole \<open>Dispatch\<close>, with arbitrary transactions of others before and while the transport works,
  is a run of the pipeline: either it is refused as stale without touching the database and without
  a call of the transport, or it is an admission, steps among which the send is handed to the
  transport, and one finalising step.\<close>
theorem Dispatch_refines_pipeline:
  assumes "Dispatch (p_now p) (p_now q) (Some send) error_of k token (p_db p) = (s', res)"
    and "\<And>s1 body random attempt. admit (p_now p) k token (p_db p) = (s1, Some (body, random, attempt)) \<Longrightarrow>
        fst (send (recipient_of k) body random s1) = p_db q
      \<and> rtranclp pipeline_step (after_admission p k token s1 random attempt) q
      \<and> (flight_of k token attempt random)\<lparr>fl_sent := True\<rparr> \<in> set (p_flights q)"
  shows "(s' = p_db p \<and> res = Fails (Sentinel ErrStaleDelivery) \<and> snd (admit (p_now p) k token (p_db p)) = None)
    \<or> (\<exists>r. rtranclp pipeline_step p q \<and> pipeline_step q r \<and> p_db r = s')"
proof (cases "snd (admit (p_now p) k token (p_db p))")
  case None
  then obtain s1 where a: "admit (p_now p) k token (p_db p) = (s1, None)" by (metis prod.collapse)
  then show ?thesis using assms(1) admit_None [OF a] by (auto simp: Dispatch_Some)
next
  case (Some adm)
  then obtain s1 body random attempt where
    a: "admit (p_now p) k token (p_db p) = (s1, Some (body, random, attempt))"
    by (metis prod.collapse prod_cases3)
  let ?fl = "(flight_of k token attempt random)\<lparr>fl_sent := True\<rparr>"
  have fl: "fl_key ?fl = k" "fl_token ?fl = token" "fl_attempt ?fl = attempt" "fl_random ?fl = random" "fl_sent ?fl"
    by (simp_all add: flight_of_def)
  have env: "fst (send (recipient_of k) body random s1) = p_db q"
    "rtranclp pipeline_step (after_admission p k token s1 random attempt) q" "?fl \<in> set (p_flights q)"
    using assms(2) [OF a] by blast+
  have "pipeline_step p (after_admission p k token s1 random attempt)"
    unfolding after_admission_def flight_of_def by (rule pipeline_step.admit [OF a])
  then have run: "rtranclp pipeline_step p q" using env(2) by (rule converse_rtranclp_into_rtranclp)
  obtain outcome where s2: "send (recipient_of k) body random s1 = (p_db q, outcome)"
    using env(1) by (metis prod.collapse)
  note fin = pipeline_step.delivered [OF env(3) fl(5)] pipeline_step.refused [OF env(3) fl(5)]
    pipeline_step.interrupted [OF env(3) fl(5)]
  have "\<exists>r. pipeline_step q r \<and> p_db r = s'"
  proof (cases outcome)
    case None
    then have f: "finalize_sent (p_now q) (fl_key ?fl) (fl_random ?fl) (fl_attempt ?fl) (p_db q) = (s', res)"
      using assms(1) a s2 by (simp add: Dispatch_Some fl)
    show ?thesis by (rule exI, rule conjI [OF fin(1) [OF f]]) simp
  next
    case (Some failure)
    show ?thesis
    proof (cases "is_context_error failure")
      case True
      then have s': "s' = quarantine (p_now q) k token (error_of failure) attempt random (p_db q)"
        using assms(1) a s2 Some by (simp add: Dispatch_Some)
      show ?thesis by (rule exI, rule conjI [OF fin(3) [of "error_of failure"]]) (simp add: s' fl)
    next
      case False
      then have s': "s' = finalizeNegative (p_now q) k token failure (error_of failure) attempt random (p_db q)"
        using assms(1) a s2 Some by (simp add: Dispatch_Some)
      show ?thesis by (rule exI, rule conjI [OF fin(2) [of failure "error_of failure"]]) (simp add: s' fl)
    qed
  qed
  then show ?thesis using run by blast
qed

definition demo_port :: "uuid \<Rightarrow> rune list \<Rightarrow> int \<Rightarrow> db \<Rightarrow> db \<times> go_error option" where
  "demo_port recipient body random s = (s, None)"

theorem Dispatch_refines_pipeline_witness:
  "\<exists>r. pipeline_step demo_sending r
    \<and> p_db r = fst (Dispatch 5 5 (Some demo_port) (\<lambda>_. NilError) (Coordinates 10 40 30) 50 (p_db demo_claimed))"
proof -
  let ?k = "Coordinates 10 40 30"
  let ?d = "Dispatch (p_now demo_claimed) (p_now demo_sending) (Some demo_port) (\<lambda>_. NilError) ?k 50 (p_db demo_claimed)"
  have "(fst ?d = p_db demo_claimed \<and> snd ?d = Fails (Sentinel ErrStaleDelivery)
        \<and> snd (admit (p_now demo_claimed) ?k 50 (p_db demo_claimed)) = None)
    \<or> (\<exists>r. rtranclp pipeline_step demo_claimed demo_sending \<and> pipeline_step demo_sending r \<and> p_db r = fst ?d)"
  proof (rule Dispatch_refines_pipeline [of _ _ demo_port "\<lambda>_. NilError" _ _ _ "snd ?d"])
    fix s1 body random attempt
    assume adm: "admit (p_now demo_claimed) ?k 50 (p_db demo_claimed) = (s1, Some (body, random, attempt))"
    then have v: "random = 1" "attempt = 1" "s1 = fst (admit 5 ?k 50 (p_db demo_claimed))"
      using demo_admitted demo_nows by auto
    then have "after_admission demo_claimed ?k 50 s1 random attempt = demo_waiting"
      by (simp add: after_admission_def demo_waiting_def with_admit_def demo_nows)
    moreover have "p_db demo_sending = p_db demo_waiting" by (simp add: demo_sending_def with_transport_def)
    moreover have "p_db demo_waiting = s1" using v(3) by (simp add: demo_waiting_def with_admit_def demo_nows)
    ultimately show "fst (demo_port (recipient_of ?k) body random s1) = p_db demo_sending
      \<and> rtranclp pipeline_step (after_admission demo_claimed ?k 50 s1 random attempt) demo_sending
      \<and> (flight_of ?k 50 attempt random)\<lparr>fl_sent := True\<rparr> \<in> set (p_flights demo_sending)"
      using v r_into_rtranclp [of pipeline_step, OF demo_steps(4)] by (simp add: demo_port_def demo_flights)
  qed simp
  then show ?thesis using demo_admitted demo_nows by auto
qed

text \<open>C9: the outcome table of an undisturbed dispatch. A confirmed send makes the row sent; a cancelled
  or timed-out call leaves it sending under its lease, for the reaper; a transient or flood-wait
  error returns it to pending after the proper delay while attempts remain and fails it otherwise;
  a permanent error fails it; any other error makes it unknown and is recorded. It never returns
  an attempt: the counter is one higher in every case.\<close>
theorem Dispatch_outcome:
  assumes "reachable pipeline_init pipeline_step p"
    and "admit now k token (p_db p) = (s1, Some (body, random, attempt))"
    and "Dispatch now later (Some (\<lambda>_ _ _ s. (s, outcome))) error_of k token (p_db p) = (s', res)"
  shows "\<exists>d. find_delivery s' k = Some d \<and> d_attempts d = attempt \<and> res = Returns () \<and>
    (case outcome of
       None \<Rightarrow> d_status d = DSent \<and> d_sent d = Some later \<and> no_lease d
     | Some e \<Rightarrow>
         (if is_context_error e then d_status d = DSending \<and> d_token d = Some token
          else no_lease d \<and> d_error d = Some (BoundedErrorMessage (error_of e)) \<and>
            (case Kind (Classify (Some e)) of
               FailureUnknown \<Rightarrow> d_status d = DUnknown
             | FailurePermanent \<Rightarrow> d_status d = DFailed
             | _ \<Rightarrow> (if attempt < d_max d
                    then d_status d = DPending \<and> d_ready d = later + retry_delay (Classify (Some e))
                    else d_status d = DFailed))))"
proof -
  have inv: "queue_inv (\<not> p_raced p) (p_now p) (p_db p)" using reachable_queue_inv [OF assms(1)] ..
  have inv1: "queue_inv (\<not> p_raced p) (p_now p) s1" by (rule queue_inv_admit [OF inv assms(2)])
  from assms(2) show ?thesis
  proof (cases rule: admit_Some)
    case (1 d m r t)
    let ?d1 = "admit_row now d"
    have d: "d \<in> set (deliveries (p_db p))" "d_key d = k" using 1(1) find_delivery_iff [OF inv] by auto
    have adm: "d_token d = Some token" "d_gen d = Some (run_generation r)"
      using 1(5) by (simp_all add: admissible_def holds_lease_def)
    have d1: "find_delivery s1 k = Some ?d1"
      unfolding 1(10) using find_updated [OF inv d(1), of "admit_row now"] d(2) by simp
    have mem1: "?d1 \<in> set (deliveries s1)" using d1 find_delivery_iff [OF inv1] by blast
    have rm: "random_matches s1 k random"
      using 1(4,8) by (simp add: random_matches_def find_telegram_def 1(10))
    have par: "find_mailing s1 (mailing_of k) = Some m" "find_run s1 (mailing_of k) (run_of k) = Some r"
      using 1(2,3) by (simp_all add: find_mailing_def find_run_def 1(10))
    have upd: "find_delivery (s1\<lparr>deliveries := update_where P f (deliveries s1)\<rparr>) k = Some (f ?d1)"
      if "\<And>x. P x \<Longrightarrow> d_key x = k" "P ?d1" "\<And>x. d_key (f x) = d_key x" for P f
    proof -
      have "update_where P f (deliveries s1) = update_where (\<lambda>x. d_key x = d_key ?d1) f (deliveries s1)"
        by (rule update_where_cong)
          (use that distinct_key_unique [OF queue_inv_parts(3) [OF inv1] _ mem1] d(2) in auto)
      then show ?thesis using find_updated [OF inv1 mem1, of f, OF that(3)] d(2) by simp
    qed
    have own: "owns_attempt k token attempt ?d1"
      using adm d(2) 1(9) by (simp add: owns_attempt_def admit_row_def)
    show ?thesis
    proof (cases outcome)
      case None
      have snd: "sendable k attempt ?d1"
        using d(2) 1(9) by (simp add: sendable_def admit_row_def)
      have "count_where (sendable k attempt) (deliveries s1) \<noteq> 0"
        using snd mem1 unfolding count_where_0 by blast
      then have s': "s' = s1\<lparr>deliveries := update_where (sendable k attempt) (sent_row later) (deliveries s1)\<rparr>"
          "res = Returns ()"
        using assms(2,3) None rm by (auto simp: Dispatch_Some finalize_sent_def)
      have "find_delivery s' k = Some (sent_row later ?d1)"
        unfolding s'(1) by (rule upd) (use snd in \<open>auto simp: sendable_def\<close>)
      then show ?thesis using None s'(2) 1(9)
        by (simp add: sent_row_def clear_lease_def no_lease_def admit_row_def)
    next
      case (Some e)
      show ?thesis
      proof (cases "is_context_error e")
        case True
        have s': "s' = s1\<lparr>deliveries := update_where (owns_attempt k token attempt)
             (\<lambda>d. d\<lparr>d_error := Some (BoundedErrorMessage (error_of e)), d_updated := later\<rparr>) (deliveries s1)\<rparr>"
            "res = Returns ()"
          using assms(2,3) Some True rm by (auto simp: Dispatch_Some quarantine_def)
        have "find_delivery s' k = Some (?d1\<lparr>d_error := Some (BoundedErrorMessage (error_of e)), d_updated := later\<rparr>)"
          unfolding s'(1) by (rule upd) (use own in \<open>auto simp: owns_attempt_def\<close>)
        then show ?thesis using Some True s'(2) 1(9) adm by (simp add: admit_row_def)
      next
        case False
        let ?n = "negative_row later (Classify (Some e)) (BoundedErrorMessage (error_of e)) (run_generation r) True"
        have s': "s' = s1\<lparr>deliveries := update_where (owns_attempt k token attempt) ?n (deliveries s1)\<rparr>"
            "res = Returns ()"
          using assms(2,3) Some False rm par 1(6) by (auto simp: Dispatch_Some finalizeNegative_def)
        have "find_delivery s' k = Some (?n ?d1)"
          unfolding s'(1) by (rule upd) (use own in \<open>auto simp: owns_attempt_def\<close>)
        then show ?thesis using Some False s'(2) 1(9) adm
          by (cases "Kind (Classify (Some e))")
            (simp_all add: negative_row_def clear_lease_def no_lease_def admit_row_def)
      qed
    qed
  qed
qed

theorem Dispatch_outcome_witness:
  "\<exists>d. find_delivery (fst (Dispatch 5 5 (Some (\<lambda>_ _ _ s. (s, Some (Sentinel ErrTransient)))) (\<lambda>_. NilError)
      (Coordinates 10 40 30) 50 (p_db demo_claimed))) (Coordinates 10 40 30) = Some d
    \<and> d_attempts d = 1 \<and> d_status d = DPending"
proof -
  let ?k = "Coordinates 10 40 30"
  let ?d = "Dispatch 5 5 (Some (\<lambda>_ _ _ s. (s, Some (Sentinel ErrTransient)))) (\<lambda>_. NilError) ?k 50 (p_db demo_claimed)"
  have a: "admit 5 ?k 50 (p_db demo_claimed) = (fst (admit 5 ?k 50 (p_db demo_claimed)), Some ([104, 105], 1, 1))"
    using demo_admitted by (simp add: prod_eq_iff)
  have c: "\<not> is_context_error (Sentinel ErrTransient)" "Kind (Classify (Some (Sentinel ErrTransient))) = FailureTransient"
    by code_simp+
  from Dispatch_outcome [OF demo_reachable(2) a, of 5 "Some (Sentinel ErrTransient)" "\<lambda>_. NilError"
      "fst ?d" "snd ?d", OF surjective_pairing, unfolded option.case if_not_P [OF c(1)] c(2) FailureKind.case]
  obtain d where d: "find_delivery (fst ?d) ?k = Some d" "d_attempts d = 1"
      "if 1 < d_max d then d_status d = DPending \<and> d_ready d = 5 + retry_delay (Classify (Some (Sentinel ErrTransient)))
       else d_status d = DFailed"
    by (elim exE conjE) (rule that; assumption)
  let ?s1 = "fst (admit 5 ?k 50 (p_db demo_claimed))"
  have "map d_max (deliveries ?s1) = [5, 5]" by code_simp
  moreover have "fst ?d = finalizeNegative 5 ?k 50 (Sentinel ErrTransient) NilError 1 1 ?s1"
    unfolding Dispatch_Some by (subst a) (simp add: c(1))
  ultimately have "map d_max (deliveries (fst ?d)) = [5, 5]"
    using same_sends_finalizeNegative unfolding same_sends_def by metis
  moreover have "d \<in> set (deliveries (fst ?d))"
    using d(1) unfolding find_delivery_def by (auto dest: find_Some_set)
  then have "d_max d \<in> set (map d_max (deliveries (fst ?d)))" unfolding set_map by (rule imageI)
  ultimately have "d_max d = 5" by simp
  then have "d_status d = DPending" using d(3) by simp
  then show ?thesis using d(1,2) by blast
qed

end
