(* ===== verification/Reconcile_Pass.thy ===== *)
theory Reconcile_Pass
  imports Pipeline_Properties
begin

text \<open>
  A pass of the reconciler, one transaction per candidate with arbitrary other transactions in
  between: \<open>pipeline_turns\<close> is what the pass relies on, that the others are runs of the pipeline along
  a clock that does not run backwards. The pass is then itself a run of the pipeline. A candidate
  found by the discovery stays one (its deliveries keep an outcome, its run keeps its generation)
  until its run is over, whoever ends it; both facts are absorbing.
\<close>

section \<open>Runs whose deliveries all have an outcome\<close>


















section \<open>Runs\<close>


definition keeps_runs :: "db \<Rightarrow> db \<Rightarrow> bool" where
  "keeps_runs s s' \<longleftrightarrow> (\<forall>r \<in> set (runs s). r \<in> set (runs s')
     \<or> (\<exists>x \<in> set (runs s'). run_mailing x = run_mailing r \<and> run_id x = run_id r \<and> \<not> active_run x))"

lemma keeps_runs_same [simp]: "runs s' = runs s \<Longrightarrow> keeps_runs s s'"
  by (simp add: keeps_runs_def)













section \<open>One candidate\<close>










section \<open>The pass\<close>















end
