(* ===== verification/Account_Store.thy ===== *)
theory Account_Store
  imports Schema
begin

text \<open>
  The PostgreSQL store of operator accounts (pg/operatoraccounts/store.go and auth_store.go): the
  optimistic lifecycle writes, the authentication admission, finalisation and abort, session
  deletion and the listings. Each operation is one transaction on the database at a clock
  reading. A write that a CHECK constraint or the unique index on the Telegram identity rejects
  fails with \<open>PgConstraint\<close> and leaves the database as it was.
\<close>

section \<open>Shared pieces\<close>

definition MaxInt64 :: int where
  "MaxInt64 = 9223372036854775807"

definition find_account :: "db \<Rightarrow> uuid \<Rightarrow> uuid \<Rightarrow> account_row option" where
  "find_account s operator i =
     find (\<lambda>a. oa_operator a = operator \<and> oa_id a = i) (operator_accounts s)"

definition has_session :: "db \<Rightarrow> uuid \<Rightarrow> bool" where
  "has_session s i \<longleftrightarrow> i \<in> set (sessions s)"

definition validOwnership :: "uuid \<Rightarrow> uuid \<Rightarrow> bool" where
  "validOwnership operator i \<longleftrightarrow> operator \<noteq> nil_uuid \<and> i \<noteq> nil_uuid"

definition identity_taken :: "db \<Rightarrow> account_row \<Rightarrow> bool" where
  "identity_taken s a \<longleftrightarrow> oa_telegram_user_id a \<noteq> None \<and>
     list_ex (\<lambda>x. oa_id x \<noteq> oa_id a \<and> oa_telegram_user_id x = oa_telegram_user_id a) (operator_accounts s)"

text \<open>An \<open>UPDATE\<close> of one account row: the constraint that rejects it, if any.\<close>

definition write_violation :: "db \<Rightarrow> account_row \<Rightarrow> string option" where
  "write_violation s a =
    (if \<not> account_checks a then Some ''ck_operator_accounts''
     else if identity_taken s a then Some ''uq_operator_accounts_telegram_user_id''
     else None)"

definition write_account :: "account_row \<Rightarrow> db \<Rightarrow> db" where
  "write_account a s = s\<lparr>operator_accounts :=
     update_where (\<lambda>x. oa_id x = oa_id a) (\<lambda>_. a) (operator_accounts s)\<rparr>"

definition delete_session :: "uuid \<Rightarrow> db \<Rightarrow> db" where
  "delete_session i s = s\<lparr>sessions := filter (\<lambda>x. x \<noteq> i) (sessions s)\<rparr>"

section \<open>Lifecycle store\<close>

definition LoadAccount :: "uuid \<Rightarrow> uuid \<Rightarrow> db \<Rightarrow> account outcome" where
  "LoadAccount operator i s =
    (if \<not> validOwnership operator i then Fails (Sentinel ErrAccountNotFound)
     else case find_account s operator i of
       None \<Rightarrow> Fails (Sentinel ErrAccountNotFound)
     | Some a \<Rightarrow>
         if oa_version a \<le> 0 \<or> oa_id a = nil_uuid
         then Fails (Wrap ''load operator account'' [Sentinel ErrInvalidState])
         else case Restore (oa_id a) (oa_status a) (of_int (oa_version a))
                (case oa_failure a of None \<Rightarrow> NoFailure | Some c \<Rightarrow> c)
                (case oa_telegram_user_id a of None \<Rightarrow> 0 | Some u \<Rightarrow> u)
                (case oa_auth_expires a of None \<Rightarrow> zero_time | Some t \<Rightarrow> t) [oa_remote_logout a] of
              Inl e \<Rightarrow> Fails (Wrap ''load operator account'' [e])
            | Inr account \<Rightarrow> Returns account)"

record RuntimeTarget =
  target_operator :: uuid
  target_account :: uuid
  target_status :: account_status
  target_version :: version

definition target_of :: "account_row \<Rightarrow> RuntimeTarget" where
  "target_of a = \<lparr>target_operator = oa_operator a, target_account = oa_id a,
     target_status = oa_status a, target_version = of_int (oa_version a)\<rparr>"

definition by_creation :: "account_row list \<Rightarrow> account_row list" where
  "by_creation rows = sort_key (\<lambda>a. (oa_created a, oa_id a)) rows"

definition ListRemoteLogoutIntents :: "db \<Rightarrow> RuntimeTarget list outcome" where
  "ListRemoteLogoutIntents s =
    (let rows = by_creation (filter (\<lambda>a. oa_status a = Disconnecting \<and> oa_remote_logout a)
                  (operator_accounts s))
     in if list_ex (\<lambda>a. oa_operator a = nil_uuid \<or> oa_id a = nil_uuid \<or> oa_version a \<le> 0) rows
        then Fails (Wrap ''scan operator account remote logout intent'' [Sentinel ErrInvalidState])
        else Returns (map target_of rows))"

fun lifecyclePredecessors :: "account_status \<Rightarrow> account_status list option" where
  "lifecyclePredecessors Authenticating = Some [Disconnected, ReauthRequired]"
| "lifecyclePredecessors Active = Some [Authenticating]"
| "lifecyclePredecessors ReauthRequired = Some [Active]"
| "lifecyclePredecessors Disconnected = Some [Disconnecting]"
| "lifecyclePredecessors Disconnecting = Some [Authenticating, Active, ReauthRequired]"
| "lifecyclePredecessors (OtherStatus _) = None"

definition optionalTelegramUserID :: "int \<Rightarrow> int option" where
  "optionalTelegramUserID v = (if v \<le> 0 then None else Some v)"

definition optionalAuthenticationExpiry :: "time \<Rightarrow> time option" where
  "optionalAuthenticationExpiry t = (if t = zero_time then None else Some t)"

definition optionalFailureCode :: "failure_code \<Rightarrow> failure_code option" where
  "optionalFailureCode c = (if c = NoFailure then None else Some c)"

definition lifecycle_row :: "time \<Rightarrow> account \<Rightarrow> account_row \<Rightarrow> account_row" where
  "lifecycle_row clock account a = a\<lparr>oa_status := acc_status account,
     oa_version := oa_version a + 1,
     oa_telegram_user_id := optionalTelegramUserID (acc_telegramUserID account),
     oa_auth_expires := optionalAuthenticationExpiry (acc_authExpiresAt account),
     oa_failure := optionalFailureCode (acc_failureCode account),
     oa_remote_logout := acc_remoteLogoutRequired account,
     oa_updated := clock\<rparr>"

definition PersistLifecycle ::
  "time \<Rightarrow> uuid \<Rightarrow> account \<Rightarrow> version \<Rightarrow> db \<Rightarrow> db \<times> unit outcome" where
  "PersistLifecycle clock operator account expected s =
    (if \<not> validOwnership operator (acc_id account) then (s, Fails (Sentinel ErrAccountNotFound))
     else if MaxInt64 \<le> uint expected \<or> acc_version account \<noteq> expected + 1
     then (s, Fails (Sentinel ErrAccountVersionConflict))
     else case lifecyclePredecessors (acc_status account) of
       None \<Rightarrow> (s, Fails (Sentinel ErrAccountVersionConflict))
     | Some previous \<Rightarrow>
         (case find_account s operator (acc_id account) of
            None \<Rightarrow> (s, Fails (Sentinel ErrAccountNotFound))
          | Some a \<Rightarrow>
              if oa_status a \<in> set previous \<and> oa_version a = uint expected
                 \<and> (acc_status account \<noteq> Active \<or> has_session s (oa_id a))
              then (case write_violation s (lifecycle_row clock account a) of
                      Some c \<Rightarrow> (s, Fails (Wrap ''persist operator account lifecycle'' [PgConstraint c]))
                    | None \<Rightarrow>
                        (let s1 = write_account (lifecycle_row clock account a) s
                         in (if acc_status account = Disconnected
                             then delete_session (acc_id account) s1 else s1, Returns ())))
              else if acc_status account = Active \<and> oa_status a = Authenticating
                      \<and> oa_version a = uint expected \<and> \<not> has_session s (oa_id a)
              then (s, Fails (Sentinel ErrSessionNotFound))
              else (s, Fails (Sentinel ErrAccountVersionConflict))))"

definition DeleteSession :: "uuid \<Rightarrow> uuid \<Rightarrow> db \<Rightarrow> db \<times> unit outcome" where
  "DeleteSession operator i s =
    (if \<not> validOwnership operator i then (s, Fails (Sentinel ErrAccountNotFound))
     else case find_account s operator i of
       None \<Rightarrow> (s, Fails (Sentinel ErrAccountNotFound))
     | Some a \<Rightarrow>
         if oa_status a = Active then (s, Fails (Sentinel ErrAccountStateConflict))
         else (delete_session i s, Returns ()))"

section \<open>Phone numbers and profiles\<close>

text \<open>A phone is the sequence of runes that ranging over the Go string yields.\<close>

fun phone_runes :: "bool \<Rightarrow> rune list \<Rightarrow> rune list option" where
  "phone_runes first [] = Some []"
| "phone_runes first (c # cs) =
    (if (c = 43 \<and> first) \<or> ascii_digit c then map_option (\<lambda>v. c # v) (phone_runes False cs)
     else if c \<in> {32, 45, 40, 41, 46} then phone_runes False cs
     else None)"

definition international :: "rune list \<Rightarrow> rune list" where
  "international value =
    (let value = (if take 2 value = [48, 48] then 43 # drop 2 value else value)
     in if take 1 value = [43] then value else 43 # value)"

definition invalid_input :: "string \<Rightarrow> go_error" where
  "invalid_input m = Wrap m [Sentinel AuthErrInvalidInput]"

definition check_digits :: "rune list \<Rightarrow> rune list outcome" where
  "check_digits value =
    (let digits = drop 1 value in
     if length digits < 7 \<or> 15 < length digits \<or> hd digits = 48
     then Fails (invalid_input ''phone must contain 7 to 15 international digits'')
     else Returns value)"

definition normalizePhone :: "rune list \<Rightarrow> rune list outcome" where
  "normalizePhone phone =
    (let phone = TrimSpace phone in
     if phone = [] then Fails (invalid_input ''phone is required'')
     else case phone_runes True phone of
       None \<Rightarrow> Fails (invalid_input ''phone contains unsupported character'')
     | Some value \<Rightarrow> check_digits (international value))"

function utf8_runes :: "byte list \<Rightarrow> rune list option" where
  "utf8_runes [] = Some []"
| "utf8_runes (b # bs) =
    (case decode_rune (b # bs) of
       (Some r, rest) \<Rightarrow> map_option (\<lambda>rs. r # rs) (utf8_runes rest)
     | (None, rest) \<Rightarrow> None)"
  by pat_completeness auto
termination
  by (relation "measure length") (auto simp del: decode_rune.simps dest: decode_rune_shorter)

record Profile =
  UserID :: int
  Username :: "byte list"
  FirstName :: "byte list"
  LastName :: "byte list"

definition field_ok :: "nat \<Rightarrow> byte list \<Rightarrow> bool" where
  "field_ok limit v \<longleftrightarrow> (case utf8_runes v of None \<Rightarrow> False | Some rs \<Rightarrow> length rs \<le> limit)"

definition validateProfile :: "Profile \<Rightarrow> go_error option" where
  "validateProfile p =
    (if UserID p \<le> 0 then Some (invalid_input ''telegram identity is required'')
     else if \<not> (field_ok 32 (Username p) \<and> field_ok 64 (FirstName p) \<and> field_ok 64 (LastName p))
     then Some (invalid_input ''profile field is too long or invalid'')
     else None)"

definition nullableText :: "byte list \<Rightarrow> rune list option" where
  "nullableText v = (if v = [] then None else utf8_runes v)"

section \<open>Authentication store\<close>

definition nullableString :: "rune list option \<Rightarrow> rune list" where
  "nullableString v = (case v of None \<Rightarrow> [] | Some text \<Rightarrow> text)"

definition nullableInt64 :: "int option \<Rightarrow> int" where
  "nullableInt64 v = (case v of None \<Rightarrow> 0 | Some n \<Rightarrow> n)"

text \<open>The view's \<open>Profile\<close> repeats the three Telegram names; they are kept once.\<close>

record auth_account =
  aa_id :: uuid
  aa_phone :: "rune list"
  aa_user_id :: int
  aa_status :: account_status
  aa_version :: version
  aa_username :: "rune list"
  aa_first_name :: "rune list"
  aa_last_name :: "rune list"

definition account_view :: "account_row \<Rightarrow> auth_account" where
  "account_view a = \<lparr>aa_id = oa_id a, aa_phone = nullableString (oa_phone a),
     aa_user_id = nullableInt64 (oa_telegram_user_id a), aa_status = oa_status a,
     aa_version = of_int (oa_version a), aa_username = nullableString (oa_username a),
     aa_first_name = nullableString (oa_first_name a), aa_last_name = nullableString (oa_last_name a)\<rparr>"

definition auth_expiry :: "account_row \<Rightarrow> time" where
  "auth_expiry a = (case oa_auth_expires a of None \<Rightarrow> zero_time | Some t \<Rightarrow> t)"

datatype begin_outcome = BeginStarted | BeginResumed | BeginInProgress | BeginAlreadyActive

record begin_result =
  br_account :: auth_account
  br_outcome :: begin_outcome
  br_expires :: time

definition begin_result_of :: "begin_outcome \<Rightarrow> account_row \<Rightarrow> begin_result" where
  "begin_result_of out a = \<lparr>br_account = account_view a, br_outcome = out, br_expires = auth_expiry a\<rparr>"

definition find_phone :: "db \<Rightarrow> uuid \<Rightarrow> rune list \<Rightarrow> account_row option" where
  "find_phone s operator phone =
     find (\<lambda>a. oa_operator a = operator \<and> oa_phone a = Some phone) (operator_accounts s)"

definition admitted_row :: "time \<Rightarrow> uuid \<Rightarrow> uuid \<Rightarrow> rune list \<Rightarrow> time \<Rightarrow> account_row" where
  "admitted_row clock i operator phone expires = \<lparr>oa_id = i, oa_operator = operator,
     oa_phone = Some phone, oa_username = None, oa_first_name = None, oa_last_name = None,
     oa_telegram_user_id = None, oa_status = Authenticating, oa_version = 2,
     oa_auth_expires = Some expires, oa_failure = None, oa_remote_logout = False,
     oa_created = clock, oa_updated = clock\<rparr>"

definition resumed_row :: "time \<Rightarrow> time \<Rightarrow> account_row \<Rightarrow> account_row" where
  "resumed_row clock expires a = a\<lparr>oa_status := Authenticating, oa_version := oa_version a + 1,
     oa_auth_expires := Some expires, oa_failure := None, oa_updated := clock\<rparr>"

text \<open>\<open>operators\<close> are the ids the foreign key accepts, \<open>i\<close> the id PostgreSQL generates.\<close>

definition BeginOrResume ::
  "uuid set \<Rightarrow> time \<Rightarrow> uuid \<Rightarrow> uuid \<Rightarrow> rune list \<Rightarrow> time \<Rightarrow> db \<Rightarrow> db \<times> begin_result outcome" where
  "BeginOrResume operators clock i operator phone expires s =
    (case normalizePhone phone of
       Fails e \<Rightarrow> (s, Fails e)
     | Panics \<Rightarrow> (s, Panics)
     | Returns normalized \<Rightarrow>
         if operator = nil_uuid then (s, Fails (invalid_input ''actor identity is required''))
         else if expires = zero_time then (s, Fails (Sentinel ErrInvalidAuthenticationExpiry))
         else case find_phone s operator normalized of
           None \<Rightarrow>
             if operator \<notin> operators then (s, Fails (Sentinel AuthErrAccountNotFound))
             else if i \<in> set (map oa_id (operator_accounts s))
               \<or> \<not> account_checks (admitted_row clock i operator normalized expires)
             then (s, Fails (Wrap ''admit operator account authentication'' [PgConstraint ''operator_accounts'']))
             else (s\<lparr>operator_accounts := operator_accounts s
                      @ [admitted_row clock i operator normalized expires]\<rparr>,
                   Returns (begin_result_of BeginStarted (admitted_row clock i operator normalized expires)))
         | Some a \<Rightarrow>
             (case oa_status a of
                Authenticating \<Rightarrow> (s, Returns (begin_result_of BeginInProgress a))
              | Active \<Rightarrow> (s, Returns (begin_result_of BeginAlreadyActive a))
              | Disconnecting \<Rightarrow> (s, Fails (Sentinel AuthErrAccountStateConflict))
              | OtherStatus _ \<Rightarrow> (s, Fails (Wrap ''load operator account authentication admission''
                                            [Sentinel ErrInvalidState]))
              | _ \<Rightarrow>
                  if MaxInt64 \<le> oa_version a then (s, Fails (Sentinel AuthErrAccountVersionConflict))
                  else case write_violation s (resumed_row clock expires a) of
                    Some c \<Rightarrow> (s, Fails (Wrap ''resume operator account authentication'' [PgConstraint c]))
                  | None \<Rightarrow> (write_account (resumed_row clock expires a) s,
                             Returns (begin_result_of BeginResumed (resumed_row clock expires a)))))"

definition version_usable :: "version \<Rightarrow> bool" where
  "version_usable v \<longleftrightarrow> v \<noteq> 0 \<and> uint v < MaxInt64"

definition finalized_row :: "time \<Rightarrow> Profile \<Rightarrow> account_row \<Rightarrow> account_row" where
  "finalized_row clock p a = a\<lparr>oa_telegram_user_id := Some (UserID p),
     oa_username := nullableText (Username p), oa_first_name := nullableText (FirstName p),
     oa_last_name := nullableText (LastName p), oa_status := Active,
     oa_version := oa_version a + 1, oa_auth_expires := None, oa_failure := None,
     oa_updated := clock\<rparr>"

definition fresh_sync :: "time \<Rightarrow> uuid \<Rightarrow> dialog_sync_row" where
  "fresh_sync now i = \<lparr>ds_account = i, ds_status = SyncPending, ds_needs_sync = now,
     ds_next_retry = None, ds_attempts = 0, ds_max = 3, ds_last_error = None, ds_token = None,
     ds_until = None, ds_generation = None, ds_finished = None, ds_updated = now\<rparr>"

definition reset_sync :: "time \<Rightarrow> dialog_sync_row \<Rightarrow> dialog_sync_row" where
  "reset_sync now d = d\<lparr>ds_status := SyncPending, ds_needs_sync := now, ds_next_retry := None,
     ds_token := None, ds_until := None, ds_generation := None, ds_last_error := None,
     ds_finished := None, ds_attempts := 0, ds_updated := now\<rparr>"

definition enqueue_sync :: "time \<Rightarrow> uuid \<Rightarrow> db \<Rightarrow> db" where
  "enqueue_sync now i s =
    (if i \<in> set (map ds_account (dialog_syncs s))
     then s\<lparr>dialog_syncs := update_where (\<lambda>d. ds_account d = i) (reset_sync now) (dialog_syncs s)\<rparr>
     else s\<lparr>dialog_syncs := dialog_syncs s @ [fresh_sync now i]\<rparr>)"

definition Finalize ::
  "time \<Rightarrow> time \<Rightarrow> uuid \<Rightarrow> uuid \<Rightarrow> version \<Rightarrow> Profile \<Rightarrow> db \<Rightarrow> db \<times> auth_account outcome" where
  "Finalize now clock operator i expected p s =
    (if \<not> validOwnership operator i then (s, Fails (Sentinel AuthErrAccountNotFound))
     else if \<not> version_usable expected then (s, Fails (Sentinel AuthErrAccountVersionConflict))
     else case validateProfile p of
       Some e \<Rightarrow> (s, Fails e)
     | None \<Rightarrow>
         (case find_account s operator i of
            None \<Rightarrow> (s, Fails (Sentinel AuthErrAccountNotFound))
          | Some a \<Rightarrow>
              if oa_status a = Active \<and> oa_version a = uint expected + 1
                 \<and> oa_telegram_user_id a = Some (UserID p)
              then (s, Returns (account_view a))
              else if oa_status a \<noteq> Authenticating \<or> oa_version a \<noteq> uint expected
              then (s, Fails (Sentinel AuthErrAccountVersionConflict))
              else if \<not> has_session s i then (s, Fails (Sentinel AuthErrAccountStateConflict))
              else if \<not> (case oa_auth_expires a of None \<Rightarrow> False | Some t \<Rightarrow> clock < t)
              then (s, Fails (Sentinel AuthErrAccountVersionConflict))
              else case write_violation s (finalized_row clock p a) of
                Some c \<Rightarrow> (s, Fails (if c = ''uq_operator_accounts_telegram_user_id''
                               then Sentinel AuthErrAccountStateConflict
                               else Wrap ''finalize operator account authentication'' [PgConstraint c]))
              | None \<Rightarrow> (enqueue_sync now i (write_account (finalized_row clock p a) s),
                         Returns (account_view (finalized_row clock p a)))))"

definition aborting_row :: "time \<Rightarrow> account_row \<Rightarrow> account_row" where
  "aborting_row clock a = a\<lparr>oa_status := Disconnecting, oa_version := oa_version a + 1,
     oa_auth_expires := None, oa_failure := None, oa_updated := clock\<rparr>"

definition BeginAbort ::
  "time \<Rightarrow> uuid \<Rightarrow> uuid \<Rightarrow> version \<Rightarrow> db \<Rightarrow> db \<times> version outcome" where
  "BeginAbort clock operator i expected s =
    (if \<not> validOwnership operator i then (s, Fails (Sentinel AuthErrAccountNotFound))
     else if \<not> version_usable expected then (s, Fails (Sentinel AuthErrAccountVersionConflict))
     else case find_account s operator i of
       None \<Rightarrow> (s, Fails (Sentinel AuthErrAccountNotFound))
     | Some a \<Rightarrow>
         if oa_status a = Authenticating \<and> oa_version a = uint expected
         then (case write_violation s (aborting_row clock a) of
                 Some c \<Rightarrow> (s, Fails (Wrap ''begin operator account authentication abort'' [PgConstraint c]))
               | None \<Rightarrow> (write_account (aborting_row clock a) s, Returns (of_int (oa_version a + 1))))
         else if oa_status a = Disconnecting \<and> oa_version a = uint expected + 1
         then (s, Returns (of_int (oa_version a)))
         else if oa_status a = Disconnected \<and> oa_version a = uint expected + 2
         then (s, Returns (expected + 1))
         else (s, Fails (Sentinel AuthErrAccountVersionConflict)))"

definition aborted_row :: "time \<Rightarrow> account_row \<Rightarrow> account_row" where
  "aborted_row clock a = a\<lparr>oa_status := Disconnected, oa_version := oa_version a + 1,
     oa_auth_expires := None, oa_failure := None, oa_updated := clock\<rparr>"

definition CompleteAbort ::
  "time \<Rightarrow> uuid \<Rightarrow> uuid \<Rightarrow> version \<Rightarrow> db \<Rightarrow> db \<times> unit outcome" where
  "CompleteAbort clock operator i expected s =
    (if \<not> validOwnership operator i then (s, Fails (Sentinel AuthErrAccountNotFound))
     else if \<not> version_usable expected then (s, Fails (Sentinel AuthErrAccountVersionConflict))
     else case find_account s operator i of
       None \<Rightarrow> (s, Fails (Sentinel AuthErrAccountNotFound))
     | Some a \<Rightarrow>
         if oa_status a = Disconnecting \<and> oa_version a = uint expected
         then (case write_violation s (aborted_row clock a) of
                 Some c \<Rightarrow> (s, Fails (Wrap ''complete operator account authentication abort'' [PgConstraint c]))
               | None \<Rightarrow> (delete_session i (write_account (aborted_row clock a) s), Returns ()))
         else if oa_status a = Disconnected \<and> oa_version a = uint expected + 1 \<and> \<not> has_session s i
         then (s, Returns ())
         else (s, Fails (Sentinel AuthErrAccountVersionConflict)))"

definition ListAccounts :: "uuid \<Rightarrow> db \<Rightarrow> auth_account list outcome" where
  "ListAccounts operator s =
    (if operator = nil_uuid then Fails (invalid_input ''actor identity is required'')
     else Returns (map account_view
       (by_creation (filter (\<lambda>a. oa_operator a = operator) (operator_accounts s)))))"

definition ListOrphanAuthenticationLifecycles :: "db \<Rightarrow> RuntimeTarget list outcome" where
  "ListOrphanAuthenticationLifecycles s =
    (let rows = by_creation (filter (\<lambda>a. oa_status a \<in> {Authenticating, Disconnecting})
                  (operator_accounts s))
     in if list_ex (\<lambda>a. oa_version a \<le> 0) rows
        then Fails (Wrap ''scan orphan operator account authentication'' [Sentinel ErrInvalidState])
        else Returns (map target_of rows))"

end
