(* ===== verification/Account_Invariant.thy ===== *)
theory Account_Invariant
  imports Account_Store Transition_System
begin

text \<open>
  The invariant of the operator account tables, the effect of every store operation as "nothing"
  or one written row, and the abstraction from a stored row to the domain account.
\<close>

section \<open>Invariant\<close>

definition identities_unique :: "account_row list \<Rightarrow> bool" where
  "identities_unique rows \<longleftrightarrow> (\<forall>a \<in> set rows. \<forall>b \<in> set rows.
     oa_telegram_user_id a \<noteq> None \<and> oa_telegram_user_id a = oa_telegram_user_id b \<longrightarrow> a = b)"

definition phones_unique :: "account_row list \<Rightarrow> bool" where
  "phones_unique rows \<longleftrightarrow> (\<forall>a \<in> set rows. \<forall>b \<in> set rows.
     oa_phone a \<noteq> None \<and> oa_phone a = oa_phone b \<and> oa_operator a = oa_operator b \<longrightarrow> a = b)"

definition account_row_ok :: "account_row \<Rightarrow> bool" where
  "account_row_ok a \<longleftrightarrow> account_checks a \<and> status_valid (oa_status a) \<and> oa_id a \<noteq> nil_uuid
     \<and> oa_operator a \<noteq> nil_uuid \<and> oa_version a \<le> MaxInt64 \<and> oa_auth_expires a \<noteq> Some zero_time"

definition accounts_inv :: "db \<Rightarrow> bool" where
  "accounts_inv s \<longleftrightarrow> distinct (map oa_id (operator_accounts s))
     \<and> (\<forall>a \<in> set (operator_accounts s). account_row_ok a \<and> (oa_status a = Active \<longrightarrow> has_session s (oa_id a)))
     \<and> identities_unique (operator_accounts s) \<and> phones_unique (operator_accounts s)"

text \<open>A written row: the same account, moved along the transition graph, one version up.\<close>

definition row_moved :: "account_row \<Rightarrow> account_row \<Rightarrow> bool" where
  "row_moved a a' \<longleftrightarrow> oa_id a' = oa_id a \<and> oa_operator a' = oa_operator a \<and> oa_phone a' = oa_phone a
     \<and> oa_created a' = oa_created a \<and> lifecycle_edge (oa_status a) (oa_status a')
     \<and> oa_version a' = oa_version a + 1"

lemma find_account_Some:
  "find_account s operator i = Some a \<Longrightarrow>
     a \<in> set (operator_accounts s) \<and> oa_operator a = operator \<and> oa_id a = i"
  unfolding find_account_def by (auto dest: find_Some_set)

lemma find_phone_Some:
  "find_phone s operator p = Some a \<Longrightarrow>
     a \<in> set (operator_accounts s) \<and> oa_operator a = operator \<and> oa_phone a = Some p"
  unfolding find_phone_def by (auto dest: find_Some_set)

lemma write_violation_None:
  "write_violation s a = None \<longleftrightarrow> account_checks a \<and> \<not> identity_taken s a"
  by (simp add: write_violation_def)

lemma write_account_set:
  assumes "distinct (map oa_id (operator_accounts s))" "a \<in> set (operator_accounts s)" "oa_id a' = oa_id a"
  shows "x \<in> set (operator_accounts (write_account a' s)) \<longleftrightarrow> x = a' \<or> (x \<in> set (operator_accounts s) \<and> x \<noteq> a)"
  using set_update_unique [OF assms(1,2), of x "\<lambda>_. a'"] by (simp add: write_account_def assms(3))

lemma has_session_write [simp]: "has_session (write_account a s) i = has_session s i"
  by (simp add: has_session_def write_account_def)

lemma accounts_write [simp]:
  "operator_accounts (delete_session i s) = operator_accounts s"
  "operator_accounts (enqueue_sync now i s) = operator_accounts s"
  "sessions (enqueue_sync now i s) = sessions s"
  "sessions (write_account a s) = sessions s"
  by (simp_all add: delete_session_def enqueue_sync_def write_account_def)

lemma has_session_simps [simp]:
  "has_session (delete_session j s) i \<longleftrightarrow> has_session s i \<and> i \<noteq> j"
  "has_session (enqueue_sync now j s) i = has_session s i"
  by (auto simp: has_session_def delete_session_def)

section \<open>Writing one row\<close>

lemma accounts_inv_write:
  assumes inv: "accounts_inv s" and a: "a \<in> set (operator_accounts s)" and m: "row_moved a a'"
    and ok: "account_row_ok a'" "\<not> identity_taken s a'" "oa_status a' = Active \<longrightarrow> has_session s (oa_id a)"
  shows "accounts_inv (write_account a' s)"
proof -
  have d: "distinct (map oa_id (operator_accounts s))" using inv by (simp add: accounts_inv_def)
  have id: "oa_id a' = oa_id a" using m by (simp add: row_moved_def)
  note set = write_account_set [OF d a id]
  have dist: "distinct (map oa_id (operator_accounts (write_account a' s)))"
  proof -
    have "map oa_id (operator_accounts (write_account a' s)) = map oa_id (operator_accounts s)"
      using id by (simp add: write_account_def update_where_def)
    then show ?thesis using d by simp
  qed
  have other: "oa_id x \<noteq> oa_id a" if "x \<in> set (operator_accounts s)" "x \<noteq> a" for x
    using distinct_key_unique [OF d that(1) a] that(2) by blast
  have ids: "identities_unique (operator_accounts (write_account a' s))"
    unfolding identities_unique_def
  proof (intro ballI impI)
    fix x y assume x: "x \<in> set (operator_accounts (write_account a' s))"
      and y: "y \<in> set (operator_accounts (write_account a' s))"
      and eq: "oa_telegram_user_id x \<noteq> None \<and> oa_telegram_user_id x = oa_telegram_user_id y"
    have free: "\<not> (z \<in> set (operator_accounts s) \<and> z \<noteq> a \<and> oa_telegram_user_id a' \<noteq> None
        \<and> oa_telegram_user_id z = oa_telegram_user_id a')" for z
      using ok(2) other id by (auto simp: identity_taken_def list_ex_iff)
    show "x = y"
      using x y eq free inv unfolding set accounts_inv_def identities_unique_def by metis
  qed
  have phones: "phones_unique (operator_accounts (write_account a' s))"
    unfolding phones_unique_def
  proof (intro ballI impI)
    fix x y assume x: "x \<in> set (operator_accounts (write_account a' s))"
      and y: "y \<in> set (operator_accounts (write_account a' s))"
      and eq: "oa_phone x \<noteq> None \<and> oa_phone x = oa_phone y \<and> oa_operator x = oa_operator y"
    have p: "oa_phone a' = oa_phone a" "oa_operator a' = oa_operator a" using m by (simp_all add: row_moved_def)
    have u: "\<And>z w. z \<in> set (operator_accounts s) \<Longrightarrow> w \<in> set (operator_accounts s) \<Longrightarrow> oa_phone z \<noteq> None \<Longrightarrow>
        oa_phone z = oa_phone w \<Longrightarrow> oa_operator z = oa_operator w \<Longrightarrow> z = w"
      using inv unfolding accounts_inv_def phones_unique_def by blast
    show "x = y"
      using x y eq u [of x y] u [of x a] u [of a y] a p unfolding set by metis
  qed
  have "account_row_ok x \<and> (oa_status x = Active \<longrightarrow> has_session s (oa_id x))"
    if "x \<in> set (operator_accounts (write_account a' s))" for x
    using that ok(1,3) id inv unfolding set accounts_inv_def by auto
  then show ?thesis using dist ids phones by (simp add: accounts_inv_def)
qed

lemma accounts_inv_sessions:
  assumes "accounts_inv s" "operator_accounts s' = operator_accounts s"
    "\<And>a. a \<in> set (operator_accounts s) \<Longrightarrow> oa_status a = Active \<Longrightarrow> has_session s (oa_id a) \<Longrightarrow> has_session s' (oa_id a)"
  shows "accounts_inv s'"
  using assms by (auto simp: accounts_inv_def)

section \<open>Effects of the operations\<close>

lemma lifecyclePredecessors_edge:
  "lifecyclePredecessors st = Some previous \<Longrightarrow> p \<in> set previous \<Longrightarrow> lifecycle_edge p st"
  by (cases st) (auto intro: lifecycle_edge.intros)

lemma lifecyclePredecessors_valid: "lifecyclePredecessors st = Some previous \<Longrightarrow> status_valid st"
  by (cases st) auto

lemma PersistLifecycle_cases:
  assumes "PersistLifecycle clock operator account expected s = (s', res)"
  obtains "s' = s" "res \<noteq> Returns ()"
  | a previous where "find_account s operator (acc_id account) = Some a"
      "lifecyclePredecessors (acc_status account) = Some previous" "oa_status a \<in> set previous"
      "oa_version a = uint expected" "acc_version account = expected + 1" "uint expected < MaxInt64"
      "acc_status account = Active \<longrightarrow> has_session s (oa_id a)"
      "write_violation s (lifecycle_row clock account a) = None" "res = Returns ()"
      "s' = (if acc_status account = Disconnected
             then delete_session (acc_id account) (write_account (lifecycle_row clock account a) s)
             else write_account (lifecycle_row clock account a) s)"
proof (cases "validOwnership operator (acc_id account) \<and> uint expected < MaxInt64
    \<and> acc_version account = expected + 1")
  case False
  then have "s' = s \<and> res \<noteq> Returns ()" using assms by (auto simp: PersistLifecycle_def split: if_splits)
  then show thesis using that(1) by blast
next
  case True
  then have g: "(\<not> validOwnership operator (acc_id account)) = False"
    "(MaxInt64 \<le> uint expected \<or> acc_version account \<noteq> expected + 1) = False" by auto
  show thesis
  proof (cases "lifecyclePredecessors (acc_status account)")
    case None
    then show thesis using assms that(1) unfolding PersistLifecycle_def g by auto
  next
    case (Some previous)
    note prev = this
    show thesis
    proof (cases "find_account s operator (acc_id account)")
      case None
      then show thesis using assms that(1) prev unfolding PersistLifecycle_def g by auto
    next
      case (Some a)
      note found = this
      show thesis
      proof (cases "oa_status a \<in> set previous \<and> oa_version a = uint expected
          \<and> (acc_status account \<noteq> Active \<or> has_session s (oa_id a))")
        case False
        then have "s' = s \<and> res \<noteq> Returns ()"
          using assms prev found unfolding PersistLifecycle_def g by (auto split: if_split_asm)
        then show thesis using that(1) by blast
      next
        case hit: True
        show thesis
        proof (cases "write_violation s (lifecycle_row clock account a)")
          case None
          then show thesis
            using assms prev found hit True that(2) [OF found prev]
            unfolding PersistLifecycle_def g by (auto simp: Let_def)
        next
          case (Some c)
          then show thesis using assms prev found hit that(1) unfolding PersistLifecycle_def g by auto
        qed
      qed
    qed
  qed
qed

lemma DeleteSession_cases:
  assumes "DeleteSession operator i s = (s', res)"
  obtains "s' = s" "res \<noteq> Returns ()"
  | a where "find_account s operator i = Some a" "oa_status a \<noteq> Active" "res = Returns ()"
      "s' = delete_session i s"
  using assms unfolding DeleteSession_def
  by (cases "find_account s operator i") (auto split: if_split_asm)

lemma BeginOrResume_cases:
  assumes "BeginOrResume operators clock i operator phone expires s = (s', res)"
  obtains "s' = s" "\<And>r. res = Returns r \<Longrightarrow> br_outcome r \<in> {BeginInProgress, BeginAlreadyActive}"
  | normalized where "normalizePhone phone = Returns normalized" "find_phone s operator normalized = None"
      "operator \<in> operators" "operator \<noteq> nil_uuid" "expires \<noteq> zero_time" "i \<notin> set (map oa_id (operator_accounts s))"
      "account_checks (admitted_row clock i operator normalized expires)"
      "res = Returns (begin_result_of BeginStarted (admitted_row clock i operator normalized expires))"
      "s' = s\<lparr>operator_accounts := operator_accounts s @ [admitted_row clock i operator normalized expires]\<rparr>"
  | a normalized where "normalizePhone phone = Returns normalized" "find_phone s operator normalized = Some a"
      "expires \<noteq> zero_time" "oa_status a \<in> {Disconnected, ReauthRequired}" "oa_version a < MaxInt64"
      "write_violation s (resumed_row clock expires a) = None"
      "res = Returns (begin_result_of BeginResumed (resumed_row clock expires a))"
      "s' = write_account (resumed_row clock expires a) s"
proof (cases "normalizePhone phone")
  case (Returns normalized)
  note n = this
  show thesis
  proof (cases "operator = nil_uuid \<or> expires = zero_time")
    case True
    then have "s' = s \<and> (\<exists>e. res = Fails e)" using assms n by (auto simp: BeginOrResume_def split: if_split_asm)
    then show thesis using that(1) by auto
  next
    case False
    then have g: "(operator = nil_uuid) = False" "(expires = zero_time) = False" by auto
    note op = assms [unfolded BeginOrResume_def n g outcome.case if_False]
    show thesis
    proof (cases "find_phone s operator normalized")
      case None
      show thesis
      proof (cases "operator \<in> operators \<and> i \<notin> set (map oa_id (operator_accounts s))
          \<and> account_checks (admitted_row clock i operator normalized expires)")
        case True
        then show thesis using that(2) [OF n None] op None False by auto
      next
        case False
        then have "s' = s \<and> (\<exists>e. res = Fails e)" using op None by (auto split: if_split_asm)
        then show thesis using that(1) by auto
      qed
    next
      case (Some a)
      show thesis
      proof (cases "oa_status a \<in> {Disconnected, ReauthRequired} \<and> oa_version a < MaxInt64
          \<and> write_violation s (resumed_row clock expires a) = None")
        case True
        then show thesis using that(3) [OF n Some] op Some False by auto
      next
        case f: False
        have "s' = s \<and> (\<forall>r. res = Returns r \<longrightarrow> br_outcome r \<in> {BeginInProgress, BeginAlreadyActive})"
          using op Some f
          by (cases "oa_status a"; cases "write_violation s (resumed_row clock expires a)")
            (auto simp: begin_result_of_def split: if_split_asm)
        then show thesis using that(1) by blast
      qed
    qed
  qed
next
  case (Fails e)
  then show thesis using assms that(1) by (auto simp: BeginOrResume_def)
next
  case Panics
  then show thesis using assms that(1) by (auto simp: BeginOrResume_def)
qed

lemma Finalize_cases:
  assumes "Finalize now clock operator i expected p s = (s', res)"
  obtains "s' = s" "\<And>v. res = Returns v \<Longrightarrow> \<exists>a. find_account s operator i = Some a \<and> oa_status a = Active
      \<and> oa_version a = uint expected + 1 \<and> oa_telegram_user_id a = Some (UserID p) \<and> v = account_view a"
  | a where "find_account s operator i = Some a" "oa_status a = Authenticating" "oa_version a = uint expected"
      "version_usable expected" "validateProfile p = None" "has_session s i"
      "\<exists>t. oa_auth_expires a = Some t \<and> clock < t" "write_violation s (finalized_row clock p a) = None"
      "res = Returns (account_view (finalized_row clock p a))"
      "s' = enqueue_sync now i (write_account (finalized_row clock p a) s)"
proof (cases "validOwnership operator i \<and> version_usable expected \<and> validateProfile p = None")
  case False
  then have "s' = s \<and> (\<exists>e. res = Fails e)"
    using assms by (auto simp: Finalize_def split: if_split_asm option.splits)
  then show thesis using that(1) by auto
next
  case True
  then have g: "(\<not> validOwnership operator i) = False" "(\<not> version_usable expected) = False"
    "validateProfile p = None" by auto
  note op = assms [unfolded Finalize_def g if_False option.case]
  show thesis
  proof (cases "find_account s operator i")
    case None
    then show thesis using op that(1) by auto
  next
    case (Some a)
    show thesis
    proof (cases "oa_status a = Authenticating \<and> oa_version a = uint expected \<and> has_session s i
        \<and> (\<exists>t. oa_auth_expires a = Some t \<and> clock < t) \<and> write_violation s (finalized_row clock p a) = None")
      case hit: True
      then show thesis using that(2) [OF Some] op Some True by auto
    next
      case False
      have "s' = s \<and> (\<forall>v. res = Returns v \<longrightarrow> oa_status a = Active \<and> oa_version a = uint expected + 1
          \<and> oa_telegram_user_id a = Some (UserID p) \<and> v = account_view a)"
        using op Some False
        by (cases "write_violation s (finalized_row clock p a)"; cases "oa_auth_expires a")
          (auto split: if_split_asm)
      then show thesis using that(1) Some by blast
    qed
  qed
qed

lemma BeginAbort_cases:
  assumes "BeginAbort clock operator i expected s = (s', res)"
  obtains "s' = s"
  | a where "find_account s operator i = Some a" "oa_status a = Authenticating" "oa_version a = uint expected"
      "version_usable expected" "write_violation s (aborting_row clock a) = None"
      "res = Returns (of_int (oa_version a + 1))" "s' = write_account (aborting_row clock a) s"
proof (cases "find_account s operator i")
  case None
  then show thesis using assms that(1) by (auto simp: BeginAbort_def split: if_split_asm)
next
  case (Some a)
  show thesis
  proof (cases "validOwnership operator i \<and> version_usable expected \<and> oa_status a = Authenticating
      \<and> oa_version a = uint expected \<and> write_violation s (aborting_row clock a) = None")
    case True
    then show thesis using that(2) [OF Some] assms Some by (auto simp: BeginAbort_def)
  next
    case False
    then have "s' = s" using assms Some
      by (cases "write_violation s (aborting_row clock a)") (auto simp: BeginAbort_def split: if_split_asm)
    then show thesis by (rule that(1))
  qed
qed

lemma CompleteAbort_cases:
  assumes "CompleteAbort clock operator i expected s = (s', res)"
  obtains "s' = s" "res = Returns () \<Longrightarrow> \<exists>a. find_account s operator i = Some a \<and> oa_status a = Disconnected
      \<and> oa_version a = uint expected + 1 \<and> \<not> has_session s i"
  | a where "find_account s operator i = Some a" "oa_status a = Disconnecting" "oa_version a = uint expected"
      "version_usable expected" "write_violation s (aborted_row clock a) = None"
      "res = Returns ()" "s' = delete_session i (write_account (aborted_row clock a) s)"
proof (cases "find_account s operator i")
  case None
  then show thesis using assms that(1) by (auto simp: CompleteAbort_def split: if_split_asm)
next
  case (Some a)
  show thesis
  proof (cases "validOwnership operator i \<and> version_usable expected \<and> oa_status a = Disconnecting
      \<and> oa_version a = uint expected \<and> write_violation s (aborted_row clock a) = None")
    case True
    then show thesis using that(2) [OF Some] assms Some by (auto simp: CompleteAbort_def)
  next
    case False
    then have "s' = s \<and> (res = Returns () \<longrightarrow> oa_status a = Disconnected
      \<and> oa_version a = uint expected + 1 \<and> \<not> has_session s i)" using assms Some
      by (cases "write_violation s (aborted_row clock a)") (auto simp: CompleteAbort_def split: if_split_asm)
    then show thesis using that(1) Some by blast
  qed
qed

section \<open>Every operation writes at most one row\<close>

definition writes_row :: "db \<Rightarrow> db \<Rightarrow> account_row \<Rightarrow> account_row \<Rightarrow> bool" where
  "writes_row s s' a a' \<longleftrightarrow> a \<in> set (operator_accounts s) \<and> row_moved a a'
     \<and> write_violation s a' = None
     \<and> operator_accounts s' = operator_accounts (write_account a' s)"

lemma row_ok_written:
  assumes "account_row_ok a" "row_moved a a'" "write_violation s a' = None"
    and "oa_version a < MaxInt64" "status_valid (oa_status a')" "oa_auth_expires a' \<noteq> Some zero_time"
  shows "account_row_ok a'"
  using assms by (auto simp: account_row_ok_def row_moved_def write_violation_None)

lemma accounts_inv_writes:
  assumes inv: "accounts_inv s" and w: "writes_row s s' a a'"
    and ok: "oa_version a < MaxInt64" "status_valid (oa_status a')" "oa_auth_expires a' \<noteq> Some zero_time"
      "oa_status a' = Active \<longrightarrow> has_session s (oa_id a)"
    and sess: "\<And>i. has_session s i \<Longrightarrow> i \<noteq> oa_id a \<or> oa_status a' = Active \<Longrightarrow> has_session s' i"
  shows "accounts_inv s'"
proof -
  have a: "a \<in> set (operator_accounts s)" and m: "row_moved a a'" and v: "write_violation s a' = None"
    and s': "operator_accounts s' = operator_accounts (write_account a' s)"
    using w by (simp_all add: writes_row_def)
  have row: "account_row_ok a" using inv a by (simp add: accounts_inv_def)
  have inv1: "accounts_inv (write_account a' s)"
    by (rule accounts_inv_write [OF inv a m row_ok_written [OF row m v ok(1-3)]])
      (use v ok(4) in \<open>simp_all add: write_violation_None\<close>)
  have id: "oa_id a' = oa_id a" using m by (simp add: row_moved_def)
  show ?thesis
  proof (rule accounts_inv_sessions [OF inv1 s'])
    fix x assume x: "x \<in> set (operator_accounts (write_account a' s))" "oa_status x = Active"
      "has_session (write_account a' s) (oa_id x)"
    have "oa_id x \<noteq> oa_id a \<or> oa_status a' = Active"
    proof (cases "oa_id x = oa_id a")
      case True
      have "a' \<in> set (operator_accounts (write_account a' s))"
        using write_account_set [OF _ a id] inv by (simp add: accounts_inv_def)
      moreover have "distinct (map oa_id (operator_accounts (write_account a' s)))"
        using inv1 by (simp add: accounts_inv_def)
      ultimately have "x = a'" using distinct_key_unique x(1) True id by metis
      then show ?thesis using x(2) by simp
    qed simp
    then show "has_session s' (oa_id x)" using sess x(3) by simp
  qed
qed

lemma lifecycle_row_moved:
  assumes "lifecyclePredecessors (acc_status account) = Some previous" "oa_status a \<in> set previous"
  shows "row_moved a (lifecycle_row clock account a)"
  using lifecyclePredecessors_edge [OF assms] by (simp add: row_moved_def lifecycle_row_def)

lemma finalized_row_moved: "oa_status a = Authenticating \<Longrightarrow> row_moved a (finalized_row clock p a)"
  by (simp add: row_moved_def finalized_row_def lifecycle_edge.intros)

lemma aborting_row_moved: "oa_status a = Authenticating \<Longrightarrow> row_moved a (aborting_row clock a)"
  by (simp add: row_moved_def aborting_row_def lifecycle_edge.intros)

lemma aborted_row_moved: "oa_status a = Disconnecting \<Longrightarrow> row_moved a (aborted_row clock a)"
  by (simp add: row_moved_def aborted_row_def lifecycle_edge.intros)

lemma resumed_row_moved:
  "oa_status a \<in> {Disconnected, ReauthRequired} \<Longrightarrow> row_moved a (resumed_row clock expires a)"
  by (auto simp: row_moved_def resumed_row_def lifecycle_edge.intros)

lemma PersistLifecycle_writes:
  assumes "accounts_inv s" "PersistLifecycle clock operator account expected s = (s', res)"
  shows "(s' = s \<and> res \<noteq> Returns ()) \<or>
    (\<exists>a. writes_row s s' a (lifecycle_row clock account a) \<and> accounts_inv s' \<and> res = Returns ()
       \<and> find_account s operator (acc_id account) = Some a)"
  using assms(2)
proof (cases rule: PersistLifecycle_cases)
  case (2 a previous)
  note a = find_account_Some [OF 2(1)]
  have w: "writes_row s s' a (lifecycle_row clock account a)"
    using a lifecycle_row_moved [OF 2(2,3)] 2(8,10) by (simp add: writes_row_def)
  have "accounts_inv s'"
  proof (rule accounts_inv_writes [OF assms(1) w])
    show "oa_version a < MaxInt64" using 2(4,6) by simp
    show "status_valid (oa_status (lifecycle_row clock account a))"
      using lifecyclePredecessors_valid [OF 2(2)] by (simp add: lifecycle_row_def)
    show "oa_auth_expires (lifecycle_row clock account a) \<noteq> Some zero_time"
      by (simp add: lifecycle_row_def optionalAuthenticationExpiry_def)
    show "oa_status (lifecycle_row clock account a) = Active \<longrightarrow> has_session s (oa_id a)"
      using 2(7) by (simp add: lifecycle_row_def)
    fix i assume "has_session s i" "i \<noteq> oa_id a \<or> oa_status (lifecycle_row clock account a) = Active"
    then show "has_session s' i" using 2(10) a by (auto simp: lifecycle_row_def)
  qed
  then show ?thesis using w 2(1,9) by blast
qed blast

lemma Finalize_writes:
  assumes "accounts_inv s" "Finalize now clock operator i expected p s = (s', res)"
  shows "s' = s \<or> (\<exists>a. writes_row s s' a (finalized_row clock p a) \<and> accounts_inv s'
    \<and> find_account s operator i = Some a)"
  using assms(2)
proof (cases rule: Finalize_cases)
  case (2 a)
  note a = find_account_Some [OF 2(1)]
  have w: "writes_row s s' a (finalized_row clock p a)"
    using a finalized_row_moved [OF 2(2)] 2(8,10) by (simp add: writes_row_def)
  have "accounts_inv s'"
    by (rule accounts_inv_writes [OF assms(1) w])
      (use 2 a in \<open>auto simp: finalized_row_def version_usable_def\<close>)
  then show ?thesis using w 2(1) by blast
qed blast

lemma BeginAbort_writes:
  assumes "accounts_inv s" "BeginAbort clock operator i expected s = (s', res)"
  shows "s' = s \<or> (\<exists>a. writes_row s s' a (aborting_row clock a) \<and> accounts_inv s'
    \<and> find_account s operator i = Some a)"
  using assms(2)
proof (cases rule: BeginAbort_cases)
  case (2 a)
  note a = find_account_Some [OF 2(1)]
  have w: "writes_row s s' a (aborting_row clock a)"
    using a aborting_row_moved [OF 2(2)] 2(5,7) by (simp add: writes_row_def)
  have "accounts_inv s'"
    by (rule accounts_inv_writes [OF assms(1) w])
      (use 2 a in \<open>auto simp: aborting_row_def version_usable_def\<close>)
  then show ?thesis using w 2(1) by blast
qed blast

lemma CompleteAbort_writes:
  assumes "accounts_inv s" "CompleteAbort clock operator i expected s = (s', res)"
  shows "s' = s \<or> (\<exists>a. writes_row s s' a (aborted_row clock a) \<and> accounts_inv s'
    \<and> find_account s operator i = Some a)"
  using assms(2)
proof (cases rule: CompleteAbort_cases)
  case (2 a)
  note a = find_account_Some [OF 2(1)]
  have w: "writes_row s s' a (aborted_row clock a)"
    using a aborted_row_moved [OF 2(2)] 2(5,7) by (simp add: writes_row_def)
  have "accounts_inv s'"
    by (rule accounts_inv_writes [OF assms(1) w])
      (use 2 a in \<open>auto simp: aborted_row_def version_usable_def\<close>)
  then show ?thesis using w 2(1) by blast
qed blast

lemma accounts_inv_admit:
  assumes inv: "accounts_inv s" and "normalizePhone phone = Returns normalized"
    and "find_phone s operator normalized = None" "i \<notin> set (map oa_id (operator_accounts s))" "i \<noteq> nil_uuid"
    and "operator \<noteq> nil_uuid" "account_checks (admitted_row clock i operator normalized expires)" "expires \<noteq> zero_time"
  shows "accounts_inv (s\<lparr>operator_accounts := operator_accounts s @ [admitted_row clock i operator normalized expires]\<rparr>)"
proof -
  let ?a = "admitted_row clock i operator normalized expires"
  have free: "\<not> (oa_operator x = operator \<and> oa_phone x = Some normalized)" if "x \<in> set (operator_accounts s)" for x
    using assms(3) that by (auto simp: find_phone_def find_None_set)
  have fields: "oa_phone ?a = Some normalized" "oa_operator ?a = operator" by (simp_all add: admitted_row_def)
  have old: "x = y" if "x \<in> set (operator_accounts s)" "y \<in> set (operator_accounts s)" "oa_phone x \<noteq> None"
      "oa_phone x = oa_phone y" "oa_operator x = oa_operator y" for x y
    using inv that unfolding accounts_inv_def phones_unique_def by blast
  have "phones_unique (operator_accounts s @ [?a])"
    unfolding phones_unique_def
  proof (intro ballI impI)
    fix x y assume xy: "x \<in> set (operator_accounts s @ [?a])" "y \<in> set (operator_accounts s @ [?a])"
      and eq: "oa_phone x \<noteq> None \<and> oa_phone x = oa_phone y \<and> oa_operator x = oa_operator y"
    consider "x = ?a" "y = ?a" | "x = ?a" "y \<in> set (operator_accounts s)"
      | "x \<in> set (operator_accounts s)" "y = ?a" | "x \<in> set (operator_accounts s)" "y \<in> set (operator_accounts s)"
      using xy by auto
    then show "x = y"
    proof cases
      case 2
      then show ?thesis using free [of y] fields eq by metis
    next
      case 3
      then show ?thesis using free [of x] fields eq by metis
    next
      case 4
      then show ?thesis using old eq by blast
    qed simp
  qed
  moreover have "identities_unique (operator_accounts s @ [?a])"
    using inv unfolding identities_unique_def accounts_inv_def by (auto simp: admitted_row_def)
  moreover have "account_row_ok ?a"
    using assms(5-) by (simp add: account_row_ok_def admitted_row_def MaxInt64_def)
  moreover have "oa_id ?a = i" "oa_status ?a \<noteq> Active" by (simp_all add: admitted_row_def)
  ultimately show ?thesis
    using inv assms(4) by (auto simp: accounts_inv_def has_session_def)
qed

lemma BeginOrResume_writes:
  assumes "accounts_inv s" "i \<noteq> nil_uuid" "BeginOrResume operators clock i operator phone expires s = (s', res)"
  shows "s' = s \<or> (\<exists>a. writes_row s s' a (resumed_row clock expires a) \<and> accounts_inv s')
    \<or> (\<exists>p. operator_accounts s' = operator_accounts s @ [admitted_row clock i operator p expires] \<and> accounts_inv s')"
  using assms(3)
proof (cases rule: BeginOrResume_cases)
  case (2 normalized)
  have "accounts_inv s'" unfolding 2(9) by (rule accounts_inv_admit [OF assms(1) 2(1,2,6) assms(2) 2(4,7,5)])
  then show ?thesis using 2(9) by auto
next
  case (3 a normalized)
  note a = find_phone_Some [OF 3(2)]
  have w: "writes_row s s' a (resumed_row clock expires a)"
    using a resumed_row_moved [OF 3(4)] 3(6,8) by (simp add: writes_row_def)
  have "accounts_inv s'"
    by (rule accounts_inv_writes [OF assms(1) w]) (use 3 a in \<open>auto simp: resumed_row_def\<close>)
  then show ?thesis using w by blast
qed blast

lemma accounts_inv_DeleteSession:
  assumes inv: "accounts_inv s" and del: "DeleteSession operator i s = (s', res)"
  shows "accounts_inv s' \<and> operator_accounts s' = operator_accounts s"
  using del
proof (cases rule: DeleteSession_cases)
  case 1
  then show ?thesis using inv by simp
next
  case (2 a)
  note a = find_account_Some [OF 2(1)]
  have "x = a" if "x \<in> set (operator_accounts s)" "oa_id x = i" for x
    using inv a that distinct_key_unique [of oa_id "operator_accounts s" x a] by (simp add: accounts_inv_def)
  then have "accounts_inv (delete_session i s)"
    by (intro accounts_inv_sessions [OF inv]) (use 2(2) in auto)
  then show ?thesis using 2(4) by simp
qed

section \<open>The account tables as a state machine\<close>

definition store_session :: "uuid \<Rightarrow> db \<Rightarrow> db" where
  "store_session i s = s\<lparr>sessions := i # sessions s\<rparr>"

inductive account_step :: "db \<Rightarrow> db \<Rightarrow> bool" where
  persist: "PersistLifecycle clock operator account expected s = (s', done) \<Longrightarrow> account_step s s'"
| delete: "DeleteSession operator i s = (s', deleted) \<Longrightarrow> account_step s s'"
| begin_auth: "i \<noteq> nil_uuid \<Longrightarrow> BeginOrResume operators clock i operator phone expires s = (s', begun) \<Longrightarrow>
    account_step s s'"
| finalize: "Finalize now clock operator i expected profile s = (s', finalized) \<Longrightarrow> account_step s s'"
| begin_abort: "BeginAbort clock operator i expected s = (s', aborting) \<Longrightarrow> account_step s s'"
| complete_abort: "CompleteAbort clock operator i expected s = (s', aborted) \<Longrightarrow> account_step s s'"
| save_session: "account_step s (store_session i s)"

definition accounts_init :: "db \<Rightarrow> bool" where
  "accounts_init s \<longleftrightarrow> operator_accounts s = []"

lemma account_step_effect:
  assumes inv: "accounts_inv s" and step: "account_step s s'"
  shows "accounts_inv s' \<and> (operator_accounts s' = operator_accounts s
    \<or> (\<exists>a a'. writes_row s s' a a')
    \<or> (\<exists>i clock operator p expires.
         operator_accounts s' = operator_accounts s @ [admitted_row clock i operator p expires]))"
  using step
proof cases
  case (persist clock operator account expected d)
  show ?thesis using PersistLifecycle_writes [OF inv persist] inv by blast
next
  case (delete operator i d)
  show ?thesis using accounts_inv_DeleteSession [OF inv delete] by blast
next
  case (begin_auth i operators clock operator phone expires b)
  show ?thesis using BeginOrResume_writes [OF inv begin_auth] inv by blast
next
  case (finalize now clock operator i expected profile f)
  show ?thesis using Finalize_writes [OF inv finalize] inv by blast
next
  case (begin_abort clock operator i expected v)
  show ?thesis using BeginAbort_writes [OF inv begin_abort] inv by blast
next
  case (complete_abort clock operator i expected v)
  show ?thesis using CompleteAbort_writes [OF inv complete_abort] inv by blast
next
  case (save_session i)
  have "accounts_inv (store_session i s)"
    by (rule accounts_inv_sessions [OF inv]) (simp_all add: store_session_def has_session_def)
  then show ?thesis using save_session by (simp add: store_session_def)
qed

interpretation account_sys: invariant_system accounts_init account_step accounts_inv
proof
  show "accounts_init s \<Longrightarrow> accounts_inv s" for s
    by (simp add: accounts_init_def accounts_inv_def identities_unique_def phones_unique_def)
  show "accounts_inv s \<Longrightarrow> account_step s t \<Longrightarrow> accounts_inv t" for s t
    using account_step_effect by blast
qed

end
