(* ===== verification/Account_Properties.thy ===== *)
theory Account_Properties
  imports Account_Invariant
begin

text \<open>
  The properties of the account store: the invariant of its tables, the refinement of the domain
  operations by the SQL updates, the round trip of load, lifecycle call and persist, the
  optimistic lock, the durability of a remote-logout intent, and the canonical form of phones.
  \<open>abs_account\<close> is the domain account a stored row denotes.
\<close>

section \<open>Abstraction\<close>

definition abs_account :: "account_row \<Rightarrow> account" where
  "abs_account a = \<lparr>acc_id = oa_id a, acc_status = oa_status a, acc_version = of_int (oa_version a),
     acc_failureCode = (case oa_failure a of None \<Rightarrow> NoFailure | Some c \<Rightarrow> c),
     acc_telegramUserID = (case oa_telegram_user_id a of None \<Rightarrow> 0 | Some u \<Rightarrow> u),
     acc_authExpiresAt = (case oa_auth_expires a of None \<Rightarrow> zero_time | Some t \<Rightarrow> t),
     acc_remoteLogoutRequired = oa_remote_logout a\<rparr>"

lemma row_ok_version:
  assumes "account_row_ok a"
  shows "uint (of_int (oa_version a) :: version) = oa_version a" "0 < oa_version a"
    "(of_int (oa_version a) :: version) \<noteq> 0"
proof -
  have v: "0 < oa_version a" "oa_version a \<le> 9223372036854775807"
    using assms by (simp_all add: account_row_ok_def account_checks_iff MaxInt64_def)
  then show u: "uint (of_int (oa_version a) :: version) = oa_version a"
    by (simp add: uint_word_of_int take_bit_int_eq_self)
  show "0 < oa_version a" by (fact v(1))
  show "(of_int (oa_version a) :: version) \<noteq> 0" using u v(1) by auto
qed

lemma abs_account_valid:
  assumes ok: "account_row_ok a" shows "validate_account (abs_account a) = None"
proof -
  have c: "\<forall>u. oa_telegram_user_id a = Some u \<longrightarrow> 0 < u"
    "oa_status a \<in> {Active, ReauthRequired} \<longrightarrow> oa_telegram_user_id a \<noteq> None"
    "oa_status a = Authenticating \<longleftrightarrow> oa_auth_expires a \<noteq> None" "oa_auth_expires a \<noteq> Some zero_time"
    "(oa_status a = ReauthRequired \<and> (\<exists>c. oa_failure a = Some c \<and> validFailureCode c))
      \<or> (oa_status a \<noteq> ReauthRequired \<and> oa_failure a = None)"
    "oa_remote_logout a \<longrightarrow> oa_status a = Disconnecting" "status_valid (oa_status a)" "oa_id a \<noteq> nil_uuid"
    using ok by (simp_all add: account_row_ok_def account_checks_iff)
  have "acc_telegramUserID (abs_account a) \<ge> 0"
    "oa_telegram_user_id a \<noteq> None \<longrightarrow> 0 < acc_telegramUserID (abs_account a)"
    "acc_authExpiresAt (abs_account a) \<noteq> zero_time \<longleftrightarrow> oa_auth_expires a \<noteq> None"
    "acc_failureCode (abs_account a) = (case oa_failure a of None \<Rightarrow> NoFailure | Some c \<Rightarrow> c)"
    using c(1,4) by (cases "oa_telegram_user_id a"; cases "oa_auth_expires a"; simp add: abs_account_def)+
  moreover have "acc_id (abs_account a) = oa_id a" "acc_status (abs_account a) = oa_status a"
    "acc_version (abs_account a) \<noteq> 0" "acc_remoteLogoutRequired (abs_account a) = oa_remote_logout a"
    using row_ok_version(3) [OF ok] by (simp_all add: abs_account_def)
  ultimately show ?thesis using c(2,3,5-) unfolding validate_account_None by auto
qed

lemma abs_lifecycle_row:
  assumes "validate_account account = None" "acc_id account = oa_id a"
    and "acc_version account = of_int (oa_version a) + 1"
  shows "abs_account (lifecycle_row clock account a) = account"
  using assms unfolding validate_account_None
  by (auto simp: abs_account_def lifecycle_row_def optionalTelegramUserID_def
      optionalAuthenticationExpiry_def optionalFailureCode_def)

lemma find_account_unique:
  assumes "accounts_inv s" "a \<in> set (operator_accounts s)"
  shows "find_account s (oa_operator a) (oa_id a) = Some a"
proof -
  have d: "distinct (map (\<lambda>a. (oa_operator a, oa_id a)) (operator_accounts s))"
    using assms(1) by (auto simp: accounts_inv_def distinct_map inj_on_def)
  show ?thesis
    using find_key_member [OF d assms(2)] unfolding find_account_def by simp
qed

lemma accounts_inv_row: "accounts_inv s \<Longrightarrow> a \<in> set (operator_accounts s) \<Longrightarrow> account_row_ok a"
  by (simp add: accounts_inv_def)

lemma LoadAccount_abs:
  assumes inv: "accounts_inv s"
  shows "LoadAccount operator i s =
    (case find_account s operator i of
       None \<Rightarrow> Fails (Sentinel ErrAccountNotFound)
     | Some a \<Rightarrow> if operator = nil_uuid then Fails (Sentinel ErrAccountNotFound) else Returns (abs_account a))"
proof (cases "find_account s operator i")
  case None
  then show ?thesis by (simp add: LoadAccount_def)
next
  case (Some a)
  have ok: "account_row_ok a" using accounts_inv_row [OF inv] find_account_Some [OF Some] by blast
  have i: "i \<noteq> nil_uuid" using ok find_account_Some [OF Some] by (auto simp: account_row_ok_def)
  have "Restore (oa_id a) (oa_status a) (of_int (oa_version a))
                (case oa_failure a of None \<Rightarrow> NoFailure | Some c \<Rightarrow> c)
                (case oa_telegram_user_id a of None \<Rightarrow> 0 | Some u \<Rightarrow> u)
                (case oa_auth_expires a of None \<Rightarrow> zero_time | Some t \<Rightarrow> t) [oa_remote_logout a]
      = Inr (abs_account a)"
    using abs_account_valid [OF ok] by (simp add: Restore_def Let_def abs_account_def)
  then show ?thesis
    using Some i row_ok_version(2) [OF ok] find_account_Some [OF Some] ok
    by (simp add: LoadAccount_def validOwnership_def account_row_ok_def)
qed

section \<open>The invariant\<close>

lemma reachable_accounts_inv:
  "reachable accounts_init account_step s \<Longrightarrow> accounts_inv s"
  by (rule account_sys.inv_reachable)

text \<open>C18: in every reachable state of the account tables all CHECK constraints hold, a Telegram identity
  belongs to at most one account, a phone to at most one account of an operator, and every active
  account has a stored session.\<close>
theorem accounts_consistent:
  assumes "reachable accounts_init account_step s"
  shows "(\<forall>a \<in> set (operator_accounts s). account_checks a \<and> (oa_status a = Active \<longrightarrow> has_session s (oa_id a)))
    \<and> (\<forall>a \<in> set (operator_accounts s). \<forall>b \<in> set (operator_accounts s).
         (oa_id a = oa_id b
          \<or> (oa_telegram_user_id a \<noteq> None \<and> oa_telegram_user_id a = oa_telegram_user_id b)
          \<or> (oa_phone a \<noteq> None \<and> oa_phone a = oa_phone b \<and> oa_operator a = oa_operator b)) \<longrightarrow> a = b)"
proof -
  have inv: "accounts_inv s" by (rule reachable_accounts_inv [OF assms])
  have d: "distinct (map oa_id (operator_accounts s))" using inv by (simp add: accounts_inv_def)
  have "a = b" if "a \<in> set (operator_accounts s)" "b \<in> set (operator_accounts s)"
    "oa_id a = oa_id b \<or> (oa_telegram_user_id a \<noteq> None \<and> oa_telegram_user_id a = oa_telegram_user_id b)
      \<or> (oa_phone a \<noteq> None \<and> oa_phone a = oa_phone b \<and> oa_operator a = oa_operator b)" for a b
    using that(3)
  proof (elim disjE)
    assume "oa_id a = oa_id b"
    then show ?thesis by (rule distinct_key_unique [OF d that(1,2)])
  next
    assume "oa_telegram_user_id a \<noteq> None \<and> oa_telegram_user_id a = oa_telegram_user_id b"
    then show ?thesis using inv that(1,2) unfolding accounts_inv_def identities_unique_def by blast
  next
    assume "oa_phone a \<noteq> None \<and> oa_phone a = oa_phone b \<and> oa_operator a = oa_operator b"
    then show ?thesis using inv that(1,2) unfolding accounts_inv_def phones_unique_def by blast
  qed
  then show ?thesis using inv by (auto simp: accounts_inv_def account_row_ok_def)
qed

section \<open>Load, lifecycle call, persist\<close>

lemma edge_predecessor:
  "lifecycle_edge s t \<Longrightarrow> \<exists>previous. lifecyclePredecessors t = Some previous \<and> s \<in> set previous"
  by (erule lifecycle_edgeE) auto

lemma lifecycle_keeps_identity:
  "apply_lifecycle op a = (a', None) \<Longrightarrow> acc_telegramUserID a' =
     (case op of OpActivate uid \<Rightarrow> uid | _ \<Rightarrow> acc_telegramUserID a)"
  by (cases op) (auto simp: lifecycle_op_defs move_cases Let_def split: if_splits)

lemma lifecycle_to_active:
  "apply_lifecycle op a = (a', None) \<Longrightarrow> acc_status a' = Active \<Longrightarrow> \<exists>uid. op = OpActivate uid"
  by (cases op) (auto simp: lifecycle_op_defs move_cases Let_def split: if_splits)

lemma lifecycle_row_checks:
  assumes "account_row_ok a" "validate_account account = None" "oa_created a \<le> clock"
  shows "account_checks (lifecycle_row clock account a)"
proof -
  have old: "case oa_phone a of None \<Rightarrow> True | Some p \<Rightarrow> phone_check p" "oa_first_name a \<noteq> Some []"
    "0 < oa_version a" using assms(1) by (simp_all add: account_row_ok_def account_checks_iff)
  show ?thesis
    using old assms(2-) unfolding validate_account_None
    by (auto simp: account_checks_iff lifecycle_row_def optionalTelegramUserID_def
        optionalAuthenticationExpiry_def optionalFailureCode_def)
qed

text \<open>The database a successful write leaves.\<close>

definition persisted :: "time \<Rightarrow> account \<Rightarrow> account_row \<Rightarrow> db \<Rightarrow> db" where
  "persisted clock account a s =
    (if acc_status account = Disconnected
     then delete_session (acc_id account) (write_account (lifecycle_row clock account a) s)
     else write_account (lifecycle_row clock account a) s)"

lemma persisted_simps [simp]:
  "operator_accounts (persisted clock account a s) = operator_accounts (write_account (lifecycle_row clock account a) s)"
  "has_session (persisted clock account a s) j \<longleftrightarrow>
     has_session s j \<and> \<not> (acc_status account = Disconnected \<and> j = acc_id account)"
  by (simp_all add: persisted_def)

lemma write_account_find:
  assumes inv: "accounts_inv s" "accounts_inv s'" and a: "find_account s operator i = Some a"
    and a': "oa_id a' = oa_id a" "oa_operator a' = oa_operator a"
    and w: "operator_accounts s' = operator_accounts (write_account a' s)"
  shows "find_account s' operator i = Some a'" and "j \<noteq> i \<Longrightarrow> find_account s' o' j = find_account s o' j"
proof -
  note mem = find_account_Some [OF a]
  have d: "distinct (map oa_id (operator_accounts s))" using inv(1) by (simp add: accounts_inv_def)
  have "a' \<in> set (operator_accounts s')"
    unfolding w using write_account_set [OF d mem [THEN conjunct1], of a'] a' by simp
  from find_account_unique [OF inv(2) this] show "find_account s' operator i = Some a'" using a' mem by simp
  show "find_account s' o' j = find_account s o' j" if "j \<noteq> i"
    unfolding find_account_def w write_account_def
    by (simp, rule find_update_where_miss) (use that mem a' in auto)
qed

text \<open>What a successful write means, whatever snapshot was passed.\<close>

lemma persist_effect:
  assumes inv: "accounts_inv s"
    and run: "PersistLifecycle clock operator account expected s = (s', Returns ())"
  obtains a where "find_account s operator (acc_id account) = Some a" "oa_version a = uint expected"
    "acc_version account = expected + 1" "operator \<noteq> nil_uuid" "s' = persisted clock account a s" "accounts_inv s'"
    "find_account s' operator (acc_id account) = Some (lifecycle_row clock account a)"
    "\<And>o' j. j \<noteq> acc_id account \<Longrightarrow> find_account s' o' j = find_account s o' j"
proof -
  have op: "operator \<noteq> nil_uuid"
    using run by (auto simp: PersistLifecycle_def validOwnership_def split: if_split_asm)
  have inv': "accounts_inv s'" using PersistLifecycle_writes [OF inv run] by blast
  from run show thesis
  proof (cases rule: PersistLifecycle_cases)
    case (2 a previous)
    have s': "s' = persisted clock account a s" using 2(10) by (simp add: persisted_def)
    have id: "oa_id (lifecycle_row clock account a) = oa_id a"
      "oa_operator (lifecycle_row clock account a) = oa_operator a" by (simp_all add: lifecycle_row_def)
    have w: "operator_accounts s' = operator_accounts (write_account (lifecycle_row clock account a) s)"
      by (simp add: s')
    show thesis
      by (rule that [OF 2(1,4,5) op s' inv'])
        (use write_account_find [OF inv inv' 2(1) id w] in auto)
  qed simp
qed

lemma persist_effect_load:
  assumes inv: "accounts_inv s" and valid: "validate_account account = None"
    and run: "PersistLifecycle clock operator account expected s = (s', Returns ())"
  shows "accounts_inv s'" "LoadAccount operator (acc_id account) s' = Returns account"
    "j \<noteq> acc_id account \<Longrightarrow> LoadAccount o' j s' = LoadAccount o' j s"
    "has_session s' j \<longleftrightarrow> has_session s j \<and> \<not> (acc_status account = Disconnected \<and> j = acc_id account)"
proof -
  obtain a where a: "find_account s operator (acc_id account) = Some a" "oa_version a = uint expected"
    "acc_version account = expected + 1" "operator \<noteq> nil_uuid" "s' = persisted clock account a s" "accounts_inv s'"
    "find_account s' operator (acc_id account) = Some (lifecycle_row clock account a)"
    "\<And>o' j. j \<noteq> acc_id account \<Longrightarrow> find_account s' o' j = find_account s o' j"
    by (rule persist_effect [OF inv run]) blast
  show "accounts_inv s'" by (fact a(6))
  have "abs_account (lifecycle_row clock account a) = account"
    by (rule abs_lifecycle_row [OF valid]) (use find_account_Some [OF a(1)] a(2,3) in auto)
  then show "LoadAccount operator (acc_id account) s' = Returns account"
    unfolding LoadAccount_abs [OF a(6)] using a(4,7) by simp
  show "LoadAccount o' j s' = LoadAccount o' j s" if "j \<noteq> acc_id account"
    unfolding LoadAccount_abs [OF a(6)] LoadAccount_abs [OF inv] using a(8) [OF that] by simp
  show "has_session s' j \<longleftrightarrow> has_session s j \<and> \<not> (acc_status account = Disconnected \<and> j = acc_id account)"
    by (simp add: a(5))
qed

text \<open>When the write of a lifecycle call on the stored account succeeds.\<close>

lemma persist_succeeds:
  assumes inv: "accounts_inv s" and a: "find_account s operator i = Some a" "operator \<noteq> nil_uuid"
    and op: "apply_lifecycle op (abs_account a) = (account', None)"
    and "oa_version a < MaxInt64" "oa_created a \<le> clock"
    and activation: "\<And>uid. op = OpActivate uid \<Longrightarrow> has_session s i
        \<and> (\<forall>a \<in> set (operator_accounts s). oa_telegram_user_id a = Some uid \<longrightarrow> oa_id a = i)"
  shows "PersistLifecycle clock operator account' (acc_version (abs_account a)) s = (persisted clock account' a s, Returns ())"
    and "validate_account account' = None" and "acc_id account' = i"
proof -
  note mem = find_account_Some [OF a(1)]
  have ok: "account_row_ok a" by (rule accounts_inv_row [OF inv mem [THEN conjunct1]])
  show valid': "validate_account account' = None"
    using lifecycle_preserves_valid [OF abs_account_valid [OF ok], of op] op by simp
  have ids: "acc_id account' = oa_id a" "acc_version account' = acc_version (abs_account a) + 1"
    "uint (acc_version (abs_account a)) = oa_version a"
    using lifecycle_success_version [OF op] row_ok_version(1) [OF ok] by (simp_all add: abs_account_def)
  show "acc_id account' = i" using ids mem by simp
  have edge: "lifecycle_edge (oa_status a) (acc_status account')"
    using lifecycle_success_edge [OF op] by (simp add: abs_account_def)
  obtain previous where prev: "lifecyclePredecessors (acc_status account') = Some previous"
    "oa_status a \<in> set previous" using edge_predecessor [OF edge] by blast
  let ?row = "lifecycle_row clock account' a"
  have sess: "acc_status account' \<noteq> Active \<or> has_session s (oa_id a)"
    using lifecycle_to_active [OF op] activation mem by blast
  have checks: "account_checks ?row"
    by (rule lifecycle_row_checks [OF ok valid']) fact
  have "\<not> identity_taken s ?row"
  proof
    assume t: "identity_taken s ?row"
    then obtain x where x: "x \<in> set (operator_accounts s)" "oa_id x \<noteq> oa_id a"
      "oa_telegram_user_id x = Some (acc_telegramUserID account')" "0 < acc_telegramUserID account'"
      by (auto simp: identity_taken_def list_ex_iff lifecycle_row_def optionalTelegramUserID_def
          split: if_split_asm)
    show False
    proof (cases "\<exists>uid. op = OpActivate uid")
      case True
      then show False using lifecycle_keeps_identity [OF op] x activation mem by auto
    next
      case False
      then have "acc_telegramUserID account' = acc_telegramUserID (abs_account a)"
        using lifecycle_keeps_identity [OF op] by (cases op) auto
      then have "oa_telegram_user_id a = oa_telegram_user_id x"
        using x(3,4) by (auto simp: abs_account_def split: option.splits)
      then show False
        using inv x mem unfolding accounts_inv_def identities_unique_def by (metis option.distinct(1))
    qed
  qed
  then have "write_violation s ?row = None" using checks by (simp add: write_violation_None)
  then show "PersistLifecycle clock operator account' (acc_version (abs_account a)) s
      = (persisted clock account' a s, Returns ())"
    using a prev sess ids mem ok assms(5)
    by (simp add: PersistLifecycle_def validOwnership_def account_row_ok_def persisted_def Let_def)
qed

text \<open>A lifecycle call made on a loaded account and persisted against the loaded version is durable
  as made: the write succeeds, the next load returns exactly the account the call produced, other
  accounts load as before, and after a completed disconnect the session is gone. The write needs
  what the schema needs: a clock not before the row's creation, and for an activation a stored
  session and a Telegram identity no other account has.\<close>
theorem persist_roundtrip:
  assumes "reachable accounts_init account_step s"
    and "LoadAccount operator i s = Returns account"
    and "apply_lifecycle op account = (account', None)"
    and "uint (acc_version account) < MaxInt64"
    and "\<forall>a \<in> set (operator_accounts s). oa_created a \<le> clock"
    and "\<forall>uid. op = OpActivate uid \<longrightarrow> has_session s i
        \<and> (\<forall>a \<in> set (operator_accounts s). oa_telegram_user_id a = Some uid \<longrightarrow> oa_id a = i)"
  shows "\<exists>s'. PersistLifecycle clock operator account' (acc_version account) s = (s', Returns ())
    \<and> LoadAccount operator i s' = Returns account'
    \<and> (\<forall>o' j. j \<noteq> i \<longrightarrow> LoadAccount o' j s' = LoadAccount o' j s)
    \<and> (acc_status account' = Disconnected \<longrightarrow> \<not> has_session s' i)"
proof -
  have inv: "accounts_inv s" by (rule reachable_accounts_inv [OF assms(1)])
  obtain a where a: "find_account s operator i = Some a" "operator \<noteq> nil_uuid" "account = abs_account a"
    using assms(2) unfolding LoadAccount_abs [OF inv] by (auto split: option.splits if_split_asm)
  note mem = find_account_Some [OF a(1)]
  have ver: "oa_version a < MaxInt64"
    using assms(4) row_ok_version(1) [OF accounts_inv_row [OF inv mem [THEN conjunct1]]] a(3)
    by (simp add: abs_account_def)
  note moved = persist_succeeds [OF inv a(1,2) assms(3) [unfolded a(3)] ver _ assms(6) [rule_format]]
  have run: "PersistLifecycle clock operator account' (acc_version (abs_account a)) s
      = (persisted clock account' a s, Returns ())" and valid: "validate_account account' = None"
    and id: "acc_id account' = i" using moved assms(5) mem by blast+
  show ?thesis using run persist_effect_load [OF inv valid run] id a(3) by auto
qed

section \<open>The SQL updates refine the domain operations\<close>

text \<open>The stored account moved by one successful lifecycle call.\<close>

definition simulates :: "db \<Rightarrow> db \<Rightarrow> uuid \<Rightarrow> uuid \<Rightarrow> lifecycle_op \<Rightarrow> bool" where
  "simulates s s' operator i op \<longleftrightarrow> (\<exists>a a'. find_account s operator i = Some a
     \<and> find_account s' operator i = Some a'
     \<and> apply_lifecycle op (abs_account a) = (abs_account a', None))"

lemma writes_found:
  assumes inv': "accounts_inv s'" and w: "writes_row s s' a a'" and inv: "accounts_inv s"
  shows "find_account s' (oa_operator a) (oa_id a) = Some a'"
proof -
  have m: "a \<in> set (operator_accounts s)" "oa_id a' = oa_id a" "oa_operator a' = oa_operator a"
    "operator_accounts s' = operator_accounts (write_account a' s)"
    using w by (simp_all add: writes_row_def row_moved_def)
  have "a' \<in> set (operator_accounts s')"
    unfolding m(4) using write_account_set [OF _ m(1,2)] inv by (simp add: accounts_inv_def)
  from find_account_unique [OF inv' this] show ?thesis using m by simp
qed

lemma row_below_max:
  assumes "account_row_ok a" "oa_version a < MaxInt64"
  shows "(of_int (oa_version a) :: version) \<noteq> NOT 0"
proof
  assume eq: "(of_int (oa_version a) :: version) = NOT 0"
  have "uint (of_int (oa_version a) :: version) = 2 ^ 64 - 1"
    unfolding eq by (simp add: unsigned_minus_1_eq_mask mask_eq_exp_minus_1)
  then show False using row_ok_version(1) [OF assms(1)] assms(2) by (simp add: MaxInt64_def)
qed

lemma simulates_finalize:
  assumes "account_row_ok a" "oa_status a = Authenticating" "oa_version a < MaxInt64" "0 < UserID p"
  shows "apply_lifecycle (OpActivate (UserID p)) (abs_account a) = (abs_account (finalized_row clock p a), None)"
  using assms row_below_max [OF assms(1,3)]
  by (simp add: Activate_def move_cases abs_account_def finalized_row_def account_row_ok_def account_checks_iff)

lemma simulates_aborting:
  assumes "account_row_ok a" "oa_status a = Authenticating" "oa_version a < MaxInt64"
  shows "apply_lifecycle OpBeginDisconnect (abs_account a) = (abs_account (aborting_row clock a), None)"
  using assms row_below_max [OF assms(1,3)]
  by (simp add: BeginDisconnect_def Let_def move_cases abs_account_def aborting_row_def
      account_row_ok_def account_checks_iff)

lemma simulates_aborted:
  assumes "account_row_ok a" "oa_status a = Disconnecting" "oa_version a < MaxInt64" "account_checks (aborted_row clock a)"
  shows "apply_lifecycle OpMarkDisconnected (abs_account a) = (abs_account (aborted_row clock a), None)"
  using assms row_below_max [OF assms(1,3)]
  by (simp add: MarkDisconnected_def move_cases abs_account_def aborted_row_def
      account_row_ok_def account_checks_iff)

lemma simulates_resumed:
  assumes "account_row_ok a" "oa_status a \<in> {Disconnected, ReauthRequired}" "oa_version a < MaxInt64" "expires \<noteq> zero_time"
  shows "apply_lifecycle (OpBeginAuthentication expires) (abs_account a) = (abs_account (resumed_row clock expires a), None)"
  using assms row_below_max [OF assms(1,3)]
  by (auto simp: BeginAuthentication_def move_cases abs_account_def resumed_row_def)

lemma simulates_started:
  "i \<noteq> nil_uuid \<Longrightarrow> expires \<noteq> zero_time \<Longrightarrow>
     map_option (\<lambda>n. BeginAuthentication expires n) (new_account i)
       = Some (abs_account (admitted_row clock i operator p expires), None)"
  by (simp add: BeginAuthentication_def move_cases abs_account_def admitted_row_def new_account_def
      zero_account_def InitialVersion_def)

text \<open>C19: the hand-written SQL updates of the authentication store are the domain operations. Where
  one of them changes the tables, the stored account goes from one domain account to the next by
  exactly that call: finalisation is \<open>Activate\<close> with the profile's identity, the two halves of an
  abort are \<open>BeginDisconnect\<close> and \<open>MarkDisconnected\<close>, a resumed authentication is
  \<open>BeginAuthentication\<close>, and an admitted new phone is \<open>New\<close> followed by \<open>BeginAuthentication\<close>.\<close>
theorem auth_store_refines_domain:
  assumes "reachable accounts_init account_step s" and "fresh \<noteq> nil_uuid"
  shows "(\<forall>now. let (s', r) = Finalize now clock operator i expected p s in
            s' = s \<or> simulates s s' operator i (OpActivate (UserID p)))
    \<and> (let (s', r) = BeginAbort clock operator i expected s in
         s' = s \<or> simulates s s' operator i OpBeginDisconnect)
    \<and> (let (s', r) = CompleteAbort clock operator i expected s in
         s' = s \<or> simulates s s' operator i OpMarkDisconnected)
    \<and> (let (s', r) = BeginOrResume operators clock fresh operator phone expires s in
         s' = s
         \<or> (\<exists>v. r = Returns v \<and> br_outcome v = BeginResumed
              \<and> simulates s s' operator (aa_id (br_account v)) (OpBeginAuthentication expires))
         \<or> (\<exists>v a n. r = Returns v \<and> br_outcome v = BeginStarted \<and> find_account s' operator fresh = Some a
              \<and> new_account fresh = Some n \<and> BeginAuthentication expires n = (abs_account a, None)))"
proof -
  have inv: "accounts_inv s" by (rule reachable_accounts_inv [OF assms(1)])
  have found: "account_row_ok a \<and> oa_operator a = operator \<and> oa_id a = i" if "find_account s operator i = Some a" for a
    using find_account_Some [OF that] accounts_inv_row [OF inv] by blast
  have fin: "s' = s \<or> simulates s s' operator i (OpActivate (UserID p))"
    if run: "Finalize now clock operator i expected p s = (s', r)" for now s' r
    using run
  proof (cases rule: Finalize_cases)
    case (2 a)
    have "writes_row s s' a (finalized_row clock p a) \<and> accounts_inv s' \<or> s' = s"
      using Finalize_writes [OF inv run] 2(1) by auto
    moreover have "0 < UserID p" using 2(5) by (auto simp: validateProfile_def split: if_split_asm)
    ultimately show ?thesis
      using simulates_finalize [of a p clock] 2 found [OF 2(1)] writes_found [OF _ _ inv, of s' a]
      unfolding simulates_def version_usable_def by metis
  qed simp
  have ab: "s' = s \<or> simulates s s' operator i OpBeginDisconnect"
    if run: "BeginAbort clock operator i expected s = (s', r)" for s' r
    using run
  proof (cases rule: BeginAbort_cases)
    case (2 a)
    have "writes_row s s' a (aborting_row clock a) \<and> accounts_inv s' \<or> s' = s"
      using BeginAbort_writes [OF inv run] 2(1) by auto
    then show ?thesis
      using simulates_aborting [of a clock] 2 found [OF 2(1)] writes_found [OF _ _ inv, of s' a]
      unfolding simulates_def version_usable_def by metis
  qed simp
  have comp: "s' = s \<or> simulates s s' operator i OpMarkDisconnected"
    if run: "CompleteAbort clock operator i expected s = (s', r)" for s' r
    using run
  proof (cases rule: CompleteAbort_cases)
    case (2 a)
    have "writes_row s s' a (aborted_row clock a) \<and> accounts_inv s' \<or> s' = s"
      using CompleteAbort_writes [OF inv run] 2(1) by auto
    moreover have "account_checks (aborted_row clock a)" using 2(5) by (simp add: write_violation_None)
    ultimately show ?thesis
      using simulates_aborted [of a clock] 2 found [OF 2(1)] writes_found [OF _ _ inv, of s' a]
      unfolding simulates_def version_usable_def by metis
  qed simp
  have beg: "s' = s
         \<or> (\<exists>v. r = Returns v \<and> br_outcome v = BeginResumed
              \<and> simulates s s' operator (aa_id (br_account v)) (OpBeginAuthentication expires))
         \<or> (\<exists>v a n. r = Returns v \<and> br_outcome v = BeginStarted \<and> find_account s' operator fresh = Some a
              \<and> new_account fresh = Some n \<and> BeginAuthentication expires n = (abs_account a, None))"
    if run: "BeginOrResume operators clock fresh operator phone expires s = (s', r)" for s' r
    using run
  proof (cases rule: BeginOrResume_cases)
    case (2 normalized)
    let ?a = "admitted_row clock fresh operator normalized expires"
    have inv': "accounts_inv s'" unfolding 2(9) by (rule accounts_inv_admit [OF inv 2(1,2,6) assms(2) 2(4,7,5)])
    have "?a \<in> set (operator_accounts s')" by (simp add: 2(9))
    from find_account_unique [OF inv' this] have "find_account s' operator fresh = Some ?a"
      by (simp add: admitted_row_def)
    moreover obtain n where "new_account fresh = Some n" "BeginAuthentication expires n = (abs_account ?a, None)"
      using simulates_started [OF assms(2) 2(5), of clock operator normalized] by auto
    ultimately show ?thesis using 2(8) by (auto simp: begin_result_of_def)
  next
    case (3 a normalized)
    note a = find_phone_Some [OF 3(2)]
    have row: "account_row_ok a" using accounts_inv_row [OF inv] a by blast
    have w: "writes_row s s' a (resumed_row clock expires a)"
      using a resumed_row_moved [OF 3(4)] 3(6,8) by (simp add: writes_row_def)
    have inv': "accounts_inv s'"
      by (rule accounts_inv_writes [OF inv w]) (use 3 a in \<open>auto simp: resumed_row_def\<close>)
    have "find_account s operator (oa_id a) = Some a" using find_account_unique [OF inv] a by blast
    moreover have "find_account s' operator (oa_id a) = Some (resumed_row clock expires a)"
      using writes_found [OF inv' w inv] a by simp
    ultimately have "simulates s s' operator (oa_id a) (OpBeginAuthentication expires)"
      using simulates_resumed [OF row 3(4,5,3)] unfolding simulates_def by blast
    then show ?thesis using 3(7) by (auto simp: begin_result_of_def account_view_def resumed_row_def)
  qed simp
  show ?thesis
    by (intro conjI allI; unfold Let_def; (simp split: prod.split)?; use fin ab comp beg in blast)
qed

section \<open>Remote-logout intents\<close>

lemma pending_row:
  assumes "accounts_inv s" "a \<in> set (operator_accounts s)" "oa_remote_logout a"
  shows "oa_status a = Disconnecting"
  using accounts_inv_row [OF assms(1,2)] assms(3) by (simp add: account_row_ok_def account_checks_iff)

lemma unwritten_row:
  assumes "accounts_inv s" "writes_row s s' x x'" "a \<in> set (operator_accounts s)" "a \<noteq> x"
  shows "a \<in> set (operator_accounts s')"
proof -
  have w: "x \<in> set (operator_accounts s)" "oa_id x' = oa_id x"
    "operator_accounts s' = operator_accounts (write_account x' s)"
    using assms(2) by (simp_all add: writes_row_def row_moved_def)
  then show ?thesis
    unfolding w(3) using write_account_set [OF _ w(1,2)] assms(1,3,4) by (simp add: accounts_inv_def)
qed

text \<open>A durable remote-logout intent is never lost by accident. An account row that requires a
  remote logout stays exactly as it is under every operation of the store, an authentication abort
  and a session deletion included, until a persisted lifecycle write of its own version
  marks it disconnected with the requirement cleared.\<close>
theorem logout_intent_kept:
  assumes "reachable accounts_init account_step s" "account_step s s'"
    and "a \<in> set (operator_accounts s)" "oa_remote_logout a"
  shows "a \<in> set (operator_accounts s') \<or>
    (\<exists>clock account expected. PersistLifecycle clock (oa_operator a) account expected s = (s', Returns ())
       \<and> acc_id account = oa_id a \<and> acc_status account = Disconnected
       \<and> \<not> acc_remoteLogoutRequired account \<and> uint expected = oa_version a)"
proof -
  have inv: "accounts_inv s" by (rule reachable_accounts_inv [OF assms(1)])
  have st: "oa_status a = Disconnecting" by (rule pending_row [OF inv assms(3,4)])
  note kept = unwritten_row [OF inv _ assms(3)]
  from assms(2) show ?thesis
  proof cases
    case (persist clock operator account expected d)
    from persist show ?thesis
    proof (cases rule: PersistLifecycle_cases)
      case 1
      then show ?thesis using assms(3) by simp
    next
      case (2 x previous)
      note x = find_account_Some [OF 2(1)]
      have w: "writes_row s s' x (lifecycle_row clock account x)"
        using x lifecycle_row_moved [OF 2(2,3)] 2(8,10) by (simp add: writes_row_def)
      show ?thesis
      proof (cases "a = x")
        case True
        then have dis: "acc_status account = Disconnected"
          using 2(2,3) st by (cases "acc_status account") auto
        have "account_checks (lifecycle_row clock account x)" using 2(8) by (simp add: write_violation_None)
        then have "\<not> acc_remoteLogoutRequired account"
          using dis by (simp add: account_checks_iff lifecycle_row_def)
        then show ?thesis using persist 2(4,9) x True dis by auto
      next
        case False
        then show ?thesis using kept [OF w] by blast
      qed
    qed
  next
    case (delete operator i d)
    then show ?thesis using accounts_inv_DeleteSession [OF inv delete] assms(3) by simp
  next
    case (begin_auth i operators clock operator phone expires b)
    from begin_auth(2) show ?thesis
    proof (cases rule: BeginOrResume_cases)
      case (3 x normalized)
      note x = find_phone_Some [OF 3(2)]
      have w: "writes_row s s' x (resumed_row clock expires x)"
        using x resumed_row_moved [OF 3(4)] 3(6,8) by (simp add: writes_row_def)
      have "a \<noteq> x" using 3(4) st by auto
      then show ?thesis using kept [OF w] by blast
    qed (use assms(3) in auto)
  next
    case (finalize now clock operator i expected profile f)
    from finalize show ?thesis
    proof (cases rule: Finalize_cases)
      case (2 x)
      note x = find_account_Some [OF 2(1)]
      have w: "writes_row s s' x (finalized_row clock profile x)"
        using x finalized_row_moved [OF 2(2)] 2(8,10) by (simp add: writes_row_def)
      have "a \<noteq> x" using 2(2) st by auto
      then show ?thesis using kept [OF w] by blast
    qed (use assms(3) in auto)
  next
    case (begin_abort clock operator i expected v)
    from begin_abort show ?thesis
    proof (cases rule: BeginAbort_cases)
      case (2 x)
      note x = find_account_Some [OF 2(1)]
      have w: "writes_row s s' x (aborting_row clock x)"
        using x aborting_row_moved [OF 2(2)] 2(5,7) by (simp add: writes_row_def)
      have "a \<noteq> x" using 2(2) st by auto
      then show ?thesis using kept [OF w] by blast
    qed (use assms(3) in auto)
  next
    case (complete_abort clock operator i expected v)
    from complete_abort show ?thesis
    proof (cases rule: CompleteAbort_cases)
      case (2 x)
      note x = find_account_Some [OF 2(1)]
      have w: "writes_row s s' x (aborted_row clock x)"
        using x aborted_row_moved [OF 2(2)] 2(5,7) by (simp add: writes_row_def)
      have "account_checks (aborted_row clock x)" using 2(5) by (simp add: write_violation_None)
      then have "a \<noteq> x" using assms(4) by (auto simp: account_checks_iff aborted_row_def)
      then show ?thesis using kept [OF w] by blast
    qed (use assms(3) in auto)
  next
    case (save_session i)
    then show ?thesis using assms(3) by (simp add: store_session_def)
  qed
qed

section \<open>Optimistic lock\<close>

definition version_reached :: "uuid \<times> uuid \<times> int \<Rightarrow> db \<Rightarrow> bool" where
  "version_reached x s \<longleftrightarrow> (case x of (operator, i, v) \<Rightarrow>
     \<exists>a \<in> set (operator_accounts s). oa_operator a = operator \<and> oa_id a = i \<and> v \<le> oa_version a)"

lemma version_reached_step:
  assumes "accounts_inv s" "account_step s s'" "version_reached x s"
  shows "version_reached x s'"
proof -
  obtain operator i v where x: "x = (operator, i, v)" by (cases x) auto
  obtain a where a: "a \<in> set (operator_accounts s)" "oa_operator a = operator" "oa_id a = i" "v \<le> oa_version a"
    using assms(3) by (auto simp: version_reached_def x)
  have eff: "operator_accounts s' = operator_accounts s
    \<or> (\<exists>b b'. writes_row s s' b b')
    \<or> (\<exists>i clock operator p expires.
         operator_accounts s' = operator_accounts s @ [admitted_row clock i operator p expires])"
    using account_step_effect [OF assms(1,2)] by blast
  show ?thesis
    using eff
  proof (elim disjE exE)
    fix b b' assume w: "writes_row s s' b b'"
    show ?thesis
    proof (cases "a = b")
      case True
      have "b' \<in> set (operator_accounts s')" "row_moved b b'"
        using w write_account_set [of s b b'] assms(1)
        by (auto simp: writes_row_def row_moved_def accounts_inv_def)
      then show ?thesis using a True unfolding version_reached_def x row_moved_def by force
    next
      case False
      then show ?thesis using unwritten_row [OF assms(1) w a(1)] a unfolding version_reached_def x by auto
    qed
  qed (use a in \<open>auto simp: version_reached_def x\<close>)
qed

interpretation version_sys: absorbing_system accounts_init account_step accounts_inv version_reached
  by unfold_locales (rule version_reached_step)

text \<open>Of all lifecycle writes that were computed from the same stored version of an account, at most
  one ever succeeds: after one has, every other one is rejected, whatever it wants to write and
  however many operations of any kind run in between, and it changes nothing.\<close>
lemma snapshot_written_once:
  assumes "reachable accounts_init account_step s"
    and "PersistLifecycle clock1 operator account1 expected s = (s1, Returns ())"
    and "rtranclp account_step s1 t"
    and "acc_id account2 = acc_id account1"
  shows "\<exists>e. PersistLifecycle clock2 operator account2 expected t = (t, Fails e)"
proof -
  have inv: "accounts_inv s" by (rule reachable_accounts_inv [OF assms(1)])
  have inv1: "accounts_inv s1" using PersistLifecycle_writes [OF inv assms(2)] by blast
  have reach: "version_reached (operator, acc_id account1, uint expected + 1) s1"
    using assms(2)
  proof (cases rule: PersistLifecycle_cases)
    case (2 a previous)
    note a = find_account_Some [OF 2(1)]
    have m: "row_moved a (lifecycle_row clock1 account1 a)" by (rule lifecycle_row_moved [OF 2(2,3)])
    have "lifecycle_row clock1 account1 a \<in> set (operator_accounts s1)"
      using write_account_set [of s a "lifecycle_row clock1 account1 a"] a m inv 2(10)
      by (auto simp: row_moved_def accounts_inv_def)
    then show ?thesis using m a 2(4) unfolding version_reached_def row_moved_def by force
  qed simp
  have later: "version_reached (operator, acc_id account1, uint expected + 1) t"
    by (rule version_sys.holds_run [OF assms(3) inv1 reach])
  have invt: "accounts_inv t" by (rule account_sys.inv_run [OF assms(3) inv1])
  obtain b where b: "b \<in> set (operator_accounts t)" "oa_operator b = operator" "oa_id b = acc_id account1"
    "uint expected + 1 \<le> oa_version b" using later by (auto simp: version_reached_def)
  obtain t' res where run: "PersistLifecycle clock2 operator account2 expected t = (t', res)" by fastforce
  from run show ?thesis
  proof (cases rule: PersistLifecycle_cases)
    case 1
    then show ?thesis using run by (cases res) (auto simp: PersistLifecycle_def Let_def split: if_splits option.splits)
  next
    case (2 a previous)
    then have "a = b" using find_account_unique [OF invt b(1)] b assms(4) by auto
    then show ?thesis using 2(4) b(4) by simp
  qed
qed

section \<open>Phones\<close>

lemma phone_runes_digits: "phone_runes False cs = Some v \<Longrightarrow> list_all ascii_digit v"
  by (induction cs arbitrary: v) (auto split: if_split_asm)

lemma phone_runes_first:
  "phone_runes True cs = Some v \<Longrightarrow> list_all ascii_digit v \<or> (\<exists>w. v = 43 # w \<and> list_all ascii_digit w)"
  by (cases cs) (auto split: if_split_asm dest: phone_runes_digits)

lemma international_form:
  assumes "phone_runes True cs = Some v"
  shows "\<exists>w. international v = 43 # w \<and> list_all ascii_digit w"
  using phone_runes_first [OF assms]
proof (elim disjE exE conjE)
  assume d: "list_all ascii_digit v"
  then have "take 1 v \<noteq> [43]" by (cases v) (auto simp: ascii_digit_def)
  moreover have "list_all ascii_digit (drop 2 v)" using d by (auto simp: list_all_iff dest: in_set_dropD)
  ultimately show ?thesis using d by (simp add: international_def Let_def)
next
  fix w assume "v = 43 # w" "list_all ascii_digit w"
  then show ?thesis by (simp add: international_def Let_def)
qed

lemma phone_runes_self: "list_all ascii_digit w \<Longrightarrow> phone_runes False w = Some w"
  by (induction w) auto

lemma digit_not_space: "ascii_digit c \<Longrightarrow> \<not> is_space c"
  by (auto simp: ascii_digit_def is_space_def)

lemma TrimSpace_self:
  assumes "s \<noteq> []" "\<not> is_space (hd s)" "\<not> is_space (last s)"
  shows "TrimSpace s = s"
proof -
  have "dropWhile is_space s = s" using assms(1,2) by (cases s) auto
  moreover have "dropWhile is_space (rev s) = rev s"
    using assms(1,3) by (cases s rule: rev_cases) auto
  ultimately show ?thesis by (simp add: TrimSpace_def)
qed

lemma phone_canonical:
  assumes "normalizePhone phone = Returns v"
  shows "phone_check v \<and> 8 \<le> length v \<and> length v \<le> 16 \<and> normalizePhone v = Returns v"
proof -
  obtain value' where v: "phone_runes True (TrimSpace phone) = Some value'"
    "check_digits (international value') = Returns v"
    using assms by (auto simp: normalizePhone_def Let_def split: if_split_asm option.splits)
  obtain w where w: "international value' = 43 # w" "list_all ascii_digit w"
    using international_form [OF v(1)] by blast
  have len: "v = 43 # w" "7 \<le> length w" "length w \<le> 15" "hd w \<noteq> 48"
    using v(2) unfolding w(1) by (auto simp: check_digits_def Let_def split: if_split_asm)
  obtain d rest where dr: "w = d # rest" using len(2) by (cases w) auto
  have check: "phone_check v"
    using len w(2) dr by (auto simp: phone_check_def ascii_digit_def)
  have last: "\<not> is_space (last v)"
    using w(2) dr len(1) digit_not_space by (metis last_ConsR last_in_set list.discI list_all_iff)
  have trim: "TrimSpace v = v"
    by (rule TrimSpace_self) (use len(1) last in \<open>simp_all add: is_space_def\<close>)
  have "phone_runes True v = Some v" using phone_runes_self [OF w(2)] len(1) by simp
  moreover have "international v = v" by (simp add: len(1) international_def Let_def)
  moreover have "check_digits v = Returns v" using v(2) w(1) len(1) by simp
  ultimately have "normalizePhone v = Returns v" using trim len(1) by (simp add: normalizePhone_def)
  then show ?thesis using check len by simp
qed

text \<open>A phone that is accepted is stored in one canonical form, a plus and seven to fifteen digits
  without leading zero, which satisfies the table's CHECK constraint and is accepted unchanged when
  given again, so that two spellings of a number meet in the unique index.\<close>
lemma normalizePhone_canonical:
  assumes "normalizePhone phone = Returns v"
  shows "phone_check v \<and> 8 \<le> length v \<and> length v \<le> 16 \<and> normalizePhone v = Returns v"
  using assms by (rule phone_canonical)

section \<open>A concrete account\<close>

definition demo_phone :: "rune list" where
  "demo_phone = [48, 48, 49, 32, 53, 53, 53, 45, 49, 50, 51, 52]"

definition demo_profile :: Profile where
  "demo_profile = \<lparr>UserID = 7, Username = [97], FirstName = [98], LastName = []\<rparr>"

definition adb0 :: db where
  "adb0 = \<lparr>operator_accounts = [], sessions = [], dialog_syncs = [], mailings = [], routes = [],
     recipients = [], runs = [], deliveries = [], telegram_deliveries = [], random_seq = 1\<rparr>"

definition adb1 :: db where
  "adb1 = fst (BeginOrResume {1} 5 20 1 demo_phone 100 adb0)"

definition adb2 :: db where
  "adb2 = store_session 20 adb1"

definition adb3 :: db where
  "adb3 = fst (Finalize 6 6 1 20 2 demo_profile adb2)"

definition demo_disconnecting :: account where
  "demo_disconnecting = \<lparr>acc_id = 20, acc_status = Disconnecting, acc_version = 4,
     acc_failureCode = NoFailure, acc_telegramUserID = 7, acc_authExpiresAt = zero_time,
     acc_remoteLogoutRequired = True\<rparr>"

definition adb4 :: db where
  "adb4 = fst (PersistLifecycle 7 1 demo_disconnecting 3 adb3)"

lemma adb_reachable:
  "reachable accounts_init account_step adb1" "reachable accounts_init account_step adb2"
  "reachable accounts_init account_step adb3" "reachable accounts_init account_step adb4"
proof -
  have 0: "reachable accounts_init account_step adb0"
    by (rule reachable.initial) (simp add: accounts_init_def adb0_def)
  have "account_step adb0 adb1" unfolding adb1_def
    by (rule account_step.begin_auth [OF _ surjective_pairing]) simp
  then show 1: "reachable accounts_init account_step adb1" by (rule reachable.later [OF 0])
  have "account_step adb1 adb2" unfolding adb2_def by (rule account_step.save_session)
  then show 2: "reachable accounts_init account_step adb2" by (rule reachable.later [OF 1])
  have "account_step adb2 adb3" unfolding adb3_def by (rule account_step.finalize [OF surjective_pairing])
  then show 3: "reachable accounts_init account_step adb3" by (rule reachable.later [OF 2])
  have "account_step adb3 adb4" unfolding adb4_def by (rule account_step.persist [OF surjective_pairing])
  then show "reachable accounts_init account_step adb4" by (rule reachable.later [OF 3])
qed

definition demo_active :: account where
  "demo_active = \<lparr>acc_id = 20, acc_status = Active, acc_version = 3, acc_failureCode = NoFailure,
     acc_telegramUserID = 7, acc_authExpiresAt = zero_time, acc_remoteLogoutRequired = False\<rparr>"

definition demo_number :: "rune list" where
  "demo_number = [43, 49, 53, 53, 53, 49, 50, 51, 52]"

lemma normalize_demo: "normalizePhone demo_phone = Returns demo_number"
  by (simp add: normalizePhone_def demo_phone_def demo_number_def TrimSpace_def is_space_def international_def
      check_digits_def ascii_digit_def)

lemma demo_number_ok: "phone_check demo_number"
  by (simp add: phone_check_def demo_number_def ascii_digit_def)

lemma adb1: "adb1 = adb0\<lparr>operator_accounts := [admitted_row 5 20 1 demo_number 100]\<rparr>"
  by (simp add: adb1_def BeginOrResume_def normalize_demo find_phone_def account_checks_def adb0_def admitted_row_def demo_number_ok)

definition demo_row :: account_row where
  "demo_row = finalized_row 6 demo_profile (admitted_row 5 20 1 demo_number 100)"

lemma demo_row [simp]:
  "oa_id demo_row = 20" "oa_operator demo_row = 1" "oa_phone demo_row = Some demo_number" "oa_telegram_user_id demo_row = Some 7"
  "oa_status demo_row = Active" "oa_version demo_row = 3" "oa_auth_expires demo_row = None" "oa_failure demo_row = None"
  "oa_remote_logout demo_row = False" "oa_created demo_row = 5" "oa_updated demo_row = 6"
  "oa_first_name demo_row = Some [98]"
  by (simp_all add: demo_row_def finalized_row_def admitted_row_def demo_profile_def nullableText_def)

lemma profile_ok: "validateProfile demo_profile = None"
  by (simp add: validateProfile_def demo_profile_def field_ok_def)

lemma adb3: "operator_accounts adb3 = [demo_row]" "sessions adb3 = [20]"
proof -
  have "write_violation adb2 demo_row = None"
    by (simp add: write_violation_def account_checks_def identity_taken_def adb2_def adb1 store_session_def admitted_row_def demo_number_ok)
  then have e: "adb3 = enqueue_sync 6 20 (write_account demo_row adb2)"
    by (simp add: adb3_def Finalize_def validOwnership_def version_usable_def MaxInt64_def profile_ok
      adb2_def adb1 store_session_def find_account_def has_session_def demo_row_def) (simp add: admitted_row_def)
  have "operator_accounts (write_account demo_row adb2) = [demo_row]" "sessions (write_account demo_row adb2) = [20]"
    by (simp_all add: write_account_def update_where_def adb2_def adb1 adb0_def store_session_def admitted_row_def)
  then show "operator_accounts adb3 = [demo_row]" "sessions adb3 = [20]"
    unfolding e by simp_all
qed

lemma demo_persist: "PersistLifecycle 7 1 demo_disconnecting 3 adb3
   = (write_account (lifecycle_row 7 demo_disconnecting demo_row) adb3, Returns ())"
  by (simp add: PersistLifecycle_def validOwnership_def demo_disconnecting_def MaxInt64_def find_account_def adb3 write_violation_def
    account_checks_def identity_taken_def lifecycle_row_def optionalTelegramUserID_def optionalAuthenticationExpiry_def
    optionalFailureCode_def demo_number_ok)

lemma demo_load: "LoadAccount 1 20 adb3 = Returns demo_active"
  by (simp add: LoadAccount_def validOwnership_def find_account_def adb3 demo_active_def Restore_def validate_account_def)

lemma demo_apply: "apply_lifecycle OpBeginDisconnect demo_active = (demo_disconnecting, None)"
  by (simp add: demo_active_def demo_disconnecting_def BeginDisconnect_def advanceVersion_def)

lemma adb4: "adb4 = write_account (lifecycle_row 7 demo_disconnecting demo_row) adb3"
  by (simp add: adb4_def demo_persist)

lemma adb4_rows: "operator_accounts adb4 = [lifecycle_row 7 demo_disconnecting demo_row]"
  by (simp add: adb4 write_account_def update_where_def adb3 lifecycle_row_def)

theorem accounts_consistent_witness: "account_checks demo_row \<and> has_session adb3 20"
  using accounts_consistent [OF adb_reachable(3)] by (simp add: adb3)

theorem persist_roundtrip_witness: "LoadAccount 1 20 adb4 = Returns demo_disconnecting"
proof -
  have v: "uint (acc_version demo_active) < MaxInt64" "acc_version demo_active = 3"
    by (simp_all add: demo_active_def MaxInt64_def)
  have "\<forall>a \<in> set (operator_accounts adb3). oa_created a \<le> 7" by (simp add: adb3)
  from persist_roundtrip [OF adb_reachable(3) demo_load demo_apply v(1) this]
  show ?thesis by (auto simp: demo_persist v adb4)
qed

theorem auth_store_refines_domain_witness: "simulates adb2 adb3 1 20 (OpActivate 7)"
proof -
  have "operator_accounts adb2 = [admitted_row 5 20 1 demo_number 100]"
    by (simp add: adb2_def adb1 store_session_def)
  then have "map oa_status (operator_accounts adb2) \<noteq> map oa_status (operator_accounts adb3)"
    by (simp add: adb3 admitted_row_def)
  then have "adb3 \<noteq> adb2" by metis
  then show ?thesis
    using auth_store_refines_domain [OF adb_reachable(2), of 1 6 1 20 2 demo_profile, THEN conjunct1, THEN spec, of 6]
    unfolding adb3_def by (simp add: case_prod_unfold Let_def) (simp add: demo_profile_def)
qed

definition demo_pending :: account_row where
  "demo_pending = lifecycle_row 7 demo_disconnecting demo_row"

theorem logout_intent_kept_witness:
  "demo_pending \<in> set (operator_accounts (fst (DeleteSession 1 20 adb4))) \<or>
    (\<exists>clock account expected. PersistLifecycle clock 1 account expected adb4
         = (fst (DeleteSession 1 20 adb4), Returns ())
       \<and> acc_id account = 20 \<and> acc_status account = Disconnected
       \<and> \<not> acc_remoteLogoutRequired account \<and> uint expected = 4)"
proof -
  have step: "account_step adb4 (fst (DeleteSession 1 20 adb4))"
    by (rule account_step.delete [OF surjective_pairing])
  have row: "demo_pending \<in> set (operator_accounts adb4)" "oa_remote_logout demo_pending"
    "oa_id demo_pending = 20" "oa_operator demo_pending = 1" "oa_version demo_pending = 4"
    by (simp_all add: adb4_rows demo_pending_def lifecycle_row_def demo_disconnecting_def)
  show ?thesis
    using logout_intent_kept [OF adb_reachable(4) step row(1,2)] unfolding row(3-5) .
qed

theorem snapshot_written_once_witness: "\<exists>e. PersistLifecycle 9 1 demo_disconnecting 3 adb4 = (adb4, Fails e)"
  unfolding adb4
  by (rule snapshot_written_once [OF adb_reachable(3) demo_persist rtranclp.rtrancl_refl refl])

theorem normalizePhone_canonical_witness: "phone_check demo_number \<and> normalizePhone demo_number = Returns demo_number"
  using normalizePhone_canonical [OF normalize_demo] by blast

end
