(* ===== verification/Remote_Disconnect.thy ===== *)
theory Remote_Disconnect
  imports Account_Store
begin

text \<open>
  The application service of \<open>internal/application/operatoraccounts\<close>: the bounded remote failure
  and the closed revoke outcome, the \<open>Disconnect\<close> command and the startup \<open>Recover\<close>. The service
  works on three ports, the account persistence, the intent listing and the runtime; they are the
  fields of \<open>ports\<close>, over an arbitrary state \<open>'s\<close>. The runtime port returns the state at the
  time it answers, because other transactions run while Telegram is being asked.
  A context is nil, live, or done with its error; it is looked at where the code calls \<open>Err\<close>.
\<close>

datatype ctx = NilContext | LiveContext | DoneContext go_error

section \<open>Remote failures\<close>

datatype RemoteLogoutFailureKind =
    RemoteLogoutFailureUnknown | RemoteLogoutFailureFloodWait | RemoteLogoutFailureTransient
  | RemoteLogoutFailureAmbiguous | RemoteLogoutFailurePermanent | RemoteLogoutFailureUnavailable
  | OtherRemoteKind string \<comment> \<open>any other string of the Go type\<close>

record RemoteLogoutFailure =
  rf_kind :: RemoteLogoutFailureKind
  rf_retryAfter :: duration

fun validRemoteLogoutFailureKind :: "RemoteLogoutFailureKind \<Rightarrow> bool" where
  "validRemoteLogoutFailureKind RemoteLogoutFailureUnknown \<longleftrightarrow> False"
| "validRemoteLogoutFailureKind (OtherRemoteKind _) \<longleftrightarrow> False"
| "validRemoteLogoutFailureKind _ \<longleftrightarrow> True"

text \<open>The receiver is a pointer; \<open>None\<close> is nil.\<close>

definition validate_failure :: "RemoteLogoutFailure option \<Rightarrow> go_error option" where
  "validate_failure failure = (case failure of
     None \<Rightarrow> Some (Sentinel ErrInvalidRemoteLogoutFailure)
   | Some f \<Rightarrow>
       if \<not> validRemoteLogoutFailureKind (rf_kind f) then Some (Sentinel ErrInvalidRemoteLogoutFailure)
       else if rf_kind f = RemoteLogoutFailureFloodWait
       then (if rf_retryAfter f \<le> 0 then Some (Sentinel ErrInvalidRemoteLogoutFailure) else None)
       else if rf_retryAfter f \<noteq> 0 then Some (Sentinel ErrInvalidRemoteLogoutFailure)
       else None)"

definition NewRemoteLogoutFailure ::
  "RemoteLogoutFailureKind \<Rightarrow> duration \<Rightarrow> go_error + RemoteLogoutFailure" where
  "NewRemoteLogoutFailure kind retryAfter =
    (let failure = \<lparr>rf_kind = kind, rf_retryAfter = retryAfter\<rparr> in
     case validate_failure (Some failure) of Some e \<Rightarrow> Inl e | None \<Rightarrow> Inr failure)"

definition failure_kind :: "RemoteLogoutFailure option \<Rightarrow> RemoteLogoutFailureKind" where
  "failure_kind failure = (case failure of
     None \<Rightarrow> RemoteLogoutFailureUnknown
   | Some f \<Rightarrow> if validate_failure (Some f) \<noteq> None then RemoteLogoutFailureUnknown else rf_kind f)"

definition failure_retry_after :: "RemoteLogoutFailure option \<Rightarrow> duration" where
  "failure_retry_after failure = (case failure of
     None \<Rightarrow> 0
   | Some f \<Rightarrow> if failure_kind (Some f) \<noteq> RemoteLogoutFailureFloodWait then 0 else rf_retryAfter f)"

definition failure_unwrap :: "RemoteLogoutFailure option \<Rightarrow> sentinel" where
  "failure_unwrap failure = (case failure of
     None \<Rightarrow> ErrInvalidRemoteLogoutFailure
   | Some f \<Rightarrow>
       if validate_failure (Some f) \<noteq> None then ErrInvalidRemoteLogoutFailure
       else (case rf_kind f of
          RemoteLogoutFailureFloodWait \<Rightarrow> ErrRemoteLogoutFloodWait
        | RemoteLogoutFailureTransient \<Rightarrow> ErrRemoteLogoutTransient
        | RemoteLogoutFailureAmbiguous \<Rightarrow> ErrRemoteLogoutAmbiguous
        | RemoteLogoutFailurePermanent \<Rightarrow> ErrRemoteLogoutPermanent
        | RemoteLogoutFailureUnavailable \<Rightarrow> ErrRuntimeUnavailable
        | _ \<Rightarrow> ErrInvalidRemoteLogoutFailure))"

text \<open>The failure as an error value: its fixed message and what it unwraps to.\<close>

definition failure_error :: "RemoteLogoutFailure \<Rightarrow> go_error" where
  "failure_error f = Wrap ''telegram account remote logout failure'' [Sentinel (failure_unwrap (Some f))]"

section \<open>Revoke outcomes\<close>

datatype revokeOutcomeKind =
  RevokeOutcomeInvalid | RevokeOutcomeSucceeded | RevokeOutcomeAlreadyComplete | RevokeOutcomeFailed

record RevokeOutcome =
  ro_kind :: revokeOutcomeKind
  ro_failure :: "RemoteLogoutFailure option"

definition RevokeSucceeded :: RevokeOutcome where
  "RevokeSucceeded = \<lparr>ro_kind = RevokeOutcomeSucceeded, ro_failure = None\<rparr>"

definition RevokeAlreadyComplete :: RevokeOutcome where
  "RevokeAlreadyComplete = \<lparr>ro_kind = RevokeOutcomeAlreadyComplete, ro_failure = None\<rparr>"

definition NewRevokeFailure :: "RemoteLogoutFailure option \<Rightarrow> go_error + RevokeOutcome" where
  "NewRevokeFailure failure = (case validate_failure failure of
     Some e \<Rightarrow> Inl e
   | None \<Rightarrow> Inr \<lparr>ro_kind = RevokeOutcomeFailed, ro_failure = failure\<rparr>)"

definition validate_outcome :: "RevokeOutcome \<Rightarrow> go_error option" where
  "validate_outcome outcome = (case ro_kind outcome of
     RevokeOutcomeInvalid \<Rightarrow> Some (Sentinel ErrInvalidRuntimeOutcome)
   | RevokeOutcomeFailed \<Rightarrow>
       if ro_failure outcome = None then Some (Sentinel ErrInvalidRuntimeOutcome)
       else if validate_failure (ro_failure outcome) \<noteq> None then Some (Sentinel ErrInvalidRuntimeOutcome)
       else None
   | _ \<Rightarrow> if ro_failure outcome \<noteq> None then Some (Sentinel ErrInvalidRuntimeOutcome) else None)"

definition Converged :: "RevokeOutcome \<Rightarrow> bool" where
  "Converged outcome \<longleftrightarrow> ro_failure outcome = None
     \<and> (ro_kind outcome = RevokeOutcomeSucceeded \<or> ro_kind outcome = RevokeOutcomeAlreadyComplete)"

definition outcome_failure :: "RevokeOutcome \<Rightarrow> RemoteLogoutFailure option" where
  "outcome_failure outcome =
    (if ro_kind outcome \<noteq> RevokeOutcomeFailed \<or> ro_failure outcome = None
        \<or> validate_failure (ro_failure outcome) \<noteq> None
     then None else ro_failure outcome)"

section \<open>Ports\<close>

record 's ports =
  load_account :: "uuid \<Rightarrow> uuid \<Rightarrow> 's \<Rightarrow> account outcome"
  persist_lifecycle :: "time \<Rightarrow> uuid \<Rightarrow> account \<Rightarrow> version \<Rightarrow> 's \<Rightarrow> 's \<times> unit outcome"
  list_intents :: "'s \<Rightarrow> RuntimeTarget list outcome"
  revoke_and_stop :: "RuntimeTarget \<Rightarrow> 's \<Rightarrow> 's \<times> RevokeOutcome"

text \<open>The composition of \<open>cmd/app\<close>: the PostgreSQL store and a runtime.\<close>

definition store_ports :: "(RuntimeTarget \<Rightarrow> db \<Rightarrow> db \<times> RevokeOutcome) \<Rightarrow> db ports" where
  "store_ports runtime = \<lparr>load_account = LoadAccount, persist_lifecycle = PersistLifecycle,
     list_intents = ListRemoteLogoutIntents, revoke_and_stop = runtime\<rparr>"

section \<open>Disconnect\<close>

datatype DisconnectOutcome =
    NoDisconnectOutcome | DisconnectCompleted | DisconnectAlreadyDisconnected
  | DisconnectPending | DisconnectRejected

record DisconnectResult =
  dr_account :: account
  dr_outcome :: DisconnectOutcome

definition no_result :: DisconnectResult where
  "no_result = \<lparr>dr_account = zero_account, dr_outcome = NoDisconnectOutcome\<rparr>"

definition validateDisconnectInput :: "ctx \<Rightarrow> uuid \<Rightarrow> uuid \<Rightarrow> go_error option" where
  "validateDisconnectInput c actor i =
    (if c = NilContext \<or> actor = nil_uuid \<or> i = nil_uuid then Some (Sentinel ErrInvalidInput)
     else case c of DoneContext e \<Rightarrow> Some e | _ \<Rightarrow> None)"

definition validateRuntimeTarget :: "RuntimeTarget \<Rightarrow> go_error option" where
  "validateRuntimeTarget t =
    (if target_operator t = nil_uuid \<or> target_account t = nil_uuid \<or> target_version t = 0
        \<or> target_status t \<noteq> Disconnecting
     then Some (Sentinel ErrInvalidInput) else None)"

definition nonConvergedRemoteFailure :: "RemoteLogoutFailure \<Rightarrow> go_error" where
  "nonConvergedRemoteFailure f = Wrap '''' [Sentinel ErrRemoteLogoutNotConverged, failure_error f]"

definition runtime_target :: "uuid \<Rightarrow> account \<Rightarrow> RuntimeTarget" where
  "runtime_target actor account = \<lparr>target_operator = actor, target_account = acc_id account,
     target_status = acc_status account, target_version = acc_version account\<rparr>"

text \<open>\<open>persist_error\<close> is the error of a persistence call, if it failed.\<close>

definition persist_error :: "unit outcome \<Rightarrow> go_error option" where
  "persist_error r = (case r of Returns _ \<Rightarrow> None | Fails e \<Rightarrow> Some e | Panics \<Rightarrow> Some Panicked)"

definition revokeAndComplete ::
  "'s ports \<Rightarrow> time \<Rightarrow> uuid \<Rightarrow> account \<Rightarrow> 's \<Rightarrow> 's \<times> DisconnectResult \<times> go_error option" where
  "revokeAndComplete p later actor account s =
    (let target = runtime_target actor account;
         pending = \<lparr>dr_account = account, dr_outcome = DisconnectPending\<rparr>
     in case validateRuntimeTarget target of
       Some e \<Rightarrow> (s, pending, Some e)
     | None \<Rightarrow>
         (case revoke_and_stop p target s of (s1, outcome) \<Rightarrow>
          (case validate_outcome outcome of
             Some e \<Rightarrow> (s1, pending, Some (Wrap ''revoke and stop telegram account'' [e]))
           | None \<Rightarrow>
               (case outcome_failure outcome of
                  Some failure \<Rightarrow> (s1, pending,
                    Some (Wrap ''revoke and stop telegram account'' [nonConvergedRemoteFailure failure]))
                | None \<Rightarrow>
                    (case MarkDisconnected account of
                       (_, Some e) \<Rightarrow> (s1, pending, Some (Wrap ''mark operator account disconnected'' [e]))
                     | (marked, None) \<Rightarrow>
                         (case persist_lifecycle p later actor marked (acc_version account) s1 of (s2, r) \<Rightarrow>
                          (case persist_error r of
                             Some e \<Rightarrow> (s2, pending, Some (Wrap ''persist completed operator account disconnect'' [e]))
                           | None \<Rightarrow> (s2, \<lparr>dr_account = marked, dr_outcome = DisconnectCompleted\<rparr>, None))))))))"

definition beginDisconnect ::
  "'s ports \<Rightarrow> time \<Rightarrow> time \<Rightarrow> uuid \<Rightarrow> account \<Rightarrow> 's \<Rightarrow> 's \<times> DisconnectResult \<times> go_error option" where
  "beginDisconnect p now later actor account s =
    (case BeginDisconnect account of
       (moved, Some e) \<Rightarrow> (s, \<lparr>dr_account = moved, dr_outcome = DisconnectRejected\<rparr>,
                             Some (Wrap ''begin operator account disconnect'' [e]))
     | (moved, None) \<Rightarrow>
         (case persist_lifecycle p now actor moved (acc_version account) s of (s1, r) \<Rightarrow>
          (case persist_error r of
             Some e \<Rightarrow> (s1, no_result, Some (Wrap ''persist operator account disconnect intent'' [e]))
           | None \<Rightarrow> revokeAndComplete p later actor moved s1)))"

definition Disconnect ::
  "'s ports \<Rightarrow> time \<Rightarrow> time \<Rightarrow> ctx \<Rightarrow> uuid \<Rightarrow> uuid \<Rightarrow> 's \<Rightarrow> 's \<times> DisconnectResult \<times> go_error option" where
  "Disconnect p now later c actor i s =
    (case validateDisconnectInput c actor i of Some e \<Rightarrow> (s, no_result, Some e) | None \<Rightarrow>
     (case load_account p actor i s of
        Fails e \<Rightarrow> (s, no_result, Some (Wrap ''load operator account for disconnect'' [e]))
      | Panics \<Rightarrow> (s, no_result, Some Panicked)
      | Returns account \<Rightarrow>
          if acc_id account \<noteq> i then (s, no_result, Some (Sentinel ErrAccountNotFound))
          else (case acc_status account of
             Disconnected \<Rightarrow> (s, \<lparr>dr_account = account, dr_outcome = DisconnectAlreadyDisconnected\<rparr>, None)
           | Active \<Rightarrow> beginDisconnect p now later actor account s
           | ReauthRequired \<Rightarrow> beginDisconnect p now later actor account s
           | Disconnecting \<Rightarrow>
               if \<not> acc_remoteLogoutRequired account
               then (s, \<lparr>dr_account = account, dr_outcome = DisconnectRejected\<rparr>,
                     Some (Sentinel ErrAccountStateConflict))
               else revokeAndComplete p later actor account s
           | Authenticating \<Rightarrow> (s, \<lparr>dr_account = account, dr_outcome = DisconnectRejected\<rparr>,
                                Some (Sentinel ErrAccountStateConflict))
           | OtherStatus _ \<Rightarrow> (s, no_result, Some (Sentinel ErrInvalidInput)))))"

section \<open>Recovery\<close>

record RecoveryResult =
  Attempted :: nat
  rr_Completed :: nat
  Pending :: nat
  Skipped :: nat
  PendingByKind :: "RemoteLogoutFailureKind \<Rightarrow> nat"

definition newRecoveryResult :: RecoveryResult where
  "newRecoveryResult = \<lparr>Attempted = 0, rr_Completed = 0, Pending = 0, Skipped = 0, PendingByKind = (\<lambda>_. 0)\<rparr>"

definition matchesRemoteLogoutTarget :: "account \<Rightarrow> RuntimeTarget \<Rightarrow> bool" where
  "matchesRemoteLogoutTarget account t \<longleftrightarrow> acc_id account = target_account t
     \<and> acc_status account = Disconnecting \<and> acc_remoteLogoutRequired account
     \<and> acc_version account = target_version t"

definition validateRecoverySnapshot :: "account \<Rightarrow> RuntimeTarget \<Rightarrow> go_error option" where
  "validateRecoverySnapshot account t =
    (if acc_id account \<noteq> target_account t then Some (Sentinel ErrAccountNotFound)
     else if acc_version account = 0 then Some (Sentinel ErrInvalidInput)
     else if \<not> status_valid (acc_status account) then Some (Sentinel ErrInvalidInput)
     else None)"

text \<open>Load and validate the snapshot of a target.\<close>

definition recovery_snapshot ::
  "'s ports \<Rightarrow> string \<Rightarrow> RuntimeTarget \<Rightarrow> 's \<Rightarrow> go_error + account" where
  "recovery_snapshot p label t s =
    (case load_account p (target_operator t) (target_account t) s of
       Fails e \<Rightarrow> Inl (Wrap label [e])
     | Panics \<Rightarrow> Inl Panicked
     | Returns account \<Rightarrow>
         (case validateRecoverySnapshot account t of Some e \<Rightarrow> Inl e | None \<Rightarrow> Inr account))"

definition complete_recovery ::
  "'s ports \<Rightarrow> time \<Rightarrow> RuntimeTarget \<Rightarrow> account \<Rightarrow> RecoveryResult \<Rightarrow> 's
   \<Rightarrow> 's \<times> RecoveryResult \<times> go_error option" where
  "complete_recovery p later t account r s =
    (case MarkDisconnected account of
       (_, Some e) \<Rightarrow> (s, r, Some (Wrap ''mark recovered operator account disconnected'' [e]))
     | (marked, None) \<Rightarrow>
         (case persist_lifecycle p later (target_operator t) marked (acc_version account) s of (s1, res) \<Rightarrow>
          (case persist_error res of
             Some e \<Rightarrow> (s1, r, Some (Wrap ''persist recovered operator account disconnect'' [e]))
           | None \<Rightarrow> (s1, r\<lparr>rr_Completed := Suc (rr_Completed r)\<rparr>, None))))"

definition recoverTarget ::
  "'s ports \<Rightarrow> time \<Rightarrow> RuntimeTarget \<Rightarrow> RecoveryResult \<Rightarrow> 's \<Rightarrow> 's \<times> RecoveryResult \<times> go_error option" where
  "recoverTarget p later t r s =
    (case validateRuntimeTarget t of
       Some e \<Rightarrow> (s, r, Some (Wrap ''validate remote logout intent'' [e]))
     | None \<Rightarrow>
         (case recovery_snapshot p ''load remote logout intent before runtime'' t s of
            Inl e \<Rightarrow> (s, r, Some e)
          | Inr account \<Rightarrow>
              if \<not> matchesRemoteLogoutTarget account t then (s, r\<lparr>Skipped := Suc (Skipped r)\<rparr>, None)
              else let r = r\<lparr>Attempted := Suc (Attempted r)\<rparr> in
                (case revoke_and_stop p t s of (s1, outcome) \<Rightarrow>
                 (case validate_outcome outcome of
                    Some e \<Rightarrow> (s1, r, Some (Wrap ''revoke and stop orphaned telegram account'' [e]))
                  | None \<Rightarrow>
                      (case recovery_snapshot p ''reload remote logout intent after runtime'' t s1 of
                         Inl e \<Rightarrow> (s1, r, Some e)
                       | Inr account \<Rightarrow>
                           if \<not> matchesRemoteLogoutTarget account t
                           then (s1, if acc_status account = Disconnected
                                     then r\<lparr>rr_Completed := Suc (rr_Completed r)\<rparr>
                                     else r\<lparr>Skipped := Suc (Skipped r)\<rparr>, None)
                           else (case outcome_failure outcome of
                              Some failure \<Rightarrow> (s1, r\<lparr>Pending := Suc (Pending r),
                                  PendingByKind := (PendingByKind r)(failure_kind (Some failure) :=
                                    Suc (PendingByKind r (failure_kind (Some failure))))\<rparr>, None)
                            | None \<Rightarrow> complete_recovery p later t account r s1))))))"

fun recover_targets ::
  "'s ports \<Rightarrow> time \<Rightarrow> uuid list \<Rightarrow> RuntimeTarget list \<Rightarrow> RecoveryResult \<Rightarrow> 's
   \<Rightarrow> 's \<times> RecoveryResult \<times> go_error list" where
  "recover_targets p later seen [] r s = (s, r, [])"
| "recover_targets p later seen (t # ts) r s =
    (if target_account t \<in> set seen then recover_targets p later seen ts r s
     else (case recoverTarget p later t r s of (s1, r1, failure) \<Rightarrow>
           (case recover_targets p later (target_account t # seen) ts r1 s1 of (s2, r2, failures) \<Rightarrow>
            (s2, r2, (case failure of None \<Rightarrow> failures
                      | Some e \<Rightarrow> Wrap ''recover operator account'' [e] # failures)))))"

definition Recover :: "'s ports \<Rightarrow> time \<Rightarrow> ctx \<Rightarrow> 's \<Rightarrow> 's \<times> RecoveryResult \<times> go_error option" where
  "Recover p later c s =
    (case c of
       NilContext \<Rightarrow> (s, newRecoveryResult, Some (Sentinel ErrInvalidInput))
     | DoneContext e \<Rightarrow> (s, newRecoveryResult, Some e)
     | LiveContext \<Rightarrow>
         (case list_intents p s of
            Fails e \<Rightarrow> (s, newRecoveryResult,
                        Some (Join [Sentinel ErrStartupRecovery, Wrap ''list remote logout intents'' [e]]))
          | Panics \<Rightarrow> (s, newRecoveryResult, Some Panicked)
          | Returns targets \<Rightarrow>
              (case recover_targets p later [] targets newRecoveryResult s of (s1, r, failures) \<Rightarrow>
               (s1, r, if failures = [] then None
                       else Some (Join (Sentinel ErrStartupRecovery # failures))))))"

end
