(* ===== verification/Disconnect_Properties.thy ===== *)
theory Disconnect_Properties
  imports Remote_Disconnect Account_Properties
begin

text \<open>
  The contract of \<open>Disconnect\<close> and \<open>Recover\<close>. What they need of the persistence port is the locale
  \<open>lifecycle_ports\<close>; the account store is its interpretation. The runtime port may run any other
  transactions of the store before it answers.
\<close>

section \<open>Remote failures and outcomes\<close>

lemma validate_failure_None:
  "validate_failure failure = None \<longleftrightarrow> (\<exists>f. failure = Some f
     \<and> validRemoteLogoutFailureKind (rf_kind f)
     \<and> (if rf_kind f = RemoteLogoutFailureFloodWait then 0 < rf_retryAfter f else rf_retryAfter f = 0))"
  by (cases failure) (auto simp: validate_failure_def)

lemma outcome_shapes:
  "validate_outcome outcome = None \<longleftrightarrow> Converged outcome
     \<or> (\<exists>f. validate_failure (Some f) = None \<and> outcome = \<lparr>ro_kind = RevokeOutcomeFailed, ro_failure = Some f\<rparr>)"
proof (cases outcome)
  case (fields k f)
  then show ?thesis
    by (cases k; cases f) (auto simp: validate_outcome_def Converged_def)
qed

lemma outcome_failure_None:
  "validate_outcome outcome = None \<Longrightarrow> outcome_failure outcome = None \<longleftrightarrow> Converged outcome"
  unfolding outcome_shapes by (auto simp: outcome_failure_def Converged_def)

lemma outcome_failure_valid:
  "outcome_failure outcome = Some f \<Longrightarrow> validate_failure (Some f) = None"
  by (auto simp: outcome_failure_def split: if_split_asm)

lemma failure_unwrap_class:
  "validate_failure (Some f) = None \<Longrightarrow> failure_unwrap (Some f) \<in>
     {ErrRemoteLogoutFloodWait, ErrRemoteLogoutTransient, ErrRemoteLogoutAmbiguous,
      ErrRemoteLogoutPermanent, ErrRuntimeUnavailable}"
  unfolding validate_failure_None
  by (cases "rf_kind f") (auto simp: failure_unwrap_def validate_failure_def)

section \<open>The persistence contract\<close>

text \<open>A durable intent: the state in which the runtime may be asked to log out.\<close>

definition intent_at :: "'s ports \<Rightarrow> RuntimeTarget \<Rightarrow> 's \<Rightarrow> bool" where
  "intent_at p t s \<longleftrightarrow> (\<exists>a. load_account p (target_operator t) (target_account t) s = Returns a
     \<and> matchesRemoteLogoutTarget a t)"

definition disconnect_contract ::
  "'s ports \<Rightarrow> ('s \<Rightarrow> uuid \<Rightarrow> bool) \<Rightarrow> uuid \<Rightarrow> uuid \<Rightarrow> 's \<Rightarrow> 's \<Rightarrow> DisconnectResult \<Rightarrow> go_error option \<Rightarrow> bool" where
  "disconnect_contract p session actor i s s' r e \<longleftrightarrow>
    (case dr_outcome r of
       DisconnectCompleted \<Rightarrow> e = None \<and> load_account p actor i s' = Returns (dr_account r)
         \<and> acc_status (dr_account r) = Disconnected \<and> \<not> session s' i
         \<and> (\<exists>t s1. target_operator t = actor \<and> target_account t = i \<and> intent_at p t s1
              \<and> Converged (snd (revoke_and_stop p t s1)))
     | DisconnectAlreadyDisconnected \<Rightarrow> e = None \<and> s' = s \<and> load_account p actor i s = Returns (dr_account r)
         \<and> acc_status (dr_account r) = Disconnected
     | DisconnectPending \<Rightarrow> (\<exists>t s1 failure. e = Some failure \<and> t = runtime_target actor (dr_account r)
         \<and> load_account p actor i s1 = Returns (dr_account r) \<and> matchesRemoteLogoutTarget (dr_account r) t
         \<and> s' = fst (revoke_and_stop p t s1)
         \<and> (\<forall>f. outcome_failure (snd (revoke_and_stop p t s1)) = Some f \<longrightarrow>
              (\<forall>c. errors_is failure c \<longleftrightarrow> c = ErrRemoteLogoutNotConverged \<or> c = failure_unwrap (Some f))))
     | _ \<Rightarrow> s' = s \<and> e \<noteq> None)"

locale lifecycle_ports =
  fixes p :: "'s ports" and inv :: "'s \<Rightarrow> bool" and session :: "'s \<Rightarrow> uuid \<Rightarrow> bool"
  assumes load_valid: "inv s \<Longrightarrow> load_account p actor i s = Returns a \<Longrightarrow>
      validate_account a = None \<and> acc_id a = i \<and> actor \<noteq> nil_uuid"
    and persist_ok: "inv s \<Longrightarrow> validate_account a = None \<Longrightarrow>
      persist_lifecycle p now actor a v s = (s', Returns ()) \<Longrightarrow>
      inv s' \<and> load_account p actor (acc_id a) s' = Returns a
      \<and> (acc_status a = Disconnected \<longrightarrow> \<not> session s' (acc_id a))"
    and persist_failed: "persist_lifecycle p now actor a v s = (s', r) \<Longrightarrow> r \<noteq> Returns () \<Longrightarrow> s' = s"
begin

lemma valid_target:
  "validate_account a = None \<Longrightarrow> actor \<noteq> nil_uuid \<Longrightarrow> acc_status a = Disconnecting \<Longrightarrow>
     validateRuntimeTarget (runtime_target actor a) = None"
  unfolding validate_account_None by (simp add: validateRuntimeTarget_def runtime_target_def)

lemma revoke_contract:
  assumes s: "inv s" "load_account p actor i s = Returns a" "acc_status a = Disconnecting" "acc_remoteLogoutRequired a"
    and revoke_inv: "\<And>s t. inv s \<Longrightarrow> inv (fst (revoke_and_stop p t s))"
    and run: "revokeAndComplete p later actor a s = (s', r, e)"
  shows "inv s' \<and> disconnect_contract p session actor i s0 s' r e"
proof -
  have valid: "validate_account a = None" "acc_id a = i" "actor \<noteq> nil_uuid" using load_valid [OF s(1,2)] by auto
  define t where "t = runtime_target actor a"
  have t: "validateRuntimeTarget t = None" "matchesRemoteLogoutTarget a t" "target_operator t = actor" "target_account t = i"
    using valid_target [OF valid(1,3) s(3)] valid s by (auto simp: t_def runtime_target_def matchesRemoteLogoutTarget_def)
  then have intent: "intent_at p t s" using s by (auto simp: intent_at_def)
  obtain s1 out where out: "revoke_and_stop p t s = (s1, out)" by fastforce
  have inv1: "inv s1" using revoke_inv [OF s(1), of t] out by simp
  note run' = run [unfolded revokeAndComplete_def Let_def, folded t_def, unfolded t(1) out option.case prod.case]
  have pending: "inv s' \<and> disconnect_contract p session actor i s0 s' r e"
    if "s' = s1" "r = \<lparr>dr_account = a, dr_outcome = DisconnectPending\<rparr>" "e = Some failure"
      "\<And>f. outcome_failure out = Some f \<Longrightarrow> failure = Wrap ''revoke and stop telegram account'' [nonConvergedRemoteFailure f]"
    for failure
    using that inv1 s(2) t out unfolding disconnect_contract_def
    by (auto simp: t_def [symmetric] nonConvergedRemoteFailure_def failure_error_def intro!: exI [of _ s])
  show ?thesis
  proof (cases "validate_outcome out")
    case (Some e')
    then have "outcome_failure out = None"
      by (cases "ro_kind out") (auto simp: validate_outcome_def outcome_failure_def split: if_split_asm)
    then show ?thesis using pending run' Some by auto
  next
    case vok: None
    show ?thesis
    proof (cases "outcome_failure out")
      case (Some f)
      then show ?thesis using pending run' vok by auto
    next
      case of: None
      obtain marked err where m: "MarkDisconnected a = (marked, err)" by fastforce
      show ?thesis
      proof (cases err)
        case (Some e')
        then show ?thesis using pending run' vok of m by auto
      next
        case None
        have mv: "validate_account marked = None" "acc_id marked = i" "acc_status marked = Disconnected"
          using lifecycle_preserves_valid [OF valid(1), of OpMarkDisconnected]
            lifecycle_success_version [of OpMarkDisconnected a marked]
            lifecycle_success_edge [of OpMarkDisconnected a marked] m None valid(2) s(3)
          by (auto elim: lifecycle_edgeE)
        obtain s2 res where p2: "persist_lifecycle p later actor marked (acc_version a) s1 = (s2, res)" by fastforce
        show ?thesis
        proof (cases "res = Returns ()")
          case True
          have "Converged out" using outcome_failure_None [OF vok] of by simp
          then show ?thesis
            using run' vok of m None p2 True persist_ok [OF inv1 mv(1), of later actor "acc_version a" s2] mv(2,3) intent t(3,4) out
            by (auto simp: persist_error_def disconnect_contract_def intro!: exI [of _ t] exI [of _ s])
        next
          case False
          then have "s2 = s1" "persist_error res \<noteq> None"
            using persist_failed [OF p2] by (cases res; simp add: persist_error_def)+
          then show ?thesis using pending run' vok of m None p2 by auto
        qed
      qed
    qed
  qed
qed

text \<open>The durable intent an active or reauthentication-required account is moved to.\<close>

lemma begin_disconnect_intent:
  assumes "validate_account a = None" "acc_status a = Active \<or> acc_status a = ReauthRequired"
    and "BeginDisconnect a = (moved, None)"
  shows "validate_account moved = None" "acc_id moved = acc_id a" "acc_status moved = Disconnecting"
    "acc_remoteLogoutRequired moved"
proof -
  show "validate_account moved = None" "acc_id moved = acc_id a"
    using lifecycle_preserves_valid [OF assms(1), of OpBeginDisconnect]
      lifecycle_success_version [of OpBeginDisconnect a moved] assms(3) by simp_all
  show "acc_status moved = Disconnecting" "acc_remoteLogoutRequired moved"
    using assms(2,3) by (auto simp: BeginDisconnect_def Let_def move_cases split: if_split_asm)
qed

lemma begin_contract:
  assumes s: "inv s" "load_account p actor i s = Returns a" "acc_status a = Active \<or> acc_status a = ReauthRequired"
    and revoke_inv: "\<And>s t. inv s \<Longrightarrow> inv (fst (revoke_and_stop p t s))"
    and run: "beginDisconnect p now later actor a s = (s', r, e)"
  shows "inv s' \<and> disconnect_contract p session actor i s s' r e"
proof -
  have valid: "validate_account a = None" "acc_id a = i" "actor \<noteq> nil_uuid" using load_valid [OF s(1,2)] by auto
  obtain moved err where b: "BeginDisconnect a = (moved, err)" by fastforce
  show ?thesis
  proof (cases err)
    case (Some e')
    then show ?thesis using run s(1) b by (auto simp: beginDisconnect_def disconnect_contract_def)
  next
    case None
    note m = begin_disconnect_intent [OF valid(1) s(3) b [unfolded None]]
    obtain s1 res where p1: "persist_lifecycle p now actor moved (acc_version a) s = (s1, res)" by fastforce
    note run' = run [unfolded beginDisconnect_def b None prod.case option.case p1]
    show ?thesis
    proof (cases "res = Returns ()")
      case True
      then have "inv s1" "load_account p actor i s1 = Returns moved"
        using persist_ok [OF s(1) m(1), of now actor "acc_version a" s1] p1 m(2) valid(2) by auto
      then show ?thesis
        using revoke_contract [OF _ _ m(3,4) revoke_inv] run' True by (simp add: persist_error_def)
    next
      case False
      then have "s1 = s" "persist_error res \<noteq> None"
        using persist_failed [OF p1] by (cases res; simp add: persist_error_def)+
      then show ?thesis using run' s(1) by (auto simp: disconnect_contract_def no_result_def)
    qed
  qed
qed

lemma Disconnect_satisfies:
  assumes s: "inv s" and revoke_inv: "\<And>s t. inv s \<Longrightarrow> inv (fst (revoke_and_stop p t s))"
    and run: "Disconnect p now later c actor i s = (s', r, e)"
  shows "inv s' \<and> disconnect_contract p session actor i s s' r e"
proof (cases "validateDisconnectInput c actor i")
  case (Some e')
  then have "s' = s" "r = no_result" "e = Some e'" using run by (simp_all add: Disconnect_def)
  then show ?thesis using s by (simp add: disconnect_contract_def no_result_def)
next
  case None
  note run' = run [unfolded Disconnect_def None option.case]
  show ?thesis
  proof (cases "load_account p actor i s")
    case (Returns a)
    have valid: "validate_account a = None" "acc_id a = i" using load_valid [OF s Returns] by auto
    note run'' = run' [unfolded Returns outcome.case]
    show ?thesis
    proof (cases "acc_status a = Active \<or> acc_status a = ReauthRequired")
      case True
      then show ?thesis using begin_contract [OF s Returns True revoke_inv, of now later s' r e] run'' valid(2) by auto
    next
      case False
      show ?thesis
      proof (cases "acc_status a = Disconnecting \<and> acc_remoteLogoutRequired a")
        case True
        then show ?thesis
          using revoke_contract [OF s Returns _ _ revoke_inv, of later s' r e s] run'' valid(2) by auto
      next
        case nd: False
        then show ?thesis
          using run'' valid(2) False s Returns
          by (cases "acc_status a") (auto simp: disconnect_contract_def no_result_def)
      qed
    qed
  qed (use run' s in \<open>auto simp: disconnect_contract_def no_result_def\<close>)
qed

text \<open>The runtime is asked only where the intent is durable: its answers elsewhere do not matter.\<close>

lemma revoke_agrees:
  assumes "inv s" "load_account p actor i s = Returns a" "acc_status a = Disconnecting" "acc_remoteLogoutRequired a"
    and "\<And>t s1. intent_at p t s1 \<Longrightarrow> g t s1 = revoke_and_stop p t s1"
  shows "revokeAndComplete (p\<lparr>revoke_and_stop := g\<rparr>) later actor a s = revokeAndComplete p later actor a s"
proof -
  have "intent_at p (runtime_target actor a) s"
    using assms(1-4) load_valid [OF assms(1,2)] by (auto simp: intent_at_def runtime_target_def matchesRemoteLogoutTarget_def)
  then have "g (runtime_target actor a) s = revoke_and_stop p (runtime_target actor a) s" by (rule assms(5))
  then show ?thesis
    unfolding revokeAndComplete_def Let_def by (simp cong: option.case_cong prod.case_cong)
qed

lemma Disconnect_agrees:
  assumes s: "inv s" and g: "\<And>t s1. intent_at p t s1 \<Longrightarrow> g t s1 = revoke_and_stop p t s1"
  shows "Disconnect (p\<lparr>revoke_and_stop := g\<rparr>) now later c actor i s = Disconnect p now later c actor i s"
proof (cases "load_account p actor i s")
  case (Returns a)
  have valid: "validate_account a = None" "acc_id a = i" using load_valid [OF s Returns] by auto
  have b: "beginDisconnect (p\<lparr>revoke_and_stop := g\<rparr>) now later actor a s = beginDisconnect p now later actor a s"
    if st: "acc_status a = Active \<or> acc_status a = ReauthRequired"
  proof -
    obtain moved err where b: "BeginDisconnect a = (moved, err)" by fastforce
    obtain s1 res where p1: "persist_lifecycle p now actor moved (acc_version a) s = (s1, res)" by fastforce
    show ?thesis
    proof (cases "err = None \<and> res = Returns ()")
      case True
      note m = begin_disconnect_intent [OF valid(1) st b [unfolded True [THEN conjunct1]]]
      have "inv s1" "load_account p actor i s1 = Returns moved"
        using persist_ok [OF s m(1), of now actor "acc_version a" s1] p1 True m(2) valid(2) by auto
      from revoke_agrees [OF this m(3,4) g] show ?thesis by (simp add: beginDisconnect_def b p1 True persist_error_def)
    next
      case False
      then show ?thesis
        by (cases err; cases res) (auto simp: beginDisconnect_def b p1 persist_error_def)
    qed
  qed
  show ?thesis
    using b revoke_agrees [OF s Returns _ _ g] valid(2)
    by (cases "acc_status a") (auto simp: Disconnect_def Returns split: option.split)
qed (auto simp: Disconnect_def split: option.split)

end

lemma recoverTarget_agrees:
  assumes "\<And>t s1. intent_at p t s1 \<Longrightarrow> g t s1 = revoke_and_stop p t s1"
  shows "recoverTarget (p\<lparr>revoke_and_stop := g\<rparr>) later t r s = recoverTarget p later t r s"
proof -
  have snap: "recovery_snapshot (p\<lparr>revoke_and_stop := g\<rparr>) label t s1 = recovery_snapshot p label t s1" for label s1
    by (simp add: recovery_snapshot_def)
  have complete: "complete_recovery (p\<lparr>revoke_and_stop := g\<rparr>) later t a r s1 = complete_recovery p later t a r s1" for a r s1
    unfolding complete_recovery_def by (simp cong: option.case_cong prod.case_cong)
  have "g t s = revoke_and_stop p t s"
    if "recovery_snapshot p label t s = Inr a" "matchesRemoteLogoutTarget a t" for a label
    using that assms [of t s] by (auto simp: recovery_snapshot_def intent_at_def split: outcome.splits option.splits)
  then show ?thesis
    unfolding recoverTarget_def snap complete
    by (auto split: option.split sum.split simp: Let_def)
qed

lemma recover_targets_agree:
  assumes "\<And>t s1. intent_at p t s1 \<Longrightarrow> g t s1 = revoke_and_stop p t s1"
  shows "recover_targets (p\<lparr>revoke_and_stop := g\<rparr>) later seen ts r s = recover_targets p later seen ts r s"
  by (induction ts arbitrary: seen r s) (simp_all add: recoverTarget_agrees [OF assms])

section \<open>The account store provides the ports\<close>

interpretation store: lifecycle_ports "store_ports runtime" accounts_inv has_session for runtime
proof
  show "validate_account a = None \<and> acc_id a = i \<and> actor \<noteq> nil_uuid"
    if "accounts_inv s" "load_account (store_ports runtime) actor i s = Returns a" for s actor i a
  proof -
    from that obtain r where r: "find_account s actor i = Some r" "actor \<noteq> nil_uuid" "a = abs_account r"
      by (auto simp: store_ports_def LoadAccount_abs split: option.splits if_split_asm)
    note mem = find_account_Some [OF r(1)]
    then show ?thesis
      using abs_account_valid [OF accounts_inv_row [OF that(1)]] r by (auto simp: abs_account_def)
  qed
  show "accounts_inv s' \<and> load_account (store_ports runtime) actor (acc_id a) s' = Returns a
      \<and> (acc_status a = Disconnected \<longrightarrow> \<not> has_session s' (acc_id a))"
    if "accounts_inv s" "validate_account a = None"
      "persist_lifecycle (store_ports runtime) now actor a v s = (s', Returns ())" for s a now actor v s'
    using persist_effect_load [OF that(1,2)] that(3) by (simp add: store_ports_def)
  show "s' = s" if "persist_lifecycle (store_ports runtime) now actor a v s = (s', r)" "r \<noteq> Returns ()"
    for now actor a v s s' r
    using that by (auto simp: store_ports_def elim: PersistLifecycle_cases)
qed

text \<open>Both services only take steps of the account tables.\<close>

lemma revokeAndComplete_steps:
  assumes "\<And>t s1. account_step\<^sup>*\<^sup>* s1 (fst (runtime t s1))"
    and "revokeAndComplete (store_ports runtime) later actor a s = (s', r, e)"
  shows "account_step\<^sup>*\<^sup>* s s'"
proof -
  obtain s1 out where out: "runtime (runtime_target actor a) s = (s1, out)" by fastforce
  have 1: "account_step\<^sup>*\<^sup>* s s1" using assms(1) [of s "runtime_target actor a"] out by simp
  obtain marked err where m: "MarkDisconnected a = (marked, err)" by fastforce
  obtain s2 res where p: "PersistLifecycle later actor marked (acc_version a) s1 = (s2, res)" by fastforce
  have 2: "account_step\<^sup>*\<^sup>* s s2" by (rule rtranclp.rtrancl_into_rtrancl [OF 1 account_step.persist [OF p]])
  have "s' = s \<or> s' = s1 \<or> s' = s2"
    using assms(2) unfolding revokeAndComplete_def Let_def
    by (simp add: store_ports_def out m p split: option.splits)
  then show ?thesis using 1 2 by auto
qed

lemma Disconnect_steps:
  assumes rt: "\<And>t s1. account_step\<^sup>*\<^sup>* s1 (fst (runtime t s1))"
    and run: "Disconnect (store_ports runtime) now later c actor i s = (s', r, e)"
  shows "account_step\<^sup>*\<^sup>* s s'"
proof -
  have revoke: "account_step\<^sup>*\<^sup>* s1 s'" if "revokeAndComplete (store_ports runtime) later actor a s1 = (s', r, e)" for a s1
    by (rule revokeAndComplete_steps [OF rt that])
  have started: "account_step\<^sup>*\<^sup>* s s'" if b: "beginDisconnect (store_ports runtime) now later actor a s = (s', r, e)" for a
  proof -
    obtain moved err where m: "BeginDisconnect a = (moved, err)" by fastforce
    obtain s1 res where p: "PersistLifecycle now actor moved (acc_version a) s = (s1, res)" by fastforce
    have "account_step s s1" by (rule account_step.persist [OF p])
    then show ?thesis
      using b m p revoke [of moved s1]
      by (cases err; cases "persist_error res")
        (auto simp: beginDisconnect_def store_ports_def intro: converse_rtranclp_into_rtranclp)
  qed
  show ?thesis
    using run started revoke [of _ s]
    by (auto simp: Disconnect_def store_ports_def [of runtime, symmetric] split: option.splits outcome.splits
        account_status.splits if_split_asm)
qed

end
