(* ===== verification/Auth_Lifecycle.thy ===== *)
theory Auth_Lifecycle
  imports Remote_Disconnect
begin

text \<open>
  The durable half of phone authentication (\<open>internal/application/operatoraccountauth\<close>:
  lifecycle.go, validation.go and the result checks of types.go) and the startup composition of
  \<open>cmd/app/operator_auth.go\<close>. The service works on the persistence port and the runtime stopper,
  the fields of \<open>auth_ports\<close>; \<open>cmd/app\<close> wraps the store's listing so that remote logout intents
  are left to the disconnect service.
\<close>

section \<open>Ports\<close>

record 's auth_ports =
  begin_or_resume :: "uuid \<Rightarrow> rune list \<Rightarrow> time \<Rightarrow> 's \<Rightarrow> 's \<times> begin_result outcome"
  finalize_account :: "uuid \<Rightarrow> uuid \<Rightarrow> version \<Rightarrow> Profile \<Rightarrow> 's \<Rightarrow> 's \<times> auth_account outcome"
  begin_abort :: "uuid \<Rightarrow> uuid \<Rightarrow> version \<Rightarrow> 's \<Rightarrow> 's \<times> version outcome"
  complete_abort :: "uuid \<Rightarrow> uuid \<Rightarrow> version \<Rightarrow> 's \<Rightarrow> 's \<times> unit outcome"
  list_accounts :: "uuid \<Rightarrow> 's \<Rightarrow> auth_account list outcome"
  list_orphans :: "'s \<Rightarrow> RuntimeTarget list outcome"
  stop_account :: "(RuntimeTarget \<Rightarrow> 's \<Rightarrow> 's \<times> go_error option) option"

section \<open>Validation\<close>

definition validate_begin :: "begin_result \<Rightarrow> go_error option" where
  "validate_begin r =
    (if br_outcome r \<in> {BeginStarted, BeginResumed, BeginInProgress}
     then (if aa_status (br_account r) \<noteq> Authenticating then Some (Sentinel ErrInvalidBeginResult)
           else if br_expires r = zero_time then Some (Sentinel AuthErrInvalidAuthenticationExpiry)
           else None)
     else (if aa_status (br_account r) \<noteq> Active then Some (Sentinel ErrInvalidBeginResult)
           else if br_expires r \<noteq> zero_time then Some (Sentinel AuthErrInvalidAuthenticationExpiry)
           else None))"

definition validateBeginResult :: "begin_result \<Rightarrow> go_error option" where
  "validateBeginResult r = (case validate_begin r of
     Some e \<Rightarrow> Some e
   | None \<Rightarrow> if aa_id (br_account r) = nil_uuid \<or> aa_version (br_account r) = 0
             then Some (Sentinel AuthErrInvalidInput) else None)"

definition validateTarget :: "RuntimeTarget \<Rightarrow> go_error option" where
  "validateTarget t =
    (if target_operator t = nil_uuid \<or> target_account t = nil_uuid \<or> target_version t = 0
        \<or> (target_status t \<noteq> Authenticating \<and> target_status t \<noteq> Disconnecting)
     then Some (Sentinel AuthErrInvalidInput) else None)"

definition validateServiceContext :: "ctx \<Rightarrow> uuid \<Rightarrow> go_error option" where
  "validateServiceContext c actor = (case c of
     NilContext \<Rightarrow> Some (Sentinel AuthErrInvalidInput)
   | DoneContext e \<Rightarrow> Some e
   | LiveContext \<Rightarrow> if actor = nil_uuid then Some (Sentinel AuthErrInvalidInput) else None)"

section \<open>The account lifecycle\<close>

definition lifecycle_Begin ::
  "'s auth_ports \<Rightarrow> uuid \<Rightarrow> rune list \<Rightarrow> time \<Rightarrow> 's \<Rightarrow> 's \<times> begin_result outcome" where
  "lifecycle_Begin p actor phone expires s =
    (case begin_or_resume p actor phone expires s of
       (s1, Fails e) \<Rightarrow> (s1, Fails (Wrap ''begin operator account authentication'' [e]))
     | (s1, Panics) \<Rightarrow> (s1, Panics)
     | (s1, Returns r) \<Rightarrow>
         (case validateBeginResult r of Some e \<Rightarrow> (s1, Fails e) | None \<Rightarrow> (s1, Returns r)))"

definition lifecycle_Finalize ::
  "'s auth_ports \<Rightarrow> RuntimeTarget \<Rightarrow> Profile \<Rightarrow> 's \<Rightarrow> 's \<times> auth_account outcome" where
  "lifecycle_Finalize p t profile s =
    (case finalize_account p (target_operator t) (target_account t) (target_version t) profile s of
       (s1, Fails e) \<Rightarrow> (s1, Fails (Wrap ''finalize operator account authentication'' [e]))
     | (s1, r) \<Rightarrow> (s1, r))"

text \<open>The stop of the runtime and the final durable half, shared by both abort protocols.\<close>

definition stop_and_complete ::
  "'s auth_ports \<Rightarrow> string \<Rightarrow> string \<Rightarrow> RuntimeTarget \<Rightarrow> version \<Rightarrow> 's \<Rightarrow> 's \<times> go_error option" where
  "stop_and_complete p stop_label complete_label t v s =
    (case stop_account p of
       None \<Rightarrow> (s, Some (Sentinel ErrProviderUnavailable))
     | Some stop \<Rightarrow>
         (case stop t s of
            (s1, Some e) \<Rightarrow> (s1, Some (Wrap stop_label [e]))
          | (s1, None) \<Rightarrow>
              (case complete_abort p (target_operator t) (target_account t) v s1 of
                 (s2, Fails e) \<Rightarrow> (s2, Some (Wrap complete_label [e]))
               | (s2, Panics) \<Rightarrow> (s2, Some Panicked)
               | (s2, Returns _) \<Rightarrow> (s2, None))))"

definition Abort :: "'s auth_ports \<Rightarrow> RuntimeTarget \<Rightarrow> 's \<Rightarrow> 's \<times> go_error option" where
  "Abort p t s = (case validateTarget t of Some e \<Rightarrow> (s, Some e) | None \<Rightarrow>
    (case begin_abort p (target_operator t) (target_account t) (target_version t) s of
       (s1, Fails e) \<Rightarrow> (s1, Some (Wrap ''begin operator account abort'' [e]))
     | (s1, Panics) \<Rightarrow> (s1, Some Panicked)
     | (s1, Returns v) \<Rightarrow>
         if v = 0 then (s1, Some (Sentinel AuthErrAccountVersionConflict))
         else stop_and_complete p ''stop telegram account runtime'' ''complete operator account abort'' t v s1))"

definition CompleteDisconnecting :: "'s auth_ports \<Rightarrow> RuntimeTarget \<Rightarrow> 's \<Rightarrow> 's \<times> go_error option" where
  "CompleteDisconnecting p t s =
     stop_and_complete p ''stop orphaned telegram account runtime'' ''complete orphaned operator account abort''
       t (target_version t) s"

section \<open>Recovery\<close>

definition recover_orphan :: "'s auth_ports \<Rightarrow> RuntimeTarget \<Rightarrow> 's \<Rightarrow> 's \<times> go_error option" where
  "recover_orphan p t s =
    (if target_operator t = nil_uuid \<or> target_account t = nil_uuid \<or> target_version t = 0
     then (s, Some (Sentinel AuthErrInvalidInput))
     else case target_status t of
       Authenticating \<Rightarrow> Abort p t s
     | Disconnecting \<Rightarrow> CompleteDisconnecting p t s
     | _ \<Rightarrow> (s, Some (Sentinel AuthErrInvalidInput)))"

fun recover_orphans :: "'s auth_ports \<Rightarrow> RuntimeTarget list \<Rightarrow> 's \<Rightarrow> 's \<times> go_error list" where
  "recover_orphans p [] s = (s, [])"
| "recover_orphans p (t # ts) s =
    (case recover_orphan p t s of (s1, failure) \<Rightarrow>
     (case recover_orphans p ts s1 of (s2, failures) \<Rightarrow>
      (s2, case failure of None \<Rightarrow> failures | Some e \<Rightarrow> e # failures)))"

definition auth_Recover :: "'s auth_ports \<Rightarrow> ctx \<Rightarrow> 's \<Rightarrow> 's \<times> go_error option" where
  "auth_Recover p c s = (case c of
     NilContext \<Rightarrow> (s, Some (Sentinel AuthErrInvalidInput))
   | DoneContext e \<Rightarrow> (s, Some e)
   | LiveContext \<Rightarrow>
       (case list_orphans p s of
          Fails e \<Rightarrow> (s, Some (Join [Sentinel AuthErrStartupRecovery,
                                 Wrap ''list orphan authentication lifecycles'' [e]]))
        | Panics \<Rightarrow> (s, Some Panicked)
        | Returns targets \<Rightarrow>
            (case recover_orphans p targets s of (s1, failures) \<Rightarrow>
             (s1, if failures = [] then None
                  else Some (Join (Sentinel AuthErrStartupRecovery # failures))))))"

section \<open>The composition root\<close>

text \<open>The store as the authentication persistence: \<open>clock\<close> is the database clock of the calls,
  \<open>operators\<close> and \<open>fresh\<close> as in \<open>BeginOrResume\<close>.\<close>

definition auth_store ::
  "uuid set \<Rightarrow> time \<Rightarrow> uuid \<Rightarrow> (RuntimeTarget \<Rightarrow> db \<Rightarrow> db \<times> go_error option) option \<Rightarrow> db auth_ports" where
  "auth_store operators clock fresh stopper =
    \<lparr>begin_or_resume = BeginOrResume operators clock fresh, finalize_account = Finalize clock clock,
     begin_abort = BeginAbort clock, complete_abort = CompleteAbort clock,
     list_accounts = ListAccounts, list_orphans = ListOrphanAuthenticationLifecycles,
     stop_account = stopper\<rparr>"

definition target_key :: "RuntimeTarget \<Rightarrow> uuid \<times> uuid \<times> version" where
  "target_key t = (target_operator t, target_account t, target_version t)"

definition orphans_without_intents ::
  "('s \<Rightarrow> RuntimeTarget list outcome) \<Rightarrow> ('s \<Rightarrow> RuntimeTarget list outcome) \<Rightarrow> 's
   \<Rightarrow> RuntimeTarget list outcome" where
  "orphans_without_intents orphans intents s = (case orphans s of
     Returns targets \<Rightarrow>
       (case intents s of
          Returns remote \<Rightarrow>
            Returns (filter (\<lambda>t. target_key t \<notin> set (map target_key remote)) targets)
        | Fails e \<Rightarrow> Fails (Wrap ''list remote logout intents while recovering authentication'' [e])
        | Panics \<Rightarrow> Panics)
   | r \<Rightarrow> r)"

definition auth_composition ::
  "uuid set \<Rightarrow> time \<Rightarrow> uuid \<Rightarrow> (RuntimeTarget \<Rightarrow> db \<Rightarrow> db \<times> go_error option) \<Rightarrow> db auth_ports" where
  "auth_composition operators clock fresh stopper =
     (auth_store operators clock fresh (Some stopper))
       \<lparr>list_orphans := orphans_without_intents ListOrphanAuthenticationLifecycles ListRemoteLogoutIntents\<rparr>"

text \<open>\<open>recoverOperatorAccountDisconnect\<close>: the pending count it warns about, or its error.\<close>

definition recoverOperatorAccountDisconnect ::
  "db ports \<Rightarrow> time \<Rightarrow> ctx \<Rightarrow> db \<Rightarrow> db \<times> (nat + go_error)" where
  "recoverOperatorAccountDisconnect p clock c s =
    (case Recover p clock c s of
       (s1, _, Some e) \<Rightarrow> (s1, Inr (Wrap ''recover telegram account disconnect intents'' [e]))
     | (s1, r, None) \<Rightarrow> (s1, Inl (Pending r)))"

text \<open>Startup up to the registration of the authentication routes: the disconnect recovery, then the
  authentication recovery; \<open>None\<close> is a process that serves.\<close>

definition startup ::
  "uuid set \<Rightarrow> time \<Rightarrow> uuid \<Rightarrow> (RuntimeTarget \<Rightarrow> db \<Rightarrow> db \<times> RevokeOutcome)
   \<Rightarrow> (RuntimeTarget \<Rightarrow> db \<Rightarrow> db \<times> go_error option) \<Rightarrow> db \<Rightarrow> db \<times> nat \<times> go_error option" where
  "startup operators clock fresh runtime stopper s =
    (case recoverOperatorAccountDisconnect (store_ports runtime) clock LiveContext s of
       (s1, Inr e) \<Rightarrow> (s1, 0, Some e)
     | (s1, Inl pending) \<Rightarrow>
         (case auth_Recover (auth_composition operators clock fresh stopper) LiveContext s1 of
            (s2, Some e) \<Rightarrow> (s2, pending, Some (Wrap ''recover operator account authentication'' [e]))
          | (s2, None) \<Rightarrow> (s2, pending, None)))"

end
