(* ===== verification/Startup_Recovery.thy ===== *)
theory Startup_Recovery
  imports Disconnect_Properties Auth_Lifecycle
begin

text \<open>
  Recovery at startup: what one pass of the disconnect recovery and one pass of the authentication
  recovery do to the account tables, and their composition in \<open>cmd/app\<close>. \<open>settled\<close> says that a
  set of rows has been disconnected and their sessions deleted, everything else being untouched.
\<close>

section \<open>Settling rows\<close>

definition settled :: "db \<Rightarrow> db \<Rightarrow> account_row set \<Rightarrow> bool" where
  "settled s s' C \<longleftrightarrow> accounts_inv s'
     \<and> (\<exists>g. (\<forall>x. oa_id (g x) = oa_id x \<and> oa_operator (g x) = oa_operator x \<and> oa_created (g x) = oa_created x
            \<and> oa_status (g x) = Disconnected)
          \<and> operator_accounts s' = map (\<lambda>x. if x \<in> C then g x else x) (operator_accounts s))
     \<and> (\<forall>j. has_session s' j \<longleftrightarrow> has_session s j \<and> j \<notin> oa_id ` C)"

lemma settled_none: "accounts_inv s \<Longrightarrow> settled s s {}"
  unfolding settled_def by (auto intro!: exI [of _ "\<lambda>x. x\<lparr>oa_status := Disconnected\<rparr>"])

lemma settled_inv: "settled s s' C \<Longrightarrow> accounts_inv s'"
  by (simp add: settled_def)

lemma settled_member:
  assumes "settled s s' C" "a \<in> set (operator_accounts s)" "a \<notin> C"
  shows "a \<in> set (operator_accounts s')"
  using assms by (auto simp: settled_def image_iff)

lemma inv_distinct: "accounts_inv s \<Longrightarrow> distinct (map oa_id (operator_accounts s))"
  by (simp add: accounts_inv_def)

lemma settled_insert:
  assumes inv: "accounts_inv s" and 1: "settled s s1 C" and C: "C \<subseteq> set (operator_accounts s)"
    and a: "a \<in> set (operator_accounts s)" "a \<notin> C" and 2: "settled s1 s2 {a}"
  shows "settled s s2 (insert a C)"
proof -
  obtain g h where g: "\<And>x. oa_id (g x) = oa_id x \<and> oa_operator (g x) = oa_operator x
        \<and> oa_created (g x) = oa_created x \<and> oa_status (g x) = Disconnected"
      "operator_accounts s1 = map (\<lambda>x. if x \<in> C then g x else x) (operator_accounts s)"
    and h: "\<And>x. oa_id (h x) = oa_id x \<and> oa_operator (h x) = oa_operator x
        \<and> oa_created (h x) = oa_created x \<and> oa_status (h x) = Disconnected"
      "operator_accounts s2 = map (\<lambda>x. if x \<in> {a} then h x else x) (operator_accounts s1)"
    using 1 2 unfolding settled_def by blast
  have ne: "g x \<noteq> a" if "x \<in> C" for x
  proof
    assume "g x = a"
    then have "oa_id x = oa_id a" using g(1) [of x] by simp
    then have "x = a" using distinct_key_unique [OF inv_distinct [OF inv]] C a(1) that by blast
    then show False using a(2) that by simp
  qed
  have "operator_accounts s2 = map (\<lambda>x. if x \<in> insert a C then (if x \<in> C then g x else h x) else x) (operator_accounts s)"
    unfolding h(2) g(2) using ne a(2) by auto
  moreover have "has_session s2 j \<longleftrightarrow> has_session s j \<and> j \<notin> oa_id ` insert a C" for j
    using 1 2 by (auto simp: settled_def)
  moreover have "accounts_inv s2" by (rule settled_inv [OF 2])
  ultimately show ?thesis
    unfolding settled_def using g(1) h(1) by (intro conjI exI [of _ "\<lambda>x. if x \<in> C then g x else h x"]) auto
qed

lemma write_account_map:
  assumes "accounts_inv s" "a \<in> set (operator_accounts s)" "oa_id a' = oa_id a"
  shows "operator_accounts (write_account a' s) = map (\<lambda>x. if x \<in> {a} then a' else x) (operator_accounts s)"
  using distinct_key_unique [OF inv_distinct [OF assms(1)] _ assms(2)] assms(3)
  by (auto simp: write_account_def update_where_def)

lemma settled_write:
  assumes inv: "accounts_inv s" "accounts_inv s'" and a: "a \<in> set (operator_accounts s)"
    and a': "oa_id a' = oa_id a" "oa_operator a' = oa_operator a" "oa_created a' = oa_created a" "oa_status a' = Disconnected"
    and w: "operator_accounts s' = operator_accounts (write_account a' s)"
    and sess: "\<And>j. has_session s' j \<longleftrightarrow> has_session s j \<and> j \<noteq> oa_id a"
  shows "settled s s' {a}"
proof -
  have "operator_accounts s' = map (\<lambda>x. if x \<in> {a} then (if x = a then a' else x\<lparr>oa_status := Disconnected\<rparr>) else x)
      (operator_accounts s)"
    unfolding w write_account_map [OF inv(1) a a'(1)] by simp
  then show ?thesis
    unfolding settled_def using inv(2) sess a'
    by (intro conjI exI [of _ "\<lambda>x. if x = a then a' else x\<lparr>oa_status := Disconnected\<rparr>"]) auto
qed

section \<open>One row\<close>

text \<open>Every write the recovery makes keeps the identity columns, so no constraint rejects it.\<close>

lemma identity_kept:
  assumes inv: "accounts_inv s" and a: "a \<in> set (operator_accounts s)"
    and "oa_id a' = oa_id a" "oa_telegram_user_id a' = oa_telegram_user_id a"
  shows "\<not> identity_taken s a'"
proof
  assume "identity_taken s a'"
  then obtain x where "x \<in> set (operator_accounts s)" "oa_id x \<noteq> oa_id a"
    "oa_telegram_user_id a \<noteq> None" "oa_telegram_user_id x = oa_telegram_user_id a"
    using assms(3,4) by (auto simp: identity_taken_def list_ex_iff)
  then show False using inv a unfolding accounts_inv_def identities_unique_def by metis
qed

definition row_room :: "time \<Rightarrow> account_row \<Rightarrow> bool" where
  "row_room clock a \<longleftrightarrow> oa_version a + 1 < MaxInt64 \<and> oa_created a \<le> clock"

lemma persist_settles:
  assumes inv: "accounts_inv s" and a: "a \<in> set (operator_accounts s)" "oa_status a = Disconnecting" "row_room clock a"
  obtains marked s1 where "MarkDisconnected (abs_account a) = (marked, None)"
    "PersistLifecycle clock (oa_operator a) marked (acc_version (abs_account a)) s = (s1, Returns ())"
    "settled s s1 {a}"
proof -
  have v: "oa_version a + 1 < MaxInt64" "oa_created a \<le> clock" using a(3) by (auto simp: row_room_def)
  have ok: "account_row_ok a" by (rule accounts_inv_row [OF inv a(1)])
  have f: "find_account s (oa_operator a) (oa_id a) = Some a" by (rule find_account_unique [OF inv a(1)])
  have "acc_version (abs_account a) \<noteq> NOT 0"
    using row_ok_version(1) [OF ok] v(1)
    by (auto simp: abs_account_def MaxInt64_def unsigned_minus_1_eq_mask mask_eq_exp_minus_1)
  then obtain marked where m: "MarkDisconnected (abs_account a) = (marked, None)" "acc_status marked = Disconnected"
    using a(2) by (auto simp: MarkDisconnected_def move_cases abs_account_def)
  have op: "apply_lifecycle OpMarkDisconnected (abs_account a) = (marked, None)" using m by simp
  have run: "PersistLifecycle clock (oa_operator a) marked (acc_version (abs_account a)) s = (persisted clock marked a s, Returns ())"
    and valid: "validate_account marked = None" and id: "acc_id marked = oa_id a"
    using persist_succeeds [OF inv f _ op] ok v by (auto simp: account_row_ok_def)
  have "settled s (persisted clock marked a s) {a}"
    by (rule settled_write [OF inv persist_effect_load(1) [OF inv valid run] a(1), of "lifecycle_row clock marked a"])
      (use m(2) id in \<open>auto simp: lifecycle_row_def\<close>)
  then show thesis by (rule that [OF m(1) run])
qed

lemma abort_row_checks:
  assumes "account_row_ok a" "oa_status a = Authenticating" "oa_created a \<le> clock"
  shows "account_checks (aborting_row clock a)"
  using assms by (auto simp: account_row_ok_def account_checks_iff aborting_row_def)

lemma aborted_row_checks:
  assumes "account_row_ok a" "oa_status a = Disconnecting" "\<not> oa_remote_logout a" "oa_created a \<le> clock"
  shows "account_checks (aborted_row clock a)"
  using assms by (auto simp: account_row_ok_def account_checks_iff aborted_row_def)

lemma complete_abort_row:
  assumes inv: "accounts_inv s" and a: "a \<in> set (operator_accounts s)" "oa_status a = Disconnecting" "\<not> oa_remote_logout a"
    and v: "oa_version a < MaxInt64" "oa_created a \<le> clock"
  shows "CompleteAbort clock (oa_operator a) (oa_id a) (of_int (oa_version a)) s
      = (delete_session (oa_id a) (write_account (aborted_row clock a) s), Returns ())"
    and "settled s (delete_session (oa_id a) (write_account (aborted_row clock a) s)) {a}"
proof -
  have ok: "account_row_ok a" by (rule accounts_inv_row [OF inv a(1)])
  note ver = row_ok_version [OF ok]
  have f: "find_account s (oa_operator a) (oa_id a) = Some a" by (rule find_account_unique [OF inv a(1)])
  have nov: "write_violation s (aborted_row clock a) = None"
    unfolding write_violation_None using aborted_row_checks [OF ok a(2,3) v(2)]
      identity_kept [OF inv a(1), of "aborted_row clock a"] by (simp add: aborted_row_def)
  let ?s = "delete_session (oa_id a) (write_account (aborted_row clock a) s)"
  show run: "CompleteAbort clock (oa_operator a) (oa_id a) (of_int (oa_version a)) s = (?s, Returns ())"
    using ok ver v nov a f
    by (simp add: CompleteAbort_def validOwnership_def account_row_ok_def version_usable_def)
  have inv': "accounts_inv ?s" using CompleteAbort_writes [OF inv run] inv by auto
  show "settled s ?s {a}"
    by (rule settled_write [OF inv inv' a(1), of "aborted_row clock a"]) (auto simp: aborted_row_def)
qed

lemma begin_abort_row:
  assumes inv: "accounts_inv s" and a: "a \<in> set (operator_accounts s)" "oa_status a = Authenticating"
    and v: "oa_version a < MaxInt64" "oa_created a \<le> clock"
  shows "BeginAbort clock (oa_operator a) (oa_id a) (of_int (oa_version a)) s
      = (write_account (aborting_row clock a) s, Returns (of_int (oa_version a + 1)))"
    and "accounts_inv (write_account (aborting_row clock a) s)"
    and "aborting_row clock a \<in> set (operator_accounts (write_account (aborting_row clock a) s))"
proof -
  have ok: "account_row_ok a" by (rule accounts_inv_row [OF inv a(1)])
  note ver = row_ok_version [OF ok]
  have f: "find_account s (oa_operator a) (oa_id a) = Some a" by (rule find_account_unique [OF inv a(1)])
  have nov: "write_violation s (aborting_row clock a) = None"
    unfolding write_violation_None using abort_row_checks [OF ok a(2) v(2)]
      identity_kept [OF inv a(1), of "aborting_row clock a"] by (simp add: aborting_row_def)
  show run: "BeginAbort clock (oa_operator a) (oa_id a) (of_int (oa_version a)) s
      = (write_account (aborting_row clock a) s, Returns (of_int (oa_version a + 1)))"
    using ok ver v nov a f
    by (simp add: BeginAbort_def validOwnership_def account_row_ok_def version_usable_def)
  show "accounts_inv (write_account (aborting_row clock a) s)" using BeginAbort_writes [OF inv run] inv by auto
  show "aborting_row clock a \<in> set (operator_accounts (write_account (aborting_row clock a) s))"
    using write_account_map [OF inv a(1), of "aborting_row clock a"] a(1) by (auto simp: aborting_row_def image_iff)
qed

section \<open>The disconnect recovery\<close>

definition pending_row :: "account_row \<Rightarrow> bool" where
  "pending_row a \<longleftrightarrow> oa_status a = Disconnecting \<and> oa_remote_logout a"

definition orphan_row :: "account_row \<Rightarrow> bool" where
  "orphan_row a \<longleftrightarrow> oa_status a \<in> {Authenticating, Disconnecting}"

lemma list_intents_rows:
  assumes "accounts_inv s"
  shows "ListRemoteLogoutIntents s = Returns (map target_of (by_creation (filter pending_row (operator_accounts s))))"
proof -
  have "\<not> list_ex (\<lambda>a. oa_operator a = nil_uuid \<or> oa_id a = nil_uuid \<or> oa_version a \<le> 0)
      (by_creation (filter pending_row (operator_accounts s)))"
    using accounts_inv_row [OF assms] row_ok_version(2)
    by (fastforce simp: list_ex_iff by_creation_def account_row_ok_def)
  then show ?thesis by (simp add: ListRemoteLogoutIntents_def pending_row_def [abs_def] Let_def)
qed

lemma list_orphan_rows:
  assumes "accounts_inv s"
  shows "ListOrphanAuthenticationLifecycles s = Returns (map target_of (by_creation (filter orphan_row (operator_accounts s))))"
proof -
  have "\<not> list_ex (\<lambda>a. oa_version a \<le> 0) (by_creation (filter orphan_row (operator_accounts s)))"
    using accounts_inv_row [OF assms] row_ok_version(2) by (fastforce simp: list_ex_iff by_creation_def)
  then show ?thesis by (simp add: ListOrphanAuthenticationLifecycles_def orphan_row_def [abs_def] Let_def)
qed

text \<open>The runtime that only answers.\<close>

definition answering :: "(RuntimeTarget \<Rightarrow> RevokeOutcome) \<Rightarrow> RuntimeTarget \<Rightarrow> db \<Rightarrow> db \<times> RevokeOutcome" where
  "answering verdict t s = (s, verdict t)"

lemma target_of_account [simp]: "target_account (target_of a) = oa_id a"
  by (simp add: target_of_def)

definition tallied :: "RevokeOutcome \<Rightarrow> RecoveryResult \<Rightarrow> RecoveryResult" where
  "tallied out r = (case outcome_failure out of
     None \<Rightarrow> r\<lparr>Attempted := Suc (Attempted r), rr_Completed := Suc (rr_Completed r)\<rparr>
   | Some f \<Rightarrow> r\<lparr>Attempted := Suc (Attempted r), Pending := Suc (Pending r),
       PendingByKind := (PendingByKind r)(rf_kind f := Suc (PendingByKind r (rf_kind f)))\<rparr>)"

lemma recover_row:
  assumes inv: "accounts_inv s" and a: "a \<in> set (operator_accounts s)" "pending_row a" "row_room clock a"
    and out: "validate_outcome (verdict (target_of a)) = None"
  obtains s1 where "recoverTarget (store_ports (answering verdict)) clock (target_of a) r s
      = (s1, tallied (verdict (target_of a)) r, None)"
    "settled s s1 (if Converged (verdict (target_of a)) then {a} else {})"
proof -
  let ?p = "store_ports (answering verdict)"
  have ok: "account_row_ok a" by (rule accounts_inv_row [OF inv a(1)])
  have st: "oa_status a = Disconnecting" "oa_remote_logout a" using a(2) by (auto simp: pending_row_def)
  have f: "find_account s (oa_operator a) (oa_id a) = Some a" by (rule find_account_unique [OF inv a(1)])
  have load: "LoadAccount (oa_operator a) (oa_id a) s = Returns (abs_account a)"
    unfolding LoadAccount_abs [OF inv] using f ok by (simp add: account_row_ok_def)
  have snap: "recovery_snapshot ?p label (target_of a) s = Inr (abs_account a)" for label
    using load st row_ok_version(3) [OF ok]
    by (simp add: recovery_snapshot_def store_ports_def target_of_def validateRecoverySnapshot_def abs_account_def)
  have m: "matchesRemoteLogoutTarget (abs_account a) (target_of a)"
    using st by (simp add: matchesRemoteLogoutTarget_def abs_account_def target_of_def)
  have v: "validateRuntimeTarget (target_of a) = None"
    using ok st row_ok_version(3) [OF ok] by (simp add: validateRuntimeTarget_def target_of_def account_row_ok_def)
  have rt: "revoke_and_stop ?p (target_of a) s = (s, verdict (target_of a))"
    by (simp add: store_ports_def answering_def)
  note unfold = recoverTarget_def v snap rt out option.case sum.case prod.case Let_def
  show thesis
  proof (cases "outcome_failure (verdict (target_of a))")
    case (Some failure)
    have "failure_kind (Some failure) = rf_kind failure"
      using outcome_failure_valid [OF Some] by (simp add: failure_kind_def)
    then have "recoverTarget ?p clock (target_of a) r s = (s, tallied (verdict (target_of a)) r, None)"
      unfolding unfold by (simp add: tallied_def Some m)
    moreover have "\<not> Converged (verdict (target_of a))" using outcome_failure_None [OF out] Some by simp
    ultimately show thesis using that settled_none [OF inv] by simp
  next
    case None
    obtain marked s1 where p: "MarkDisconnected (abs_account a) = (marked, None)"
      "PersistLifecycle clock (oa_operator a) marked (acc_version (abs_account a)) s = (s1, Returns ())"
      "settled s s1 {a}" by (rule persist_settles [OF inv a(1) st(1) a(3)])
    have "complete_recovery ?p clock (target_of a) (abs_account a) (r\<lparr>Attempted := Suc (Attempted r)\<rparr>) s
        = (s1, tallied (verdict (target_of a)) r, None)"
      using p(1,2) None
      by (simp add: complete_recovery_def store_ports_def target_of_def persist_error_def tallied_def)
    then have "recoverTarget ?p clock (target_of a) r s = (s1, tallied (verdict (target_of a)) r, None)"
      unfolding unfold by (simp add: None m)
    moreover have "Converged (verdict (target_of a))" using outcome_failure_None [OF out] None by simp
    ultimately show thesis using that p(3) by simp
  qed
qed

text \<open>The result of a pass: one tally per intent.\<close>

lemma tallied_fields [simp]:
  "Attempted (tallied out r) = Suc (Attempted r)" "Skipped (tallied out r) = Skipped r"
  by (simp_all add: tallied_def split: option.split)

lemma recover_rows:
  assumes "accounts_inv s" "settled s0 s C" "accounts_inv s0"
    and "C \<subseteq> set (operator_accounts s0)" "set rows \<subseteq> set (operator_accounts s0)" "distinct rows" "set rows \<inter> C = {}"
    and "\<And>a. a \<in> set rows \<Longrightarrow> pending_row a \<and> row_room clock a \<and> validate_outcome (verdict (target_of a)) = None
          \<and> oa_id a \<notin> set seen"
  shows "\<exists>s'. recover_targets (store_ports (answering verdict)) clock seen (map target_of rows) r s
      = (s', foldl (\<lambda>r a. tallied (verdict (target_of a)) r) r rows, [])
    \<and> settled s0 s' (C \<union> {a \<in> set rows. Converged (verdict (target_of a))})"
  using assms
proof (induction rows arbitrary: s C seen r)
  case Nil
  then show ?case by simp
next
  case (Cons a rows)
  let ?p = "store_ports (answering verdict)" and ?conv = "\<lambda>a. Converged (verdict (target_of a))"
  have a: "a \<in> set (operator_accounts s0)" "a \<notin> C" "pending_row a" "row_room clock a"
    "validate_outcome (verdict (target_of a)) = None" "target_account (target_of a) \<notin> set seen"
    using Cons.prems by (auto simp: target_of_def)
  obtain s1 where s1: "recoverTarget ?p clock (target_of a) r s = (s1, tallied (verdict (target_of a)) r, None)"
    "settled s s1 (if ?conv a then {a} else {})"
    by (rule recover_row [where verdict = verdict and a = a, OF Cons.prems(1) settled_member [OF Cons.prems(2) a(1,2)] a(3,4,5)])
  define C1 where "C1 = (if ?conv a then insert a C else C)"
  have C1: "settled s0 s1 C1"
  proof (cases "?conv a")
    case True
    then show ?thesis
      using settled_insert [OF Cons.prems(3,2,4) a(1,2)] s1(2) by (simp add: C1_def)
  next
    case False
    then have "operator_accounts s1 = operator_accounts s" "\<And>j. has_session s1 j = has_session s j" "accounts_inv s1"
      using s1(2) by (auto simp: settled_def)
    then show ?thesis using Cons.prems(2) False by (simp add: settled_def C1_def)
  qed
  have ids: "oa_id b \<noteq> oa_id a" if "b \<in> set rows" for b
    using that Cons.prems(5,6) distinct_key_unique [OF inv_distinct [OF Cons.prems(3)], of b a] by auto
  have sub: "C1 \<subseteq> set (operator_accounts s0)" "set rows \<inter> C1 = {}"
    using Cons.prems(4,6,7) a(1) by (auto simp: C1_def)
  obtain s' where s': "recover_targets ?p clock (oa_id a # seen) (map target_of rows) (tallied (verdict (target_of a)) r) s1
      = (s', foldl (\<lambda>r a. tallied (verdict (target_of a)) r) (tallied (verdict (target_of a)) r) rows, [])"
    "settled s0 s' (C1 \<union> {a \<in> set rows. ?conv a})"
    using Cons.IH [OF settled_inv [OF C1] C1 Cons.prems(3) sub(1) _ _ sub(2), of "oa_id a # seen" "tallied (verdict (target_of a)) r"]
      Cons.prems(5,6,8) a ids by auto
  have "C1 \<union> {a \<in> set rows. ?conv a} = C \<union> {b \<in> set (a # rows). ?conv b}" by (auto simp: C1_def)
  then show ?case using s' s1(1) a(6) by simp
qed

lemma tally_rows:
  "Attempted (foldl (\<lambda>r a. tallied (verdict (target_of a)) r) r rows) = Attempted r + length rows
   \<and> Pending (foldl (\<lambda>r a. tallied (verdict (target_of a)) r) r rows)
       = Pending r + length (filter (\<lambda>a. outcome_failure (verdict (target_of a)) \<noteq> None) rows)"
  by (induction rows arbitrary: r) (auto simp: tallied_def split: option.split)

lemma by_creation_rows [simp]: "set (by_creation rows) = set rows" "distinct (by_creation rows) = distinct rows"
  "length (by_creation rows) = length rows"
  by (simp_all add: by_creation_def)

lemma Recover_settles:
  assumes inv: "accounts_inv s" and room: "\<And>a. a \<in> set (operator_accounts s) \<Longrightarrow> row_room clock a"
    and out: "\<And>t. validate_outcome (verdict t) = None"
  shows "\<exists>s' r. Recover (store_ports (answering verdict)) clock LiveContext s = (s', r, None)
    \<and> settled s s' {a \<in> set (operator_accounts s). pending_row a \<and> Converged (verdict (target_of a))}
    \<and> Pending r = length (filter (\<lambda>a. pending_row a \<and> \<not> Converged (verdict (target_of a))) (operator_accounts s))"
proof -
  let ?rows = "by_creation (filter pending_row (operator_accounts s))"
  have d: "distinct ?rows" using inv_distinct [OF inv] by (simp add: distinct_map)
  have "\<exists>s'. recover_targets (store_ports (answering verdict)) clock [] (map target_of ?rows) newRecoveryResult s
      = (s', foldl (\<lambda>r a. tallied (verdict (target_of a)) r) newRecoveryResult ?rows, [])
    \<and> settled s s' ({} \<union> {a \<in> set ?rows. Converged (verdict (target_of a))})"
    by (rule recover_rows [OF inv settled_none [OF inv] inv]) (use d room out in auto)
  then obtain s' where s': "recover_targets (store_ports (answering verdict)) clock [] (map target_of ?rows) newRecoveryResult s
      = (s', foldl (\<lambda>r a. tallied (verdict (target_of a)) r) newRecoveryResult ?rows, [])"
    "settled s s' {a \<in> set ?rows. Converged (verdict (target_of a))}" by auto
  have "Recover (store_ports (answering verdict)) clock LiveContext s
      = (s', foldl (\<lambda>r a. tallied (verdict (target_of a)) r) newRecoveryResult ?rows, None)"
    unfolding Recover_def by (simp add: store_ports_def [of "answering verdict"] list_intents_rows [OF inv])
      (simp add: store_ports_def [of "answering verdict", symmetric] s'(1))
  moreover have "length (filter (\<lambda>a. outcome_failure (verdict (target_of a)) \<noteq> None) ?rows)
      = length (filter (\<lambda>a. pending_row a \<and> \<not> Converged (verdict (target_of a))) (operator_accounts s))"
    using outcome_failure_None [OF out] by (simp add: by_creation_def filter_sort conj_commute)
  moreover have "{a \<in> set ?rows. Converged (verdict (target_of a))}
      = {a \<in> set (operator_accounts s). pending_row a \<and> Converged (verdict (target_of a))}" by auto
  ultimately show ?thesis using s'(2) tally_rows by (auto simp: newRecoveryResult_def)
qed

section \<open>The authentication recovery\<close>

lemma unsettled_orphans:
  assumes "settled s s1 C"
  shows "{b \<in> set (operator_accounts s1). orphan_row b} = {b \<in> set (operator_accounts s). orphan_row b \<and> b \<notin> C}"
proof -
  obtain g where g: "\<And>x. oa_status (g x) = Disconnected"
    "operator_accounts s1 = map (\<lambda>x. if x \<in> C then g x else x) (operator_accounts s)"
    using assms unfolding settled_def by blast
  have no: "\<not> orphan_row (g x)" for x using g(1) [of x] by (simp add: orphan_row_def)
  show ?thesis
  proof (intro set_eqI iffI)
    fix b assume "b \<in> {b \<in> set (operator_accounts s1). orphan_row b}"
    then obtain x where "x \<in> set (operator_accounts s)" "b = (if x \<in> C then g x else x)" "orphan_row b"
      unfolding g(2) by auto
    then show "b \<in> {b \<in> set (operator_accounts s). orphan_row b \<and> b \<notin> C}"
      using no [of x] by (cases "x \<in> C") simp_all
  next
    fix b assume "b \<in> {b \<in> set (operator_accounts s). orphan_row b \<and> b \<notin> C}"
    then show "b \<in> {b \<in> set (operator_accounts s1). orphan_row b}" unfolding g(2) by force
  qed
qed

lemma settled_via:
  assumes inv: "accounts_inv s" and a: "a \<in> set (operator_accounts s)"
    and b: "oa_id b = oa_id a" "oa_operator b = oa_operator a" "oa_created b = oa_created a"
    and m: "settled (write_account b s) s1 {b}"
  shows "settled s s1 {a}"
proof -
  obtain g where g: "\<And>x. oa_id (g x) = oa_id x \<and> oa_operator (g x) = oa_operator x
        \<and> oa_created (g x) = oa_created x \<and> oa_status (g x) = Disconnected"
      "operator_accounts s1 = map (\<lambda>x. if x \<in> {b} then g x else x) (operator_accounts (write_account b s))"
    and sess: "\<And>j. has_session s1 j \<longleftrightarrow> has_session s j \<and> j \<noteq> oa_id a" and inv1: "accounts_inv s1"
    using m b unfolding settled_def by auto
  have "operator_accounts s1 = map (\<lambda>x. if x = a then g b else x) (operator_accounts s)"
    unfolding g(2) write_account_map [OF inv a b(1)]
    using distinct_key_unique [OF inv_distinct [OF inv] _ a] b(1) by auto
  also have "\<dots> = operator_accounts (write_account (g b) s)"
    using write_account_map [OF inv a, of "g b"] g(1) [of b] b(1) by simp
  finally show ?thesis
    by (rule settled_write [OF inv inv1 a _ _ _ _ _ sess, rotated 4]) (use g(1) [of b] b in simp_all)
qed

text \<open>A stopper that answers without an error.\<close>

definition stops :: "RuntimeTarget \<Rightarrow> db \<Rightarrow> db \<times> go_error option" where
  "stops t s = (s, None)"

lemma composition_simps [simp]:
  "begin_abort (auth_composition operators clock fresh stopper) = BeginAbort clock"
  "complete_abort (auth_composition operators clock fresh stopper) = CompleteAbort clock"
  "stop_account (auth_composition operators clock fresh stopper) = Some stopper"
  by (simp_all add: auth_composition_def auth_store_def)

lemma recover_orphan_row:
  assumes inv: "accounts_inv s" and a: "a \<in> set (operator_accounts s)" "orphan_row a" "\<not> pending_row a" "row_room clock a"
  obtains s1 where "recover_orphan (auth_composition operators clock fresh stops) (target_of a) s = (s1, None)"
    "settled s s1 {a}"
proof -
  let ?p = "auth_composition operators clock fresh stops"
  have ok: "account_row_ok a" by (rule accounts_inv_row [OF inv a(1)])
  note ver = row_ok_version [OF ok]
  have v: "oa_version a < MaxInt64" "oa_version a + 1 < MaxInt64" "oa_created a \<le> clock"
    using a(4) by (auto simp: row_room_def)
  have guard: "(target_operator (target_of a) = nil_uuid \<or> target_account (target_of a) = nil_uuid
      \<or> target_version (target_of a) = 0) = False"
    using ok ver(3) by (simp add: target_of_def account_row_ok_def)
  have st: "oa_status a = Authenticating \<or> oa_status a = Disconnecting" using a(2) by (simp add: orphan_row_def)
  then show thesis
  proof
    assume dis: "oa_status a = Disconnecting"
    then have nr: "\<not> oa_remote_logout a" using a(3) by (simp add: pending_row_def)
    obtain s1 where s1: "CompleteAbort clock (oa_operator a) (oa_id a) (of_int (oa_version a)) s = (s1, Returns ())"
      "settled s s1 {a}" using complete_abort_row [OF inv a(1) dis nr v(1,3)] by blast
    have "recover_orphan ?p (target_of a) s = (s1, None)"
      unfolding recover_orphan_def guard
      using s1(1) by (simp add: target_of_def dis CompleteDisconnecting_def stop_and_complete_def stops_def)
    then show thesis by (rule that [OF _ s1(2)])
  next
    assume au: "oa_status a = Authenticating"
    let ?b = "aborting_row clock a" let ?m = "write_account ?b s"
    note b = begin_abort_row [OF inv a(1) au v(1,3)]
    have nr: "\<not> oa_remote_logout ?b" using ok au by (auto simp: aborting_row_def account_row_ok_def account_checks_iff)
    obtain s1 where s1: "CompleteAbort clock (oa_operator ?b) (oa_id ?b) (of_int (oa_version ?b)) ?m = (s1, Returns ())"
      "settled ?m s1 {?b}"
      using complete_abort_row [OF b(2,3) _ nr, of clock] v by (simp add: aborting_row_def)
    have vb: "(of_int (oa_version a + 1) :: version) \<noteq> 0"
      using row_ok_version(3) [OF accounts_inv_row [OF b(2,3)]] by (simp add: aborting_row_def)
    have "validateTarget (target_of a) = None"
      using guard au by (auto simp: validateTarget_def target_of_def)
    then have "recover_orphan ?p (target_of a) s = (s1, None)"
      unfolding recover_orphan_def guard
      using s1(1) b(1) vb
      by (simp add: target_of_def au Abort_def stop_and_complete_def stops_def aborting_row_def)
    moreover have "settled s s1 {a}"
      by (rule settled_via [OF inv a(1) _ _ _ s1(2)]) (simp_all add: aborting_row_def)
    ultimately show thesis by (rule that)
  qed
qed

lemma recover_orphan_rows:
  assumes "settled s0 s C" "accounts_inv s0"
    and "C \<subseteq> set (operator_accounts s0)" "set rows \<subseteq> set (operator_accounts s0)" "distinct rows" "set rows \<inter> C = {}"
    and "\<And>a. a \<in> set rows \<Longrightarrow> orphan_row a \<and> \<not> pending_row a \<and> row_room clock a"
  shows "\<exists>s'. recover_orphans (auth_composition operators clock fresh stops) (map target_of rows) s = (s', [])
    \<and> settled s0 s' (C \<union> set rows)"
  using assms
proof (induction rows arbitrary: s C)
  case Nil
  then show ?case by simp
next
  case (Cons a rows)
  have a: "a \<in> set (operator_accounts s0)" "a \<notin> C" "orphan_row a" "\<not> pending_row a" "row_room clock a"
    using Cons.prems by auto
  obtain s1 where s1: "recover_orphan (auth_composition operators clock fresh stops) (target_of a) s = (s1, None)"
    "settled s s1 {a}"
    by (rule recover_orphan_row [OF settled_inv [OF Cons.prems(1)] settled_member [OF Cons.prems(1) a(1,2)] a(3-5)])
  have C1: "settled s0 s1 (insert a C)"
    by (rule settled_insert [OF Cons.prems(2,1,3) a(1,2) s1(2)])
  have "\<exists>s'. recover_orphans (auth_composition operators clock fresh stops) (map target_of rows) s1 = (s', [])
    \<and> settled s0 s' (insert a C \<union> set rows)"
    by (rule Cons.IH [OF C1 Cons.prems(2)]) (use Cons.prems a in auto)
  then show ?case using s1(1) by auto
qed

end
