(* ===== verification/Recovery_Properties.thy ===== *)
theory Recovery_Properties
  imports Startup_Recovery
begin

text \<open>
  The properties of the disconnect command, of the abort protocol and of the recovery at startup.
  The runtime is a parameter; what the code relies on is stated per theorem: that other
  transactions running while it is asked are transactions of this store, or, for an undisturbed
  startup, that it only answers.
\<close>

lemma reachable_steps:
  "reachable accounts_init account_step s \<Longrightarrow> account_step\<^sup>*\<^sup>* s t \<Longrightarrow> reachable accounts_init account_step t"
  by (rule reachable_run)

lemma runtime_keeps_inv:
  assumes "\<And>t s1. account_step\<^sup>*\<^sup>* s1 (fst (runtime t s1))"
  shows "accounts_inv s \<Longrightarrow> accounts_inv (fst (revoke_and_stop (store_ports runtime) t s))"
  using account_sys.inv_run [OF assms] by (simp add: store_ports_def)

text \<open>C20: the outcome of \<open>Disconnect\<close>, whatever other transactions run while Telegram is asked.
  Completed and already disconnected are the only successes: the store then loads exactly the
  returned disconnected account, and after a completion its session is gone and the runtime had
  converged on a durable intent. Pending returns an error and the durable intent that was
  persisted when the runtime was asked, and the error carries the non-convergence sentinel and
  exactly the class of the remote failure. Every other outcome is an error that changed nothing.\<close>
theorem Disconnect_outcomes:
  assumes "reachable accounts_init account_step s"
    and "\<And>t s1. account_step\<^sup>*\<^sup>* s1 (fst (runtime t s1))"
    and "Disconnect (store_ports runtime) now later c actor i s = (s', r, e)"
  shows "reachable accounts_init account_step s'
    \<and> disconnect_contract (store_ports runtime) has_session actor i s s' r e"
  using store.Disconnect_satisfies [OF reachable_accounts_inv [OF assms(1)] runtime_keeps_inv [OF assms(2)] assms(3)]
    reachable_steps [OF assms(1) Disconnect_steps [OF assms(2,3)]] by blast

text \<open>C6: a remote logout is only ever requested for an intent that is durable at that moment. Two
  runtimes that answer alike in the states where the account is stored as disconnecting, with the
  remote logout required and at the version of the target, cannot be told apart by the disconnect
  command or by the recovery, however they behave anywhere else.\<close>
theorem logout_after_intent:
  assumes "reachable accounts_init account_step s"
    and "\<And>t s1. intent_at (store_ports runtime) t s1 \<Longrightarrow> other t s1 = runtime t s1"
  shows "Disconnect (store_ports other) now later c actor i s = Disconnect (store_ports runtime) now later c actor i s
    \<and> Recover (store_ports other) later c s = Recover (store_ports runtime) later c s"
proof -
  have o: "store_ports other = (store_ports runtime)\<lparr>revoke_and_stop := other\<rparr>" by (simp add: store_ports_def)
  have g: "\<And>t s1. intent_at (store_ports runtime) t s1 \<Longrightarrow> other t s1 = revoke_and_stop (store_ports runtime) t s1"
    using assms(2) by (simp add: store_ports_def)
  have "Recover ((store_ports runtime)\<lparr>revoke_and_stop := other\<rparr>) later c s = Recover (store_ports runtime) later c s"
    using recover_targets_agree [OF g]
    by (simp add: Recover_def cong: ctx.case_cong outcome.case_cong)
  then show ?thesis
    unfolding o using store.Disconnect_agrees [OF reachable_accounts_inv [OF assms(1)] g] by blast
qed

section \<open>Startup\<close>

lemma target_key_inj:
  assumes inv: "accounts_inv s" and "a \<in> set (operator_accounts s)" "b \<in> set (operator_accounts s)"
  shows "target_key (target_of a) = target_key (target_of b) \<longleftrightarrow> a = b"
  using distinct_key_unique [OF inv_distinct [OF inv] assms(2,3)] by (auto simp: target_key_def target_of_def)

lemma composed_orphans:
  assumes inv: "accounts_inv s"
  shows "list_orphans (auth_composition operators clock fresh stopper) s
    = Returns (map target_of (filter (\<lambda>a. \<not> pending_row a) (by_creation (filter orphan_row (operator_accounts s)))))"
proof -
  have "filter (\<lambda>t. target_key t \<notin> set (map target_key (map target_of (by_creation (filter pending_row (operator_accounts s))))))
      (map target_of (by_creation (filter orphan_row (operator_accounts s))))
    = map target_of (filter (\<lambda>a. \<not> pending_row a) (by_creation (filter orphan_row (operator_accounts s))))"
    unfolding filter_map o_def
    by (intro arg_cong [of _ _ "map target_of"] filter_cong) (auto simp: target_key_inj [OF inv] image_iff)
  then show ?thesis
    by (simp add: auth_composition_def orphans_without_intents_def list_orphan_rows [OF inv] list_intents_rows [OF inv])
qed

text \<open>C21: an undisturbed startup always gets through, whatever the remote side answers to the pending
  logouts. It aborts every interrupted authentication, completes every local disconnect and every
  remote logout that converges, deleting their sessions; every other account and session is left as
  it was, in particular the intents whose logout did not converge, which are exactly those counted
  as pending: the authentication recovery does not touch them.\<close>
theorem startup_settles:
  assumes "reachable accounts_init account_step s"
    and "\<And>a. a \<in> set (operator_accounts s) \<Longrightarrow> row_room clock a"
    and "\<And>t. validate_outcome (verdict t) = None"
  shows "\<exists>s'. startup operators clock fresh (answering verdict) stops s
      = (s', length (filter (\<lambda>a. pending_row a \<and> \<not> Converged (verdict (target_of a))) (operator_accounts s)), None)
    \<and> settled s s' {a \<in> set (operator_accounts s). orphan_row a \<and> (pending_row a \<longrightarrow> Converged (verdict (target_of a)))}"
proof -
  have inv: "accounts_inv s" by (rule reachable_accounts_inv [OF assms(1)])
  let ?C = "{a \<in> set (operator_accounts s). pending_row a \<and> Converged (verdict (target_of a))}"
  obtain s1 r where r: "Recover (store_ports (answering verdict)) clock LiveContext s = (s1, r, None)" "settled s s1 ?C"
    "Pending r = length (filter (\<lambda>a. pending_row a \<and> \<not> Converged (verdict (target_of a))) (operator_accounts s))"
    using Recover_settles [where verdict = verdict and clock = clock, OF inv assms(2,3)] by blast
  have inv1: "accounts_inv s1" by (rule settled_inv [OF r(2)])
  let ?rows = "filter (\<lambda>a. \<not> pending_row a) (by_creation (filter orphan_row (operator_accounts s1)))"
  have rows: "set ?rows = {a \<in> set (operator_accounts s). orphan_row a \<and> \<not> pending_row a}"
  proof -
    have "set ?rows = {b \<in> set (operator_accounts s1). orphan_row b} \<inter> {b. \<not> pending_row b}" by auto
    also have "\<dots> = {b \<in> set (operator_accounts s). orphan_row b \<and> b \<notin> ?C} \<inter> {b. \<not> pending_row b}"
      unfolding unsettled_orphans [OF r(2)] ..
    also have "\<dots> = {a \<in> set (operator_accounts s). orphan_row a \<and> \<not> pending_row a}" by blast
    finally show ?thesis .
  qed
  have dist: "distinct ?rows" using inv_distinct [OF inv1] by (simp add: distinct_map)
  have "\<exists>s2. recover_orphans (auth_composition operators clock fresh stops) (map target_of ?rows) s1 = (s2, [])
    \<and> settled s s2 (?C \<union> set ?rows)"
  proof (rule recover_orphan_rows [OF r(2) inv _ _ dist])
    show "orphan_row a \<and> \<not> pending_row a \<and> row_room clock a" if "a \<in> set ?rows" for a
      using that assms(2) unfolding rows by blast
  qed (unfold rows, blast+)
  then obtain s2 where s2: "recover_orphans (auth_composition operators clock fresh stops) (map target_of ?rows) s1 = (s2, [])"
    "settled s s2 (?C \<union> set ?rows)" by blast
  have "auth_Recover (auth_composition operators clock fresh stops) LiveContext s1 = (s2, None)"
    unfolding auth_Recover_def using s2(1) by (simp add: composed_orphans [OF inv1])
  moreover have "?C \<union> set ?rows = {a \<in> set (operator_accounts s). orphan_row a \<and> (pending_row a \<longrightarrow> Converged (verdict (target_of a)))}"
    unfolding rows by (auto simp: orphan_row_def pending_row_def)
  ultimately show ?thesis
    using s2(2) r by (simp add: startup_def recoverOperatorAccountDisconnect_def)
qed

section \<open>The abort protocol\<close>

text \<open>Aborting an authentication is fenced first and finished last, and it can be retried. When the
  runtime does not stop, the account stays disconnecting with its session, and no completion is
  written; calling \<open>Abort\<close> again with the same target then disconnects the account and deletes the
  session, and one more call succeeds without changing anything.\<close>
theorem Abort_retries:
  assumes "reachable accounts_init account_step s" "a \<in> set (operator_accounts s)"
    and "oa_status a = Authenticating" "row_room clock a"
  shows "\<exists>s1 s2. Abort (auth_composition operators clock fresh (\<lambda>t s. (s, Some e))) (target_of a) s
      = (s1, Some (Wrap ''stop telegram account runtime'' [e]))
    \<and> find_account s1 (oa_operator a) (oa_id a) = Some (aborting_row clock a)
    \<and> (\<forall>j. has_session s1 j = has_session s j)
    \<and> Abort (auth_composition operators clock fresh stops) (target_of a) s1 = (s2, None)
    \<and> settled s s2 {a}
    \<and> Abort (auth_composition operators clock fresh stops) (target_of a) s2 = (s2, None)"
proof -
  have inv: "accounts_inv s" by (rule reachable_accounts_inv [OF assms(1)])
  have ok: "account_row_ok a" by (rule accounts_inv_row [OF inv assms(2)])
  note ver = row_ok_version [OF ok]
  have v: "oa_version a < MaxInt64" "oa_version a + 1 < MaxInt64" "oa_created a \<le> clock"
    using assms(4) by (auto simp: row_room_def)
  let ?b = "aborting_row clock a" let ?s1 = "write_account ?b s"
  let ?c = "aborted_row clock ?b" let ?s2 = "delete_session (oa_id a) (write_account ?c ?s1)"
  note b = begin_abort_row [OF inv assms(2,3) v(1,3)]
  have fb: "find_account ?s1 (oa_operator a) (oa_id a) = Some ?b"
    using find_account_unique [OF b(2,3)] by (simp add: aborting_row_def)
  have nr: "\<not> oa_remote_logout ?b"
    using ok assms(3) by (auto simp: aborting_row_def account_row_ok_def account_checks_iff)
  have c: "CompleteAbort clock (oa_operator a) (oa_id a) (of_int (oa_version a + 1)) ?s1 = (?s2, Returns ())"
    "settled ?s1 ?s2 {?b}"
    using complete_abort_row [OF b(2,3) _ nr, of clock] v by (simp_all add: aborting_row_def)
  have s2: "settled s ?s2 {a}"
    by (rule settled_via [OF inv assms(2) _ _ _ c(2)]) (simp_all add: aborting_row_def)
  have inv2: "accounts_inv ?s2" by (rule settled_inv [OF s2])
  have "?c \<in> set (operator_accounts ?s2)"
    using write_account_map [OF b(2,3), of ?c] b(3) by (auto simp: aborted_row_def image_iff)
  from find_account_unique [OF inv2 this] have fc: "find_account ?s2 (oa_operator a) (oa_id a) = Some ?c"
    by (simp add: aborting_row_def aborted_row_def)
  have vb: "(of_int (oa_version a + 1) :: version) \<noteq> 0" "uint (of_int (oa_version a + 1) :: version) = oa_version a + 1"
    using row_ok_version [OF accounts_inv_row [OF b(2,3)]] by (simp_all add: aborting_row_def)
  have ids: "oa_operator a \<noteq> nil_uuid" "oa_id a \<noteq> nil_uuid" using ok by (simp_all add: account_row_ok_def)
  have t: "validateTarget (target_of a) = None" "target_operator (target_of a) = oa_operator a"
    "target_version (target_of a) = of_int (oa_version a)"
    using ids assms(3) ver(3) by (simp_all add: validateTarget_def target_of_def)
  have again: "BeginAbort clock (oa_operator a) (oa_id a) (of_int (oa_version a)) ?s1 = (?s1, Returns (of_int (oa_version a + 1)))"
    using fb ids ver v by (simp add: BeginAbort_def validOwnership_def version_usable_def aborting_row_def)
  have "BeginAbort clock (oa_operator a) (oa_id a) (of_int (oa_version a)) ?s2 = (?s2, Returns (of_int (oa_version a + 1)))"
    using fc ids ver v by (simp add: BeginAbort_def validOwnership_def version_usable_def aborting_row_def aborted_row_def)
  moreover have "CompleteAbort clock (oa_operator a) (oa_id a) (of_int (oa_version a + 1)) ?s2 = (?s2, Returns ())"
    using fc ids vb v by (simp add: CompleteAbort_def validOwnership_def version_usable_def aborting_row_def aborted_row_def)
  ultimately have third: "Abort (auth_composition operators clock fresh stops) (target_of a) ?s2 = (?s2, None)"
    using t vb by (simp add: Abort_def stop_and_complete_def stops_def)
  have second: "Abort (auth_composition operators clock fresh stops) (target_of a) ?s1 = (?s2, None)"
    using t vb again c(1) by (simp add: Abort_def stop_and_complete_def stops_def)
  have first: "Abort (auth_composition operators clock fresh (\<lambda>t s. (s, Some e))) (target_of a) s
      = (?s1, Some (Wrap ''stop telegram account runtime'' [e]))"
    using t vb b(1) by (simp add: Abort_def stop_and_complete_def)
  show ?thesis using first second third s2 fb by (intro exI [of _ ?s1] exI [of _ ?s2]) simp
qed

section \<open>Concrete runs\<close>

definition demo_runtime :: "RuntimeTarget \<Rightarrow> db \<Rightarrow> db \<times> RevokeOutcome" where
  "demo_runtime = answering (\<lambda>_. RevokeSucceeded)"

definition demo_done :: account where
  "demo_done = demo_disconnecting\<lparr>acc_status := Disconnected, acc_version := 5, acc_remoteLogoutRequired := False\<rparr>"

lemma demo_disconnect:
  "Disconnect (store_ports demo_runtime) 7 8 LiveContext 1 20 adb3
    = (persisted 8 demo_done (lifecycle_row 7 demo_disconnecting demo_row) adb4,
       \<lparr>dr_account = demo_done, dr_outcome = DisconnectCompleted\<rparr>, None)"
proof -
  have b: "BeginDisconnect demo_active = (demo_disconnecting, None)" using demo_apply by simp
  have m: "MarkDisconnected demo_disconnecting = (demo_done, None)"
    by (simp add: MarkDisconnected_def move_cases demo_done_def demo_disconnecting_def)
  have p: "PersistLifecycle 8 1 demo_done 4 adb4
      = (persisted 8 demo_done (lifecycle_row 7 demo_disconnecting demo_row) adb4, Returns ())"
    by (simp add: PersistLifecycle_def validOwnership_def demo_done_def demo_disconnecting_def MaxInt64_def
      find_account_def adb4_rows write_violation_def account_checks_def identity_taken_def lifecycle_row_def
      optionalTelegramUserID_def optionalAuthenticationExpiry_def optionalFailureCode_def demo_number_ok persisted_def)
  have v: "acc_version demo_disconnecting = 4" "acc_status demo_disconnecting = Disconnecting" "acc_id demo_disconnecting = 20"
    "acc_status demo_active = Active" "acc_id demo_active = 20" "acc_version demo_active = 3"
    by (simp_all add: demo_disconnecting_def demo_active_def)
  show ?thesis
    by (simp add: Disconnect_def validateDisconnectInput_def store_ports_def demo_load v beginDisconnect_def b
      demo_persist adb4 [symmetric] persist_error_def revokeAndComplete_def runtime_target_def validateRuntimeTarget_def
      demo_runtime_def answering_def RevokeSucceeded_def validate_outcome_def outcome_failure_def m p)
qed

theorem Disconnect_outcomes_witness:
  "\<not> has_session (persisted 8 demo_done (lifecycle_row 7 demo_disconnecting demo_row) adb4) 20"
proof -
  have "account_step\<^sup>*\<^sup>* s1 (fst (demo_runtime t s1))" for t s1 by (simp add: demo_runtime_def answering_def)
  from Disconnect_outcomes [OF adb_reachable(3) this demo_disconnect]
  show ?thesis by (simp add: disconnect_contract_def)
qed

definition nil_only :: "RuntimeTarget \<Rightarrow> db \<Rightarrow> db \<times> RevokeOutcome" where
  "nil_only t s = (if target_account t = nil_uuid then (adb0, RevokeAlreadyComplete) else demo_runtime t s)"

theorem logout_after_intent_witness:
  "Disconnect (store_ports nil_only) 7 8 LiveContext 1 20 adb3 = Disconnect (store_ports demo_runtime) 7 8 LiveContext 1 20 adb3"
proof -
  have "nil_only t s1 = demo_runtime t s1" if "intent_at (store_ports demo_runtime) t s1" for t s1
    using that by (auto simp: nil_only_def intent_at_def store_ports_def LoadAccount_def validOwnership_def)
  from logout_after_intent [where runtime = demo_runtime and other = nil_only, OF adb_reachable(3) this] show ?thesis by blast
qed

theorem startup_settles_witness:
  "snd (startup {1} 8 30 (answering (\<lambda>_. RevokeSucceeded)) stops adb4) = (0, None)"
proof -
  have "row_room 8 a" if "a \<in> set (operator_accounts adb4)" for a
    using that by (simp add: adb4_rows row_room_def lifecycle_row_def MaxInt64_def)
  moreover have "validate_outcome RevokeSucceeded = None" by (simp add: validate_outcome_def RevokeSucceeded_def)
  ultimately show ?thesis
    using startup_settles [OF adb_reachable(4), of 8 "\<lambda>_. RevokeSucceeded" "{1}" 30]
    by (auto simp: Converged_def RevokeSucceeded_def)
qed

theorem Abort_retries_witness:
  "snd (Abort (auth_composition {1} 6 30 (\<lambda>t s. (s, Some (Sentinel ErrProviderUnavailable))))
      (target_of (admitted_row 5 20 1 demo_number 100)) adb2)
    = Some (Wrap ''stop telegram account runtime'' [Sentinel ErrProviderUnavailable])"
proof -
  have "admitted_row 5 20 1 demo_number 100 \<in> set (operator_accounts adb2)"
    by (simp add: adb2_def adb1 store_session_def)
  moreover have "oa_status (admitted_row 5 20 1 demo_number 100) = Authenticating"
    "row_room 6 (admitted_row 5 20 1 demo_number 100)"
    by (simp_all add: admitted_row_def row_room_def MaxInt64_def)
  ultimately show ?thesis
    using Abort_retries [OF adb_reachable(2), of "admitted_row 5 20 1 demo_number 100" 6 "{1}" 30 "Sentinel ErrProviderUnavailable"]
    by auto
qed

end
