(* ===== verification/Challenge_Registry.thy ===== *)
theory Challenge_Registry
  imports Auth_Lifecycle
begin

text \<open>
  The process-local registry of phone challenges (\<open>internal/application/operatoraccountauth\<close>:
  challenge_registry.go, challenge_record.go, challenge_operation.go). A live record is reached
  through its request id; \<open>cr_addr\<close> is the identity of the Go pointer, which the code compares to
  see whether the record it holds is still the registered one. The registry lock makes each
  function below one step at a reading \<open>now\<close> of the clock; the record lock is held while an
  operation runs, which is why an operation may keep the record it opened.
\<close>

section \<open>Data\<close>

datatype Stage = StageCode | StagePassword | OtherStage string

record Challenge =
  ch_request :: uuid
  ch_target :: RuntimeTarget
  ch_phone :: "rune list"
  ch_delivery :: "rune list"
  ch_stage :: Stage
  ch_expires :: time

record SendCodeResult =
  sc_hash :: "rune list"
  sc_delivery :: "rune list"
  sc_expires :: time

record challengeRecord =
  cr_addr :: nat
  cr_request :: uuid
  cr_target :: RuntimeTarget
  cr_phone :: "rune list"
  cr_delivery :: "rune list"
  cr_stage :: Stage
  cr_expires :: time
  cr_hash :: "rune list"
  cr_ready :: bool
  cr_codeAttempts :: nat
  cr_passwordAttempts :: nat
  cr_pendingProfile :: "Profile option"

record terminalResult =
  ts_request :: uuid
  ts_actor :: uuid
  ts_expires :: time
  ts_account :: "auth_account option"
  ts_aborted :: bool

record challengeRegistry =
  rg_ttl :: duration
  rg_capacity :: nat
  challenges :: "challengeRecord list"
  actorSlots :: "uuid \<Rightarrow> uuid option"
  targetSlots :: "RuntimeTarget \<Rightarrow> uuid option"
  tombstones :: "terminalResult list"
  rg_closed :: bool
  next_addr :: nat

definition maxLiveChallenges :: nat where
  "maxLiveChallenges = 4096"

definition maxCodeAttempts :: nat where
  "maxCodeAttempts = 5"

definition maxPasswordAttempts :: nat where
  "maxPasswordAttempts = 5"

definition newChallengeRegistry :: "duration \<Rightarrow> challengeRegistry" where
  "newChallengeRegistry ttl = \<lparr>rg_ttl = ttl, rg_capacity = maxLiveChallenges, challenges = [],
     actorSlots = (\<lambda>_. None), targetSlots = (\<lambda>_. None), tombstones = [], rg_closed = False, next_addr = 0\<rparr>"

definition projection :: "challengeRecord \<Rightarrow> Challenge" where
  "projection r = \<lparr>ch_request = cr_request r, ch_target = cr_target r, ch_phone = cr_phone r,
     ch_delivery = cr_delivery r, ch_stage = cr_stage r, ch_expires = cr_expires r\<rparr>"

definition find_challenge :: "challengeRegistry \<Rightarrow> uuid \<Rightarrow> challengeRecord option" where
  "find_challenge reg rid = find (\<lambda>r. cr_request r = rid) (challenges reg)"

definition find_tombstone :: "challengeRegistry \<Rightarrow> uuid \<Rightarrow> terminalResult option" where
  "find_tombstone reg rid = find (\<lambda>t. ts_request t = rid) (tombstones reg)"

text \<open>Whether the pointer with this address is the registered record of the request.\<close>

definition registered :: "challengeRegistry \<Rightarrow> uuid \<Rightarrow> nat \<Rightarrow> bool" where
  "registered reg rid addr \<longleftrightarrow> (case find_challenge reg rid of None \<Rightarrow> False | Some r \<Rightarrow> cr_addr r = addr)"

definition owner :: "challengeRecord \<Rightarrow> uuid" where
  "owner r = target_operator (cr_target r)"

text \<open>What a record pointer points to; a record that has left the registry is not read through it again.\<close>

definition deref :: "challengeRegistry \<Rightarrow> challengeRecord \<Rightarrow> challengeRecord" where
  "deref reg r = (case find (\<lambda>x. cr_addr x = cr_addr r) (challenges reg) of None \<Rightarrow> r | Some x \<Rightarrow> x)"

definition current :: "challengeRegistry \<Rightarrow> uuid \<Rightarrow> challengeRecord \<Rightarrow> bool" where
  "current reg actor r \<longleftrightarrow> registered reg (cr_request r) (cr_addr r) \<and> owner (deref reg r) = actor"

text \<open>A write through the record pointer.\<close>

definition put_record :: "challengeRecord \<Rightarrow> challengeRegistry \<Rightarrow> challengeRegistry" where
  "put_record r reg = reg\<lparr>challenges :=
     update_where (\<lambda>x. cr_addr x = cr_addr r) (\<lambda>_. r) (challenges reg)\<rparr>"

definition cleanup :: "time \<Rightarrow> challengeRegistry \<Rightarrow> challengeRegistry" where
  "cleanup now reg = reg\<lparr>tombstones := filter (\<lambda>t. now < ts_expires t) (tombstones reg)\<rparr>"

section \<open>Request identifiers\<close>

definition usable_request :: "challengeRegistry \<Rightarrow> uuid \<Rightarrow> bool" where
  "usable_request reg rid \<longleftrightarrow> rid \<noteq> nil_uuid \<and> find_challenge reg rid = None \<and> find_tombstone reg rid = None"

text \<open>The loop draws identifiers until one is usable; \<open>None\<close> is a loop that never ends. The generator is
  the sequence of values \<open>newRequest\<close> returns.\<close>

partial_function (option) nextRequestID :: "(nat \<Rightarrow> uuid) \<Rightarrow> nat \<Rightarrow> challengeRegistry \<Rightarrow> uuid option" where
  "nextRequestID newRequest n reg =
    (if usable_request reg (newRequest n) then Some (newRequest n) else nextRequestID newRequest (Suc n) reg)"

section \<open>Reservation\<close>

record challengeReservation =
  rv_record :: "challengeRecord option" \<comment> \<open>the pointer, with the record as it was reserved\<close>
  rv_challenge :: Challenge
  rv_created :: bool

definition zero_target :: RuntimeTarget where
  "zero_target = \<lparr>target_operator = nil_uuid, target_account = nil_uuid, target_status = OtherStatus [], target_version = 0\<rparr>"

definition zero_challenge :: Challenge where
  "zero_challenge = \<lparr>ch_request = nil_uuid, ch_target = zero_target, ch_phone = [], ch_delivery = [],
     ch_stage = OtherStage [], ch_expires = zero_time\<rparr>"

definition no_reservation :: challengeReservation where
  "no_reservation = \<lparr>rv_record = None, rv_challenge = zero_challenge, rv_created = False\<rparr>"

definition reservation_of :: "bool \<Rightarrow> challengeRecord \<Rightarrow> challengeReservation" where
  "reservation_of created r = \<lparr>rv_record = Some r, rv_challenge = projection r, rv_created = created\<rparr>"

definition context_error :: "ctx \<Rightarrow> go_error option" where
  "context_error c = (case c of NilContext \<Rightarrow> Some (Sentinel AuthErrInvalidInput) | LiveContext \<Rightarrow> None
     | DoneContext e \<Rightarrow> Some e)"

definition new_record :: "nat \<Rightarrow> uuid \<Rightarrow> RuntimeTarget \<Rightarrow> rune list \<Rightarrow> time \<Rightarrow> challengeRecord" where
  "new_record addr rid target phone expires = \<lparr>cr_addr = addr, cr_request = rid, cr_target = target,
     cr_phone = phone, cr_delivery = [], cr_stage = StageCode, cr_expires = expires, cr_hash = [],
     cr_ready = False, cr_codeAttempts = 0, cr_passwordAttempts = 0, cr_pendingProfile = None\<rparr>"

definition slot_record :: "challengeRegistry \<Rightarrow> uuid option \<Rightarrow> challengeRecord option" where
  "slot_record reg slot = (case slot of None \<Rightarrow> None | Some rid \<Rightarrow> find_challenge reg rid)"

definition create_challenge ::
  "uuid \<Rightarrow> RuntimeTarget \<Rightarrow> rune list \<Rightarrow> time \<Rightarrow> challengeRegistry \<Rightarrow> challengeRegistry \<times> challengeReservation" where
  "create_challenge rid target phone expires reg =
    (let r = new_record (next_addr reg) rid target phone expires in
     (reg\<lparr>challenges := challenges reg @ [r],
        actorSlots := (actorSlots reg)(target_operator target := Some rid),
        targetSlots := (targetSlots reg)(target := Some rid),
        next_addr := Suc (next_addr reg)\<rparr>, reservation_of True r))"

text \<open>\<open>draw\<close> is \<open>nextRequestIDLocked\<close>, called with the registry as it is when the record is created.\<close>

definition Prepare ::
  "ctx \<Rightarrow> time \<Rightarrow> (challengeRegistry \<Rightarrow> uuid) \<Rightarrow> RuntimeTarget \<Rightarrow> rune list \<Rightarrow> time \<Rightarrow> challengeRegistry
   \<Rightarrow> challengeRegistry \<times> challengeReservation \<times> go_error option" where
  "Prepare c now draw target phone expires reg =
    (case context_error c of Some e \<Rightarrow> (reg, no_reservation, Some e) | None \<Rightarrow>
     if validateTarget target \<noteq> None \<or> target_status target \<noteq> Authenticating \<or> TrimSpace phone = [] \<or> expires = zero_time
     then (reg, no_reservation, Some (Sentinel AuthErrInvalidInput))
     else if rg_closed reg then (reg, no_reservation, Some (Sentinel ErrRuntimeClosed))
     else
       let reg = cleanup now reg in
       case slot_record reg (targetSlots reg target) of
         Some r \<Rightarrow>
           (let r' = (if expires < cr_expires r then r\<lparr>cr_expires := expires\<rparr> else r) in
            (put_record r' reg, reservation_of False r',
             if now < cr_expires r' then None else Some (Sentinel ErrRuntimeChallengeExpired)))
       | None \<Rightarrow>
           (case slot_record reg (actorSlots reg (target_operator target)) of
              Some r \<Rightarrow>
                if now < cr_expires r then (reg, no_reservation, Some (Sentinel ErrRuntimeChallengeAlreadyActive))
                else (reg, reservation_of False r, Some (Sentinel ErrRuntimeChallengeExpired))
            | None \<Rightarrow>
                if rg_capacity reg \<le> length (challenges reg) + length (tombstones reg)
                then (reg, no_reservation, Some (Sentinel ErrRuntimeCapacity))
                else (case create_challenge (draw reg) target phone expires reg of (reg', rv) \<Rightarrow> (reg', rv, None))))"

section \<open>Removal\<close>

definition removeLocked :: "challengeRecord \<Rightarrow> challengeRegistry \<Rightarrow> challengeRegistry \<times> bool" where
  "removeLocked r reg =
    (if \<not> registered reg (cr_request r) (cr_addr r) then (reg, False)
     else let target = cr_target (deref reg r); actor = target_operator target in
       (reg\<lparr>challenges := filter (\<lambda>x. cr_request x \<noteq> cr_request r) (challenges reg),
          actorSlots := (if actorSlots reg actor = Some (cr_request r)
                         then (actorSlots reg)(actor := None) else actorSlots reg),
          targetSlots := (if targetSlots reg target = Some (cr_request r)
                          then (targetSlots reg)(target := None) else targetSlots reg)\<rparr>, True))"

definition removeWithTombstone ::
  "time \<Rightarrow> challengeRecord \<Rightarrow> auth_account option \<Rightarrow> bool \<Rightarrow> challengeRegistry \<Rightarrow> challengeRegistry" where
  "removeWithTombstone now r account aborted reg =
    (case removeLocked r reg of
       (reg', False) \<Rightarrow> reg'
     | (reg', True) \<Rightarrow> reg'\<lparr>tombstones := filter (\<lambda>t. ts_request t \<noteq> cr_request r) (tombstones reg')
          @ [\<lparr>ts_request = cr_request r, ts_actor = owner (deref reg r), ts_expires = now + rg_ttl reg',
              ts_account = account, ts_aborted = aborted\<rparr>]\<rparr>)"

text \<open>\<open>attach\<close> is the part of \<open>commit\<close> that works on the current record, under its lock.\<close>

definition attach ::
  "time \<Rightarrow> SendCodeResult \<Rightarrow> challengeRecord \<Rightarrow> challengeRegistry \<Rightarrow> challengeRegistry \<times> Challenge \<times> go_error option" where
  "attach now sent r reg =
    (if cr_ready r then (reg, projection r, None)
     else if sc_hash sent = [] then (reg, zero_challenge, Some (Sentinel ErrProviderUnavailable))
     else if \<not> now < cr_expires r then (reg, projection r, Some (Sentinel ErrRuntimeChallengeExpired))
     else
       let e = (if sc_expires sent \<noteq> zero_time \<and> sc_expires sent < cr_expires r
                then sc_expires sent else cr_expires r);
           r1 = r\<lparr>cr_expires := e\<rparr>
       in if \<not> now < e
          then (put_record r1 reg, projection r1, Some (Sentinel ErrRuntimeChallengeExpired))
          else
            let delivery = TrimSpace (sc_delivery sent);
                r2 = r1\<lparr>cr_hash := sc_hash sent,
                   cr_delivery := (if delivery = [] then runes_of ''Telegram code'' else delivery),
                   cr_ready := True\<rparr>
            in (put_record r2 reg, projection r2, None))"

definition commit ::
  "ctx \<Rightarrow> time \<Rightarrow> challengeReservation \<Rightarrow> SendCodeResult \<Rightarrow> challengeRegistry
   \<Rightarrow> challengeRegistry \<times> Challenge \<times> go_error option" where
  "commit c now rv sent reg =
    (case context_error c of Some e \<Rightarrow> (reg, zero_challenge, Some e) | None \<Rightarrow>
     if rg_closed reg then (reg, zero_challenge, Some (Sentinel ErrRuntimeClosed))
     else case rv_record rv of None \<Rightarrow> (reg, zero_challenge, Some (Sentinel ErrRuntimeChallengeNotFound))
     | Some reserved \<Rightarrow>
         if \<not> registered reg (cr_request reserved) (cr_addr reserved)
         then (reg, zero_challenge, Some (Sentinel ErrRuntimeChallengeNotFound))
         else attach now sent (deref reg reserved) reg)"

definition rollback :: "ctx \<Rightarrow> challengeReservation \<Rightarrow> challengeRegistry \<Rightarrow> challengeRegistry \<times> go_error option" where
  "rollback c rv reg =
    (if \<not> rv_created rv then (reg, None)
     else case context_error c of Some e \<Rightarrow> (reg, Some e) | None \<Rightarrow>
       (case rv_record rv of None \<Rightarrow> (reg, Some (Sentinel ErrRuntimeChallengeNotFound))
        | Some r \<Rightarrow>
            if \<not> registered reg (cr_request r) (cr_addr r) then (reg, Some (Sentinel ErrRuntimeChallengeNotFound))
            else (fst (removeLocked r reg), None)))"

definition Remove :: "ctx \<Rightarrow> uuid \<Rightarrow> uuid \<Rightarrow> challengeRegistry \<Rightarrow> challengeRegistry \<times> go_error option" where
  "Remove c actor rid reg =
    (case context_error c of Some e \<Rightarrow> (reg, Some e) | None \<Rightarrow>
     (case find_challenge reg rid of
        None \<Rightarrow> (reg, Some (Sentinel ErrRuntimeChallengeNotFound))
      | Some r \<Rightarrow>
          if owner r \<noteq> actor then (reg, Some (Sentinel ErrRuntimeChallengeNotFound))
          else (fst (removeLocked r reg), None)))"

definition clearShutdownState :: "Challenge \<Rightarrow> challengeRegistry \<Rightarrow> challengeRegistry" where
  "clearShutdownState ch reg =
    (case find_challenge reg (ch_request ch) of
       None \<Rightarrow> reg
     | Some r \<Rightarrow>
         if cr_target r \<noteq> ch_target ch then reg
         else put_record (r\<lparr>cr_phone := [], cr_delivery := [], cr_stage := OtherStage [], cr_expires := zero_time,
                cr_hash := [], cr_ready := False, cr_codeAttempts := 0, cr_passwordAttempts := 0,
                cr_pendingProfile := None\<rparr>) reg)"

definition clearTombstones :: "challengeRegistry \<Rightarrow> challengeRegistry" where
  "clearTombstones reg = reg\<lparr>tombstones := []\<rparr>"

definition closeAdmission :: "challengeRegistry \<Rightarrow> challengeRegistry" where
  "closeAdmission reg = reg\<lparr>rg_closed := True\<rparr>"

section \<open>Status and operations\<close>

definition registry_Status ::
  "ctx \<Rightarrow> time \<Rightarrow> uuid \<Rightarrow> challengeRegistry \<Rightarrow> challengeRegistry \<times> Challenge option \<times> go_error option" where
  "registry_Status c now actor reg =
    (case context_error c of Some e \<Rightarrow> (reg, None, Some e) | None \<Rightarrow>
     if actor = nil_uuid then (reg, None, Some (Sentinel AuthErrInvalidInput))
     else if rg_closed reg then (reg, None, Some (Sentinel ErrRuntimeClosed))
     else let reg = cleanup now reg in
       case slot_record reg (actorSlots reg actor) of
         None \<Rightarrow> (reg, None, None)
       | Some r \<Rightarrow>
           if owner r \<noteq> actor then (reg, None, None)
           else (reg, Some (projection r),
                 if now < cr_expires r then None else Some (Sentinel ErrRuntimeChallengeExpired)))"

text \<open>
  An operation finds the record under the registry lock, waits for the record lock, and then looks again:
  while it waits, other requests run. It goes on with the record, or answers at once: from the tombstone,
  or with the challenge that cannot be used.
\<close>

datatype opened =
    Opened challengeRecord
  | Answer "auth_account option" "Challenge option" "go_error option"

definition replay_tombstone :: "time \<Rightarrow> uuid \<Rightarrow> terminalResult option \<Rightarrow> opened" where
  "replay_tombstone now actor stone = (case stone of
     None \<Rightarrow> Answer None None (Some (Sentinel ErrRuntimeChallengeNotFound))
   | Some t \<Rightarrow>
       if ts_actor t = actor \<and> now < ts_expires t
       then (case ts_account t of
               Some a \<Rightarrow> Answer (Some a) None None
             | None \<Rightarrow> if ts_aborted t then Answer None None (Some (Sentinel ErrAuthenticationAborted))
                       else Answer None None (Some (Sentinel ErrRuntimeChallengeNotFound)))
       else Answer None None (Some (Sentinel ErrRuntimeChallengeNotFound)))"

definition find_operation :: "ctx \<Rightarrow> time \<Rightarrow> uuid \<Rightarrow> uuid \<Rightarrow> challengeRegistry \<Rightarrow> opened" where
  "find_operation c now actor rid reg =
    (case context_error c of Some e \<Rightarrow> Answer None None (Some e) | None \<Rightarrow>
     if rg_closed reg then Answer None None (Some (Sentinel ErrRuntimeClosed))
     else case find_challenge reg rid of
         None \<Rightarrow> replay_tombstone now actor (find_tombstone reg rid)
       | Some r \<Rightarrow>
           if owner r \<noteq> actor then replay_tombstone now actor (find_tombstone reg rid)
           else Opened r)"

text \<open>Under the record lock: \<open>found\<close> is the pointer the first look returned.\<close>

definition lock_operation :: "time \<Rightarrow> uuid \<Rightarrow> challengeRecord \<Rightarrow> challengeRegistry \<Rightarrow> opened" where
  "lock_operation now actor found reg =
    (case find_challenge reg (cr_request found) of
       None \<Rightarrow> Answer None None (Some (Sentinel ErrRuntimeChallengeNotFound))
     | Some r \<Rightarrow>
         if \<not> current reg actor found
         then Answer None None (Some (Sentinel ErrRuntimeChallengeNotFound))
         else if rg_closed reg then Answer None None (Some (Sentinel ErrRuntimeClosed))
         else if \<not> now < cr_expires r
         then Answer None (Some (projection r)) (Some (Sentinel ErrRuntimeChallengeExpired))
         else if \<not> cr_ready r \<and> cr_pendingProfile r = None
         then Answer None (Some (projection r)) (Some (Sentinel ErrProviderUnavailable))
         else Opened r)"

text \<open>The operation's writes go through the record pointer; what it holds is read back from the registry,
  where a concurrent \<open>Prepare\<close> may have shortened the expiry.\<close>

definition at_record ::
  "challengeRecord \<Rightarrow> (challengeRecord \<Rightarrow> challengeRecord) \<Rightarrow> challengeRegistry \<Rightarrow> challengeRegistry" where
  "at_record r f reg = reg\<lparr>challenges := update_where (\<lambda>x. cr_addr x = cr_addr r) f (challenges reg)\<rparr>"

definition ReserveCodeAttempt :: "challengeRecord \<Rightarrow> challengeRegistry \<Rightarrow> challengeRegistry \<times> bool" where
  "ReserveCodeAttempt r reg = (if maxCodeAttempts \<le> cr_codeAttempts (deref reg r) then (reg, False)
     else (at_record r (\<lambda>x. x\<lparr>cr_codeAttempts := Suc (cr_codeAttempts x)\<rparr>) reg, True))"

definition ReservePasswordAttempt :: "challengeRecord \<Rightarrow> challengeRegistry \<Rightarrow> challengeRegistry \<times> bool" where
  "ReservePasswordAttempt r reg = (if maxPasswordAttempts \<le> cr_passwordAttempts (deref reg r) then (reg, False)
     else (at_record r (\<lambda>x. x\<lparr>cr_passwordAttempts := Suc (cr_passwordAttempts x)\<rparr>) reg, True))"

definition SetPendingProfile :: "Profile \<Rightarrow> challengeRecord \<Rightarrow> challengeRegistry \<Rightarrow> challengeRegistry" where
  "SetPendingProfile p r reg =
     at_record r (\<lambda>x. x\<lparr>cr_pendingProfile := Some p, cr_hash := [], cr_ready := False\<rparr>) reg"

definition SetStage :: "Stage \<Rightarrow> challengeRecord \<Rightarrow> challengeRegistry \<Rightarrow> challengeRegistry \<times> go_error option" where
  "SetStage st r reg = (if st \<noteq> StageCode \<and> st \<noteq> StagePassword then (reg, Some (Sentinel AuthErrInvalidInput))
     else (at_record r (\<lambda>x. x\<lparr>cr_stage := st\<rparr>) reg, None))"

definition mapChallengeError :: "go_error \<Rightarrow> go_error" where
  "mapChallengeError e =
    (if errors_is e ErrRuntimeChallengeExpired then Sentinel ErrChallengeExpired
     else if errors_is e ErrRuntimeChallengeNotFound then Sentinel ErrChallengeNotFound
     else if errors_is e ErrRuntimeChallengeAlreadyActive then Sentinel AuthErrAccountStateConflict
     else if errors_is e ErrRuntimeAccountStateConflict then Sentinel AuthErrAccountStateConflict
     else if errors_is e ErrRuntimeCapacity then Sentinel ErrChallengeCapacity
     else if errors_is e ErrRuntimeClosed then Sentinel ErrServiceClosed
     else e)"

end
