(* ===== verification/Auth_Service.thy ===== *)
theory Auth_Service
  imports Challenge_Registry
begin

text \<open>
  The phone authentication service (\<open>internal/application/operatoraccountauth\<close>: service.go, start.go,
  submission.go, cancel.go, status.go, admission.go, provider_failure.go, errors.go). Its state is the
  challenge registry, the closed flag of the admission gate and the durable state behind the
  persistence port, which is a parameter. A call that leaves the process, or that waits for the lock of
  a record, returns the state it finds afterwards: other requests may have run, time has passed
  (\<open>sv_now\<close>), and the context of the request (\<open>sv_ctx\<close>) or the one derived for the running
  operation (\<open>sv_opctx\<close>) may be done. Between such calls one reading of the clock stands for all.
\<close>

section \<open>State and ports\<close>

record 's service =
  sv_registry :: challengeRegistry
  sv_closed :: bool
  sv_durable :: 's
  sv_now :: time
  sv_ctx :: ctx
  sv_opctx :: ctx

record 's provider =
  send_code :: "RuntimeTarget \<Rightarrow> rune list \<Rightarrow> 's service \<Rightarrow> 's service \<times> (go_error + SendCodeResult)"
  sign_in :: "RuntimeTarget \<Rightarrow> rune list \<Rightarrow> rune list \<Rightarrow> rune list \<Rightarrow> 's service
    \<Rightarrow> 's service \<times> (go_error + Profile)"
  check_password :: "RuntimeTarget \<Rightarrow> byte list \<Rightarrow> 's service \<Rightarrow> 's service \<times> (go_error + Profile)"

record 's environment =
  en_ports :: "'s service auth_ports"
  en_provider :: "'s provider option" \<comment> \<open>\<open>None\<close> is the nil interface\<close>
  en_draw :: "challengeRegistry \<Rightarrow> uuid"
  en_ttl :: duration
  en_lock :: "challengeRecord \<Rightarrow> 's service \<Rightarrow> 's service"
  en_trylock :: "challengeRecord \<Rightarrow> 's service \<Rightarrow> 's service \<times> bool"
    \<comment> \<open>the snapshot's loop: the lock is taken, or the context was done first\<close>

record Result =
  res_account :: "auth_account option"
  res_challenge :: "Challenge option"

definition no_answer :: Result where
  "no_answer = \<lparr>res_account = None, res_challenge = None\<rparr>"

definition account_answer :: "auth_account \<Rightarrow> Result" where
  "account_answer a = \<lparr>res_account = Some a, res_challenge = None\<rparr>"

definition challenge_answer :: "Challenge \<Rightarrow> Result" where
  "challenge_answer ch = \<lparr>res_account = None, res_challenge = Some ch\<rparr>"

definition validate_result :: "Result \<Rightarrow> go_error option" where
  "validate_result r = (if (res_account r = None) = (res_challenge r = None)
     then Some (Sentinel AuthErrInvalidResult) else None)"

definition maxPasswordBytes :: nat where
  "maxPasswordBytes = 4096"

definition ctx_err :: "ctx \<Rightarrow> go_error option" where
  "ctx_err c = (case c of DoneContext e \<Rightarrow> Some e | _ \<Rightarrow> None)"

section \<open>Admission stripes\<close>

definition actorStartLockCount :: nat where
  "actorStartLockCount = 64"

text \<open>The bytes of a UUID, most significant first.\<close>

definition uuid_bytes :: "uuid \<Rightarrow> 8 word list" where
  "uuid_bytes u = map (\<lambda>i. ucast (drop_bit (8 * i) u)) (rev [0..<16])"

definition fnv_step :: "64 word \<Rightarrow> 8 word \<Rightarrow> 64 word" where
  "fnv_step hash value = (xor hash (ucast value)) * 1099511628211"

definition actorStartLockIndex :: "uuid \<Rightarrow> nat" where
  "actorStartLockIndex actor =
     unat (foldl fnv_step 14695981039346656037 (uuid_bytes actor) mod of_nat actorStartLockCount)"

section \<open>Phone numbers\<close>

fun auth_phone_runes :: "bool \<Rightarrow> rune list \<Rightarrow> rune list option" where
  "auth_phone_runes first [] = Some []"
| "auth_phone_runes first (c # cs) =
    (if (c = 43 \<and> first) \<or> ascii_digit c then map_option (\<lambda>v. c # v) (auth_phone_runes False cs)
     else if is_space c \<or> c \<in> {45, 40, 41, 46} then auth_phone_runes False cs
     else None)"

definition auth_normalizePhone :: "rune list \<Rightarrow> go_error + rune list" where
  "auth_normalizePhone phone =
    (let phone = TrimSpace phone in
     if phone = [] then Inl (Sentinel AuthErrInvalidInput)
     else case auth_phone_runes True phone of
       None \<Rightarrow> Inl (Sentinel AuthErrInvalidInput)
     | Some value \<Rightarrow>
         let value = international value; digits = drop 1 value in
         if length digits < 7 \<or> 15 < length digits \<or> digits = [] \<or> hd digits = 48
         then Inl (Sentinel AuthErrInvalidInput)
         else Inr value)"

section \<open>Provider failures\<close>

fun validProviderFailureKind :: "ProviderFailureKind \<Rightarrow> bool" where
  "validProviderFailureKind ProviderFailureUnknown \<longleftrightarrow> False"
| "validProviderFailureKind (OtherProviderKind _) \<longleftrightarrow> False"
| "validProviderFailureKind _ \<longleftrightarrow> True"

definition NewProviderFailureError :: "ProviderFailureKind \<Rightarrow> go_error + go_error" where
  "NewProviderFailureError kind = (if \<not> validProviderFailureKind kind then Inl (Sentinel AuthErrInvalidInput)
     else Inr (ProviderFailureError (Some kind)))"

definition provider_failure_kind :: "ProviderFailureKind option \<Rightarrow> ProviderFailureKind" where
  "provider_failure_kind k = (case k of None \<Rightarrow> ProviderFailureUnknown
     | Some kind \<Rightarrow> if \<not> validProviderFailureKind kind then ProviderFailureUnknown else kind)"

definition NewRetryAfterError :: "duration \<Rightarrow> go_error + go_error" where
  "NewRetryAfterError after = (if after \<le> 0 then Inl (Sentinel ErrInvalidRetryAfter) else Inr (RetryAfterError after))"

text \<open>What \<open>errors.As\<close> finds first in the pre-order of the error tree.\<close>

fun retry_afters :: "go_error \<Rightarrow> duration list" where
  "retry_afters (RetryAfterError d) = [d]"
| "retry_afters (Wrap _ es) = concat (map retry_afters es)"
| "retry_afters (Join es) = concat (map retry_afters es)"
| "retry_afters _ = []"

fun provider_failures :: "go_error \<Rightarrow> ProviderFailureKind option list" where
  "provider_failures (ProviderFailureError k) = [k]"
| "provider_failures (Wrap _ es) = concat (map provider_failures es)"
| "provider_failures (Join es) = concat (map provider_failures es)"
| "provider_failures _ = []"

text \<open>\<open>time.Time.Sub\<close> saturates.\<close>

definition time_sub :: "time \<Rightarrow> time \<Rightarrow> duration" where
  "time_sub a b = max (- 9223372036854775808) (min 9223372036854775807 (a - b))"

definition isAbortProviderFailure :: "go_error \<Rightarrow> bool" where
  "isAbortProviderFailure e \<longleftrightarrow>
     errors_is e ErrUnauthorized \<or> errors_is e ErrSessionUnavailable \<or> errors_is e ErrProviderUnavailable"

definition classify_sentinel :: "go_error \<Rightarrow> go_error" where
  "classify_sentinel e =
    (if errors_is e ErrInvalidCode then Sentinel ErrInvalidCode
     else if errors_is e ErrInvalidPassword then Sentinel ErrInvalidPassword
     else if errors_is e ErrPasswordRequired then Sentinel ErrPasswordRequired
     else if errors_is e ErrUnauthorized then Sentinel ErrUnauthorized
     else if errors_is e ErrSessionUnavailable then Sentinel ErrSessionUnavailable
     else if errors_is e ErrProviderUnavailable then Sentinel ErrProviderUnavailable
     else if errors_is e ErrProviderTransient then Sentinel ErrProviderTransient
     else if errors_is e AuthErrFloodWait then Sentinel AuthErrFloodWait
     else Sentinel ErrProviderTransient)"

text \<open>The argument is a non-nil error, as at every call.\<close>

definition classifyProviderFailure :: "go_error \<Rightarrow> time \<Rightarrow> time \<Rightarrow> go_error" where
  "classifyProviderFailure e expires now =
    (if errors_is e ErrCanceled then Sentinel ErrCanceled
     else if errors_is e ErrDeadlineExceeded then Sentinel ErrDeadlineExceeded
     else case retry_afters e of
       d # _ \<Rightarrow>
         (let remaining = time_sub expires now in
          if remaining \<le> 0 then Sentinel ErrChallengeExpired
          else case NewRetryAfterError (min d remaining) of
            Inr bounded \<Rightarrow> bounded
          | Inl _ \<Rightarrow> Sentinel AuthErrFloodWait)
     | [] \<Rightarrow>
         (case provider_failures e of
            k # _ \<Rightarrow>
              if k \<noteq> None \<and> validProviderFailureKind (provider_failure_kind k)
              then ProviderFailureError k else classify_sentinel e
          | [] \<Rightarrow> classify_sentinel e))"

section \<open>Ends of a challenge\<close>

definition abort :: "'s environment \<Rightarrow> RuntimeTarget \<Rightarrow> 's service \<Rightarrow> 's service \<times> go_error option" where
  "abort env target s = Abort (en_ports env) target s"

definition expireChallenge ::
  "'s environment \<Rightarrow> Challenge \<Rightarrow> 's service \<Rightarrow> 's service \<times> Result \<times> go_error option" where
  "expireChallenge env ch s =
    (if ch_request ch = nil_uuid then (s, no_answer, Some (Sentinel ErrChallengeExpired))
     else case abort env (ch_target ch) s of
       (s1, Some e) \<Rightarrow> (s1, no_answer, errors_join [Some (Sentinel ErrChallengeExpired), Some e])
     | (s1, None) \<Rightarrow>
         (case Remove (sv_ctx s1) (target_operator (ch_target ch)) (ch_request ch) (sv_registry s1) of
            (reg, Some e) \<Rightarrow> (s1\<lparr>sv_registry := reg\<rparr>, no_answer,
               errors_join [Some (Sentinel ErrChallengeExpired), Some (mapChallengeError e)])
          | (reg, None) \<Rightarrow> (s1\<lparr>sv_registry := reg\<rparr>, no_answer, Some (Sentinel ErrChallengeExpired))))"

definition abortProviderFailure ::
  "'s environment \<Rightarrow> RuntimeTarget \<Rightarrow> go_error \<Rightarrow> 's service \<Rightarrow> 's service \<times> Result \<times> go_error option" where
  "abortProviderFailure env target failure s =
    (case abort env target s of
       (s1, Some e) \<Rightarrow> (s1, no_answer, errors_join [Some failure, Some e])
     | (s1, None) \<Rightarrow> (s1, no_answer, errors_join [Some failure, Some (Sentinel ErrAuthenticationAborted)]))"

section \<open>Start\<close>

definition authTarget :: "uuid \<Rightarrow> auth_account \<Rightarrow> RuntimeTarget" where
  "authTarget actor account = \<lparr>target_operator = actor, target_account = aa_id account,
     target_status = aa_status account, target_version = aa_version account\<rparr>"

definition rollback_reservation :: "challengeReservation \<Rightarrow> 's service \<Rightarrow> 's service" where
  "rollback_reservation rv s = s\<lparr>sv_registry := fst (rollback LiveContext rv (sv_registry s))\<rparr>"

definition handlePrepareFailure ::
  "'s environment \<Rightarrow> RuntimeTarget \<Rightarrow> challengeReservation \<Rightarrow> go_error \<Rightarrow> 's service
   \<Rightarrow> 's service \<times> Result \<times> go_error option" where
  "handlePrepareFailure env target rv e s =
    (if errors_is e ErrRuntimeChallengeExpired
     then (case expireChallenge env (rv_challenge rv) s of
        (s1, result, expired) \<Rightarrow>
          if expired = Some (Sentinel ErrChallengeExpired) \<and> ch_target (rv_challenge rv) = target
          then (s1, result, expired)
          else
            let other = (if expired = Some (Sentinel ErrChallengeExpired) then None else expired) in
            case abort env target s1 of
              (s2, aborted) \<Rightarrow> (s2, no_answer, errors_join [Some (Sentinel ErrChallengeExpired), other, aborted]))
     else case abort env target s of
       (s1, Some a) \<Rightarrow> (s1, no_answer, errors_join [Some (mapChallengeError e), Some a])
     | (s1, None) \<Rightarrow> (s1, no_answer, Some (mapChallengeError e)))"

definition handleSendCodeFailure ::
  "'s environment \<Rightarrow> RuntimeTarget \<Rightarrow> challengeReservation \<Rightarrow> go_error \<Rightarrow> 's service
   \<Rightarrow> 's service \<times> Result \<times> go_error option" where
  "handleSendCodeFailure env target rv e s =
    (let expires = ch_expires (rv_challenge rv) in
     if \<not> sv_now s < expires then expireChallenge env (rv_challenge rv) s
     else
       let s1 = rollback_reservation rv s in
       case ctx_err (sv_ctx s1) of
         Some c \<Rightarrow> (s1, no_answer, Some c)
       | None \<Rightarrow>
           let failure = classifyProviderFailure e expires (sv_now s1) in
           if isAbortProviderFailure e then abortProviderFailure env target failure s1
           else (s1, no_answer, Some failure))"

definition handleAttachFailure ::
  "'s environment \<Rightarrow> RuntimeTarget \<Rightarrow> challengeReservation \<Rightarrow> go_error \<Rightarrow> 's service
   \<Rightarrow> 's service \<times> Result \<times> go_error option" where
  "handleAttachFailure env target rv e s =
    (if errors_is e ErrRuntimeChallengeExpired
     then (case expireChallenge env (rv_challenge rv) s of (s1, _, expired) \<Rightarrow> (s1, no_answer, expired))
     else if errors_is e ErrRuntimeClosed
     then (case abort env target s of
        (s1, Some a) \<Rightarrow> (s1, no_answer, errors_join [Some (Sentinel ErrServiceClosed), Some a])
      | (s1, None) \<Rightarrow> (s1, no_answer, Some (Sentinel ErrServiceClosed)))
     else (rollback_reservation rv s, no_answer, Some (mapChallengeError e)))"

definition sendCode ::
  "'s environment \<Rightarrow> RuntimeTarget \<Rightarrow> rune list \<Rightarrow> challengeReservation \<Rightarrow> 's service
   \<Rightarrow> 's service \<times> Result \<times> go_error option" where
  "sendCode env target phone rv s =
    (case en_provider env of
       None \<Rightarrow> abortProviderFailure env target (Sentinel ErrProviderUnavailable) (rollback_reservation rv s)
     | Some provider \<Rightarrow>
         (case send_code provider target phone s of
            (s1, Inl e) \<Rightarrow> handleSendCodeFailure env target rv e s1
          | (s1, Inr sent) \<Rightarrow>
              (case commit (sv_ctx s1) (sv_now s1) rv sent (sv_registry s1) of
                 (reg, _, Some e) \<Rightarrow> handleAttachFailure env target rv e (s1\<lparr>sv_registry := reg\<rparr>)
               | (reg, ch, None) \<Rightarrow> (s1\<lparr>sv_registry := reg\<rparr>, challenge_answer ch, None))))"

text \<open>The part of \<open>Start\<close> after the durable admission.\<close>

definition reserve_and_send ::
  "'s environment \<Rightarrow> RuntimeTarget \<Rightarrow> rune list \<Rightarrow> time \<Rightarrow> 's service \<Rightarrow> 's service \<times> Result \<times> go_error option" where
  "reserve_and_send env target phone expires s =
    (case Prepare (sv_ctx s) (sv_now s) (en_draw env) target phone expires (sv_registry s) of
       (reg, rv, failure) \<Rightarrow>
         let s1 = s\<lparr>sv_registry := reg\<rparr> in
         (case failure of
            Some e \<Rightarrow> handlePrepareFailure env target rv e s1
          | None \<Rightarrow>
              if \<not> rv_created rv then (s1, challenge_answer (rv_challenge rv), None)
              else sendCode env target phone rv s1))"

text \<open>\<open>admissionGate.Acquire\<close>: the gate's locks hold back the other starts of the stripe and the closing
  of the gate until the release; what remains of it in one request is the closed flag.\<close>

definition Acquire :: "'s service \<Rightarrow> go_error option" where
  "Acquire s = (if sv_closed s then Some (Sentinel ErrServiceClosed) else None)"

definition Start ::
  "'s environment \<Rightarrow> uuid \<Rightarrow> rune list \<Rightarrow> 's service \<Rightarrow> 's service \<times> Result \<times> go_error option" where
  "Start env actor phone s =
    (case validateServiceContext (sv_ctx s) actor of Some e \<Rightarrow> (s, no_answer, Some e) | None \<Rightarrow>
     (case auth_normalizePhone phone of
        Inl e \<Rightarrow> (s, no_answer, Some e)
      | Inr normalized \<Rightarrow>
          (case Acquire s of Some e \<Rightarrow> (s, no_answer, Some e) | None \<Rightarrow>
           (case lifecycle_Begin (en_ports env) actor normalized (sv_now s + en_ttl env) s of
              (s1, Fails e) \<Rightarrow> (s1, no_answer, Some e)
            | (s1, Panics) \<Rightarrow> (s1, no_answer, Some Panicked)
            | (s1, Returns r) \<Rightarrow>
                if br_outcome r = BeginAlreadyActive then (s1, account_answer (br_account r), None)
                else reserve_and_send env (authTarget actor (br_account r)) normalized (br_expires r) s1))))"

section \<open>Operations on a challenge\<close>

text \<open>How the action of an operation left the challenge.\<close>

datatype ending = StillOpen | Completed auth_account | Aborted

text \<open>\<open>record.mu\<close> is held from \<open>en_lock\<close> until the action has returned. A request that needs a mutex held by
  another one does not get on before it is released, so what runs during a call of the action never
  removes the challenge; \<open>record_locks\<close> of the theory \<open>Service_Store\<close> states it of the calls.\<close>

definition operate ::
  "'s environment \<Rightarrow> uuid \<Rightarrow> uuid
   \<Rightarrow> (challengeRecord \<Rightarrow> 's service \<Rightarrow> 's service \<times> ending \<times> go_error option)
   \<Rightarrow> 's service \<Rightarrow> 's service \<times> Result \<times> go_error option" where
  "operate env actor rid action s =
    (case find_operation (sv_ctx s) (sv_now s) actor rid (sv_registry s) of
       Answer a ch e \<Rightarrow> (s, \<lparr>res_account = a, res_challenge = ch\<rparr>, e)
     | Opened found \<Rightarrow>
         let s1 = en_lock env found s in
         (case lock_operation (sv_now s1) actor found (sv_registry s1) of
            Answer a ch e \<Rightarrow> (s1, \<lparr>res_account = a, res_challenge = ch\<rparr>, e)
          | Opened r \<Rightarrow>
              (case action r (s1\<lparr>sv_opctx := sv_ctx s1\<rparr>) of
                 (s2, Completed account, failure) \<Rightarrow> (s2, account_answer account, failure)
               | (s2, Aborted, failure) \<Rightarrow> (s2, no_answer, failure)
               | (s2, StillOpen, failure) \<Rightarrow>
                   (s2, challenge_answer (projection (deref (sv_registry s2) r)), failure))))"

definition Complete :: "auth_account \<Rightarrow> challengeRecord \<Rightarrow> 's service \<Rightarrow> 's service" where
  "Complete account r s = s\<lparr>sv_registry := removeWithTombstone (sv_now s) r (Some account) False (sv_registry s)\<rparr>"

definition operation_Abort :: "challengeRecord \<Rightarrow> 's service \<Rightarrow> 's service" where
  "operation_Abort r s = s\<lparr>sv_registry := removeWithTombstone (sv_now s) r None True (sv_registry s)\<rparr>"

definition finalize ::
  "'s environment \<Rightarrow> challengeRecord \<Rightarrow> Profile \<Rightarrow> 's service \<Rightarrow> 's service \<times> ending \<times> go_error option" where
  "finalize env r profile s =
    (if \<not> sv_now s < cr_expires (deref (sv_registry s) r)
     then (s, StillOpen, Some (Sentinel ErrChallengeExpired))
     else case lifecycle_Finalize (en_ports env) (cr_target r) profile s of
       (s1, Fails e) \<Rightarrow> (s1, StillOpen, Some e)
     | (s1, Panics) \<Rightarrow> (s1, StillOpen, Some Panicked)
     | (s1, Returns account) \<Rightarrow> (Complete account r s1, Completed account, None))"

definition abortOperation ::
  "'s environment \<Rightarrow> challengeRecord \<Rightarrow> go_error \<Rightarrow> 's service \<Rightarrow> 's service \<times> ending \<times> go_error option" where
  "abortOperation env r failure s =
    (case abort env (cr_target r) s of
       (s1, Some e) \<Rightarrow> (s1, StillOpen, errors_join [Some failure, Some e])
     | (s1, None) \<Rightarrow> (operation_Abort r s1, Aborted, errors_join [Some failure, Some (Sentinel ErrAuthenticationAborted)]))"

definition handleProviderFailure ::
  "'s environment \<Rightarrow> challengeRecord \<Rightarrow> go_error \<Rightarrow> 's service \<Rightarrow> 's service \<times> ending \<times> go_error option" where
  "handleProviderFailure env r e s =
    (case ctx_err (sv_opctx s) of Some c \<Rightarrow> (s, StillOpen, Some c) | None \<Rightarrow>
     let failure = classifyProviderFailure e (cr_expires (deref (sv_registry s) r)) (sv_now s) in
     if \<not> isAbortProviderFailure e then (s, StillOpen, Some failure)
     else abortOperation env r failure s)"

text \<open>After a successful sign-in or password.\<close>

definition keep_and_finalize ::
  "'s environment \<Rightarrow> challengeRecord \<Rightarrow> Profile \<Rightarrow> 's service \<Rightarrow> 's service \<times> ending \<times> go_error option" where
  "keep_and_finalize env r profile s =
     finalize env r profile (s\<lparr>sv_registry := SetPendingProfile profile r (sv_registry s)\<rparr>)"

definition submit_code ::
  "'s environment \<Rightarrow> rune list \<Rightarrow> challengeRecord \<Rightarrow> 's service \<Rightarrow> 's service \<times> ending \<times> go_error option" where
  "submit_code env code r s =
    (case cr_pendingProfile r of Some pending \<Rightarrow> finalize env r pending s | None \<Rightarrow>
     if cr_stage r \<noteq> StageCode then (s, StillOpen, Some (Sentinel ErrPasswordRequired))
     else case ReserveCodeAttempt r (sv_registry s) of
       (_, False) \<Rightarrow> (s, StillOpen, Some (Sentinel ErrAttemptsExceeded))
     | (reg, True) \<Rightarrow>
         let s1 = s\<lparr>sv_registry := reg\<rparr> in
         (case en_provider env of
            None \<Rightarrow> abortOperation env r (Sentinel ErrProviderUnavailable) s1
          | Some provider \<Rightarrow>
              (case sign_in provider (cr_target r) (cr_phone r) (TrimSpace code) (cr_hash r) s1 of
                 (s2, Inr profile) \<Rightarrow> keep_and_finalize env r profile s2
               | (s2, Inl e) \<Rightarrow>
                   (case ctx_err (sv_opctx s2) of Some c \<Rightarrow> (s2, StillOpen, Some c) | None \<Rightarrow>
                    if errors_is e ErrPasswordRequired
                    then (s2\<lparr>sv_registry := fst (SetStage StagePassword r (sv_registry s2))\<rparr>, StillOpen,
                          Some (Sentinel ErrPasswordRequired))
                    else handleProviderFailure env r e s2))))"

definition submit_password ::
  "'s environment \<Rightarrow> byte list \<Rightarrow> challengeRecord \<Rightarrow> 's service \<Rightarrow> 's service \<times> ending \<times> go_error option" where
  "submit_password env password r s =
    (case cr_pendingProfile r of Some pending \<Rightarrow> finalize env r pending s | None \<Rightarrow>
     if cr_stage r \<noteq> StagePassword then (s, StillOpen, Some (Sentinel ErrPasswordRequired))
     else case ReservePasswordAttempt r (sv_registry s) of
       (_, False) \<Rightarrow> (s, StillOpen, Some (Sentinel ErrAttemptsExceeded))
     | (reg, True) \<Rightarrow>
         let s1 = s\<lparr>sv_registry := reg\<rparr> in
         (case en_provider env of
            None \<Rightarrow> abortOperation env r (Sentinel ErrProviderUnavailable) s1
          | Some provider \<Rightarrow>
              (case check_password provider (cr_target r) password s1 of
                 (s2, Inr profile) \<Rightarrow> keep_and_finalize env r profile s2
               | (s2, Inl e) \<Rightarrow>
                   (case ctx_err (sv_opctx s2) of Some c \<Rightarrow> (s2, StillOpen, Some c) | None \<Rightarrow>
                    handleProviderFailure env r e s2))))"

text \<open>How \<open>Code\<close> and \<open>Password\<close> end: an expired challenge is aborted, an error is mapped.\<close>

definition settle ::
  "'s environment \<Rightarrow> 's service \<times> Result \<times> go_error option \<Rightarrow> 's service \<times> Result \<times> go_error option" where
  "settle env outcome = (case outcome of (s, result, failure) \<Rightarrow>
    (case (failure, res_challenge result) of
       (Some e, Some ch) \<Rightarrow>
         if errors_is e ErrRuntimeChallengeExpired then expireChallenge env ch s
         else (s, result, Some (mapChallengeError e))
     | _ \<Rightarrow> (s, result, map_option mapChallengeError failure)))"

definition Code ::
  "'s environment \<Rightarrow> uuid \<Rightarrow> uuid \<Rightarrow> rune list \<Rightarrow> 's service \<Rightarrow> 's service \<times> Result \<times> go_error option" where
  "Code env actor rid code s =
    (case validateServiceContext (sv_ctx s) actor of Some e \<Rightarrow> (s, no_answer, Some e) | None \<Rightarrow>
     if rid = nil_uuid \<or> TrimSpace code = [] then (s, no_answer, Some (Sentinel AuthErrInvalidInput))
     else settle env (operate env actor rid (submit_code env code) s))"

definition Password ::
  "'s environment \<Rightarrow> uuid \<Rightarrow> uuid \<Rightarrow> byte list \<Rightarrow> 's service \<Rightarrow> 's service \<times> Result \<times> go_error option" where
  "Password env actor rid password s =
    (case validateServiceContext (sv_ctx s) actor of Some e \<Rightarrow> (s, no_answer, Some e) | None \<Rightarrow>
     if rid = nil_uuid \<or> password = [] \<or> maxPasswordBytes < length password
     then (s, no_answer, Some (Sentinel AuthErrInvalidInput))
     else settle env (operate env actor rid (submit_password env password) s))"

definition cancel_action ::
  "'s environment \<Rightarrow> challengeRecord \<Rightarrow> 's service \<Rightarrow> 's service \<times> ending \<times> go_error option" where
  "cancel_action env r s =
    (case abort env (cr_target r) s of
       (s1, Some e) \<Rightarrow> (s1, StillOpen, Some e)
     | (s1, None) \<Rightarrow> (operation_Abort r s1, Aborted, None))"

definition Cancel :: "'s environment \<Rightarrow> uuid \<Rightarrow> uuid \<Rightarrow> 's service \<Rightarrow> 's service \<times> go_error option" where
  "Cancel env actor rid s =
    (case validateServiceContext (sv_ctx s) actor of Some e \<Rightarrow> (s, Some e) | None \<Rightarrow>
     if rid = nil_uuid then (s, Some (Sentinel ErrChallengeNotFound))
     else case operate env actor rid (cancel_action env) s of
       (s1, result, None) \<Rightarrow> (s1, None)
     | (s1, result, Some e) \<Rightarrow>
         (case (errors_is e ErrRuntimeChallengeExpired, res_challenge result) of
            (True, Some ch) \<Rightarrow>
              (case expireChallenge env ch s1 of (s2, _, expired) \<Rightarrow>
                 (s2, if expired = Some (Sentinel ErrChallengeExpired) then None else expired))
          | _ \<Rightarrow>
              (s1, if errors_is e ErrAuthenticationAborted then None
                   else if errors_is e ErrRuntimeChallengeNotFound then Some (Sentinel ErrChallengeNotFound)
                   else Some e)))"

section \<open>Status\<close>

record auth_status =
  st_accounts :: "auth_account list"
  st_challenge :: "Challenge option"

definition list_label :: "go_error \<Rightarrow> go_error" where
  "list_label e = Wrap ''list operator accounts'' [e]"

definition list_again :: "'s environment \<Rightarrow> uuid \<Rightarrow> 's service \<Rightarrow> auth_status outcome" where
  "list_again env actor s = (case list_accounts (en_ports env) actor s of
     Fails e \<Rightarrow> Fails (list_label e) | Panics \<Rightarrow> Panics
   | Returns accounts \<Rightarrow> Returns \<lparr>st_accounts = accounts, st_challenge = None\<rparr>)"

definition Status :: "'s environment \<Rightarrow> uuid \<Rightarrow> 's service \<Rightarrow> 's service \<times> auth_status outcome" where
  "Status env actor s =
    (case validateServiceContext (sv_ctx s) actor of Some e \<Rightarrow> (s, Fails e) | None \<Rightarrow>
     (case list_accounts (en_ports env) actor s of
        Fails e \<Rightarrow> (s, Fails (list_label e))
      | Panics \<Rightarrow> (s, Panics)
      | Returns accounts \<Rightarrow>
          (case registry_Status (sv_ctx s) (sv_now s) actor (sv_registry s) of
             (reg, ch, failure) \<Rightarrow>
               let s1 = s\<lparr>sv_registry := reg\<rparr> in
               (case (failure, ch) of
                  (None, _) \<Rightarrow> (s1, Returns \<lparr>st_accounts = accounts, st_challenge = ch\<rparr>)
                | (Some e, Some expired) \<Rightarrow>
                    if errors_is e ErrRuntimeChallengeExpired
                    then (case expireChallenge env expired s1 of
                       (s2, _, Some gone) \<Rightarrow>
                         if gone = Sentinel ErrChallengeExpired then (s2, list_again env actor s2)
                         else (s2, Fails gone)
                     | (s2, _, None) \<Rightarrow> (s2, Returns \<lparr>st_accounts = [], st_challenge = None\<rparr>))
                    else (s1, Fails (mapChallengeError e))
                | (Some e, None) \<Rightarrow> (s1, Fails (mapChallengeError e))))))"

section \<open>Shutdown\<close>

text \<open>The snapshot takes the records' locks one after the other; it ends early when the context is done.
  The order of a Go map is arbitrary: here the registry's list gives it.\<close>

fun snapshot ::
  "'s environment \<Rightarrow> challengeRecord list \<Rightarrow> 's service \<Rightarrow> 's service \<times> Challenge list \<times> go_error option" where
  "snapshot env [] s = (s, [], None)"
| "snapshot env (r # rs) s =
    (case en_trylock env r s of
       (s1, False) \<Rightarrow> (s1, [], ctx_err (sv_ctx s1))
     | (s1, True) \<Rightarrow>
         (case snapshot env rs s1 of (s2, chs, e) \<Rightarrow>
            (s2, if registered (sv_registry s1) (cr_request r) (cr_addr r)
                 then projection (deref (sv_registry s1) r) # chs else chs, e)))"

fun shutdown_challenges ::
  "'s environment \<Rightarrow> Challenge list \<Rightarrow> 's service \<Rightarrow> 's service \<times> go_error list" where
  "shutdown_challenges env [] s = (s, [])"
| "shutdown_challenges env (ch # chs) s =
    (let s1 = s\<lparr>sv_registry := clearShutdownState ch (sv_registry s)\<rparr> in
     case abort env (ch_target ch) s1 of
       (s2, Some e) \<Rightarrow> (case shutdown_challenges env chs s2 of (s3, es) \<Rightarrow> (s3, e # es))
     | (s2, None) \<Rightarrow>
         (case Remove LiveContext (target_operator (ch_target ch)) (ch_request ch) (sv_registry s2) of
            (reg, removed) \<Rightarrow>
              (case shutdown_challenges env chs (s2\<lparr>sv_registry := reg\<rparr>) of
                 (s3, es) \<Rightarrow> (s3, case removed of None \<Rightarrow> es | Some e \<Rightarrow> mapChallengeError e # es))))"

definition Shutdown :: "'s environment \<Rightarrow> 's service \<Rightarrow> 's service \<times> go_error option" where
  "Shutdown env s =
    (case context_error (sv_ctx s) of Some e \<Rightarrow> (s, Some e) | None \<Rightarrow>
     let s1 = s\<lparr>sv_closed := True, sv_registry := closeAdmission (sv_registry s)\<rparr> in
     (case snapshot env (challenges (sv_registry s1)) s1 of
        (s2, chs, failed) \<Rightarrow>
          (case shutdown_challenges env chs s2 of
             (s3, es) \<Rightarrow>
               (s3\<lparr>sv_registry := clearTombstones (sv_registry s3)\<rparr>,
                errors_join (failed # map Some es)))))"

text \<open>\<open>NewService\<close>: the service of a process that starts, over the durable state it finds.\<close>

definition defaultChallengeTTL :: duration where
  "defaultChallengeTTL = 600 * second"

definition NewService :: "duration \<Rightarrow> time \<Rightarrow> 's \<Rightarrow> 's service" where
  "NewService ttl now durable =
    \<lparr>sv_registry = newChallengeRegistry (if ttl \<le> 0 then defaultChallengeTTL else ttl),
     sv_closed = False, sv_durable = durable, sv_now = now, sv_ctx = LiveContext, sv_opctx = LiveContext\<rparr>"

end
