(* ===== verification/Registry_Invariant.thy ===== *)
theory Registry_Invariant
  imports Challenge_Registry Transition_System
begin

text \<open>
  The consistency invariant of the challenge registry and its preservation by every registry
  function, as an instance of \<open>invariant_system\<close>; the termination of the identifier loop.
\<close>

section \<open>The invariant\<close>

definition record_ok :: "challengeRecord \<Rightarrow> bool" where
  "record_ok r \<longleftrightarrow> cr_request r \<noteq> nil_uuid \<and> owner r \<noteq> nil_uuid
     \<and> cr_codeAttempts r \<le> maxCodeAttempts \<and> cr_passwordAttempts r \<le> maxPasswordAttempts
     \<and> cr_ready r = (cr_hash r \<noteq> [])"

text \<open>A slot table maps the key of each live record to its request, and nothing else.\<close>

definition slot_table ::
  "(challengeRecord \<Rightarrow> 'k) \<Rightarrow> ('k \<Rightarrow> uuid option) \<Rightarrow> challengeRecord list \<Rightarrow> bool" where
  "slot_table key slot rs \<longleftrightarrow>
     (\<forall>k rid. slot k = Some rid \<longleftrightarrow> (\<exists>r \<in> set rs. cr_request r = rid \<and> key r = k))"

definition slots_ok :: "challengeRegistry \<Rightarrow> bool" where
  "slots_ok reg \<longleftrightarrow> slot_table owner (actorSlots reg) (challenges reg)
     \<and> slot_table cr_target (targetSlots reg) (challenges reg)"

lemma slot_table_Some: "slot_table key slot rs \<Longrightarrow> r \<in> set rs \<Longrightarrow> slot (key r) = Some (cr_request r)"
  by (auto simp: slot_table_def)

lemma slot_table_None: "slot_table key slot rs \<Longrightarrow> slot k = None \<Longrightarrow> r \<in> set rs \<Longrightarrow> key r \<noteq> k"
  by (auto dest: slot_table_Some)

lemma slot_table_owner:
  assumes "slot_table key slot rs" "slot k = Some rid"
  obtains r where "r \<in> set rs" "cr_request r = rid" "key r = k"
  using assms by (auto simp: slot_table_def)

lemma slot_table_unique:
  assumes "slot_table key slot rs" "distinct (map cr_request rs)" "r \<in> set rs" "x \<in> set rs" "key r = key x"
  shows "r = x"
proof (rule distinct_key_unique [OF assms(2-4)])
  show "cr_request r = cr_request x"
    using slot_table_Some [OF assms(1,3)] slot_table_Some [OF assms(1,4)] assms(5) by simp
qed

lemma slot_table_add:
  assumes "slot_table key slot rs" "slot (key r) = None"
  shows "slot_table key (slot(key r := Some (cr_request r))) (rs @ [r])"
  using assms(1) slot_table_None [OF assms] unfolding slot_table_def by auto

lemma slot_table_remove:
  assumes "slot_table key slot rs" "distinct (map cr_request rs)" "r \<in> set rs"
  shows "slot_table key (slot(key r := None)) (filter (\<lambda>x. cr_request x \<noteq> cr_request r) rs)"
proof -
  have "key x \<noteq> key r" if "x \<in> set rs" "cr_request x \<noteq> cr_request r" for x
    using slot_table_unique [OF assms(1,2) that(1) assms(3)] that(2) by blast
  moreover have "x = r" if "x \<in> set rs" "cr_request x = cr_request r" for x
    by (rule distinct_key_unique [OF assms(2) that(1) assms(3) that(2)])
  ultimately show ?thesis using assms(1) unfolding slot_table_def by (auto split: if_splits)
qed

lemma slot_table_map:
  assumes "slot_table key slot rs" "\<And>x. cr_request (f x) = cr_request x" "\<And>x. key (f x) = key x"
  shows "slot_table key slot (update_where p f rs)"
proof -
  have "(\<exists>r \<in> set (update_where p f rs). cr_request r = rid \<and> key r = k)
    \<longleftrightarrow> (\<exists>r \<in> set rs. cr_request r = rid \<and> key r = k)" for k rid
    by (induction rs) (auto simp: assms(2,3))
  then show ?thesis using assms(1) by (simp add: slot_table_def)
qed

lemma slot_table_find:
  assumes "slot_table key slot rs" "distinct (map cr_request rs)"
  shows "(case slot k of None \<Rightarrow> None | Some rid \<Rightarrow> find (\<lambda>r. cr_request r = rid) rs) = Some r
    \<longleftrightarrow> r \<in> set rs \<and> key r = k"
proof (cases "slot k")
  case None
  then show ?thesis using slot_table_None [OF assms(1)] by auto
next
  case (Some rid)
  then obtain x where x: "x \<in> set rs" "cr_request x = rid" "key x = k"
    by (rule slot_table_owner [OF assms(1)])
  have f: "find (\<lambda>r. cr_request r = rid) rs = Some x" using find_key_member [OF assms(2) x(1)] x(2) by simp
  have "x = r" if "r \<in> set rs" "key r = k"
    by (rule slot_table_unique [OF assms x(1) that(1)]) (simp add: x(3) that(2))
  then have "x = r \<longleftrightarrow> r \<in> set rs \<and> key r = k" using x(1,3) by blast
  then show ?thesis by (simp add: Some f)
qed

definition registry_ok :: "challengeRegistry \<Rightarrow> bool" where
  "registry_ok reg \<longleftrightarrow>
     distinct (map cr_request (challenges reg)) \<and> distinct (map cr_addr (challenges reg)) \<and>
     (\<forall>r \<in> set (challenges reg). record_ok r \<and> cr_addr r < next_addr reg) \<and>
     slots_ok reg \<and>
     distinct (map ts_request (tombstones reg)) \<and>
     (\<forall>t \<in> set (tombstones reg). ts_request t \<notin> set (map cr_request (challenges reg))) \<and>
     length (challenges reg) + length (tombstones reg) \<le> rg_capacity reg \<and>
     rg_capacity reg = maxLiveChallenges"

lemma registry_okD:
  assumes "registry_ok reg"
  shows "distinct (map cr_request (challenges reg))" and "distinct (map cr_addr (challenges reg))"
    and "r \<in> set (challenges reg) \<Longrightarrow> record_ok r"
    and "r \<in> set (challenges reg) \<Longrightarrow> cr_addr r < next_addr reg"
    and "slots_ok reg"
  using assms by (simp_all add: registry_ok_def)

lemma slots_okD:
  assumes "registry_ok reg"
  shows "slot_table owner (actorSlots reg) (challenges reg)"
    and "slot_table cr_target (targetSlots reg) (challenges reg)"
  using registry_okD(5) [OF assms] by (simp_all add: slots_ok_def)

lemma find_challenge_iff:
  assumes "registry_ok reg"
  shows "find_challenge reg rid = Some r \<longleftrightarrow> r \<in> set (challenges reg) \<and> cr_request r = rid"
  unfolding find_challenge_def by (rule find_key_iff [OF registry_okD(1) [OF assms]])

lemma find_challenge_None: "find_challenge reg rid = None \<longleftrightarrow> rid \<notin> set (map cr_request (challenges reg))"
  by (auto simp: find_challenge_def find_None_set)

lemma find_challengeD:
  "find_challenge reg rid = Some r \<Longrightarrow> r \<in> set (challenges reg) \<and> cr_request r = rid"
  unfolding find_challenge_def by (drule find_Some_set)

lemma deref_member:
  assumes "registry_ok reg" and "r \<in> set (challenges reg)" and "cr_addr r = cr_addr x"
  shows "deref reg x = r"
  using find_key_member [OF registry_okD(2) [OF assms(1)] assms(2)] assms(3) by (simp add: deref_def)

lemma deref_self: "registry_ok reg \<Longrightarrow> r \<in> set (challenges reg) \<Longrightarrow> deref reg r = r"
  by (rule deref_member) simp_all

lemma registered_member:
  assumes "registry_ok reg" and "registered reg (cr_request x) (cr_addr x)"
  obtains r where "r \<in> set (challenges reg)" and "cr_request r = cr_request x" and "deref reg x = r"
  using assms deref_member [OF assms(1)]
  by (auto simp: registered_def split: option.splits dest!: find_challengeD)

lemma no_tombstone: "registry_ok reg \<Longrightarrow> r \<in> set (challenges reg) \<Longrightarrow> find_tombstone reg (cr_request r) = None"
  by (auto simp: find_tombstone_def find_None_set registry_ok_def)

text \<open>One live challenge per actor and per target.\<close>

lemma one_per_actor:
  assumes "registry_ok reg" "r \<in> set (challenges reg)" "x \<in> set (challenges reg)" "owner r = owner x"
  shows "r = x"
  by (rule slot_table_unique [OF slots_okD(1) [OF assms(1)] registry_okD(1) [OF assms(1)] assms(2-4)])

lemma actor_slot:
  assumes "registry_ok reg"
  shows "slot_record reg (actorSlots reg a) = Some r \<longleftrightarrow> r \<in> set (challenges reg) \<and> owner r = a"
  unfolding slot_record_def find_challenge_def
  by (rule slot_table_find [OF slots_okD(1) [OF assms] registry_okD(1) [OF assms]])

lemma target_slot:
  assumes "registry_ok reg"
  shows "slot_record reg (targetSlots reg t) = Some r \<longleftrightarrow> r \<in> set (challenges reg) \<and> cr_target r = t"
  unfolding slot_record_def find_challenge_def
  by (rule slot_table_find [OF slots_okD(2) [OF assms] registry_okD(1) [OF assms]])

lemma free_slots:
  assumes "registry_ok reg"
  shows "slot_record reg (actorSlots reg a) = None \<Longrightarrow> actorSlots reg a = None"
    and "slot_record reg (targetSlots reg t) = None \<Longrightarrow> targetSlots reg t = None"
proof -
  note s = slots_okD [OF assms]
  show "actorSlots reg a = None" if "slot_record reg (actorSlots reg a) = None"
    using that actor_slot [OF assms, of a] slot_table_owner [OF s(1), of a] by (cases "actorSlots reg a") auto
  show "targetSlots reg t = None" if "slot_record reg (targetSlots reg t) = None"
    using that target_slot [OF assms, of t] slot_table_owner [OF s(2), of t] by (cases "targetSlots reg t") auto
qed

section \<open>Preservation\<close>

lemma at_record_ok:
  assumes ok: "registry_ok reg"
    and keeps: "\<And>x. cr_addr (f x) = cr_addr x" "\<And>x. cr_request (f x) = cr_request x" "\<And>x. cr_target (f x) = cr_target x"
    and rec: "\<And>x. x \<in> set (challenges reg) \<Longrightarrow> cr_addr x = cr_addr r \<Longrightarrow> record_ok x \<Longrightarrow> record_ok (f x)"
  shows "registry_ok (at_record r f reg)"
proof -
  have "slots_ok (at_record r f reg)"
    using registry_okD(5) [OF ok] keeps
    by (simp add: slots_ok_def at_record_def slot_table_map [where f = f] owner_def)
  moreover have "map cr_request (challenges (at_record r f reg)) = map cr_request (challenges reg)"
    "map cr_addr (challenges (at_record r f reg)) = map cr_addr (challenges reg)"
    by (simp_all add: at_record_def map_key_update_where keeps)
  moreover have "\<forall>x \<in> set (challenges (at_record r f reg)). record_ok x \<and> cr_addr x < next_addr reg"
  proof
    fix y assume "y \<in> set (challenges (at_record r f reg))"
    then obtain x where x: "x \<in> set (challenges reg)" "y = (if cr_addr x = cr_addr r then f x else x)"
      by (auto simp: at_record_def set_update_where)
    have "record_ok x" "cr_addr x < next_addr reg" using registry_okD(3,4) [OF ok x(1)] by simp_all
    then show "record_ok y \<and> cr_addr y < next_addr reg" using rec [OF x(1)] x(2) keeps(1) by (simp split: if_split)
  qed
  moreover have "tombstones (at_record r f reg) = tombstones reg" "rg_capacity (at_record r f reg) = rg_capacity reg"
    "next_addr (at_record r f reg) = next_addr reg" "length (challenges (at_record r f reg)) = length (challenges reg)"
    by (simp_all add: at_record_def)
  ultimately show ?thesis using ok unfolding registry_ok_def by (simp add: at_record_def)
qed

text \<open>Storing the changed record through its pointer is a change at the pointer.\<close>

lemma put_record_at:
  assumes "registry_ok reg" "r \<in> set (challenges reg)" "cr_addr (f r) = cr_addr r"
  shows "put_record (f r) reg = at_record r f reg"
proof -
  have "update_where (\<lambda>x. cr_addr x = cr_addr r) (\<lambda>_. f r) (challenges reg)
      = update_where (\<lambda>x. cr_addr x = cr_addr r) f (challenges reg)"
    by (rule update_where_cong) (use distinct_key_unique [OF registry_okD(2) [OF assms(1)] _ assms(2)] in auto)
  then show ?thesis by (simp add: put_record_def at_record_def assms(3))
qed

lemma put_record_ok:
  assumes "registry_ok reg" "r \<in> set (challenges reg)"
    and "\<And>x. cr_addr (f x) = cr_addr x" "\<And>x. cr_request (f x) = cr_request x" "\<And>x. cr_target (f x) = cr_target x"
    and "record_ok r \<Longrightarrow> record_ok (f r)"
  shows "registry_ok (put_record (f r) reg)"
proof -
  have "registry_ok (at_record r f reg)"
    by (rule at_record_ok [OF assms(1,3,4,5)])
      (use assms distinct_key_unique [OF registry_okD(2) [OF assms(1)] _ assms(2)] in blast)
  then show ?thesis by (simp add: put_record_at [OF assms(1,2)] assms(3))
qed

lemma tombstones_filter_ok: "registry_ok reg \<Longrightarrow> registry_ok (reg\<lparr>tombstones := filter p (tombstones reg)\<rparr>)"
proof -
  assume ok: "registry_ok reg"
  have "length (challenges reg) + length (filter p (tombstones reg)) \<le> rg_capacity reg"
    using ok by (meson add_le_cancel_left length_filter_le order_trans registry_ok_def)
  then show ?thesis using ok by (simp add: registry_ok_def slots_ok_def distinct_map_filter)
qed

lemma cleanup_ok: "registry_ok reg \<Longrightarrow> registry_ok (cleanup now reg)"
  unfolding cleanup_def by (rule tombstones_filter_ok)

lemma clearTombstones_ok: "registry_ok reg \<Longrightarrow> registry_ok (clearTombstones reg)"
  using tombstones_filter_ok [of reg "\<lambda>_. False"] by (simp add: clearTombstones_def)

lemma closeAdmission_ok: "registry_ok reg \<Longrightarrow> registry_ok (closeAdmission reg)"
  by (simp add: registry_ok_def slots_ok_def closeAdmission_def)

lemma create_ok:
  assumes ok: "registry_ok reg" and rid: "usable_request reg rid" and room: "length (challenges reg) + length (tombstones reg) < rg_capacity reg"
    and free: "actorSlots reg (target_operator target) = None" "targetSlots reg target = None"
    and actor: "target_operator target \<noteq> nil_uuid"
  shows "registry_ok (fst (create_challenge rid target phone expires reg))"
proof -
  define r where "r = new_record (next_addr reg) rid target phone expires"
  have r: "cr_request r = rid" "cr_addr r = next_addr reg" "cr_target r = target" "owner r = target_operator target"
    "record_ok r" using rid actor by (simp_all add: r_def new_record_def owner_def record_ok_def usable_request_def)
  have new: "rid \<notin> set (map cr_request (challenges reg))" "rid \<notin> set (map ts_request (tombstones reg))"
    using rid by (auto simp: usable_request_def find_challenge_None find_tombstone_def find_None_set)
  have eq: "fst (create_challenge rid target phone expires reg) = reg\<lparr>challenges := challenges reg @ [r],
        actorSlots := (actorSlots reg)(target_operator target := Some rid),
        targetSlots := (targetSlots reg)(target := Some rid), next_addr := Suc (next_addr reg)\<rparr>"
    by (simp add: create_challenge_def Let_def r_def)
  have "slots_ok (fst (create_challenge rid target phone expires reg))"
    using registry_okD(5) [OF ok] free slot_table_add [of owner "actorSlots reg" "challenges reg" r]
      slot_table_add [of cr_target "targetSlots reg" "challenges reg" r]
    unfolding eq slots_ok_def by (simp add: r)
  then show ?thesis using ok r new room unfolding eq registry_ok_def
    by (auto simp: less_Suc_eq image_iff)
qed

lemma removeLocked_eq:
  assumes ok: "registry_ok reg" and reg': "registered reg (cr_request r) (cr_addr r)"
  shows "removeLocked r reg = (reg\<lparr>challenges := filter (\<lambda>x. cr_request x \<noteq> cr_request r) (challenges reg),
     actorSlots := (actorSlots reg)(owner (deref reg r) := None),
     targetSlots := (targetSlots reg)(cr_target (deref reg r) := None)\<rparr>, True)"
proof -
  obtain x where x: "x \<in> set (challenges reg)" "cr_request x = cr_request r" "deref reg r = x"
    using registered_member [OF ok reg'] by blast
  have "actorSlots reg (owner x) = Some (cr_request r)" "targetSlots reg (cr_target x) = Some (cr_request r)"
    using registry_okD(5) [OF ok] slot_table_Some x(1,2) by (metis slots_ok_def)+
  then show ?thesis using reg' x by (simp add: removeLocked_def Let_def owner_def)
qed

lemma removeLocked_ok:
  assumes ok: "registry_ok reg"
  shows "registry_ok (fst (removeLocked r reg))"
proof (cases "registered reg (cr_request r) (cr_addr r)")
  case True
  obtain x where x: "x \<in> set (challenges reg)" "cr_request x = cr_request r" "deref reg r = x"
    using registered_member [OF ok True] by blast
  have "slots_ok (fst (removeLocked r reg))"
    using slot_table_remove [OF slots_okD(1) [OF ok] registry_okD(1) [OF ok] x(1)]
      slot_table_remove [OF slots_okD(2) [OF ok] registry_okD(1) [OF ok] x(1)]
    by (simp add: removeLocked_eq [OF ok True] slots_ok_def x)
  moreover have "length (filter (\<lambda>x. cr_request x \<noteq> cr_request r) (challenges reg)) + length (tombstones reg)
      \<le> rg_capacity reg"
    using ok by (meson add_le_mono1 length_filter_le order_trans registry_ok_def)
  ultimately show ?thesis using ok
    unfolding registry_ok_def by (auto simp: removeLocked_eq [OF ok True] distinct_map_filter)
qed (use ok in \<open>simp add: removeLocked_def\<close>)

lemma removeWithTombstone_ok:
  assumes ok: "registry_ok reg"
  shows "registry_ok (removeWithTombstone now r account aborted reg)"
proof (cases "registered reg (cr_request r) (cr_addr r)")
  case True
  obtain x where x: "x \<in> set (challenges reg)" "cr_request x = cr_request r"
    using registered_member [OF ok True] by blast
  define reg1 where "reg1 = fst (removeLocked r reg)"
  have ok1: "registry_ok reg1" unfolding reg1_def by (rule removeLocked_ok [OF ok])
  have eq: "removeLocked r reg = (reg1, True)" by (simp add: removeLocked_eq [OF ok True] reg1_def)
  have c: "challenges reg1 = filter (\<lambda>x. cr_request x \<noteq> cr_request r) (challenges reg)"
    "tombstones reg1 = tombstones reg" "rg_capacity reg1 = rg_capacity reg"
    by (simp_all add: reg1_def removeLocked_eq [OF ok True])
  have less: "length (challenges reg1) < length (challenges reg)"
    unfolding c by (rule length_filter_less [OF x(1)]) (simp add: x(2))
  have le: "length (filter (\<lambda>t. ts_request t \<noteq> cr_request r) (tombstones reg)) \<le> length (tombstones reg)"
    by (rule length_filter_le)
  have "length (challenges reg) + length (tombstones reg) \<le> rg_capacity reg"
    using ok by (simp add: registry_ok_def)
  then have len: "length (challenges reg1)
      + Suc (length (filter (\<lambda>t. ts_request t \<noteq> cr_request r) (tombstones reg))) \<le> rg_capacity reg"
    using less le by linarith
  have "cr_request r \<notin> set (map cr_request (challenges reg1))" by (auto simp: c)
  then show ?thesis using ok1 len unfolding removeWithTombstone_def eq registry_ok_def
    by (auto simp: c slots_ok_def distinct_map_filter)
qed (use ok in \<open>simp add: removeWithTombstone_def removeLocked_def\<close>)

section \<open>The registry functions\<close>

lemma shorten_expiry_ok: "record_ok r \<Longrightarrow> record_ok (r\<lparr>cr_expires := e\<rparr>)"
  by (simp add: record_ok_def owner_def)

lemma put_expiry_ok:
  assumes "registry_ok reg" "r \<in> set (challenges reg)"
  shows "registry_ok (put_record (r\<lparr>cr_expires := e\<rparr>) reg)"
  using assms put_record_ok [where f = "\<lambda>x. x\<lparr>cr_expires := e\<rparr>", OF assms] by (simp add: shorten_expiry_ok)

lemma put_same_ok:
  assumes "registry_ok reg" "r \<in> set (challenges reg)"
  shows "registry_ok (put_record r reg)"
  using put_record_ok [where f = "\<lambda>x. x", OF assms] by simp

lemma Prepare_ok:
  assumes ok: "registry_ok reg" and draw: "usable_request (cleanup now reg) (draw (cleanup now reg))"
  shows "registry_ok (fst (Prepare c now draw target phone expires reg))"
proof -
  define R where "R = cleanup now reg"
  have okR: "registry_ok R" unfolding R_def by (rule cleanup_ok [OF ok])
  have resumed: "registry_ok (put_record (r\<lparr>cr_expires := e\<rparr>) R)" "registry_ok (put_record r R)"
    if "slot_record R (targetSlots R target) = Some r" for r e
    using that target_slot [OF okR] put_expiry_ok [OF okR] put_same_ok [OF okR] by simp_all
  have created: "registry_ok (fst (create_challenge (draw R) target phone expires R))"
    if "validateTarget target = None" "slot_record R (targetSlots R target) = None"
      "slot_record R (actorSlots R (target_operator target)) = None"
      "\<not> rg_capacity R \<le> length (challenges R) + length (tombstones R)"
    using that create_ok [OF okR] free_slots [OF okR] draw
    by (auto simp: R_def validateTarget_def split: if_splits)
  show ?thesis unfolding Prepare_def R_def [symmetric] Let_def
    using ok okR resumed created by (simp split: option.splits prod.splits) auto
qed

lemma attach_ok:
  assumes ok: "registry_ok reg" and r: "r \<in> set (challenges reg)"
  shows "registry_ok (fst (attach now sent r reg))"
proof -
  have "registry_ok (put_record (r\<lparr>cr_expires := e, cr_hash := sc_hash sent, cr_delivery := d, cr_ready := True\<rparr>) reg)"
    if "sc_hash sent \<noteq> []" for e d
    by (rule put_record_ok [where f = "\<lambda>x. x\<lparr>cr_expires := e, cr_hash := sc_hash sent, cr_delivery := d, cr_ready := True\<rparr>", OF ok r])
      (use that in \<open>simp_all add: record_ok_def owner_def\<close>)
  then show ?thesis using ok put_expiry_ok [OF ok r] by (simp add: attach_def Let_def)
qed

lemma commit_ok:
  assumes ok: "registry_ok reg"
  shows "registry_ok (fst (commit c now rv sent reg))"
proof -
  have "registry_ok (fst (attach now sent (deref reg x) reg))" if "registered reg (cr_request x) (cr_addr x)" for x
    using registered_member [OF ok that] attach_ok [OF ok] by metis
  then show ?thesis using ok by (simp add: commit_def split: option.splits)
qed

lemma rollback_ok: "registry_ok reg \<Longrightarrow> registry_ok (fst (rollback c rv reg))"
  by (auto simp: rollback_def removeLocked_ok split: option.splits)

lemma Remove_ok: "registry_ok reg \<Longrightarrow> registry_ok (fst (Remove c actor rid reg))"
  by (auto simp: Remove_def removeLocked_ok split: option.splits)

lemma clearShutdownState_ok:
  assumes ok: "registry_ok reg"
  shows "registry_ok (clearShutdownState ch reg)"
proof -
  define clear where "clear = (\<lambda>r :: challengeRecord. r\<lparr>cr_phone := [], cr_delivery := [], cr_stage := OtherStage [], cr_expires := zero_time,
                cr_hash := [], cr_ready := False, cr_codeAttempts := 0, cr_passwordAttempts := 0,
                cr_pendingProfile := None\<rparr>)"
  have "registry_ok (put_record (clear r) reg)" if "r \<in> set (challenges reg)" for r
    by (rule put_record_ok [where f = clear, OF ok that]) (simp_all add: clear_def record_ok_def owner_def)
  then show ?thesis using ok
    by (auto simp: clearShutdownState_def clear_def split: option.splits dest!: find_challengeD)
qed

lemma registry_Status_ok: "registry_ok reg \<Longrightarrow> registry_ok (fst (registry_Status c now actor reg))"
  by (auto simp: registry_Status_def cleanup_ok Let_def split: option.splits)

lemma ReserveCodeAttempt_ok:
  assumes ok: "registry_ok reg"
  shows "registry_ok (fst (ReserveCodeAttempt r reg))"
proof (cases "maxCodeAttempts \<le> cr_codeAttempts (deref reg r)")
  case False
  have "registry_ok (at_record r (\<lambda>x. x\<lparr>cr_codeAttempts := Suc (cr_codeAttempts x)\<rparr>) reg)"
    by (rule at_record_ok [OF ok])
      (use False deref_member [OF ok] in \<open>auto simp: record_ok_def owner_def not_le Suc_le_eq\<close>)
  then show ?thesis using False by (simp add: ReserveCodeAttempt_def)
qed (use ok in \<open>simp add: ReserveCodeAttempt_def\<close>)

lemma ReservePasswordAttempt_ok:
  assumes ok: "registry_ok reg"
  shows "registry_ok (fst (ReservePasswordAttempt r reg))"
proof (cases "maxPasswordAttempts \<le> cr_passwordAttempts (deref reg r)")
  case False
  have "registry_ok (at_record r (\<lambda>x. x\<lparr>cr_passwordAttempts := Suc (cr_passwordAttempts x)\<rparr>) reg)"
    by (rule at_record_ok [OF ok])
      (use False deref_member [OF ok] in \<open>auto simp: record_ok_def owner_def not_le Suc_le_eq\<close>)
  then show ?thesis using False by (simp add: ReservePasswordAttempt_def)
qed (use ok in \<open>simp add: ReservePasswordAttempt_def\<close>)

lemma SetPendingProfile_ok: "registry_ok reg \<Longrightarrow> registry_ok (SetPendingProfile p r reg)"
  unfolding SetPendingProfile_def by (rule at_record_ok) (simp_all add: record_ok_def owner_def)

lemma SetStage_ok: "registry_ok reg \<Longrightarrow> registry_ok (fst (SetStage st r reg))"
proof -
  assume ok: "registry_ok reg"
  have "registry_ok (at_record r (\<lambda>x. x\<lparr>cr_stage := st\<rparr>) reg)"
    by (rule at_record_ok [OF ok]) (simp_all add: record_ok_def owner_def)
  then show ?thesis using ok by (simp add: SetStage_def)
qed

lemmas registry_ok_intros = Prepare_ok commit_ok rollback_ok Remove_ok clearShutdownState_ok
  registry_Status_ok ReserveCodeAttempt_ok ReservePasswordAttempt_ok SetPendingProfile_ok SetStage_ok
  removeWithTombstone_ok clearTombstones_ok closeAdmission_ok

section \<open>The registry as a state machine\<close>

text \<open>Every function the service calls on the registry, at any time, with any context and arguments.\<close>

inductive registry_work :: "challengeRegistry \<Rightarrow> challengeRegistry \<Rightarrow> bool" where
  commits: "registry_work reg (fst (commit c now rv sent reg))"
| rolls_back: "registry_work reg (fst (rollback c rv reg))"
| removes: "registry_work reg (fst (Remove c actor rid reg))"
| looks: "registry_work reg (fst (registry_Status c now actor reg))"
| code_attempt: "registry_work reg (fst (ReserveCodeAttempt r reg))"
| password_attempt: "registry_work reg (fst (ReservePasswordAttempt r reg))"
| profile: "registry_work reg (SetPendingProfile p r reg)"
| stage: "registry_work reg (fst (SetStage st r reg))"
| ends: "registry_work reg (removeWithTombstone now r account aborted reg)"
| clears: "registry_work reg (clearShutdownState ch reg)"
| forgets: "registry_work reg (clearTombstones reg)"
| closes: "registry_work reg (closeAdmission reg)"

inductive registry_step :: "challengeRegistry \<Rightarrow> challengeRegistry \<Rightarrow> bool" where
  prepare: "usable_request (cleanup now reg) (draw (cleanup now reg)) \<Longrightarrow>
    registry_step reg (fst (Prepare c now draw target phone expires reg))"
| work: "registry_work reg reg' \<Longrightarrow> registry_step reg reg'"

definition fresh_registry :: "challengeRegistry \<Rightarrow> bool" where
  "fresh_registry reg \<longleftrightarrow> (\<exists>ttl. reg = newChallengeRegistry ttl)"

lemma fresh_registry_ok: "fresh_registry reg \<Longrightarrow> registry_ok reg"
  by (auto simp: fresh_registry_def newChallengeRegistry_def registry_ok_def slots_ok_def slot_table_def)

lemma registry_work_ok: "registry_ok reg \<Longrightarrow> registry_work reg reg' \<Longrightarrow> registry_ok reg'"
  by (auto elim!: registry_work.cases intro: registry_ok_intros)

lemma registry_step_ok: "registry_ok reg \<Longrightarrow> registry_step reg reg' \<Longrightarrow> registry_ok reg'"
  by (auto elim!: registry_step.cases intro: Prepare_ok registry_work_ok)

text \<open>Only \<open>Prepare\<close> registers a challenge; no function changes the target of one.\<close>

definition targets :: "challengeRegistry \<Rightarrow> RuntimeTarget set" where
  "targets reg = cr_target ` set (challenges reg)"

lemma targets_at_record: "(\<And>x. cr_target (f x) = cr_target x) \<Longrightarrow> targets (at_record r f reg) = targets reg"
proof -
  assume "\<And>x. cr_target (f x) = cr_target x"
  then have "map cr_target (challenges (at_record r f reg)) = map cr_target (challenges reg)"
    by (simp add: at_record_def map_key_update_where)
  then show ?thesis unfolding targets_def by (metis set_map)
qed

lemma targets_put_record:
  assumes "registry_ok reg" "r \<in> set (challenges reg)" "cr_addr (f r) = cr_addr r" "\<And>x. cr_target (f x) = cr_target x"
  shows "targets (put_record (f r) reg) = targets reg"
  by (simp add: put_record_at [where f = f and r = r, OF assms(1-3)] targets_at_record assms(4))

lemma targets_removeLocked: "targets (fst (removeLocked r reg)) \<subseteq> targets reg"
  by (auto simp: removeLocked_def targets_def Let_def)

lemma targets_simps [simp]:
  "targets (reg\<lparr>tombstones := ts\<rparr>) = targets reg" "targets (reg\<lparr>rg_closed := b\<rparr>) = targets reg"
  by (simp_all add: targets_def)

lemma targets_removeWithTombstone: "targets (removeWithTombstone now r account aborted reg) \<subseteq> targets reg"
  using targets_removeLocked [of r reg] by (auto simp: removeWithTombstone_def split: prod.split bool.split)

lemma targets_cleanup [simp]: "targets (cleanup now reg) = targets reg"
  by (simp add: cleanup_def)

lemma targets_attach:
  assumes "registry_ok reg" "r \<in> set (challenges reg)"
  shows "targets (fst (attach now sent r reg)) = targets reg"
  using targets_put_record [where f = "\<lambda>x. x\<lparr>cr_expires := e\<rparr>" for e, OF assms]
    targets_put_record [where f = "\<lambda>x. x\<lparr>cr_expires := e, cr_hash := sc_hash sent, cr_delivery := d, cr_ready := True\<rparr>" for e d, OF assms]
  by (simp add: attach_def Let_def)

lemma targets_commit:
  assumes ok: "registry_ok reg"
  shows "targets (fst (commit c now rv sent reg)) = targets reg"
proof -
  have "targets (fst (attach now sent (deref reg x) reg)) = targets reg" if "registered reg (cr_request x) (cr_addr x)" for x
    using registered_member [OF ok that] targets_attach [OF ok] by metis
  then show ?thesis by (simp add: commit_def split: option.split)
qed

lemma targets_clear:
  assumes "registry_ok reg"
  shows "targets (clearShutdownState ch reg) = targets reg"
  using targets_put_record [where f = "\<lambda>r. r\<lparr>cr_phone := [], cr_delivery := [], cr_stage := OtherStage [], cr_expires := zero_time,
                cr_hash := [], cr_ready := False, cr_codeAttempts := 0, cr_passwordAttempts := 0,
                cr_pendingProfile := None\<rparr>", OF assms]
  by (auto simp: clearShutdownState_def split: option.split dest!: find_challengeD)

lemma registry_work_targets:
  assumes "registry_ok reg" "registry_work reg reg'"
  shows "targets reg' \<subseteq> targets reg"
  using assms(2)
proof cases
  case (removes c actor rid)
  then show ?thesis using targets_removeLocked by (auto simp: Remove_def split: option.splits if_splits)
next
  case (rolls_back c rv)
  then show ?thesis using targets_removeLocked by (auto simp: rollback_def split: option.splits if_splits)
next
  case (ends now r account aborted)
  then show ?thesis using targets_removeWithTombstone by simp
qed (simp_all add: targets_commit targets_clear assms(1) registry_Status_def Let_def ReserveCodeAttempt_def
    ReservePasswordAttempt_def SetPendingProfile_def SetStage_def targets_at_record clearTombstones_def
    closeAdmission_def split: option.split)

lemma Prepare_targets:
  assumes ok: "registry_ok reg"
  shows "targets (fst (Prepare c now draw target phone expires reg)) \<subseteq> insert target (targets reg)"
proof -
  define R where "R = cleanup now reg"
  have okR: "registry_ok R" unfolding R_def by (rule cleanup_ok [OF ok])
  have tR: "targets R = targets reg" by (simp add: R_def)
  have resumed: "targets (put_record (r\<lparr>cr_expires := e\<rparr>) R) = targets R" "targets (put_record r R) = targets R"
    if "slot_record R (targetSlots R target) = Some r" for r e
    using that target_slot [OF okR] targets_put_record [where f = "\<lambda>x. x\<lparr>cr_expires := e\<rparr>", OF okR]
      targets_put_record [where f = "\<lambda>x. x", OF okR] by simp_all
  have created: "targets (fst (create_challenge rid target phone expires R)) = insert target (targets R)" for rid
    by (simp add: create_challenge_def Let_def targets_def new_record_def)
  show ?thesis unfolding Prepare_def R_def [symmetric] Let_def
    using resumed created [unfolded create_challenge_def Let_def] tR
    by (auto simp: create_challenge_def Let_def split: option.splits if_splits)
qed

interpretation registry: invariant_system fresh_registry registry_step registry_ok
  by unfold_locales (fact fresh_registry_ok, rule registry_step_ok)

text \<open>C22: Whatever calls reach the challenge registry, it stays consistent: an operator has at most
  one live challenge and finds it through its slot, live challenges and terminal results together
  never exceed 4096, no request is both live and terminal, no challenge has used more than five code
  or five password attempts, and a challenge is ready for a code exactly when it holds Telegram's
  phone-code hash.\<close>

theorem registry_consistent:
  assumes "reachable fresh_registry registry_step reg"
  shows "(\<forall>r \<in> set (challenges reg).
        slot_record reg (actorSlots reg (owner r)) = Some r \<and> slot_record reg (targetSlots reg (cr_target r)) = Some r
        \<and> find_challenge reg (cr_request r) = Some r \<and> find_tombstone reg (cr_request r) = None
        \<and> cr_codeAttempts r \<le> 5 \<and> cr_passwordAttempts r \<le> 5 \<and> (cr_ready r \<longleftrightarrow> cr_hash r \<noteq> [])
        \<and> owner r \<noteq> nil_uuid \<and> cr_request r \<noteq> nil_uuid)
    \<and> distinct (map owner (challenges reg))
    \<and> length (challenges reg) + length (tombstones reg) \<le> 4096"
proof -
  have ok: "registry_ok reg" by (rule registry.inv_reachable [OF assms])
  have "slot_record reg (actorSlots reg (owner r)) = Some r \<and> slot_record reg (targetSlots reg (cr_target r)) = Some r
      \<and> find_challenge reg (cr_request r) = Some r \<and> find_tombstone reg (cr_request r) = None
      \<and> record_ok r" if r: "r \<in> set (challenges reg)" for r
    using r registry_okD(3) [OF ok r] no_tombstone [OF ok r]
    by (simp add: actor_slot [OF ok] target_slot [OF ok] find_challenge_iff [OF ok])
  moreover have "distinct (map owner (challenges reg))"
    using registry_okD(1) [OF ok] one_per_actor [OF ok] by (auto simp: distinct_map inj_on_def)
  moreover have "length (challenges reg) + length (tombstones reg) \<le> 4096"
    using ok by (simp add: registry_ok_def maxLiveChallenges_def)
  ultimately show ?thesis by (simp add: record_ok_def maxCodeAttempts_def maxPasswordAttempts_def)
qed

section \<open>Request identifiers\<close>

definition unusable :: "challengeRegistry \<Rightarrow> uuid set" where
  "unusable reg = {nil_uuid} \<union> set (map cr_request (challenges reg)) \<union> set (map ts_request (tombstones reg))"

lemma usable_iff: "usable_request reg rid \<longleftrightarrow> rid \<notin> unusable reg"
  by (auto simp: usable_request_def unusable_def find_challenge_None find_tombstone_def find_None_set)

lemma finite_unusable: "finite (unusable reg)"
  by (simp add: unusable_def)

lemma card_unusable: "card (unusable reg) \<le> Suc (length (challenges reg) + length (tombstones reg))"
proof -
  have "unusable reg = set (nil_uuid # map cr_request (challenges reg) @ map ts_request (tombstones reg))"
    by (auto simp: unusable_def)
  then show ?thesis using card_length [of "nil_uuid # map cr_request (challenges reg) @ map ts_request (tombstones reg)"]
    by simp
qed

lemma some_draw_usable:
  assumes "inj_on gen {n..n + Suc (length (challenges reg) + length (tombstones reg))}"
  shows "\<exists>k \<le> Suc (length (challenges reg) + length (tombstones reg)). usable_request reg (gen (n + k))"
proof (rule ccontr)
  let ?N = "Suc (length (challenges reg) + length (tombstones reg))"
  let ?draws = "(\<lambda>k. gen (n + k)) ` {..?N}"
  assume none: "\<not> ?thesis"
  have "?draws \<subseteq> unusable reg"
  proof
    fix x assume "x \<in> ?draws"
    then obtain k where "k \<le> ?N" "x = gen (n + k)" by auto
    then show "x \<in> unusable reg" using none usable_iff by blast
  qed
  then have "card ?draws \<le> ?N" by (rule order_trans [OF card_mono [OF finite_unusable] card_unusable])
  moreover have "inj_on (\<lambda>k. gen (n + k)) {..?N}"
  proof (rule inj_onI)
    fix i j assume "gen (n + i) = gen (n + j)"
    moreover assume "i \<in> {..?N}" "j \<in> {..?N}"
    ultimately have "n + i = n + j" using inj_onD [OF assms, of "n + i" "n + j"] by simp
    then show "i = j" by simp
  qed
  then have "card ?draws = Suc ?N" by (simp add: card_image)
  ultimately show False by simp
qed

lemma nextRequestID_finds:
  "usable_request reg (gen (n + k)) \<Longrightarrow> \<forall>j < k. \<not> usable_request reg (gen (n + j)) \<Longrightarrow>
    nextRequestID gen n reg = Some (gen (n + k))"
proof (induction k arbitrary: n)
  case (Suc k)
  have "\<not> usable_request reg (gen n)" using Suc.prems(2) by (metis Nat.add_0_right zero_less_Suc)
  moreover have "nextRequestID gen (Suc n) reg = Some (gen (Suc n + k))"
    using Suc.prems by (intro Suc.IH) auto
  ultimately show ?case by (simp add: nextRequestID.simps)
qed (simp add: nextRequestID.simps)

lemma nextRequestID_returns:
  assumes "inj_on gen {n..n + Suc (length (challenges reg) + length (tombstones reg))}"
  shows "\<exists>k \<le> Suc (length (challenges reg) + length (tombstones reg)).
    nextRequestID gen n reg = Some (gen (n + k)) \<and> usable_request reg (gen (n + k))"
proof -
  obtain k where k: "usable_request reg (gen (n + k))" "k \<le> Suc (length (challenges reg) + length (tombstones reg))"
    using some_draw_usable [OF assms] by blast
  define l where "l = (LEAST k. usable_request reg (gen (n + k)))"
  have l: "usable_request reg (gen (n + l))" unfolding l_def by (rule LeastI [of _ k], rule k(1))
  have "\<forall>j < l. \<not> usable_request reg (gen (n + j))" unfolding l_def by (auto dest: not_less_Least)
  then have "nextRequestID gen n reg = Some (gen (n + l))" by (rule nextRequestID_finds [where gen = gen and n = n and k = l, OF l])
  moreover have "l \<le> k" unfolding l_def by (rule Least_le) (rule k(1))
  ultimately show ?thesis using l k(2) by (intro exI [of _ l]) simp
qed

text \<open>C29: The loop that draws a request identifier always ends: with a generator that does not
  repeat itself within as many draws as there are live and terminal requests plus two, it returns
  within those draws,
  and the identifier it returns is not nil, not a live request and not a terminal one.\<close>

theorem nextRequestID_terminates:
  assumes "inj_on gen {n..n + Suc (length (challenges reg) + length (tombstones reg))}"
  shows "\<exists>k \<le> Suc (length (challenges reg) + length (tombstones reg)).
    nextRequestID gen n reg = Some (gen (n + k)) \<and> gen (n + k) \<noteq> nil_uuid
    \<and> find_challenge reg (gen (n + k)) = None \<and> find_tombstone reg (gen (n + k)) = None"
  using nextRequestID_returns [OF assms] by (simp add: usable_request_def conj_assoc)

section \<open>A concrete registry\<close>

definition demo_target :: RuntimeTarget where
  "demo_target = \<lparr>target_operator = 1, target_account = 20, target_status = Authenticating, target_version = 2\<rparr>"

definition demo_code :: SendCodeResult where
  "demo_code = \<lparr>sc_hash = [97], sc_delivery = [], sc_expires = zero_time\<rparr>"

definition reserved_registry :: challengeRegistry where
  "reserved_registry = fst (Prepare LiveContext 5 (\<lambda>_. 7) demo_target [43] 100 (newChallengeRegistry 600))"

lemma demo_usable: "usable_request (cleanup now (newChallengeRegistry ttl)) 7"
  by (simp add: usable_request_def cleanup_def newChallengeRegistry_def find_challenge_def find_tombstone_def)

lemma demo_registry_reachable: "reachable fresh_registry registry_step reserved_registry"
  unfolding reserved_registry_def
  by (rule reachable.later, rule reachable.initial, simp add: fresh_registry_def, rule exI, rule refl,
      rule registry_step.prepare, rule demo_usable)

lemma reserved_challenges: "challenges reserved_registry = [new_record 0 7 demo_target [43] 100]"
  by (simp add: reserved_registry_def Prepare_def context_error_def validateTarget_def demo_target_def TrimSpace_def
      is_space_def newChallengeRegistry_def slot_record_def cleanup_def Let_def create_challenge_def maxLiveChallenges_def)

theorem registry_consistent_witness:
  "slot_record reserved_registry (actorSlots reserved_registry 1) = Some (new_record 0 7 demo_target [43] 100)"
  using registry_consistent [OF demo_registry_reachable] by (simp add: reserved_challenges new_record_def owner_def demo_target_def)

theorem nextRequestID_terminates_witness:
  "\<exists>k \<le> Suc 0. nextRequestID word_of_nat 0 (newChallengeRegistry 600) = Some (word_of_nat k)"
proof -
  have "inj_on (word_of_nat :: nat \<Rightarrow> uuid) {0..0 + Suc (length (challenges (newChallengeRegistry 600))
      + length (tombstones (newChallengeRegistry 600)))}"
    by (auto simp: inj_on_def newChallengeRegistry_def le_Suc_eq)
  from nextRequestID_terminates [OF this] show ?thesis by (auto simp: newChallengeRegistry_def)
qed

end
