(* ===== verification/Service_Answers.thy ===== *)
theory Service_Answers
  imports Auth_Service Registry_Invariant Account_Properties
begin

text \<open>
  What the authentication service answers: the phone it accepts, the failure it reports, the shape of
  a successful result, and the bounds of its admission stripes. None of it depends on what the ports do.
\<close>

section \<open>Phones\<close>

definition plain_space :: "rune \<Rightarrow> rune" where
  "plain_space c = (if is_space c then 32 else c)"

lemma is_space_plain [simp]: "is_space (plain_space c) = is_space c"
  by (simp add: plain_space_def is_space_def)

lemma TrimSpace_plain: "TrimSpace (map plain_space phone) = map plain_space (TrimSpace phone)"
  by (simp add: TrimSpace_def dropWhile_map rev_map o_def)

lemma phone_runes_plain: "phone_runes first (map plain_space cs) = auth_phone_runes first cs"
proof (induction cs arbitrary: first)
  case (Cons c cs)
  show ?case
  proof (cases "is_space c")
    case True
    then have "\<not> ascii_digit c" "c \<noteq> 43" by (auto simp: is_space_def ascii_digit_def)
    moreover have "\<not> ascii_digit (32 :: rune)" "plain_space c = 32"
      using True by (simp_all add: ascii_digit_def plain_space_def)
    ultimately show ?thesis using True Cons by simp
  next
    case False
    then have "c \<noteq> 32" by (auto simp: is_space_def)
    then show ?thesis using False Cons by (simp add: plain_space_def)
  qed
qed simp

lemma plain_phone: "phone_check v \<Longrightarrow> map plain_space v = v"
proof -
  assume "phone_check v"
  then obtain d rest where v: "v = 43 # d # rest" "49 \<le> d" "d \<le> 57" "list_all ascii_digit rest"
    by (auto simp: phone_check_def split: list.splits)
  have "plain_space c = c" if "ascii_digit c" for c
    using digit_not_space [OF that] by (simp add: plain_space_def)
  moreover have "ascii_digit d" using v(2,3) by (simp add: ascii_digit_def)
  ultimately show ?thesis using v(1,4) by (induction rest) (auto simp: plain_space_def is_space_def list_all_iff intro: map_idI)
qed

lemma phone_both:
  "auth_normalizePhone phone = (case normalizePhone (map plain_space phone) of
       Returns v \<Rightarrow> Inr v | _ \<Rightarrow> Inl (Sentinel AuthErrInvalidInput))
   \<and> (case auth_normalizePhone phone of
       Inl e \<Rightarrow> e = Sentinel AuthErrInvalidInput
     | Inr v \<Rightarrow> normalizePhone v = Returns v \<and> auth_normalizePhone v = Inr v \<and> phone_check v)"
proof -
  have eq: "auth_normalizePhone p = (case normalizePhone (map plain_space p) of
      Returns v \<Rightarrow> Inr v | _ \<Rightarrow> Inl (Sentinel AuthErrInvalidInput))" for p
    by (auto simp: auth_normalizePhone_def normalizePhone_def TrimSpace_plain phone_runes_plain Let_def
        check_digits_def split: option.split)
  have "normalizePhone v = Returns v \<and> auth_normalizePhone v = Inr v \<and> phone_check v"
    if "auth_normalizePhone phone = Inr v" for v
  proof -
    have "normalizePhone (map plain_space phone) = Returns v"
      using that by (simp add: eq split: outcome.splits)
    then have v: "phone_check v" "normalizePhone v = Returns v"
      using phone_canonical by blast+
    have "map plain_space v = v" using v(1) by (rule plain_phone)
    then show ?thesis using v by (simp add: eq)
  qed
  moreover have "auth_normalizePhone phone = Inl e \<Longrightarrow> e = Sentinel AuthErrInvalidInput" for e
    using eq [of phone] by (simp split: outcome.splits)
  ultimately have "case auth_normalizePhone phone of Inl e \<Rightarrow> e = Sentinel AuthErrInvalidInput
     | Inr v \<Rightarrow> normalizePhone v = Returns v \<and> auth_normalizePhone v = Inr v \<and> phone_check v"
    by (simp split: sum.split)
  then show ?thesis using eq [of phone] by blast
qed

lemma phone_agreement:
  "auth_normalizePhone phone = Inr v \<Longrightarrow> normalizePhone v = Returns v \<and> auth_normalizePhone v = Inr v \<and> phone_check v"
  using conjunct2 [OF phone_both [of phone]] by simp

text \<open>C28: The service and the store normalise phones alike. What the service computes is what the store
  computes for the phone with every Unicode space replaced by a plain one, and a phone the service has
  normalised satisfies the table's constraint and passes the store unchanged, so the phone a challenge
  is created with is the phone of the account row.\<close>

theorem auth_normalizePhone_agrees:
  "auth_normalizePhone phone = (case normalizePhone (map plain_space phone) of
       Returns v \<Rightarrow> Inr v | _ \<Rightarrow> Inl (Sentinel AuthErrInvalidInput))
   \<and> (case auth_normalizePhone phone of
       Inl e \<Rightarrow> e = Sentinel AuthErrInvalidInput
     | Inr v \<Rightarrow> normalizePhone v = Returns v \<and> auth_normalizePhone v = Inr v \<and> phone_check v)"
  by (rule phone_both)

section \<open>Failures\<close>

text \<open>The failures the service reports to its caller.\<close>

definition reported_failures :: "duration \<Rightarrow> go_error set" where
  "reported_failures remaining =
     Sentinel ` {ErrCanceled, ErrDeadlineExceeded, ErrChallengeExpired, ErrInvalidCode, ErrInvalidPassword,
       ErrPasswordRequired, ErrUnauthorized, ErrSessionUnavailable, ErrProviderUnavailable,
       ErrProviderTransient, AuthErrFloodWait}
     \<union> {RetryAfterError d |d. 0 < d \<and> d \<le> remaining}
     \<union> {ProviderFailureError (Some k) |k. validProviderFailureKind k}"

lemma retry_afters_is: "d \<in> set (retry_afters e) \<Longrightarrow> errors_is e AuthErrFloodWait"
  by (induction e rule: retry_afters.induct) (auto simp: list_ex_iff)

lemma provider_failures_is:
  assumes "errors_is (ProviderFailureError (Some k)) t"
  shows "Some k \<in> set (provider_failures e) \<Longrightarrow> errors_is e t"
proof (induction e rule: provider_failures.induct)
  case (1 k')
  then show ?case using assms by auto
next
  case (2 m es)
  then show ?case by (auto simp: list_ex_iff)
next
  case (3 es)
  then show ?case by (auto simp: list_ex_iff)
qed simp_all

lemma classify_sentinel_reported: "classify_sentinel e \<in> reported_failures r"
  by (simp add: classify_sentinel_def reported_failures_def)

lemma classify_sentinel_is: "errors_is (classify_sentinel e) t \<Longrightarrow> errors_is e t \<or> t = ErrProviderTransient"
  by (auto simp: classify_sentinel_def split: if_splits)

lemma valid_kind_some: "k \<noteq> None \<and> validProviderFailureKind (provider_failure_kind k) \<Longrightarrow>
    \<exists>kind. k = Some kind \<and> validProviderFailureKind kind"
  by (cases k) (auto simp: provider_failure_kind_def split: if_splits)

lemma time_sub_bound: "0 < time_sub a b \<Longrightarrow> d \<le> time_sub a b \<Longrightarrow> d \<le> a - b"
  by (auto simp: time_sub_def)

text \<open>How the classification comes out.\<close>

lemma classify_cases:
  obtains (canceled) "classifyProviderFailure e expires now = Sentinel ErrCanceled" "errors_is e ErrCanceled"
  | (deadline) "classifyProviderFailure e expires now = Sentinel ErrDeadlineExceeded" "errors_is e ErrDeadlineExceeded"
  | (expired) d where "classifyProviderFailure e expires now = Sentinel ErrChallengeExpired" "d \<in> set (retry_afters e)"
      "expires \<le> now"
  | (retry) d where "classifyProviderFailure e expires now = RetryAfterError d" "0 < d" "d \<le> expires - now"
      "errors_is e AuthErrFloodWait"
  | (flood) "classifyProviderFailure e expires now = Sentinel AuthErrFloodWait" "errors_is e AuthErrFloodWait"
  | (typed) k where "classifyProviderFailure e expires now = ProviderFailureError (Some k)"
      "validProviderFailureKind k" "Some k \<in> set (provider_failures e)"
  | (plain) "classifyProviderFailure e expires now = classify_sentinel e"
proof (cases "errors_is e ErrCanceled \<or> errors_is e ErrDeadlineExceeded")
  case True
  then show thesis using canceled deadline
    by (cases "errors_is e ErrCanceled") (auto simp: classifyProviderFailure_def)
next
  case live: False
  show thesis
  proof (cases "retry_afters e")
    case (Cons d ds)
    then have d: "d \<in> set (retry_afters e)" by simp
    show thesis
    proof (cases "time_sub expires now \<le> 0")
      case True
      then have "expires \<le> now" by (auto simp: time_sub_def)
      then show thesis using expired [OF _ d] live Cons True by (simp add: classifyProviderFailure_def)
    next
      case False
      then have le: "min d (time_sub expires now) \<le> expires - now" by (intro time_sub_bound) auto
      have eq: "classifyProviderFailure e expires now = (if 0 < min d (time_sub expires now)
          then RetryAfterError (min d (time_sub expires now)) else Sentinel AuthErrFloodWait)"
        using live Cons False
        by (simp add: classifyProviderFailure_def NewRetryAfterError_def Let_def min_le_iff_disj not_less [symmetric])
      show thesis
      proof (cases "0 < min d (time_sub expires now)")
        case True
        show thesis by (rule retry [OF _ True le retry_afters_is [OF d]]) (use eq True in simp)
      next
        case False
        show thesis by (rule flood [OF _ retry_afters_is [OF d]]) (use eq False in argo)
      qed
    qed
  next
    case Nil
    show thesis
    proof (cases "provider_failures e")
      case Nil
      then show thesis using plain live \<open>retry_afters e = []\<close> by (simp add: classifyProviderFailure_def)
    next
      case (Cons k ks)
      then have eq: "classifyProviderFailure e expires now =
          (if k \<noteq> None \<and> validProviderFailureKind (provider_failure_kind k) then ProviderFailureError k
           else classify_sentinel e)" using live Nil by (simp add: classifyProviderFailure_def)
      show thesis
      proof (cases "k \<noteq> None \<and> validProviderFailureKind (provider_failure_kind k)")
        case True
        then obtain kind where "k = Some kind" "validProviderFailureKind kind" using valid_kind_some by blast
        then show thesis using typed [of kind] eq True Cons by simp
      next
        case False
        show thesis by (rule plain) (use eq False in argo)
      qed
    qed
  qed
qed

text \<open>C27: Whatever error the provider returns, the failure the service reports is one of a fixed set: no
  foreign error leaks, a diagnostic kind is always a valid one, and a retry hint is positive and ends
  no later than the challenge. The report invents nothing: a sentinel it carries is one the provider
  error carries, except for the transient default and for a retry hint after the challenge has
  expired. In particular an authorization failure that aborts the account is never made up.\<close>

theorem classifyProviderFailure_reports:
  "classifyProviderFailure e expires now \<in> reported_failures (expires - now)
   \<and> (errors_is (classifyProviderFailure e expires now) t \<longrightarrow>
        errors_is e t \<or> t = ErrProviderTransient \<or> t = ErrChallengeExpired \<and> expires \<le> now)
   \<and> (isAbortProviderFailure (classifyProviderFailure e expires now) \<longrightarrow> isAbortProviderFailure e)"
proof -
  have evidence: "errors_is e t \<or> t = ErrProviderTransient \<or> t = ErrChallengeExpired \<and> expires \<le> now"
    if "errors_is (classifyProviderFailure e expires now) t" for t
    using that
  proof (cases rule: classify_cases [of e expires now])
    case (typed k)
    then show ?thesis using that provider_failures_is [OF _ typed(3)] by simp
  qed (auto dest: classify_sentinel_is)
  moreover have "classifyProviderFailure e expires now \<in> reported_failures (expires - now)"
  proof (cases rule: classify_cases [of e expires now])
    case plain
    then show ?thesis by (simp add: classify_sentinel_reported)
  qed (auto simp: reported_failures_def)
  moreover have "isAbortProviderFailure (classifyProviderFailure e expires now) \<Longrightarrow> isAbortProviderFailure e"
    using evidence by (auto simp: isAbortProviderFailure_def)
  ultimately show ?thesis by blast
qed

theorem classifyProviderFailure_reports_witness:
  "isAbortProviderFailure (Wrap ''sign in'' [Sentinel ErrUnauthorized])
   \<and> classifyProviderFailure (Join [Foreign ''x'', RetryAfterError 90]) 100 40 \<in> reported_failures 60"
proof -
  have "isAbortProviderFailure (classifyProviderFailure (Wrap ''sign in'' [Sentinel ErrUnauthorized]) 100 40)"
    by (simp add: classifyProviderFailure_def classify_sentinel_def isAbortProviderFailure_def)
  then show ?thesis
    using classifyProviderFailure_reports [of "Wrap ''sign in'' [Sentinel ErrUnauthorized]" 100 40 ErrUnauthorized]
      classifyProviderFailure_reports [of "Join [Foreign ''x'', RetryAfterError 90]" 100 40 ErrUnauthorized] by simp
qed

section \<open>Admission stripes\<close>

lemma actorStartLockIndex_bound: "actorStartLockIndex actor < actorStartLockCount"
  by (simp add: actorStartLockIndex_def actorStartLockCount_def unat_mod)

section \<open>Results\<close>

text \<open>A success carries exactly one of account and challenge; a failure carries no account.\<close>

definition answer_ok :: "'s service \<times> Result \<times> go_error option \<Rightarrow> bool" where
  "answer_ok outcome = (case outcome of (s, r, e) \<Rightarrow>
     (case e of None \<Rightarrow> validate_result r = None | Some _ \<Rightarrow> res_account r = None))"

definition action_ok :: "'s service \<times> ending \<times> go_error option \<Rightarrow> bool" where
  "action_ok outcome = (case outcome of (s, ending, e) \<Rightarrow>
     (case ending of Completed _ \<Rightarrow> e = None | _ \<Rightarrow> e \<noteq> None))"

lemma answer_ok_failure [simp]: "answer_ok (s, no_answer, Some e)"
  by (simp add: answer_ok_def no_answer_def)

lemma answer_ok_success [simp]:
  "answer_ok (s, account_answer a, None)" "answer_ok (s, challenge_answer ch, None)"
  by (simp_all add: answer_ok_def validate_result_def account_answer_def challenge_answer_def)

lemma errors_join_first [simp]: "errors_join (Some e # es) = Some (Join (e # non_nil es))"
  by (simp add: errors_join_def)

lemma answer_ok_expire [simp]: "answer_ok (expireChallenge env ch s)"
  by (simp add: expireChallenge_def split: prod.split option.split)

lemma expire_fails: "expireChallenge env ch s = (s', r, e) \<Longrightarrow> r = no_answer \<and> e \<noteq> None"
  by (auto simp: expireChallenge_def split: prod.splits option.splits if_splits)

lemma answer_ok_abort [simp]: "answer_ok (abortProviderFailure env t e s)"
  by (simp add: abortProviderFailure_def split: prod.split option.split)

lemma answer_ok_prepare_failure: "answer_ok (handlePrepareFailure env t rv e s)"
proof -
  obtain s1 r x where x: "expireChallenge env (rv_challenge rv) s = (s1, r, x)" by (metis prod_cases3)
  then obtain y where "r = no_answer" "x = Some y" using expire_fails [OF x] by auto
  then show ?thesis using x by (simp add: handlePrepareFailure_def Let_def split: prod.split option.split)
qed

lemma answer_ok_send_failure: "answer_ok (handleSendCodeFailure env t rv e s)"
  by (simp add: handleSendCodeFailure_def Let_def split: option.split)

lemma answer_ok_attach_failure: "answer_ok (handleAttachFailure env t rv e s)"
proof -
  obtain s1 r x where x: "expireChallenge env (rv_challenge rv) s = (s1, r, x)" by (metis prod_cases3)
  then obtain y where "x = Some y" using expire_fails [OF x] by auto
  then show ?thesis using x by (simp add: handleAttachFailure_def split: prod.split option.split)
qed

lemma answer_ok_send: "answer_ok (sendCode env t phone rv s)"
  by (simp add: sendCode_def answer_ok_send_failure answer_ok_attach_failure split: option.split prod.split sum.split)

lemma answer_ok_reserve: "answer_ok (reserve_and_send env t phone expires s)"
  by (simp add: reserve_and_send_def Let_def answer_ok_prepare_failure answer_ok_send split: prod.split option.split)

lemma answer_ok_Start: "answer_ok (Start env actor phone s)"
  by (simp add: Start_def answer_ok_reserve split: option.split sum.split prod.split outcome.split)

lemma action_ok_finalize: "action_ok (finalize env r p s)"
  by (simp add: finalize_def action_ok_def split: prod.split outcome.split)

lemma action_ok_abort: "action_ok (abortOperation env r e s)"
  by (simp add: abortOperation_def action_ok_def split: prod.split option.split)

lemma action_ok_provider: "action_ok (handleProviderFailure env r e s)"
  by (simp add: handleProviderFailure_def Let_def action_ok_abort split: option.split) (simp add: action_ok_def)

lemma action_ok_open [simp]: "action_ok (s, StillOpen, Some e)"
  by (simp add: action_ok_def)

lemma action_ok_code: "action_ok (submit_code env code r s)"
  by (simp add: submit_code_def Let_def keep_and_finalize_def action_ok_finalize action_ok_abort action_ok_provider
      split: option.split prod.split sum.split bool.split)

lemma action_ok_password: "action_ok (submit_password env password r s)"
  by (simp add: submit_password_def Let_def keep_and_finalize_def action_ok_finalize action_ok_abort action_ok_provider
      split: option.split prod.split sum.split bool.split)

text \<open>What an operation answers at once: an account without error, or an error without account.\<close>

lemma find_operation_answer:
  "find_operation c now actor rid reg = Answer a ch e \<Longrightarrow> (a \<noteq> None) = (e = None) \<and> ch = None"
  by (cases a; cases e) (auto simp: find_operation_def replay_tombstone_def split: option.splits if_splits)

lemma lock_operation_answer:
  "lock_operation now actor found reg = Answer a ch e \<Longrightarrow> a = None \<and> e \<noteq> None"
  by (auto simp: lock_operation_def split: option.splits if_splits)

lemma answer_ok_operate:
  assumes "\<And>r s. action_ok (action r s)"
  shows "answer_ok (operate env actor rid action s)"
proof (cases "find_operation (sv_ctx s) (sv_now s) actor rid (sv_registry s)")
  case (Answer a ch e)
  then show ?thesis using find_operation_answer [OF Answer]
    by (simp add: operate_def answer_ok_def validate_result_def split: option.split)
next
  case found: (Opened r0)
  let ?s = "en_lock env r0 s"
  show ?thesis
  proof (cases "lock_operation (sv_now ?s) actor r0 (sv_registry ?s)")
    case (Answer a ch e)
    then show ?thesis using found lock_operation_answer [OF Answer]
      by (auto simp: operate_def answer_ok_def Let_def)
  next
    case (Opened r)
    obtain s2 ending e where a: "action r (?s\<lparr>sv_opctx := sv_ctx ?s\<rparr>) = (s2, ending, e)" by (metis prod_cases3)
    have "action_ok (s2, ending, e)" using assms [of r "?s\<lparr>sv_opctx := sv_ctx ?s\<rparr>"] a by simp
    then show ?thesis using found Opened a
      by (cases ending) (auto simp: operate_def Let_def action_ok_def answer_ok_def account_answer_def
          challenge_answer_def no_answer_def validate_result_def split: option.splits)
  qed
qed

lemma answer_ok_settle: "answer_ok outcome \<Longrightarrow> answer_ok (settle env outcome)"
  by (auto simp: settle_def split: prod.splits option.splits) (auto simp: answer_ok_def split: option.splits)

text \<open>C26: The answers of the service are well-formed, whatever the ports do: every success of a start,
  a code or a password carries exactly one of an account and a challenge, as the result's own
  validation demands, and a failure never carries an account.\<close>

theorem answers_well_formed:
  "answer_ok (Start env actor phone s) \<and> answer_ok (Code env actor rid code s)
   \<and> answer_ok (Password env actor rid password s)"
proof (intro conjI)
  show "answer_ok (Start env actor phone s)" by (rule answer_ok_Start)
  have "answer_ok (settle env (operate env actor rid (submit_code env code) s))"
    by (rule answer_ok_settle [OF answer_ok_operate]) (rule action_ok_code)
  then show "answer_ok (Code env actor rid code s)" by (simp add: Code_def split: option.split)
  have "answer_ok (settle env (operate env actor rid (submit_password env password) s))"
    by (rule answer_ok_settle [OF answer_ok_operate]) (rule action_ok_password)
  then show "answer_ok (Password env actor rid password s)" by (simp add: Password_def split: option.split)
qed

end
