(* ===== verification/Service_Contract.thy ===== *)
theory Service_Contract
  imports Service_Answers
begin

text \<open>
  The contract between the authentication service and what it runs on. \<open>service_contract\<close> takes the
  ports and a property of the service's state that every port call, every registry function and the
  reservation after an admission keep, and shows that every request of the service keeps it: the
  rely-guarantee argument that makes requests safe to interleave, because the ports may run other
  requests in between.
\<close>

locale service_contract =
  fixes env :: "'s environment" and inv :: "'s service \<Rightarrow> bool"
  assumes begin_keeps: "inv s \<Longrightarrow> inv (fst (begin_or_resume (en_ports env) actor phone e s))"
    and finalize_keeps: "inv s \<Longrightarrow> inv (fst (finalize_account (en_ports env) actor i v profile s))"
    and begin_abort_keeps: "inv s \<Longrightarrow> inv (fst (begin_abort (en_ports env) actor i v s))"
    and complete_abort_keeps: "inv s \<Longrightarrow> inv (fst (complete_abort (en_ports env) actor i v s))"
    and stop_keeps: "stop_account (en_ports env) = Some stop \<Longrightarrow> inv s \<Longrightarrow> inv (fst (stop t s))"
    and send_keeps: "en_provider env = Some p \<Longrightarrow> inv s \<Longrightarrow> inv (fst (send_code p t phone s))"
    and sign_in_keeps: "en_provider env = Some p \<Longrightarrow> inv s \<Longrightarrow> inv (fst (sign_in p t phone code hash s))"
    and password_keeps: "en_provider env = Some p \<Longrightarrow> inv s \<Longrightarrow> inv (fst (check_password p t password s))"
    and lock_keeps: "inv s \<Longrightarrow> inv (en_lock env held s)"
    and trylock_keeps: "inv s \<Longrightarrow> inv (fst (en_trylock env held s))"
    and registry_keeps: "inv s \<Longrightarrow> registry_work (sv_registry s) reg \<Longrightarrow> inv (s\<lparr>sv_registry := reg\<rparr>)"
    and opctx_keeps: "inv s \<Longrightarrow> inv (s\<lparr>sv_opctx := c\<rparr>)"
    and request_keeps: "inv s \<Longrightarrow> inv (s\<lparr>sv_ctx := c, sv_now := now\<rparr>)"
    and closed_keeps: "inv s \<Longrightarrow> inv (s\<lparr>sv_closed := True, sv_registry := closeAdmission (sv_registry s)\<rparr>)"
    and admitted_keeps: "inv s \<Longrightarrow> lifecycle_Begin (en_ports env) actor phone e s = (s1, Returns r) \<Longrightarrow>
      br_outcome r \<noteq> BeginAlreadyActive \<Longrightarrow>
      inv (s1\<lparr>sv_registry := fst (Prepare (sv_ctx s1) (sv_now s1) (en_draw env) (authTarget actor (br_account r)) phone
        (br_expires r) (sv_registry s1))\<rparr>)"
begin

lemmas works = registry_keeps [OF _ registry_work.commits] registry_keeps [OF _ registry_work.rolls_back]
  registry_keeps [OF _ registry_work.removes] registry_keeps [OF _ registry_work.looks]
  registry_keeps [OF _ registry_work.code_attempt] registry_keeps [OF _ registry_work.password_attempt]
  registry_keeps [OF _ registry_work.profile] registry_keeps [OF _ registry_work.stage]
  registry_keeps [OF _ registry_work.ends] registry_keeps [OF _ registry_work.clears]
  registry_keeps [OF _ registry_work.forgets]

lemma lifecycle_Begin_inv: "inv s \<Longrightarrow> inv (fst (lifecycle_Begin (en_ports env) actor phone e s))"
  using begin_keeps [of s actor phone e] by (auto simp: lifecycle_Begin_def split: prod.splits outcome.splits option.splits)

lemma lifecycle_Finalize_inv: "inv s \<Longrightarrow> inv (fst (lifecycle_Finalize (en_ports env) t profile s))"
  using finalize_keeps [of s "target_operator t" "target_account t" "target_version t" profile]
  by (auto simp: lifecycle_Finalize_def split: prod.splits outcome.splits)

lemma stop_and_complete_inv: "inv s \<Longrightarrow> inv (fst (stop_and_complete (en_ports env) l1 l2 t v s))"
proof (cases "stop_account (en_ports env)")
  case (Some stop)
  assume "inv s"
  obtain s1 e where stop: "stop t s = (s1, e)" by fastforce
  have inv1: "inv s1" using stop_keeps [OF Some \<open>inv s\<close>, of t] stop by simp
  show ?thesis using Some stop inv1 complete_abort_keeps [OF inv1, of "target_operator t" "target_account t" v]
    by (auto simp: stop_and_complete_def split: option.splits prod.splits outcome.splits)
qed (simp add: stop_and_complete_def)

lemma abort_inv:
  assumes "inv s"
  shows "inv (fst (abort env t s))"
proof -
  obtain s1 v where a: "begin_abort (en_ports env) (target_operator t) (target_account t) (target_version t) s = (s1, v)"
    by fastforce
  have inv1: "inv s1" using begin_abort_keeps [OF assms] a by (metis fst_conv)
  show ?thesis using assms inv1 stop_and_complete_inv [OF inv1] a
    by (auto simp: abort_def Abort_def split: option.split outcome.split)
qed

lemma expire_inv:
  assumes "inv s"
  shows "inv (fst (expireChallenge env ch s))"
proof -
  obtain s1 e where a: "abort env (ch_target ch) s = (s1, e)" by fastforce
  have inv1: "inv s1" using abort_inv [OF assms, of "ch_target ch"] a by simp
  show ?thesis using assms inv1 works(3) [OF inv1] a
    by (auto simp: expireChallenge_def split: option.splits prod.splits) (metis fst_conv)+
qed

lemma rollback_inv: "inv s \<Longrightarrow> inv (rollback_reservation rv s)"
  unfolding rollback_reservation_def by (rule works(2))

lemma abortProviderFailure_inv: "inv s \<Longrightarrow> inv (fst (abortProviderFailure env t e s))"
  using abort_inv [of s t] by (auto simp: abortProviderFailure_def split: prod.splits option.splits)

lemma prepare_failure_inv:
  assumes "inv s"
  shows "inv (fst (handlePrepareFailure env t rv e s))"
proof -
  obtain s1 r x where a: "expireChallenge env (rv_challenge rv) s = (s1, r, x)" by (metis prod_cases3)
  have "inv s1" using expire_inv [OF assms, of "rv_challenge rv"] a by simp
  then show ?thesis using a abort_inv [of s1 t] abort_inv [OF assms, of t]
    by (auto simp: handlePrepareFailure_def Let_def split: prod.splits option.splits)
qed

lemma send_failure_inv: "inv s \<Longrightarrow> inv (fst (handleSendCodeFailure env t rv e s))"
  using expire_inv rollback_inv abortProviderFailure_inv
  by (auto simp: handleSendCodeFailure_def Let_def split: option.splits)

lemma attach_failure_inv:
  assumes "inv s"
  shows "inv (fst (handleAttachFailure env t rv e s))"
  using expire_inv [OF assms, of "rv_challenge rv"] rollback_inv [OF assms, of rv] abort_inv [OF assms, of t]
  by (auto simp: handleAttachFailure_def split: option.splits prod.splits)

lemma sendCode_inv:
  assumes "inv s"
  shows "inv (fst (sendCode env t phone rv s))"
proof (cases "en_provider env")
  case None
  then show ?thesis using abortProviderFailure_inv [OF rollback_inv [OF assms]] by (simp add: sendCode_def)
next
  case (Some p)
  obtain s1 x where sent: "send_code p t phone s = (s1, x)" by fastforce
  have inv1: "inv s1" using send_keeps [OF Some assms, of t phone] sent by simp
  have c: "inv (s1\<lparr>sv_registry := reg\<rparr>)" if "commit c now rv y (sv_registry s1) = (reg, z)" for c now y reg z
    using works(1) [OF inv1, of c now rv y] that by simp
  show ?thesis
  proof (cases x)
    case (Inl e)
    then show ?thesis using Some sent send_failure_inv [OF inv1] by (simp add: sendCode_def)
  next
    case (Inr y)
    then show ?thesis using Some sent c attach_failure_inv [OF c]
      by (auto simp: sendCode_def split: prod.splits option.splits)
  qed
qed

lemma Start_inv:
  assumes "inv s"
  shows "inv (fst (Start env actor phone s))"
proof -
  have reserve: "inv (fst (reserve_and_send env (authTarget actor (br_account r)) normalized (br_expires r) s1))"
    if "lifecycle_Begin (en_ports env) actor normalized e s = (s1, Returns r)" "br_outcome r \<noteq> BeginAlreadyActive"
    for normalized e s1 r
  proof -
    let ?p = "Prepare (sv_ctx s1) (sv_now s1) (en_draw env) (authTarget actor (br_account r)) normalized (br_expires r) (sv_registry s1)"
    obtain reg rv x where p: "?p = (reg, rv, x)" by (metis prod_cases3)
    have "inv (s1\<lparr>sv_registry := reg\<rparr>)" using admitted_keeps [OF assms that] p by simp
    then show ?thesis using p prepare_failure_inv sendCode_inv
      by (simp add: reserve_and_send_def Let_def split: option.split)
  qed
  have "inv s1" if "lifecycle_Begin (en_ports env) actor normalized e s = (s1, x)" for normalized e s1 x
    using lifecycle_Begin_inv [OF assms, of actor normalized e] that by simp
  then show ?thesis using assms reserve
    by (auto simp: Start_def split: option.split sum.split prod.split outcome.split)
qed

lemma finalize_inv:
  assumes "inv s"
  shows "inv (fst (finalize env r profile s))"
proof -
  obtain s1 x where f: "lifecycle_Finalize (en_ports env) (cr_target r) profile s = (s1, x)" by fastforce
  have inv1: "inv s1" using lifecycle_Finalize_inv [OF assms, of "cr_target r" profile] f by simp
  then have "inv (Complete a r s1)" for a unfolding Complete_def by (rule works(9))
  then show ?thesis using assms f inv1 by (simp add: finalize_def split: outcome.split)
qed

lemma operation_Abort_inv: "inv s \<Longrightarrow> inv (operation_Abort r s)"
  unfolding operation_Abort_def by (rule works(9))

lemma abortOperation_inv: "inv s \<Longrightarrow> inv (fst (abortOperation env r e s))"
  using abort_inv [of s "cr_target r"] operation_Abort_inv
  by (auto simp: abortOperation_def split: prod.split option.split)

lemma provider_failure_inv: "inv s \<Longrightarrow> inv (fst (handleProviderFailure env r e s))"
  by (simp add: handleProviderFailure_def Let_def abortOperation_inv split: option.split)

lemma keep_and_finalize_inv: "inv s \<Longrightarrow> inv (fst (keep_and_finalize env r profile s))"
  unfolding keep_and_finalize_def by (intro finalize_inv works(7))

lemma submit_code_inv:
  assumes "inv s"
  shows "inv (fst (submit_code env code r s))"
proof -
  have reserve: "inv (s\<lparr>sv_registry := reg\<rparr>)" if "ReserveCodeAttempt r (sv_registry s) = (reg, b)" for reg b
    using works(5) [OF assms, of r] that by simp
  have ask: "inv s2" if "ReserveCodeAttempt r (sv_registry s) = (reg, b)" "en_provider env = Some p"
    "sign_in p t phone c hash (s\<lparr>sv_registry := reg\<rparr>) = (s2, x)" for reg b p t phone c hash s2 x
    using sign_in_keeps [OF that(2) reserve [OF that(1)], of t phone c hash] that(3) by simp
  show ?thesis using assms finalize_inv reserve ask works(8)
    by (auto simp: submit_code_def Let_def keep_and_finalize_inv abortOperation_inv provider_failure_inv
        split: option.splits prod.splits bool.splits sum.splits)
qed

lemma submit_password_inv:
  assumes "inv s"
  shows "inv (fst (submit_password env password r s))"
proof -
  have reserve: "inv (s\<lparr>sv_registry := reg\<rparr>)" if "ReservePasswordAttempt r (sv_registry s) = (reg, b)" for reg b
    using works(6) [OF assms, of r] that by simp
  have ask: "inv s2" if "ReservePasswordAttempt r (sv_registry s) = (reg, b)" "en_provider env = Some p"
    "check_password p t c (s\<lparr>sv_registry := reg\<rparr>) = (s2, x)" for reg b p t c s2 x
    using password_keeps [OF that(2) reserve [OF that(1)], of t c] that(3) by simp
  show ?thesis using assms finalize_inv reserve ask
    by (auto simp: submit_password_def Let_def keep_and_finalize_inv abortOperation_inv provider_failure_inv
        split: option.splits prod.splits bool.splits sum.splits)
qed

lemma cancel_action_inv: "inv s \<Longrightarrow> inv (fst (cancel_action env r s))"
  using abort_inv [of s "cr_target r"] operation_Abort_inv
  by (auto simp: cancel_action_def split: prod.split option.split)

lemma operate_inv:
  assumes "inv s" and action: "\<And>r s. inv s \<Longrightarrow> inv (fst (action r s))"
  shows "inv (fst (operate env actor rid action s))"
proof -
  have "inv s2" if "action r ((en_lock env found s)\<lparr>sv_opctx := c\<rparr>) = (s2, x)" for r found c s2 x
    using action [OF opctx_keeps [OF lock_keeps [OF assms(1), of found], of c], of r] that by simp
  then show ?thesis using assms(1) lock_keeps [OF assms(1)]
    by (auto simp: operate_def Let_def split: opened.split prod.split ending.split)
qed

lemma settle_inv: "inv (fst outcome) \<Longrightarrow> inv (fst (settle env outcome))"
  using expire_inv by (auto simp: settle_def split: prod.splits option.splits)

lemma Code_inv: "inv s \<Longrightarrow> inv (fst (Code env actor rid code s))"
  by (simp add: Code_def settle_inv operate_inv submit_code_inv split: option.split)

lemma Password_inv: "inv s \<Longrightarrow> inv (fst (Password env actor rid password s))"
  by (simp add: Password_def settle_inv operate_inv submit_password_inv split: option.split)

lemma Cancel_inv:
  assumes "inv s"
  shows "inv (fst (Cancel env actor rid s))"
proof -
  obtain s1 r x where o: "operate env actor rid (cancel_action env) s = (s1, r, x)" by (metis prod_cases3)
  have inv1: "inv s1" using operate_inv [OF assms, of "cancel_action env" actor rid] cancel_action_inv o by simp
  then show ?thesis using assms o expire_inv [OF inv1]
    by (auto simp: Cancel_def split: option.splits prod.splits bool.splits) (metis fst_conv)+
qed

lemma Status_inv:
  assumes "inv s"
  shows "inv (fst (Status env actor s))"
proof -
  obtain reg ch x where st: "registry_Status (sv_ctx s) (sv_now s) actor (sv_registry s) = (reg, ch, x)" by (metis prod_cases3)
  have inv1: "inv (s\<lparr>sv_registry := reg\<rparr>)" using works(4) [OF assms, of "sv_ctx s" "sv_now s" actor] st by simp
  have "inv s2" if "expireChallenge env c (s\<lparr>sv_registry := reg\<rparr>) = (s2, y)" for c s2 y
    using expire_inv [OF inv1, of c] that by simp
  then show ?thesis using assms st inv1
    by (auto simp: Status_def Let_def split: option.splits prod.splits outcome.splits)
qed

lemma snapshot_inv: "inv s \<Longrightarrow> inv (fst (snapshot env rs s))"
proof (induction rs arbitrary: s)
  case (Cons r rs)
  obtain s1 b where l: "en_trylock env r s = (s1, b)" by fastforce
  have inv1: "inv s1" using trylock_keeps [OF Cons.prems, of r] l by simp
  then show ?case using l Cons.IH [OF inv1] by (cases b) (auto split: prod.split)
qed simp

lemma shutdown_challenges_inv: "inv s \<Longrightarrow> inv (fst (shutdown_challenges env chs s))"
proof (induction chs arbitrary: s)
  case (Cons ch chs)
  let ?s = "s\<lparr>sv_registry := clearShutdownState ch (sv_registry s)\<rparr>"
  have inv1: "inv ?s" by (rule works(10) [OF Cons.prems])
  obtain s2 e where a: "abort env (ch_target ch) ?s = (s2, e)" by fastforce
  have inv2: "inv s2" using abort_inv [OF inv1, of "ch_target ch"] a by simp
  obtain reg x where r: "Remove LiveContext (target_operator (ch_target ch)) (ch_request ch) (sv_registry s2) = (reg, x)" by fastforce
  have inv3: "inv (s2\<lparr>sv_registry := reg\<rparr>)"
    using works(3) [OF inv2, of LiveContext "target_operator (ch_target ch)" "ch_request ch"] r by simp
  show ?case using a r Cons.IH [OF inv2] Cons.IH [OF inv3] by (auto simp: Let_def split: option.split prod.split)
qed simp

lemma Shutdown_inv:
  assumes "inv s"
  shows "inv (fst (Shutdown env s))"
proof -
  let ?s = "s\<lparr>sv_closed := True, sv_registry := closeAdmission (sv_registry s)\<rparr>"
  obtain s2 chs e where sn: "snapshot env (challenges (sv_registry ?s)) ?s = (s2, chs, e)" by (metis prod_cases3)
  have inv2: "inv s2" using snapshot_inv [OF closed_keeps [OF assms], of "challenges (sv_registry ?s)"] sn by simp
  obtain s3 es where sc: "shutdown_challenges env chs s2 = (s3, es)" by fastforce
  have "inv s3" using shutdown_challenges_inv [OF inv2, of chs] sc by simp
  then have "inv (s3\<lparr>sv_registry := clearTombstones (sv_registry s3)\<rparr>)" by (rule works(11))
  then show ?thesis using assms sn sc by (simp add: Shutdown_def Let_def split: option.split)
qed

end

section \<open>The service as a state machine\<close>

text \<open>A request is served from start to end; the requests that run while it waits are those of its ports.
  It begins at some later time, with a context of its own.\<close>

definition request_at :: "time \<Rightarrow> ctx \<Rightarrow> 's service \<Rightarrow> 's service" where
  "request_at now c s = s\<lparr>sv_ctx := c, sv_now := now\<rparr>"

datatype request =
    StartRequest uuid "rune list"
  | CodeRequest uuid uuid "rune list"
  | PasswordRequest uuid uuid "byte list"
  | CancelRequest uuid uuid
  | StatusRequest uuid
  | ShutdownRequest

fun serve :: "'s environment \<Rightarrow> request \<Rightarrow> 's service \<Rightarrow> 's service" where
  "serve env (StartRequest actor phone) s = fst (Start env actor phone s)"
| "serve env (CodeRequest actor rid code) s = fst (Code env actor rid code s)"
| "serve env (PasswordRequest actor rid password) s = fst (Password env actor rid password s)"
| "serve env (CancelRequest actor rid) s = fst (Cancel env actor rid s)"
| "serve env (StatusRequest actor) s = fst (Status env actor s)"
| "serve env ShutdownRequest s = fst (Shutdown env s)"

inductive service_step :: "'s environment \<Rightarrow> 's service \<Rightarrow> 's service \<Rightarrow> bool" for env where
  serves: "service_step env s (serve env request (request_at now c s))"

context service_contract
begin

lemma serve_inv: "inv s \<Longrightarrow> inv (serve env request s)"
  by (cases request) (simp_all add: Start_inv Code_inv Password_inv Cancel_inv Status_inv Shutdown_inv)

lemma service_step_inv: "inv s \<Longrightarrow> service_step env s s' \<Longrightarrow> inv s'"
  by (auto elim!: service_step.cases simp: request_at_def intro!: serve_inv request_keeps)

text \<open>So every state the service reaches from one that satisfies the property satisfies it.\<close>

lemma service_reachable_inv:
  assumes "\<And>s. init s \<Longrightarrow> inv s" "reachable init (service_step env) s"
  shows "inv s"
  using assms(2) by (induction rule: reachable.induct) (auto intro: assms(1) service_step_inv)

end

end
