(* ===== verification/Service_Store.thy ===== *)
theory Service_Store
  imports Service_Contract
begin

text \<open>
  The authentication service over the PostgreSQL store, as \<open>cmd/app\<close> composes it: the persistence
  ports are the store's transactions on the durable state, at the database's reading of the clock.
  The provider, the runtime stopper and the waits are outside; what is relied on is that whatever
  runs during them keeps the service's invariant, as every request of this service does, and, for
  \<open>record_locks\<close>, that nobody gets past the mutex of the record an operation holds. The runtimes
  \<open>quiet\<close>, \<open>busy\<close> and \<open>locking\<close> satisfy the contracts; the last two serve other requests during the calls
  and in the gap after an admission.
\<close>

section \<open>The composition\<close>

definition on_store :: "(time \<Rightarrow> db \<Rightarrow> db \<times> 'r) \<Rightarrow> db service \<Rightarrow> db service \<times> 'r" where
  "on_store f s = (case f (sv_now s) (sv_durable s) of (d, r) \<Rightarrow> (s\<lparr>sv_durable := d\<rparr>, r))"

text \<open>\<open>clk\<close> is the database clock as a function of the service's; \<open>fresh\<close> the id PostgreSQL generates.
  \<open>gap\<close> is what others do between the commit of an admission and the next step of the request: no port
  call and no mutex separates the admission from the reservation of its challenge.\<close>

definition service_persistence ::
  "uuid set \<Rightarrow> (db \<Rightarrow> uuid) \<Rightarrow> (time \<Rightarrow> time) \<Rightarrow> (db service \<Rightarrow> db service)
   \<Rightarrow> (RuntimeTarget \<Rightarrow> db service \<Rightarrow> db service \<times> go_error option) \<Rightarrow> db service auth_ports" where
  "service_persistence operators fresh clk gap stopper =
    \<lparr>begin_or_resume = (\<lambda>actor phone expires s.
        map_prod gap id (on_store (\<lambda>now d. BeginOrResume operators (clk now) (fresh d) actor phone expires d) s)),
     finalize_account = (\<lambda>actor i v profile. on_store (\<lambda>now. Finalize (clk now) (clk now) actor i v profile)),
     begin_abort = (\<lambda>actor i v. on_store (\<lambda>now. BeginAbort (clk now) actor i v)),
     complete_abort = (\<lambda>actor i v. on_store (\<lambda>now. CompleteAbort (clk now) actor i v)),
     list_accounts = (\<lambda>actor s. ListAccounts actor (sv_durable s)),
     list_orphans = (\<lambda>s. orphans_without_intents ListOrphanAuthenticationLifecycles ListRemoteLogoutIntents (sv_durable s)),
     stop_account = Some stopper\<rparr>"

definition store_environment ::
  "uuid set \<Rightarrow> (db \<Rightarrow> uuid) \<Rightarrow> (time \<Rightarrow> time) \<Rightarrow> duration \<Rightarrow> (challengeRegistry \<Rightarrow> uuid)
   \<Rightarrow> (db service \<Rightarrow> db service)
   \<Rightarrow> (RuntimeTarget \<Rightarrow> db service \<Rightarrow> db service \<times> go_error option) \<Rightarrow> db provider option
   \<Rightarrow> (challengeRecord \<Rightarrow> db service \<Rightarrow> db service)
   \<Rightarrow> (challengeRecord \<Rightarrow> db service \<Rightarrow> db service \<times> bool) \<Rightarrow> db environment" where
  "store_environment operators fresh clk ttl draw gap stopper provider lock trylock =
    \<lparr>en_ports = service_persistence operators fresh clk gap stopper, en_provider = provider, en_draw = draw,
     en_ttl = ttl, en_lock = lock, en_trylock = trylock\<rparr>"

section \<open>The link between challenges and accounts\<close>

text \<open>The account row of a challenge: at the version of the challenge it is still authenticating, or it
  has moved on.\<close>

definition admitted :: "RuntimeTarget \<Rightarrow> db \<Rightarrow> bool" where
  "admitted t d \<longleftrightarrow> (\<exists>a \<in> set (operator_accounts d). oa_operator a = target_operator t \<and> oa_id a = target_account t
     \<and> (oa_version a = uint (target_version t) \<and> oa_status a = Authenticating \<or> uint (target_version t) < oa_version a))"

definition service_inv :: "db service \<Rightarrow> bool" where
  "service_inv s \<longleftrightarrow> registry_ok (sv_registry s) \<and> accounts_inv (sv_durable s)
     \<and> (\<forall>t \<in> targets (sv_registry s). admitted t (sv_durable s))"

lemma admitted_step:
  assumes inv: "accounts_inv d" and step: "account_step d d'" and t: "admitted t d"
  shows "admitted t d'"
proof -
  obtain a where a: "a \<in> set (operator_accounts d)" "oa_operator a = target_operator t" "oa_id a = target_account t"
    "oa_version a = uint (target_version t) \<and> oa_status a = Authenticating \<or> uint (target_version t) < oa_version a"
    using t by (auto simp: admitted_def)
  have "operator_accounts d' = operator_accounts d
    \<or> (\<exists>b b'. writes_row d d' b b')
    \<or> (\<exists>i clock operator p expires.
         operator_accounts d' = operator_accounts d @ [admitted_row clock i operator p expires])"
    using account_step_effect [OF inv step] by blast
  then show ?thesis
  proof (elim disjE exE)
    fix b b' assume w: "writes_row d d' b b'"
    show ?thesis
    proof (cases "a = b")
      case True
      have "b' \<in> set (operator_accounts d')" "row_moved b b'"
        using w write_account_set [of d b b'] inv by (auto simp: writes_row_def row_moved_def accounts_inv_def)
      then show ?thesis using a True unfolding admitted_def row_moved_def by force
    next
      case False
      then show ?thesis using unwritten_row [OF inv w a(1)] a unfolding admitted_def by blast
    qed
  qed (use a in \<open>auto simp: admitted_def\<close>)
qed

lemma service_inv_step:
  assumes "service_inv s" "account_step (sv_durable s) d"
  shows "service_inv (s\<lparr>sv_durable := d\<rparr>)"
  using assms account_step_effect [OF _ assms(2)] admitted_step [OF _ assms(2)] by (auto simp: service_inv_def)

lemma on_store_inv:
  assumes "service_inv s" "\<And>now d d' r. f now d = (d', r) \<Longrightarrow> account_step d d'"
  shows "service_inv (fst (on_store f s))"
  using service_inv_step [OF assms(1)] assms(2)
  by (auto simp: on_store_def split: prod.splits)

lemma service_inv_registry:
  assumes "service_inv s" "registry_work (sv_registry s) reg"
  shows "service_inv (s\<lparr>sv_registry := reg\<rparr>)"
  using assms registry_work_ok [OF _ assms(2)] registry_work_targets [OF _ assms(2)] by (auto simp: service_inv_def)

section \<open>Admission\<close>

lemma BeginOrResume_row:
  assumes inv: "accounts_inv d" and run: "BeginOrResume operators clock i actor phone expires d = (d', Returns r)"
    and out: "br_outcome r \<noteq> BeginAlreadyActive"
  obtains a where "a \<in> set (operator_accounts d')" "oa_operator a = actor" "oa_status a = Authenticating"
    "br_account r = account_view a" "\<exists>v. normalizePhone phone = Returns v \<and> oa_phone a = Some v"
  using run
proof (cases rule: BeginOrResume_cases)
  case 1
  obtain normalized where n: "normalizePhone phone = Returns normalized"
    using run by (cases "normalizePhone phone") (auto simp: BeginOrResume_def)
  show thesis
  proof (cases "find_phone d actor normalized")
    case None
    then show thesis using run n 1 by (auto simp: BeginOrResume_def begin_result_of_def split: if_splits)
  next
    case (Some a)
    have "a \<in> set (operator_accounts d)" "oa_operator a = actor" "oa_phone a = Some normalized"
      using find_phone_Some [OF Some] by simp_all
    moreover have "oa_status a = Authenticating \<and> br_account r = account_view a"
      using run n Some 1 out
      by (cases "oa_status a") (auto simp: BeginOrResume_def begin_result_of_def split: if_splits option.splits)
    ultimately show thesis using that 1(1) n by blast
  qed
next
  case (2 normalized)
  then show thesis using that [of "admitted_row clock i actor normalized expires"]
    by (simp add: begin_result_of_def admitted_row_def)
next
  case (3 a normalized)
  have a: "a \<in> set (operator_accounts d)" "oa_operator a = actor" "oa_phone a = Some normalized"
    using find_phone_Some [OF 3(2)] by simp_all
  have "resumed_row clock expires a \<in> set (operator_accounts d')"
    unfolding 3(8) using write_account_set [of d a "resumed_row clock expires a"] a(1) inv
    by (simp add: resumed_row_def accounts_inv_def)
  then show thesis using that [of "resumed_row clock expires a"] a(2,3) 3(1,7)
    by (simp add: begin_result_of_def resumed_row_def)
qed

lemma admitted_target:
  assumes "accounts_inv d" "a \<in> set (operator_accounts d)" "oa_operator a = actor" "oa_status a = Authenticating"
  shows "admitted (authTarget actor (account_view a)) d"
proof -
  have "uint (of_int (oa_version a) :: version) = oa_version a"
    by (rule row_ok_version(1) [OF accounts_inv_row [OF assms(1,2)]])
  then show ?thesis using assms(2-4) by (auto simp: admitted_def authTarget_def account_view_def)
qed

section \<open>The contract over the store\<close>

text \<open>What the service relies on: the id generators, and that the provider, the stopper, the waits and the
  gap after an admission keep the invariant, whatever requests and transactions they let run. The
  others in the gap are transactions of accounts, which only move forward, and they cannot close
  the service, whose admission gate the request holds.\<close>

locale service_over_store =
  fixes operators :: "uuid set" and fresh :: "db \<Rightarrow> uuid" and clk :: "time \<Rightarrow> time" and ttl :: duration
    and draw :: "challengeRegistry \<Rightarrow> uuid"
    and gap :: "db service \<Rightarrow> db service"
    and stopper :: "RuntimeTarget \<Rightarrow> db service \<Rightarrow> db service \<times> go_error option"
    and provider :: "db provider option"
    and lock :: "challengeRecord \<Rightarrow> db service \<Rightarrow> db service"
    and trylock :: "challengeRecord \<Rightarrow> db service \<Rightarrow> db service \<times> bool"
  assumes fresh_id: "fresh d \<noteq> nil_uuid"
    and drawn: "registry_ok reg \<Longrightarrow> usable_request reg (draw reg)"
    and gap_keeps: "service_inv s \<Longrightarrow> service_inv (gap s)"
    and gap_admitted: "service_inv s \<Longrightarrow> admitted t (sv_durable s) \<Longrightarrow> admitted t (sv_durable (gap s))"
    and gate_held: "sv_closed (gap s) = sv_closed s"
    and stopper_keeps: "service_inv s \<Longrightarrow> service_inv (fst (stopper t s))"
    and sent_keeps: "provider = Some p \<Longrightarrow> service_inv s \<Longrightarrow> service_inv (fst (send_code p t phone s))"
    and signed_keeps: "provider = Some p \<Longrightarrow> service_inv s \<Longrightarrow> service_inv (fst (sign_in p t phone code hash s))"
    and checked_keeps: "provider = Some p \<Longrightarrow> service_inv s \<Longrightarrow> service_inv (fst (check_password p t password s))"
    and waited_keeps: "service_inv s \<Longrightarrow> service_inv (lock held s)"
    and tried_keeps: "service_inv s \<Longrightarrow> service_inv (fst (trylock held s))"

text \<open>While an operation on a challenge asks the provider, it holds \<open>record.mu\<close>. Whoever removes a challenge
  (\<open>commit\<close>, \<open>rollback\<close>, \<open>Remove\<close>, another operation) takes that lock first, so the challenge of the call
  is still registered when the provider answers.\<close>

definition keeps_challenge :: "RuntimeTarget \<Rightarrow> 's service \<Rightarrow> 's service \<Rightarrow> bool" where
  "keeps_challenge t s s' \<longleftrightarrow> (\<forall>x \<in> set (challenges (sv_registry s)). cr_target x = t \<longrightarrow>
     (\<exists>y \<in> set (challenges (sv_registry s')). cr_addr y = cr_addr x \<and> cr_request y = cr_request x \<and> cr_target y = t))"

locale record_locks = service_over_store +
  assumes sign_in_locked: "provider = Some p \<Longrightarrow> keeps_challenge t s (fst (sign_in p t phone code hash s))"
    and password_locked: "provider = Some p \<Longrightarrow> keeps_challenge t s (fst (check_password p t password s))"

lemma keeps_challenge_refl [simp]: "keeps_challenge t s s"
  by (auto simp: keeps_challenge_def)

lemma keeps_challenge_trans: "keeps_challenge t s s' \<Longrightarrow> keeps_challenge t s' s'' \<Longrightarrow> keeps_challenge t s s''"
  unfolding keeps_challenge_def by fastforce

lemma service_inv_env [simp]:
  "service_inv (s\<lparr>sv_opctx := c\<rparr>) = service_inv s" "service_inv (s\<lparr>sv_ctx := c\<rparr>) = service_inv s"
  "service_inv (s\<lparr>sv_now := now\<rparr>) = service_inv s" "service_inv (s\<lparr>sv_closed := b\<rparr>) = service_inv s"
  by (simp_all add: service_inv_def)

lemma service_persistence_keeps:
  assumes "service_inv s"
  shows "(\<And>d. fresh d \<noteq> nil_uuid) \<Longrightarrow> (\<And>s. service_inv s \<Longrightarrow> service_inv (gap s)) \<Longrightarrow>
      service_inv (fst (begin_or_resume (service_persistence operators fresh clk gap stopper) actor phone e s))"
    and "service_inv (fst (finalize_account (service_persistence operators fresh clk gap stopper) actor i v profile s))"
    and "service_inv (fst (begin_abort (service_persistence operators fresh clk gap stopper) actor i v s))"
    and "service_inv (fst (complete_abort (service_persistence operators fresh clk gap stopper) actor i v s))"
proof -
  show "service_inv (fst (begin_or_resume (service_persistence operators fresh clk gap stopper) actor phone e s))"
    if "\<And>d. fresh d \<noteq> nil_uuid" "\<And>s. service_inv s \<Longrightarrow> service_inv (gap s)"
  proof -
    have "service_inv (fst (on_store (\<lambda>now d. BeginOrResume operators (clk now) (fresh d) actor phone e d) s))"
      by (rule on_store_inv [OF assms]) (rule account_step.begin_auth [OF that(1)])
    then show ?thesis using that(2) by (simp add: service_persistence_def)
  qed
qed (auto simp: service_persistence_def intro!: on_store_inv [OF assms] intro: account_step.intros)

lemma service_admits:
  assumes inv: "service_inv s" and fresh: "\<And>d. fresh d \<noteq> nil_uuid"
    and gap: "\<And>s. service_inv s \<Longrightarrow> service_inv (gap s)"
      "\<And>s t. service_inv s \<Longrightarrow> admitted t (sv_durable s) \<Longrightarrow> admitted t (sv_durable (gap s))"
    and draw: "\<And>reg. registry_ok reg \<Longrightarrow> usable_request reg (draw reg)"
    and run: "lifecycle_Begin (service_persistence operators fresh clk gap stopper) actor phone e s = (s1, Returns r)"
    and out: "br_outcome r \<noteq> BeginAlreadyActive"
  shows "service_inv (s1\<lparr>sv_registry := fst (Prepare c now draw (authTarget actor (br_account r)) phone' expires (sv_registry s1))\<rparr>)"
proof -
  obtain d where d: "BeginOrResume operators (clk (sv_now s)) (fresh (sv_durable s)) actor phone e (sv_durable s) = (d, Returns r)"
    "s1 = gap (s\<lparr>sv_durable := d\<rparr>)"
    using run by (auto simp: lifecycle_Begin_def service_persistence_def on_store_def
        split: prod.splits outcome.splits option.splits)
  have inv0: "service_inv (s\<lparr>sv_durable := d\<rparr>)"
    by (rule service_inv_step [OF inv account_step.begin_auth [OF fresh d(1)]])
  have inv1: "service_inv s1" unfolding d(2) by (rule gap(1) [OF inv0])
  have accs: "accounts_inv (sv_durable s)" "accounts_inv d" and ok: "registry_ok (sv_registry s1)"
    using inv inv0 inv1 by (simp_all add: service_inv_def)
  obtain a where a: "a \<in> set (operator_accounts d)" "oa_operator a = actor" "oa_status a = Authenticating"
    "br_account r = account_view a" using BeginOrResume_row [OF accs(1) d(1) out] by blast
  have "admitted (authTarget actor (br_account r)) (sv_durable s1)"
    using gap(2) [OF inv0] admitted_target [OF accs(2) a(1-3)] by (simp add: d(2) a(4))
  moreover have "registry_ok (fst (Prepare c now draw (authTarget actor (br_account r)) phone' expires (sv_registry s1)))"
    by (rule Prepare_ok [where draw = draw, OF ok draw [OF cleanup_ok [OF ok]]])
  moreover have "targets (fst (Prepare c now draw (authTarget actor (br_account r)) phone' expires (sv_registry s1)))
      \<subseteq> insert (authTarget actor (br_account r)) (targets (sv_registry s1))"
    by (rule Prepare_targets [OF ok])
  ultimately show ?thesis using inv1 by (auto simp: service_inv_def)
qed

sublocale service_over_store \<subseteq>
  contract: service_contract "store_environment operators fresh clk ttl draw gap stopper provider lock trylock" service_inv
proof (unfold_locales, unfold store_environment_def environment.select_convs)
  fix s s1 and r :: begin_result and actor phone e
  assume "service_inv s"
    "lifecycle_Begin (service_persistence operators fresh clk gap stopper) actor phone e s = (s1, Returns r)"
    "br_outcome r \<noteq> BeginAlreadyActive"
  then show "service_inv (s1\<lparr>sv_registry := fst (Prepare (sv_ctx s1) (sv_now s1) draw (authTarget actor (br_account r)) phone
      (br_expires r) (sv_registry s1))\<rparr>)"
    using service_admits [where fresh = fresh and draw = draw and gap = gap, OF _ fresh_id gap_keeps gap_admitted drawn]
    by blast
next
  fix s stop t assume "stop_account (service_persistence operators fresh clk gap stopper) = Some stop" "service_inv s"
  then show "service_inv (fst (stop t s))" using stopper_keeps by (simp add: service_persistence_def)
qed (use fresh_id gap_keeps service_persistence_keeps sent_keeps signed_keeps checked_keeps waited_keeps tried_keeps
    service_inv_registry registry_work.closes in \<open>auto\<close>)

section \<open>Runtimes\<close>

text \<open>The identifiers: the first unused one, in the order of the numbers.\<close>

definition counting_draw :: "challengeRegistry \<Rightarrow> uuid" where
  "counting_draw reg = the (nextRequestID word_of_nat 1 reg)"

definition counting_id :: "db \<Rightarrow> uuid" where
  "counting_id d = (let i = word_of_nat (Suc (length (operator_accounts d))) in if i = nil_uuid then 1 else i)"

lemma counting_id: "counting_id d \<noteq> nil_uuid"
  by (simp add: counting_id_def Let_def)

lemma counting_draw: "registry_ok reg \<Longrightarrow> usable_request reg (counting_draw reg)"
proof -
  assume ok: "registry_ok reg"
  have len: "length (challenges reg) + length (tombstones reg) \<le> 4096"
    using ok by (simp add: registry_ok_def maxLiveChallenges_def)
  have "inj_on (word_of_nat :: nat \<Rightarrow> uuid) {1..1 + Suc (length (challenges reg) + length (tombstones reg))}"
  proof (rule inj_onI)
    fix i j :: nat
    have small: "unat (word_of_nat n :: uuid) = n" if "n \<le> 5000" for n
    proof -
      have "n < 2 ^ LENGTH(128)" using that by (rule le_less_trans) simp
      then show ?thesis unfolding unat_of_nat by (rule mod_less)
    qed
    assume ij: "i \<in> {1..1 + Suc (length (challenges reg) + length (tombstones reg))}"
      "j \<in> {1..1 + Suc (length (challenges reg) + length (tombstones reg))}" "(word_of_nat i :: uuid) = word_of_nat j"
    have le: "i \<le> 5000" "j \<le> 5000" using ij(1,2) len by auto
    show "i = j" by (rule trans [OF trans [OF small [OF le(1), symmetric] arg_cong [where f = unat, OF ij(3)]] small [OF le(2)]])
  qed
  then obtain k where "nextRequestID word_of_nat 1 reg = Some (word_of_nat (1 + k))" "usable_request reg (word_of_nat (1 + k))"
    using nextRequestID_returns by blast
  then show ?thesis unfolding counting_draw_def by (metis option.sel)
qed

text \<open>Time passes and contexts end while a call is out; \<open>w\<close> says how.\<close>

definition elapse :: "('s service \<Rightarrow> time \<times> ctx \<times> ctx) \<Rightarrow> 's service \<Rightarrow> 's service" where
  "elapse w s = (case w s of (now, c, op) \<Rightarrow> s\<lparr>sv_now := now, sv_ctx := c, sv_opctx := op\<rparr>)"

record 's replies =
  re_code :: "RuntimeTarget \<Rightarrow> rune list \<Rightarrow> 's service \<Rightarrow> go_error + SendCodeResult"
  re_sign_in :: "RuntimeTarget \<Rightarrow> rune list \<Rightarrow> rune list \<Rightarrow> rune list \<Rightarrow> 's service \<Rightarrow> go_error + Profile"
  re_password :: "RuntimeTarget \<Rightarrow> byte list \<Rightarrow> 's service \<Rightarrow> go_error + Profile"
  re_stop :: "RuntimeTarget \<Rightarrow> 's service \<Rightarrow> go_error option"

text \<open>A runtime whose calls do \<open>during\<close> before they answer.\<close>

definition answering_provider :: "('s service \<Rightarrow> 's service) \<Rightarrow> 's replies \<Rightarrow> 's provider" where
  "answering_provider during re =
    \<lparr>send_code = (\<lambda>t phone s. (during s, re_code re t phone s)),
     sign_in = (\<lambda>t phone code hash s. (during s, re_sign_in re t phone code hash s)),
     check_password = (\<lambda>t password s. (during s, re_password re t password s))\<rparr>"

definition answering_environment ::
  "uuid set \<Rightarrow> (time \<Rightarrow> time) \<Rightarrow> duration \<Rightarrow> (db service \<Rightarrow> db service) \<Rightarrow> db replies \<Rightarrow> db environment" where
  "answering_environment operators clk ttl during re =
     store_environment operators counting_id clk ttl counting_draw during (\<lambda>t s. (during s, re_stop re t s))
       (Some (answering_provider during re)) (\<lambda>_. during) (\<lambda>_ s. (during s, True))"

lemma elapse_inv [simp]: "service_inv (elapse w s) = service_inv s"
  by (simp add: elapse_def split: prod.split)

lemma elapse_simps [simp]:
  "sv_durable (elapse w s) = sv_durable s"
  "sv_closed (elapse w s) = sv_closed s" "sv_registry (elapse w s) = sv_registry s"
  by (simp_all add: elapse_def split: prod.split)

text \<open>A runtime that only takes its time.\<close>

interpretation quiet: service_over_store operators counting_id clk ttl counting_draw "elapse w"
    "\<lambda>t s. (elapse w s, re_stop re t s)" "Some (answering_provider (elapse w) re)" "\<lambda>_. elapse w" "\<lambda>_ s. (elapse w s, True)"
  for operators clk ttl w re
  by unfold_locales (auto simp: counting_id counting_draw answering_provider_def)

text \<open>An account once admitted stays admitted whatever request the quiet runtime serves.\<close>

definition serves_admitted :: "RuntimeTarget \<Rightarrow> db service \<Rightarrow> bool" where
  "serves_admitted t s \<longleftrightarrow> service_inv s \<and> admitted t (sv_durable s)"

lemma on_store_admitted:
  assumes "serves_admitted t s" "\<And>now d d' r. f now d = (d', r) \<Longrightarrow> account_step d d'"
  shows "serves_admitted t (fst (on_store f s))"
  using on_store_inv [of s f] admitted_step [of "sv_durable s" _ t] assms
  by (auto simp: serves_admitted_def service_inv_def on_store_def split: prod.splits)

lemma persistence_admitted:
  assumes "serves_admitted t s"
  shows "serves_admitted t (fst (begin_or_resume (service_persistence operators counting_id clk (elapse w) stopper) actor phone e s))"
    and "serves_admitted t (fst (finalize_account (service_persistence operators counting_id clk (elapse w) stopper) actor i v profile s))"
    and "serves_admitted t (fst (begin_abort (service_persistence operators counting_id clk (elapse w) stopper) actor i v s))"
    and "serves_admitted t (fst (complete_abort (service_persistence operators counting_id clk (elapse w) stopper) actor i v s))"
  using on_store_admitted [OF assms, of "\<lambda>now d. BeginOrResume operators (clk now) (counting_id d) actor phone e d"]
    account_step.begin_auth [OF counting_id]
  by (auto simp: service_persistence_def serves_admitted_def intro!: on_store_admitted [OF assms, unfolded serves_admitted_def]
      intro: account_step.intros)

interpretation quiet_admitted: service_contract "answering_environment operators clk ttl (elapse w) re" "serves_admitted t"
  for operators clk ttl w re t
proof (unfold_locales, unfold answering_environment_def store_environment_def environment.select_convs)
  fix s s1 and r :: begin_result and actor phone e
  assume s: "serves_admitted t s" and run: "lifecycle_Begin (service_persistence operators counting_id clk (elapse w)
        (\<lambda>t s. (elapse w s, re_stop re t s))) actor phone e s = (s1, Returns r)"
    and out: "br_outcome r \<noteq> BeginAlreadyActive"
  have "serves_admitted t s1"
    using persistence_admitted(1) [OF s, of operators clk w "\<lambda>t s. (elapse w s, re_stop re t s)" actor phone e] run
    by (auto simp: lifecycle_Begin_def split: prod.splits outcome.splits option.splits)
  moreover have "service_inv (s1\<lparr>sv_registry := fst (Prepare (sv_ctx s1) (sv_now s1) counting_draw
      (authTarget actor (br_account r)) phone (br_expires r) (sv_registry s1))\<rparr>)"
    using service_admits [OF _ counting_id _ _ counting_draw run out] s by (simp add: serves_admitted_def)
  ultimately show "serves_admitted t (s1\<lparr>sv_registry := fst (Prepare (sv_ctx s1) (sv_now s1) counting_draw
      (authTarget actor (br_account r)) phone (br_expires r) (sv_registry s1))\<rparr>)"
    by (simp add: serves_admitted_def)
qed (use persistence_admitted service_inv_registry registry_work.closes in
      \<open>auto simp: serves_admitted_def service_persistence_def answering_provider_def\<close>)

text \<open>A runtime during whose calls other requests are served, each of them by the quiet one. The requests
  that \<open>keeps\<close> forbids need a mutex that is held during the call: they reach its lock and wait until
  the call is over.\<close>

fun serve_waiting ::
  "'s environment \<Rightarrow> ('s service \<Rightarrow> 's service \<Rightarrow> bool) \<Rightarrow> (time \<times> ctx \<times> request) list \<Rightarrow> 's service \<Rightarrow> 's service" where
  "serve_waiting env keeps [] s = s"
| "serve_waiting env keeps ((now, c, request) # rest) s =
    (let s' = serve env request (request_at now c s) in serve_waiting env keeps rest (if keeps s s' then s' else s))"

definition during_requests ::
  "('s environment) \<Rightarrow> ('s service \<Rightarrow> time \<times> ctx \<times> ctx) \<Rightarrow> ('s service \<Rightarrow> (time \<times> ctx \<times> request) list)
   \<Rightarrow> ('s service \<Rightarrow> 's service \<Rightarrow> bool) \<Rightarrow> 's service \<Rightarrow> 's service" where
  "during_requests env w others keeps s = elapse w (serve_waiting env keeps (others s) s)"

definition gate_kept :: "'s service \<Rightarrow> 's service \<Rightarrow> bool" where
  "gate_kept s s' \<longleftrightarrow> sv_closed s' = sv_closed s"

lemma serve_waiting_keeps:
  assumes "\<And>s. keeps s s" "\<And>x y z. keeps x y \<Longrightarrow> keeps y z \<Longrightarrow> keeps x z"
  shows "keeps s (serve_waiting env keeps rs s)"
proof (induction rs arbitrary: s)
  case (Cons r rs)
  then show ?case using assms by (cases r) (auto simp: Let_def)
qed (simp add: assms)

lemma serve_waiting_admitted:
  "serves_admitted t s \<Longrightarrow> serves_admitted t (serve_waiting (answering_environment operators clk ttl (elapse w) re) keeps rs s)"
proof (induction rs arbitrary: s)
  case (Cons r rs)
  have "serves_admitted t (request_at now c s)" for now c
    using Cons.prems by (simp add: request_at_def serves_admitted_def)
  then show ?case using Cons.IH Cons.prems quiet_admitted.serve_inv by (cases r) (simp add: Let_def)
qed simp

lemma serve_waiting_inv:
  "service_inv s \<Longrightarrow> service_inv (serve_waiting (answering_environment operators clk ttl (elapse w) re) keeps rs s)"
proof (induction rs arbitrary: s)
  case (Cons r rs)
  have "service_inv (request_at now c s)" for now c using Cons.prems by (simp add: request_at_def)
  then have "service_inv (serve (answering_environment operators clk ttl (elapse w) re) request (request_at now c s))"
    for request now c unfolding answering_environment_def by (rule quiet.contract.serve_inv)
  then show ?case using Cons.IH Cons.prems by (cases r) (simp add: Let_def)
qed simp

lemma during_requests_inv:
  "service_inv s \<Longrightarrow> service_inv (during_requests (answering_environment operators clk ttl (elapse w) re) w' others keeps s)"
  by (simp add: during_requests_def serve_waiting_inv)

lemma during_requests_admitted:
  "service_inv s \<Longrightarrow> admitted t (sv_durable s) \<Longrightarrow>
    admitted t (sv_durable (during_requests (answering_environment operators clk ttl (elapse w) re) w' others keeps s))"
  using serve_waiting_admitted [of t s] by (simp add: during_requests_def serves_admitted_def)

lemma during_requests_gate: "sv_closed (during_requests env w others gate_kept s) = sv_closed s"
  using serve_waiting_keeps [of gate_kept s env "others s"] by (simp add: during_requests_def gate_kept_def)

lemma during_requests_challenge: "keeps_challenge t s (during_requests env w others (keeps_challenge t) s)"
proof -
  have "keeps_challenge t s (serve_waiting env (keeps_challenge t) (others s) s)"
    by (rule serve_waiting_keeps) (auto intro: keeps_challenge_trans)
  then show ?thesis by (simp add: during_requests_def keeps_challenge_def)
qed

abbreviation anyone :: "'s service \<Rightarrow> 's service \<Rightarrow> bool" where
  "anyone \<equiv> \<lambda>_ _. True"

interpretation busy: service_over_store operators counting_id clk ttl counting_draw
    "during_requests (answering_environment operators clk ttl (elapse w) re) w others gate_kept"
    "\<lambda>t s. (during_requests (answering_environment operators clk ttl (elapse w) re) w others anyone s, re_stop re t s)"
    "Some (answering_provider (during_requests (answering_environment operators clk ttl (elapse w) re) w others anyone) re)"
    "\<lambda>_. during_requests (answering_environment operators clk ttl (elapse w) re) w others anyone"
    "\<lambda>_ s. (during_requests (answering_environment operators clk ttl (elapse w) re) w others anyone s, True)"
  for operators clk ttl w re others
  by unfold_locales (auto simp: counting_id counting_draw answering_provider_def during_requests_inv
      during_requests_admitted during_requests_gate)

text \<open>The same runtime with the mutex of the record, held while an operation on a challenge asks the provider
  or the stopper: the requests that would remove the challenge wait.\<close>

definition locking_provider ::
  "'s environment \<Rightarrow> ('s service \<Rightarrow> time \<times> ctx \<times> ctx) \<Rightarrow> 's replies
   \<Rightarrow> ('s service \<Rightarrow> (time \<times> ctx \<times> request) list) \<Rightarrow> 's provider" where
  "locking_provider env w re others =
    \<lparr>send_code = (\<lambda>t phone s. (during_requests env w others anyone s, re_code re t phone s)),
     sign_in = (\<lambda>t phone code hash s. (during_requests env w others (keeps_challenge t) s, re_sign_in re t phone code hash s)),
     check_password = (\<lambda>t password s. (during_requests env w others (keeps_challenge t) s, re_password re t password s))\<rparr>"

interpretation locking: record_locks operators counting_id clk ttl counting_draw
    "during_requests (answering_environment operators clk ttl (elapse w) re) w others gate_kept"
    "\<lambda>t s. (during_requests (answering_environment operators clk ttl (elapse w) re) w others (keeps_challenge t) s, re_stop re t s)"
    "Some (locking_provider (answering_environment operators clk ttl (elapse w) re) w re others)"
    "\<lambda>_. during_requests (answering_environment operators clk ttl (elapse w) re) w others anyone"
    "\<lambda>_ s. (during_requests (answering_environment operators clk ttl (elapse w) re) w others anyone s, True)"
  for operators clk ttl w re others
  by unfold_locales (auto simp: counting_id counting_draw locking_provider_def during_requests_inv
      during_requests_admitted during_requests_gate during_requests_challenge)

end
