(* ===== verification/Service_Properties.thy ===== *)
theory Service_Properties
  imports Service_Store
begin

text \<open>
  The properties of the authentication service over the store: consistency of challenges and accounts
  in every reachable state, when the provider may be asked, what a completed and what a cancelled
  authentication mean for the stored account.
\<close>

section \<open>Consistency\<close>

lemma NewService_inv:
  assumes "accounts_inv d"
  shows "service_inv (NewService ttl now d)"
proof -
  have "registry_ok (sv_registry (NewService ttl now d))"
    by (rule fresh_registry_ok) (auto simp: NewService_def fresh_registry_def)
  then show ?thesis using assms by (simp add: service_inv_def NewService_def targets_def newChallengeRegistry_def)
qed

definition served_from :: "db environment \<Rightarrow> duration \<Rightarrow> db service \<Rightarrow> bool" where
  "served_from env ttl s \<longleftrightarrow>
     (\<exists>now d. reachable accounts_init account_step d \<and> rtranclp (service_step env) (NewService ttl now d) s)"

context service_over_store
begin

abbreviation env :: "db environment" where
  "env \<equiv> store_environment operators fresh clk ttl draw gap stopper provider lock trylock"

lemma run_inv: "rtranclp (service_step env) s s' \<Longrightarrow> service_inv s \<Longrightarrow> service_inv s'"
  by (induction rule: rtranclp_induct) (auto intro: contract.service_step_inv)

lemma served_inv: "served_from env ttl' s \<Longrightarrow> service_inv s"
  by (auto simp: served_from_def intro: run_inv NewService_inv reachable_accounts_inv)

end

text \<open>C23: Challenges and accounts stay consistent across all requests. In every state a service reaches
  from a consistent store, however its requests interleave with one another and with other
  transactions while Telegram is asked, an operator has at most one live challenge, it belongs to an
  account of that operator, and that account is still authenticating at the version the challenge
  was admitted with or has moved past that version; the account table itself satisfies its
  constraints and every active account has a session.\<close>

theorem service_consistent:
  assumes "service_over_store fresh draw gap stopper provider lock trylock"
    and "served_from (store_environment operators fresh clk ttl draw gap stopper provider lock trylock) ttl s"
  shows "distinct (map owner (challenges (sv_registry s)))
    \<and> (\<forall>r \<in> set (challenges (sv_registry s)). \<exists>a \<in> set (operator_accounts (sv_durable s)).
         oa_operator a = owner r \<and> oa_id a = target_account (cr_target r)
         \<and> (oa_status a = Authenticating \<and> oa_version a = uint (target_version (cr_target r))
            \<or> uint (target_version (cr_target r)) < oa_version a))
    \<and> (\<forall>a \<in> set (operator_accounts (sv_durable s)). account_checks a
         \<and> (oa_status a = Active \<longrightarrow> has_session (sv_durable s) (oa_id a)))"
proof -
  have inv: "service_inv s" by (rule service_over_store.served_inv [OF assms])
  have ok: "registry_ok (sv_registry s)" and accs: "accounts_inv (sv_durable s)" using inv by (simp_all add: service_inv_def)
  have "distinct (map owner (challenges (sv_registry s)))"
    using registry_okD(1) [OF ok] one_per_actor [OF ok] by (auto simp: distinct_map inj_on_def)
  moreover have "\<exists>a \<in> set (operator_accounts (sv_durable s)). oa_operator a = owner r \<and> oa_id a = target_account (cr_target r)
         \<and> (oa_status a = Authenticating \<and> oa_version a = uint (target_version (cr_target r))
            \<or> uint (target_version (cr_target r)) < oa_version a)" if "r \<in> set (challenges (sv_registry s))" for r
  proof -
    have "admitted (cr_target r) (sv_durable s)" using inv that by (simp add: service_inv_def targets_def)
    then show ?thesis by (auto simp: admitted_def owner_def)
  qed
  moreover have "account_checks a \<and> (oa_status a = Active \<longrightarrow> has_session (sv_durable s) (oa_id a))"
    if "a \<in> set (operator_accounts (sv_durable s))" for a
    using accs that by (simp add: accounts_inv_def account_row_ok_def)
  ultimately show ?thesis by blast
qed

section \<open>When the provider is asked\<close>

text \<open>A code is requested for a challenge just registered, with its phone and while the service is open; the
  account it was admitted for is stored, as authenticating at that version or moved past it by
  others since the admission was committed.\<close>

definition may_send_code :: "uuid \<Rightarrow> RuntimeTarget \<Rightarrow> rune list \<Rightarrow> db service \<Rightarrow> bool" where
  "may_send_code actor t phone s \<longleftrightarrow> \<not> sv_closed s \<and> \<not> rg_closed (sv_registry s)
     \<and> (\<exists>r \<in> set (challenges (sv_registry s)). cr_target r = t \<and> owner r = actor \<and> cr_phone r = phone
          \<and> \<not> cr_ready r \<and> cr_codeAttempts r = 0)
     \<and> admitted t (sv_durable s)"

text \<open>A code or a password is submitted for a live challenge of the actor that has not expired and waits for
  it, with what the challenge stores, and the attempt is counted already. The stored account of the
  challenge is authenticating at the challenge's version or has moved past it: it may be disconnecting
  already when the runtime could not be stopped for an earlier cancellation.\<close>

definition may_sign_in :: "uuid \<Rightarrow> uuid \<Rightarrow> rune list \<Rightarrow> RuntimeTarget \<Rightarrow> rune list \<Rightarrow> rune list \<Rightarrow> rune list
  \<Rightarrow> db service \<Rightarrow> bool" where
  "may_sign_in actor rid submitted t phone code hash s \<longleftrightarrow> \<not> rg_closed (sv_registry s) \<and> code = TrimSpace submitted
     \<and> (\<exists>r \<in> set (challenges (sv_registry s)). cr_request r = rid \<and> owner r = actor \<and> cr_target r = t
          \<and> cr_phone r = phone \<and> cr_hash r = hash \<and> hash \<noteq> [] \<and> sv_now s < cr_expires r \<and> cr_stage r = StageCode
          \<and> cr_pendingProfile r = None \<and> 1 \<le> cr_codeAttempts r \<and> cr_codeAttempts r \<le> 5)
     \<and> admitted t (sv_durable s)"

definition may_check_password :: "uuid \<Rightarrow> uuid \<Rightarrow> byte list \<Rightarrow> RuntimeTarget \<Rightarrow> byte list \<Rightarrow> db service \<Rightarrow> bool" where
  "may_check_password actor rid submitted t password s \<longleftrightarrow> \<not> rg_closed (sv_registry s) \<and> password = submitted
     \<and> length password \<le> 4096
     \<and> (\<exists>r \<in> set (challenges (sv_registry s)). cr_request r = rid \<and> owner r = actor \<and> cr_target r = t
          \<and> sv_now s < cr_expires r \<and> cr_stage r = StagePassword
          \<and> cr_pendingProfile r = None \<and> 1 \<le> cr_passwordAttempts r \<and> cr_passwordAttempts r \<le> 5)
     \<and> admitted t (sv_durable s)"

lemma provider_unused [simp]:
  "abort (env\<lparr>en_provider := x\<rparr>) = abort env"
  "expireChallenge (env\<lparr>en_provider := x\<rparr>) = expireChallenge env"
  "abortProviderFailure (env\<lparr>en_provider := x\<rparr>) = abortProviderFailure env"
  "handlePrepareFailure (env\<lparr>en_provider := x\<rparr>) = handlePrepareFailure env"
  "handleSendCodeFailure (env\<lparr>en_provider := x\<rparr>) = handleSendCodeFailure env"
  "handleAttachFailure (env\<lparr>en_provider := x\<rparr>) = handleAttachFailure env"
  "finalize (env\<lparr>en_provider := x\<rparr>) = finalize env"
  "abortOperation (env\<lparr>en_provider := x\<rparr>) = abortOperation env"
  "handleProviderFailure (env\<lparr>en_provider := x\<rparr>) = handleProviderFailure env"
  "keep_and_finalize (env\<lparr>en_provider := x\<rparr>) = keep_and_finalize env"
  "settle (env\<lparr>en_provider := x\<rparr>) = settle env"
proof -
  show a: "abort (env\<lparr>en_provider := x\<rparr>) = abort env" by (simp add: abort_def fun_eq_iff)
  show e: "expireChallenge (env\<lparr>en_provider := x\<rparr>) = expireChallenge env" unfolding fun_eq_iff expireChallenge_def a by simp
  show p: "abortProviderFailure (env\<lparr>en_provider := x\<rparr>) = abortProviderFailure env"
    unfolding fun_eq_iff abortProviderFailure_def a by simp
  show "handlePrepareFailure (env\<lparr>en_provider := x\<rparr>) = handlePrepareFailure env"
    unfolding fun_eq_iff handlePrepareFailure_def a e by simp
  show "handleSendCodeFailure (env\<lparr>en_provider := x\<rparr>) = handleSendCodeFailure env"
    unfolding fun_eq_iff handleSendCodeFailure_def p e by simp
  show "handleAttachFailure (env\<lparr>en_provider := x\<rparr>) = handleAttachFailure env"
    unfolding fun_eq_iff handleAttachFailure_def a e by simp
  show f: "finalize (env\<lparr>en_provider := x\<rparr>) = finalize env" by (simp add: finalize_def fun_eq_iff)
  show o: "abortOperation (env\<lparr>en_provider := x\<rparr>) = abortOperation env" unfolding fun_eq_iff abortOperation_def a by simp
  show "handleProviderFailure (env\<lparr>en_provider := x\<rparr>) = handleProviderFailure env"
    unfolding fun_eq_iff handleProviderFailure_def o by simp
  show "keep_and_finalize (env\<lparr>en_provider := x\<rparr>) = keep_and_finalize env"
    unfolding fun_eq_iff keep_and_finalize_def f by simp
  show "settle (env\<lparr>en_provider := x\<rparr>) = settle env" unfolding fun_eq_iff settle_def e by simp
qed

lemma lock_operation_opened:
  assumes ok: "registry_ok reg" and run: "lock_operation now actor found reg = Opened r"
  shows "r \<in> set (challenges reg) \<and> cr_request r = cr_request found \<and> cr_addr r = cr_addr found \<and> owner r = actor
    \<and> \<not> rg_closed reg \<and> now < cr_expires r \<and> (cr_ready r \<or> cr_pendingProfile r \<noteq> None)"
proof -
  have r: "owner (deref reg found) = actor" "find_challenge reg (cr_request found) = Some r" "cr_addr r = cr_addr found"
    "\<not> rg_closed reg" "now < cr_expires r" "cr_ready r \<or> cr_pendingProfile r \<noteq> None"
    using run by (auto simp: lock_operation_def current_def registered_def split: option.splits if_splits)
  have m: "r \<in> set (challenges reg)" "cr_request r = cr_request found" using find_challengeD [OF r(2)] by simp_all
  show ?thesis using r m deref_member [OF ok m(1) r(3)] by simp
qed

text \<open>Counting an attempt.\<close>

lemma code_attempt_counted:
  assumes ok: "registry_ok reg" and r: "r \<in> set (challenges reg)" and run: "ReserveCodeAttempt r reg = (reg', True)"
  shows "r\<lparr>cr_codeAttempts := Suc (cr_codeAttempts r)\<rparr> \<in> set (challenges reg')"
    and "Suc (cr_codeAttempts r) \<le> 5" and "rg_closed reg' = rg_closed reg"
  using run r deref_self [OF ok r]
  by (auto simp: ReserveCodeAttempt_def at_record_def set_update_where maxCodeAttempts_def split: if_splits)

lemma password_attempt_counted:
  assumes ok: "registry_ok reg" and r: "r \<in> set (challenges reg)" and run: "ReservePasswordAttempt r reg = (reg', True)"
  shows "r\<lparr>cr_passwordAttempts := Suc (cr_passwordAttempts r)\<rparr> \<in> set (challenges reg')"
    and "Suc (cr_passwordAttempts r) \<le> 5" and "rg_closed reg' = rg_closed reg"
  using run r deref_self [OF ok r]
  by (auto simp: ReservePasswordAttempt_def at_record_def set_update_where maxPasswordAttempts_def split: if_splits)

lemma submit_code_agrees:
  assumes inv: "service_inv s" and r: "r \<in> set (challenges (sv_registry s))"
    and live: "\<not> rg_closed (sv_registry s)" "sv_now s < cr_expires r" "cr_ready r \<or> cr_pendingProfile r \<noteq> None"
    and p: "en_provider env = Some p"
    and agree: "\<And>t phone code hash s1. may_sign_in (owner r) (cr_request r) submitted t phone code hash s1 \<Longrightarrow>
      sign_in q t phone code hash s1 = sign_in p t phone code hash s1"
  shows "submit_code (env\<lparr>en_provider := Some q\<rparr>) submitted r s = submit_code env submitted r s"
proof (cases "cr_pendingProfile r = None \<and> cr_stage r = StageCode \<and> snd (ReserveCodeAttempt r (sv_registry s))")
  case False
  then show ?thesis by (auto simp: submit_code_def split: option.split prod.split bool.split)
next
  case True
  have ok: "registry_ok (sv_registry s)" and adm: "admitted (cr_target r) (sv_durable s)"
    using inv r by (simp_all add: service_inv_def targets_def)
  from True obtain reg where reg: "ReserveCodeAttempt r (sv_registry s) = (reg, True)" by (metis prod.collapse)
  have ready: "cr_ready r" using live(3) True by simp
  then have hash: "cr_hash r \<noteq> []" using registry_okD(3) [OF ok r] by (simp add: record_ok_def)
  note counted = code_attempt_counted [OF ok r reg]
  have "may_sign_in (owner r) (cr_request r) submitted (cr_target r) (cr_phone r) (TrimSpace submitted) (cr_hash r)
      (s\<lparr>sv_registry := reg\<rparr>)"
    unfolding may_sign_in_def using adm counted live hash True
    by (auto intro!: bexI [OF _ counted(1)] simp: owner_def)
  from agree [OF this] show ?thesis using True reg p
    by (simp add: submit_code_def Let_def split: option.split prod.split sum.split)
qed

lemma submit_password_agrees:
  assumes inv: "service_inv s" and r: "r \<in> set (challenges (sv_registry s))"
    and live: "\<not> rg_closed (sv_registry s)" "sv_now s < cr_expires r"
    and p: "en_provider env = Some p" and len: "length submitted \<le> 4096"
    and agree: "\<And>t password s1. may_check_password (owner r) (cr_request r) submitted t password s1 \<Longrightarrow>
      check_password q t password s1 = check_password p t password s1"
  shows "submit_password (env\<lparr>en_provider := Some q\<rparr>) submitted r s = submit_password env submitted r s"
proof (cases "cr_pendingProfile r = None \<and> cr_stage r = StagePassword \<and> snd (ReservePasswordAttempt r (sv_registry s))")
  case False
  then show ?thesis by (auto simp: submit_password_def split: option.split prod.split bool.split)
next
  case True
  have ok: "registry_ok (sv_registry s)" and adm: "admitted (cr_target r) (sv_durable s)"
    using inv r by (simp_all add: service_inv_def targets_def)
  from True obtain reg where reg: "ReservePasswordAttempt r (sv_registry s) = (reg, True)" by (metis prod.collapse)
  note counted = password_attempt_counted [OF ok r reg]
  have "may_check_password (owner r) (cr_request r) submitted (cr_target r) submitted (s\<lparr>sv_registry := reg\<rparr>)"
    unfolding may_check_password_def using adm counted live len True
    by (auto intro!: bexI [OF _ counted(1)] simp: owner_def)
  from agree [OF this] show ?thesis using True reg p
    by (simp add: submit_password_def Let_def split: option.split prod.split sum.split)
qed

lemma operate_agrees:
  assumes inv: "\<And>found. service_inv (en_lock env found s)"
    and agree: "\<And>r s1. service_inv s1 \<Longrightarrow> r \<in> set (challenges (sv_registry s1)) \<Longrightarrow> owner r = actor \<Longrightarrow>
      cr_request r = rid \<Longrightarrow> \<not> rg_closed (sv_registry s1) \<Longrightarrow> sv_now s1 < cr_expires r \<Longrightarrow>
      cr_ready r \<or> cr_pendingProfile r \<noteq> None \<Longrightarrow> action' r s1 = action r s1"
  shows "operate (env\<lparr>en_provider := x\<rparr>) actor rid action' s = operate env actor rid action s"
proof (cases "find_operation (sv_ctx s) (sv_now s) actor rid (sv_registry s)")
  case found: (Opened r0)
  then have rid: "cr_request r0 = rid"
    by (auto simp: find_operation_def replay_tombstone_def split: option.splits if_splits dest: find_challengeD)
  let ?s = "en_lock env r0 s"
  have ok: "registry_ok (sv_registry ?s)" using inv [of r0] by (simp add: service_inv_def)
  show ?thesis
  proof (cases "lock_operation (sv_now ?s) actor r0 (sv_registry ?s)")
    case (Opened r)
    from lock_operation_opened [OF ok Opened]
    have "action' r (?s\<lparr>sv_opctx := sv_ctx ?s\<rparr>) = action r (?s\<lparr>sv_opctx := sv_ctx ?s\<rparr>)"
      using inv [of r0] rid by (intro agree) auto
    then show ?thesis using found Opened by (simp add: operate_def Let_def)
  qed (simp add: operate_def found Let_def)
qed (simp add: operate_def)

lemma Prepare_created:
  assumes "Prepare c now draw t phone expires reg = (reg', rv, None)" "rv_created rv"
  shows "\<not> rg_closed reg' \<and> (\<exists>r \<in> set (challenges reg'). cr_target r = t \<and> cr_phone r = phone
    \<and> \<not> cr_ready r \<and> cr_codeAttempts r = 0)"
  using assms
  by (auto simp: Prepare_def Let_def create_challenge_def reservation_of_def no_reservation_def new_record_def
      cleanup_def split: option.splits if_splits)

text \<open>The admission over the store: the target it returns.\<close>

lemma Begin_over_store:
  assumes inv: "service_inv s" and fresh: "\<And>d. fresh d \<noteq> nil_uuid"
    and gap: "\<And>s t. service_inv s \<Longrightarrow> admitted t (sv_durable s) \<Longrightarrow> admitted t (sv_durable (gap s))"
      "\<And>s. sv_closed (gap s) = sv_closed s"
    and run: "lifecycle_Begin (service_persistence operators fresh clk gap stopper) actor phone e s = (s1, Returns b)"
    and out: "br_outcome b \<noteq> BeginAlreadyActive"
  shows "sv_closed s1 = sv_closed s" "admitted (authTarget actor (br_account b)) (sv_durable s1)"
proof -
  obtain d where d: "BeginOrResume operators (clk (sv_now s)) (fresh (sv_durable s)) actor phone e (sv_durable s) = (d, Returns b)"
    "s1 = gap (s\<lparr>sv_durable := d\<rparr>)"
    using run by (auto simp: lifecycle_Begin_def service_persistence_def on_store_def
        split: prod.splits outcome.splits option.splits)
  have inv0: "service_inv (s\<lparr>sv_durable := d\<rparr>)"
    by (rule service_inv_step [OF inv account_step.begin_auth [OF fresh d(1)]])
  have accs: "accounts_inv (sv_durable s)" "accounts_inv d" using inv inv0 by (simp_all add: service_inv_def)
  obtain a where a: "a \<in> set (operator_accounts d)" "oa_operator a = actor" "oa_status a = Authenticating"
    "br_account b = account_view a" using BeginOrResume_row [OF accs(1) d(1) out] by blast
  show "sv_closed s1 = sv_closed s" by (simp add: d(2) gap(2))
  show "admitted (authTarget actor (br_account b)) (sv_durable s1)"
    using gap(1) [OF inv0] admitted_target [OF accs(2) a(1-3)] by (simp add: d(2) a(4))
qed

lemma Start_agrees:
  assumes inv: "service_inv s" and ports: "en_ports env = service_persistence operators fresh clk gap stopper"
    and fresh: "\<And>d. fresh d \<noteq> nil_uuid"
    and gap: "\<And>s t. service_inv s \<Longrightarrow> admitted t (sv_durable s) \<Longrightarrow> admitted t (sv_durable (gap s))"
      "\<And>s. sv_closed (gap s) = sv_closed s"
    and p: "en_provider env = Some p"
    and agree: "\<And>t phone s1. may_send_code actor t phone s1 \<Longrightarrow> send_code q t phone s1 = send_code p t phone s1"
  shows "Start (env\<lparr>en_provider := Some q\<rparr>) actor phone s = Start env actor phone s"
proof (cases "\<exists>v s1 b. auth_normalizePhone phone = Inr v \<and> \<not> sv_closed s
    \<and> lifecycle_Begin (en_ports env) actor v (sv_now s + en_ttl env) s = (s1, Returns b)
    \<and> br_outcome b \<noteq> BeginAlreadyActive")
  case False
  then show ?thesis by (auto simp: Start_def Acquire_def split: option.split sum.split prod.split outcome.split)
next
  case True
  then obtain v s1 b where v: "auth_normalizePhone phone = Inr v" and adm: "\<not> sv_closed s"
    and run: "lifecycle_Begin (en_ports env) actor v (sv_now s + en_ttl env) s = (s1, Returns b)"
    and out: "br_outcome b \<noteq> BeginAlreadyActive" by blast
  let ?t = "authTarget actor (br_account b)"
  note row = Begin_over_store [where fresh = fresh and gap = gap, OF inv fresh gap run [unfolded ports] out]
  have "reserve_and_send (env\<lparr>en_provider := Some q\<rparr>) ?t v (br_expires b) s1 = reserve_and_send env ?t v (br_expires b) s1"
  proof -
    obtain reg rv x where prep: "Prepare (sv_ctx s1) (sv_now s1) (en_draw env) ?t v (br_expires b) (sv_registry s1) = (reg, rv, x)"
      by (metis prod_cases3)
    show ?thesis
    proof (cases "x = None \<and> rv_created rv")
      case False
      then show ?thesis using prep by (auto simp: reserve_and_send_def Let_def split: option.split)
    next
      case True
      have created: "Prepare (sv_ctx s1) (sv_now s1) (en_draw env) ?t v (br_expires b) (sv_registry s1) = (reg, rv, None)"
        "rv_created rv" using prep True by simp_all
      obtain r where r: "r \<in> set (challenges reg)" "cr_target r = ?t" "cr_phone r = v" "\<not> cr_ready r" "cr_codeAttempts r = 0"
        using Prepare_created [OF created] by blast
      have "owner r = actor" using r(2) by (simp add: owner_def authTarget_def)
      then have "may_send_code actor ?t v (s1\<lparr>sv_registry := reg\<rparr>)"
        unfolding may_send_code_def using row adm r Prepare_created [OF created] by auto
      from agree [OF this] show ?thesis using prep True p
        by (simp add: reserve_and_send_def Let_def sendCode_def split: option.split)
    qed
  qed
  then show ?thesis using v run out adm by (simp add: Start_def Acquire_def split: option.split)
qed

context service_over_store
begin

lemma asked_safely:
  assumes inv: "service_inv s" and p: "provider = Some p"
    and send: "\<And>t phone s1. may_send_code actor t phone s1 \<Longrightarrow> send_code q t phone s1 = send_code p t phone s1"
    and sign: "\<And>t phone code' hash s1. may_sign_in actor rid code t phone code' hash s1 \<Longrightarrow>
      sign_in q t phone code' hash s1 = sign_in p t phone code' hash s1"
    and check: "\<And>t password' s1. may_check_password actor rid password t password' s1 \<Longrightarrow>
      check_password q t password' s1 = check_password p t password' s1"
  shows "Start (env\<lparr>en_provider := Some q\<rparr>) actor phone s = Start env actor phone s"
    and "Code (env\<lparr>en_provider := Some q\<rparr>) actor rid code s = Code env actor rid code s"
    and "Password (env\<lparr>en_provider := Some q\<rparr>) actor rid password s = Password env actor rid password s"
proof -
  have e: "en_provider env = Some p" "en_ports env = service_persistence operators fresh clk gap stopper" "en_lock env = lock"
    by (simp_all add: store_environment_def p)
  have lock: "service_inv (en_lock env found s)" for found
    using waited_keeps [OF inv, of found] by (simp add: e)
  show "Start (env\<lparr>en_provider := Some q\<rparr>) actor phone s = Start env actor phone s"
    by (rule Start_agrees [where fresh = fresh and gap = gap, OF inv e(2) fresh_id gap_admitted gate_held e(1) send])
  have "operate (env\<lparr>en_provider := Some q\<rparr>) actor rid (submit_code (env\<lparr>en_provider := Some q\<rparr>) code) s
      = operate env actor rid (submit_code env code) s"
    by (rule operate_agrees [OF lock]) (use sign in \<open>auto intro!: submit_code_agrees [OF _ _ _ _ _ e(1)]\<close>)
  then show "Code (env\<lparr>en_provider := Some q\<rparr>) actor rid code s = Code env actor rid code s"
    by (simp add: Code_def split: option.split)
  have "operate (env\<lparr>en_provider := Some q\<rparr>) actor rid (submit_password (env\<lparr>en_provider := Some q\<rparr>) password) s
      = operate env actor rid (submit_password env password) s" if "length password \<le> maxPasswordBytes"
    by (rule operate_agrees [OF lock])
      (use check that in \<open>auto simp: maxPasswordBytes_def intro!: submit_password_agrees [OF _ _ _ _ e(1)]\<close>)
  then show "Password (env\<lparr>en_provider := Some q\<rparr>) actor rid password s = Password env actor rid password s"
    by (simp add: Password_def split: option.split)
qed

end

text \<open>C24: Telegram is only asked when it may be. Two providers that answer alike where a code may be
  requested (the service is open and the challenge has just been registered for this phone), where a
  code may be submitted and where a password may be checked (the challenge is live, unexpired, owned
  by the actor, in the right stage, and this attempt is among its first five and counted) cannot be
  told apart by any start, code or password request, however they behave anywhere else. In all three
  cases the account of the challenge is stored, as authenticating at the version it was admitted
  with or moved past it by then.\<close>

theorem provider_asked_safely:
  assumes "service_over_store fresh draw gap stopper (Some p) lock trylock"
    and "served_from (store_environment operators fresh clk ttl draw gap stopper (Some p) lock trylock) ttl s"
    and "\<And>t phone s1. may_send_code actor t phone s1 \<Longrightarrow> send_code q t phone s1 = send_code p t phone s1"
    and "\<And>t phone code' hash s1. may_sign_in actor rid code t phone code' hash s1 \<Longrightarrow>
      sign_in q t phone code' hash s1 = sign_in p t phone code' hash s1"
    and "\<And>t password' s1. may_check_password actor rid password t password' s1 \<Longrightarrow>
      check_password q t password' s1 = check_password p t password' s1"
  shows "Start (store_environment operators fresh clk ttl draw gap stopper (Some q) lock trylock) actor phone (request_at now c s)
      = Start (store_environment operators fresh clk ttl draw gap stopper (Some p) lock trylock) actor phone (request_at now c s)
    \<and> Code (store_environment operators fresh clk ttl draw gap stopper (Some q) lock trylock) actor rid code (request_at now c s)
      = Code (store_environment operators fresh clk ttl draw gap stopper (Some p) lock trylock) actor rid code (request_at now c s)
    \<and> Password (store_environment operators fresh clk ttl draw gap stopper (Some q) lock trylock) actor rid password (request_at now c s)
      = Password (store_environment operators fresh clk ttl draw gap stopper (Some p) lock trylock) actor rid password (request_at now c s)"
proof -
  have inv: "service_inv (request_at now c s)"
    using service_over_store.served_inv [OF assms(1,2)] by (simp add: request_at_def)
  have e: "store_environment operators fresh clk ttl draw gap stopper (Some q) lock trylock
    = store_environment operators fresh clk ttl draw gap stopper (Some p) lock trylock\<lparr>en_provider := Some q\<rparr>"
    by (simp add: store_environment_def)
  show ?thesis unfolding e
    using service_over_store.asked_safely [where actor = actor and rid = rid and code = code and password = password,
        OF assms(1) inv refl assms(3-5)] by blast
qed

section \<open>Completion\<close>

lemma Finalize_returns:
  assumes inv: "accounts_inv d" and run: "Finalize now clock operator i v p d = (d', Returns a)"
  obtains row where "find_account d' operator i = Some row" "oa_status row = Active" "account_view row = a"
    "has_session d' i"
proof -
  have inv': "accounts_inv d'" using account_step_effect [OF inv account_step.finalize [OF run]] by blast
  have active: "has_session d' i" if "find_account d' operator i = Some row" "oa_status row = Active" for row
    using inv' that find_account_Some [OF that(1)] by (auto simp: accounts_inv_def)
  from run show thesis
  proof (cases rule: Finalize_cases)
    case 1
    then show thesis using that active by blast
  next
    case (2 b)
    let ?row = "finalized_row clock p b"
    have "find_account d' operator i = Some ?row"
      by (rule write_account_find(1) [OF inv inv' 2(1)]) (simp_all add: finalized_row_def 2(10))
    then show thesis using that [of ?row] active [of ?row] 2(9) by (simp add: finalized_row_def)
  qed
qed

lemma CompleteAbort_returns:
  assumes inv: "accounts_inv d" and run: "CompleteAbort clock operator i v d = (d', Returns ())"
  obtains row where "find_account d' operator i = Some row" "oa_status row = Disconnected" "\<not> has_session d' i"
proof -
  have inv': "accounts_inv d'" using account_step_effect [OF inv account_step.complete_abort [OF run]] by blast
  from run show thesis
  proof (cases rule: CompleteAbort_cases)
    case 1
    then show thesis using that by blast
  next
    case (2 b)
    have "find_account d' operator i = Some (aborted_row clock b)"
      by (rule write_account_find(1) [OF inv inv' 2(1)]) (simp_all add: aborted_row_def 2(7))
    then show thesis using that [of "aborted_row clock b"] 2(7) by (simp add: aborted_row_def)
  qed
qed

text \<open>The pointer \<open>r\<close> is registered, for its target.\<close>

definition held :: "challengeRecord \<Rightarrow> challengeRegistry \<Rightarrow> bool" where
  "held r reg \<longleftrightarrow> (\<exists>y \<in> set (challenges reg). cr_addr y = cr_addr r \<and> cr_request y = cr_request r \<and> cr_target y = cr_target r)"

lemma held_self: "r \<in> set (challenges reg) \<Longrightarrow> held r reg"
  by (auto simp: held_def)

lemma held_kept: "held r (sv_registry s) \<Longrightarrow> keeps_challenge (cr_target r) s s' \<Longrightarrow> held r (sv_registry s')"
  unfolding held_def keeps_challenge_def by fastforce

lemma held_at_record:
  assumes "held r reg" "\<And>x. cr_addr (f x) = cr_addr x" "\<And>x. cr_request (f x) = cr_request x" "\<And>x. cr_target (f x) = cr_target x"
  shows "held r (at_record q f reg)"
proof -
  obtain y where y: "y \<in> set (challenges reg)" "cr_addr y = cr_addr r" "cr_request y = cr_request r" "cr_target y = cr_target r"
    using assms(1) by (auto simp: held_def)
  have "(if cr_addr y = cr_addr q then f y else y) \<in> set (challenges (at_record q f reg))"
    using y(1) by (auto simp: at_record_def set_update_where)
  then show ?thesis using y assms(2-4) unfolding held_def by (metis (full_types))
qed

lemma held_deref:
  assumes "registry_ok reg" "held r reg"
  shows "owner (deref reg r) = owner r" "registered reg (cr_request r) (cr_addr r)"
proof -
  obtain y where y: "y \<in> set (challenges reg)" "cr_addr y = cr_addr r" "cr_request y = cr_request r" "cr_target y = cr_target r"
    using assms(2) by (auto simp: held_def)
  show "owner (deref reg r) = owner r" using deref_member [OF assms(1) y(1,2)] y(4) by (simp add: owner_def)
  have "find_challenge reg (cr_request r) = Some y" using find_challenge_iff [OF assms(1)] y(1,3) by simp
  then show "registered reg (cr_request r) (cr_addr r)" using y(2) by (simp add: registered_def)
qed

text \<open>After the terminal removal the request is not live and its tombstone says what happened.\<close>

lemma removeWithTombstone_effect:
  assumes ok: "registry_ok reg" and h: "held r reg"
  shows "find_challenge (removeWithTombstone now r account aborted reg) (cr_request r) = None"
    and "find_tombstone (removeWithTombstone now r account aborted reg) (cr_request r)
      = Some \<lparr>ts_request = cr_request r, ts_actor = owner r, ts_expires = now + rg_ttl reg,
              ts_account = account, ts_aborted = aborted\<rparr>"
    and "rg_closed (removeWithTombstone now r account aborted reg) = rg_closed reg"
    and "rg_ttl (removeWithTombstone now r account aborted reg) = rg_ttl reg"
proof -
  have none: "find (\<lambda>t. ts_request t = cr_request r) (filter (\<lambda>t. ts_request t \<noteq> cr_request r) ts) = None" for ts
    by (simp add: find_None_set)
  have app: "find p (xs @ ys) = (case find p xs of None \<Rightarrow> find p ys | Some x \<Rightarrow> Some x)" for p :: "terminalResult \<Rightarrow> bool" and xs ys
    by (induction xs) auto
  note d = held_deref [OF ok h]
  show "find_challenge (removeWithTombstone now r account aborted reg) (cr_request r) = None"
    by (simp add: removeWithTombstone_def removeLocked_eq [OF ok d(2)] find_challenge_def find_None_set)
  show "find_tombstone (removeWithTombstone now r account aborted reg) (cr_request r)
      = Some \<lparr>ts_request = cr_request r, ts_actor = owner r, ts_expires = now + rg_ttl reg,
              ts_account = account, ts_aborted = aborted\<rparr>"
    by (simp add: removeWithTombstone_def removeLocked_eq [OF ok d(2)] find_tombstone_def none app d(1))
  show "rg_closed (removeWithTombstone now r account aborted reg) = rg_closed reg"
    "rg_ttl (removeWithTombstone now r account aborted reg) = rg_ttl reg"
    by (simp_all add: removeWithTombstone_def removeLocked_eq [OF ok d(2)])
qed

text \<open>The request has ended with this account: the account is stored as active with a session, the
  challenge is gone, and the terminal result is kept for the challenge lifetime.\<close>

definition ended_with :: "uuid \<Rightarrow> uuid \<Rightarrow> auth_account \<Rightarrow> db service \<Rightarrow> bool" where
  "ended_with actor rid a s \<longleftrightarrow>
     (\<exists>row. find_account (sv_durable s) actor (aa_id a) = Some row \<and> oa_status row = Active \<and> account_view row = a)
     \<and> has_session (sv_durable s) (aa_id a) \<and> find_challenge (sv_registry s) rid = None
     \<and> (\<exists>t. find_tombstone (sv_registry s) rid = Some t \<and> ts_actor t = actor \<and> ts_account t = Some a
          \<and> ts_expires t = sv_now s + rg_ttl (sv_registry s))"

lemma finalize_completed:
  assumes inv: "service_inv s" and h: "held r (sv_registry s)"
    and ports: "en_ports env = service_persistence operators fresh clk gap stopper"
    and run: "finalize env r profile s = (s2, Completed a, e)"
  shows "ended_with (owner r) (cr_request r) a s2"
proof -
  obtain d where d: "Finalize (clk (sv_now s)) (clk (sv_now s)) (owner r) (target_account (cr_target r))
      (target_version (cr_target r)) profile (sv_durable s) = (d, Returns a)"
    and s2: "s2 = Complete a r (s\<lparr>sv_durable := d\<rparr>)"
    using run by (auto simp: finalize_def lifecycle_Finalize_def ports service_persistence_def on_store_def owner_def
        split: if_splits prod.splits outcome.splits)
  have ok: "registry_ok (sv_registry s)" "accounts_inv (sv_durable s)" using inv by (simp_all add: service_inv_def)
  obtain row where row: "find_account d (owner r) (target_account (cr_target r)) = Some row" "oa_status row = Active"
    "account_view row = a" "has_session d (target_account (cr_target r))" by (rule Finalize_returns [OF ok(2) d])
  have "aa_id a = target_account (cr_target r)" using row(1,3) find_account_Some [OF row(1)] by (auto simp: account_view_def)
  then show ?thesis using row removeWithTombstone_effect [OF ok(1) h] by (simp add: ended_with_def s2 Complete_def)
qed

lemma keep_and_finalize_completed:
  assumes inv: "service_inv s" and h: "held r (sv_registry s)"
    and ports: "en_ports env = service_persistence operators fresh clk gap stopper"
    and run: "keep_and_finalize env r profile s = (s2, Completed a, e)"
  shows "ended_with (owner r) (cr_request r) a s2"
proof (rule finalize_completed [OF _ _ ports run [unfolded keep_and_finalize_def]])
  show "service_inv (s\<lparr>sv_registry := SetPendingProfile profile r (sv_registry s)\<rparr>)"
    by (rule service_inv_registry [OF inv registry_work.profile])
  show "held r (sv_registry (s\<lparr>sv_registry := SetPendingProfile profile r (sv_registry s)\<rparr>))"
    using held_at_record [OF h, of "\<lambda>x. x\<lparr>cr_pendingProfile := Some profile, cr_hash := [], cr_ready := False\<rparr>" r]
    by (simp add: SetPendingProfile_def)
qed

lemma not_completed [simp]:
  "abortOperation env r x s \<noteq> (s2, Completed a, e)" "handleProviderFailure env r x s \<noteq> (s2, Completed a, e)"
  by (auto simp: abortOperation_def handleProviderFailure_def Let_def split: prod.split option.split)

lemma reserve_code_held: "held r reg \<Longrightarrow> ReserveCodeAttempt r reg = (reg', b) \<Longrightarrow> held r reg'"
  using held_at_record [of r reg "\<lambda>x. x\<lparr>cr_codeAttempts := Suc (cr_codeAttempts x)\<rparr>" r]
  by (auto simp: ReserveCodeAttempt_def split: if_splits)

lemma reserve_password_held: "held r reg \<Longrightarrow> ReservePasswordAttempt r reg = (reg', b) \<Longrightarrow> held r reg'"
  using held_at_record [of r reg "\<lambda>x. x\<lparr>cr_passwordAttempts := Suc (cr_passwordAttempts x)\<rparr>" r]
  by (auto simp: ReservePasswordAttempt_def split: if_splits)

text \<open>An action that completes its challenge.\<close>

definition completes :: "(challengeRecord \<Rightarrow> db service \<Rightarrow> db service \<times> ending \<times> go_error option) \<Rightarrow> bool" where
  "completes action \<longleftrightarrow> (\<forall>r s s2 a e. service_inv s \<longrightarrow> held r (sv_registry s) \<longrightarrow> action r s = (s2, Completed a, e)
     \<longrightarrow> ended_with (owner r) (cr_request r) a s2)"

context service_over_store
begin

lemma env_ports: "en_ports env = service_persistence operators fresh clk gap stopper" "en_provider env = provider"
  "en_lock env = lock" by (simp_all add: store_environment_def)

lemma submit_code_completes:
  assumes locks: "\<And>p t phone code hash s. provider = Some p \<Longrightarrow> keeps_challenge t s (fst (sign_in p t phone code hash s))"
  shows "completes (submit_code env code)"
  unfolding completes_def
proof (intro allI impI)
  fix r s s2 a e
  assume inv: "service_inv s" and h: "held r (sv_registry s)" and run: "submit_code env code r s = (s2, Completed a, e)"
  show "ended_with (owner r) (cr_request r) a s2"
  proof (cases "cr_pendingProfile r")
    case (Some pending)
    then show ?thesis using finalize_completed [OF inv h env_ports(1)] run by (simp add: submit_code_def)
  next
    case None
    obtain reg p profile s1 where reg: "ReserveCodeAttempt r (sv_registry s) = (reg, True)" and p: "provider = Some p"
      and ask: "sign_in p (cr_target r) (cr_phone r) (TrimSpace code) (cr_hash r) (s\<lparr>sv_registry := reg\<rparr>) = (s1, Inr profile)"
      and fin: "keep_and_finalize env r profile s1 = (s2, Completed a, e)"
      using run None by (auto simp: submit_code_def env_ports Let_def split: if_splits prod.splits bool.splits option.splits sum.splits)
    have inv0: "service_inv (s\<lparr>sv_registry := reg\<rparr>)" using contract.works(5) [OF inv, of r] reg by simp
    have inv1: "service_inv s1" using signed_keeps [OF p inv0] ask by (metis fst_conv)
    have "keeps_challenge (cr_target r) (s\<lparr>sv_registry := reg\<rparr>) s1" using locks [OF p] ask by (metis fst_conv)
    then have "held r (sv_registry s1)" using held_kept [of r "s\<lparr>sv_registry := reg\<rparr>" s1] reserve_code_held [OF h reg] by simp
    then show ?thesis by (rule keep_and_finalize_completed [OF inv1 _ env_ports(1) fin])
  qed
qed

lemma submit_password_completes:
  assumes locks: "\<And>p t password s. provider = Some p \<Longrightarrow> keeps_challenge t s (fst (check_password p t password s))"
  shows "completes (submit_password env password)"
  unfolding completes_def
proof (intro allI impI)
  fix r s s2 a e
  assume inv: "service_inv s" and h: "held r (sv_registry s)" and run: "submit_password env password r s = (s2, Completed a, e)"
  show "ended_with (owner r) (cr_request r) a s2"
  proof (cases "cr_pendingProfile r")
    case (Some pending)
    then show ?thesis using finalize_completed [OF inv h env_ports(1)] run by (simp add: submit_password_def)
  next
    case None
    obtain reg p profile s1 where reg: "ReservePasswordAttempt r (sv_registry s) = (reg, True)" and p: "provider = Some p"
      and ask: "check_password p (cr_target r) password (s\<lparr>sv_registry := reg\<rparr>) = (s1, Inr profile)"
      and fin: "keep_and_finalize env r profile s1 = (s2, Completed a, e)"
      using run None by (auto simp: submit_password_def env_ports Let_def split: if_splits prod.splits bool.splits option.splits sum.splits)
    have inv0: "service_inv (s\<lparr>sv_registry := reg\<rparr>)" using contract.works(6) [OF inv, of r] reg by simp
    have inv1: "service_inv s1" using checked_keeps [OF p inv0] ask by (metis fst_conv)
    have "keeps_challenge (cr_target r) (s\<lparr>sv_registry := reg\<rparr>) s1" using locks [OF p] ask by (metis fst_conv)
    then have "held r (sv_registry s1)" using held_kept [of r "s\<lparr>sv_registry := reg\<rparr>" s1] reserve_password_held [OF h reg] by simp
    then show ?thesis by (rule keep_and_finalize_completed [OF inv1 _ env_ports(1) fin])
  qed
qed

lemma operate_completed:
  assumes inv: "service_inv s" and action: "completes action"
    and run: "operate env actor rid action s = (s', r, e)" and a: "res_account r = Some a"
  shows "s' = s \<and> find_operation (sv_ctx s) (sv_now s) actor rid (sv_registry s) = Answer (Some a) None None
    \<or> ended_with actor rid a s'"
proof (cases "find_operation (sv_ctx s) (sv_now s) actor rid (sv_registry s)")
  case (Answer a' ch e')
  then have "a' = Some a" using run a by (auto simp: operate_def)
  then show ?thesis using run Answer find_operation_answer [OF Answer] by (auto simp: operate_def)
next
  case found: (Opened r0)
  then have rid: "cr_request r0 = rid"
    by (auto simp: find_operation_def replay_tombstone_def split: option.splits if_splits dest: find_challengeD)
  let ?s = "lock r0 s"
  have invl: "service_inv (?s\<lparr>sv_opctx := sv_ctx ?s\<rparr>)" using waited_keeps [OF inv] by simp
  then have ok: "registry_ok (sv_registry ?s)" by (simp add: service_inv_def)
  show ?thesis
  proof (cases "lock_operation (sv_now ?s) actor r0 (sv_registry ?s)")
    case (Answer a' ch e')
    then show ?thesis using run found a lock_operation_answer [OF Answer] by (auto simp: operate_def Let_def env_ports)
  next
    case (Opened q)
    note q = lock_operation_opened [OF ok Opened]
    obtain s2 ending e' where act: "action q (?s\<lparr>sv_opctx := sv_ctx ?s\<rparr>) = (s2, ending, e')" by (metis prod_cases3)
    then have "ending = Completed a" "s' = s2" using run found Opened a
      by (auto simp: operate_def Let_def env_ports account_answer_def challenge_answer_def no_answer_def split: ending.splits)
    then show ?thesis using action act invl q rid held_self [of q "sv_registry ?s"] unfolding completes_def by fastforce
  qed
qed

end


lemma settle_success: "settle env x = (s', r, None) \<Longrightarrow> x = (s', r, None)"
proof -
  assume a: "settle env x = (s', r, None)"
  obtain s1 r1 e1 where x: "x = (s1, r1, e1)" by (metis prod_cases3)
  show ?thesis
  proof (cases e1)
    case None
    then show ?thesis using a x by (cases "res_challenge r1") (auto simp: settle_def)
  next
    case (Some e)
    then show ?thesis using a x by (auto simp: settle_def split: option.splits if_splits dest: expire_fails)
  qed
qed

lemma find_operation_replay:
  assumes "find_operation c now actor rid reg = Answer (Some a) None None"
  shows "\<exists>t. find_tombstone reg rid = Some t \<and> ts_actor t = actor \<and> now < ts_expires t \<and> ts_account t = Some a"
  using assms by (auto simp: find_operation_def replay_tombstone_def split: option.splits if_splits)

context service_over_store
begin

lemma submission_completes:
  assumes inv: "service_inv s"
    and sign: "\<And>p t phone code hash s. provider = Some p \<Longrightarrow> keeps_challenge t s (fst (sign_in p t phone code hash s))"
    and check: "\<And>p t password s. provider = Some p \<Longrightarrow> keeps_challenge t s (fst (check_password p t password s))"
    and run: "Code env actor rid code s = (s', r, None) \<or> Password env actor rid password s = (s', r, None)"
    and a: "res_account r = Some a"
  shows "s' = s \<and> (\<exists>t. find_tombstone (sv_registry s) rid = Some t \<and> ts_actor t = actor \<and> sv_now s < ts_expires t
      \<and> ts_account t = Some a)
    \<or> ended_with actor rid a s' \<and> r = account_answer a \<and> actor \<noteq> nil_uuid \<and> rid \<noteq> nil_uuid"
proof -
  have code: "actor \<noteq> nil_uuid \<and> rid \<noteq> nil_uuid \<and> operate env actor rid (submit_code env code) s = (s', r, None)"
    if "Code env actor rid code s = (s', r, None)"
    using that by (auto simp: Code_def validateServiceContext_def split: ctx.splits if_splits dest!: settle_success)
  have password: "actor \<noteq> nil_uuid \<and> rid \<noteq> nil_uuid \<and> operate env actor rid (submit_password env password) s = (s', r, None)"
    if "Password env actor rid password s = (s', r, None)"
    using that by (auto simp: Password_def validateServiceContext_def split: ctx.splits if_splits dest!: settle_success)
  have completing: "completes (submit_code env code)" "completes (submit_password env password)"
    by (rule submit_code_completes [OF sign], assumption, rule submit_password_completes [OF check], assumption)
  obtain action where action: "completes action" "\<And>r s. action_ok (action r s)" "operate env actor rid action s = (s', r, None)"
    and args: "actor \<noteq> nil_uuid" "rid \<noteq> nil_uuid"
    using run code password completing action_ok_code action_ok_password by metis
  have "answer_ok (operate env actor rid action s)" by (rule answer_ok_operate) (rule action(2))
  then have "answer_ok (s', r, None)" by (simp add: action(3))
  then have "r = account_answer a" using a by (simp add: answer_ok_def validate_result_def account_answer_def split: if_splits)
  then show ?thesis using operate_completed [OF inv action(1,3) a] find_operation_replay args by blast
qed

lemma abort_returns:
  assumes inv: "service_inv s" and run: "abort env t s = (s', None)"
  shows "\<exists>row. find_account (sv_durable s') (target_operator t) (target_account t) = Some row
      \<and> oa_status row = Disconnected \<and> \<not> has_session (sv_durable s') (target_account t)"
    and "\<exists>s1. sv_registry s' = sv_registry (fst (stopper t s1)) \<and> sv_registry s1 = sv_registry s"
    and "service_inv s'"
proof -
  obtain d v where begins: "BeginAbort (clk (sv_now s)) (target_operator t) (target_account t) (target_version t) (sv_durable s)
      = (d, Returns v)"
    and rest: "stop_and_complete (en_ports env) ''stop telegram account runtime'' ''complete operator account abort'' t v
      (s\<lparr>sv_durable := d\<rparr>) = (s', None)"
    using run by (auto simp: abort_def Abort_def env_ports service_persistence_def on_store_def
        split: option.splits prod.splits outcome.splits if_splits)
  let ?s1 = "s\<lparr>sv_durable := d\<rparr>"
  have inv1: "service_inv ?s1" by (rule service_inv_step [OF inv account_step.begin_abort [OF begins]])
  obtain s2 where stopped: "stopper t ?s1 = (s2, None)"
    and comp: "complete_abort (en_ports env) (target_operator t) (target_account t) v s2 = (s', Returns ())"
    using rest by (auto simp: stop_and_complete_def env_ports service_persistence_def split: prod.splits option.splits outcome.splits)
  have inv2: "service_inv s2" using stopper_keeps [OF inv1, of t] stopped by simp
  obtain d2 where d2: "CompleteAbort (clk (sv_now s2)) (target_operator t) (target_account t) v (sv_durable s2) = (d2, Returns ())"
    "s' = s2\<lparr>sv_durable := d2\<rparr>"
    using comp by (auto simp: env_ports service_persistence_def on_store_def split: prod.splits)
  have "accounts_inv (sv_durable s2)" using inv2 by (simp add: service_inv_def)
  from CompleteAbort_returns [OF this d2(1)]
  show "\<exists>row. find_account (sv_durable s') (target_operator t) (target_account t) = Some row
      \<and> oa_status row = Disconnected \<and> \<not> has_session (sv_durable s') (target_account t)" by (auto simp: d2(2))
  show "\<exists>s1. sv_registry s' = sv_registry (fst (stopper t s1)) \<and> sv_registry s1 = sv_registry s"
    by (rule exI [of _ ?s1]) (simp add: stopped d2(2))
  show "service_inv s'" unfolding d2(2) by (rule service_inv_step [OF inv2 account_step.complete_abort [OF d2(1)]])
qed

end



section \<open>Cancellation\<close>

text \<open>The target of a record pointer is never written.\<close>

definition keeps_targets :: "'s service \<Rightarrow> 's service \<Rightarrow> bool" where
  "keeps_targets s s' \<longleftrightarrow> (\<forall>x \<in> set (challenges (sv_registry s)). \<forall>y \<in> set (challenges (sv_registry s')).
     cr_addr y = cr_addr x \<longrightarrow> cr_target y = cr_target x)"

text \<open>The authentication of this target is undone: the account is disconnected and has no session, and the
  request is not live.\<close>

definition undone :: "RuntimeTarget \<Rightarrow> uuid \<Rightarrow> db service \<Rightarrow> bool" where
  "undone t rid s \<longleftrightarrow> find_challenge (sv_registry s) rid = None
     \<and> (\<exists>row. find_account (sv_durable s) (target_operator t) (target_account t) = Some row \<and> oa_status row = Disconnected)
     \<and> \<not> has_session (sv_durable s) (target_account t)"

text \<open>The sentinels by which \<open>Cancel\<close> recognises the end of a challenge.\<close>

definition plain_error :: "go_error \<Rightarrow> bool" where
  "plain_error e \<longleftrightarrow> \<not> errors_is e ErrAuthenticationAborted \<and> \<not> errors_is e ErrRuntimeChallengeExpired"

lemma store_errors_plain:
  "BeginAbort clock operator i v d = (d', Fails e) \<Longrightarrow> plain_error e"
  "CompleteAbort clock operator i v d = (d', Fails e) \<Longrightarrow> plain_error e"
  by (auto simp: BeginAbort_def CompleteAbort_def plain_error_def split: if_splits option.splits)

context service_over_store
begin

lemma abort_fails_plain:
  assumes stop: "\<And>t s e. snd (stopper t s) = Some e \<Longrightarrow> plain_error e" and run: "abort env t s = (s', Some e)"
  shows "plain_error e"
proof -
  have w: "plain_error (Wrap m [x])" if "plain_error x" for m x using that by (simp add: plain_error_def)
  have s: "plain_error x" if "stopper t1 s1 = (s2, Some x)" for t1 s1 s2 x using stop [of t1 s1] that by simp
  show ?thesis using run
    by (auto simp: abort_def Abort_def stop_and_complete_def env_ports service_persistence_def on_store_def validateTarget_def
        split: option.splits prod.splits outcome.splits if_splits intro!: w dest: store_errors_plain s)
      (simp_all add: plain_error_def)
qed

text \<open>A challenge that expired is undone like a cancelled one.\<close>

lemma expire_undone:
  assumes inv: "service_inv s" and run: "expireChallenge env ch s = (s', r, Some (Sentinel ErrChallengeExpired))"
    and "ch_request ch \<noteq> nil_uuid"
  shows "undone (ch_target ch) (ch_request ch) s'"
proof -
  obtain s1 reg where a: "abort env (ch_target ch) s = (s1, None)"
    and rem: "Remove (sv_ctx s1) (target_operator (ch_target ch)) (ch_request ch) (sv_registry s1) = (reg, None)"
    and s': "s' = s1\<lparr>sv_registry := reg\<rparr>"
    using run assms(3) by (auto simp: expireChallenge_def split: prod.splits option.splits)
  have ok: "registry_ok (sv_registry s1)" using abort_returns(3) [OF inv a] by (simp add: service_inv_def)
  obtain q where q: "find_challenge (sv_registry s1) (ch_request ch) = Some q" "reg = fst (removeLocked q (sv_registry s1))"
    using rem by (auto simp: Remove_def split: option.splits if_splits)
  have m: "q \<in> set (challenges (sv_registry s1))" "cr_request q = ch_request ch" using find_challengeD [OF q(1)] by simp_all
  have "registered (sv_registry s1) (cr_request q) (cr_addr q)" using q(1) m(2) by (simp add: registered_def)
  then have "find_challenge reg (ch_request ch) = None"
    unfolding q(2) by (simp add: removeLocked_eq [OF ok] find_challenge_def find_None_set m(2))
  then show ?thesis using abort_returns(1) [OF inv a] by (auto simp: undone_def s')
qed

lemma cancel_action_undone:
  assumes inv: "service_inv s" and h: "held r (sv_registry s)"
    and locks: "\<And>t s. keeps_challenge t s (fst (stopper t s))"
    and run: "cancel_action env r s = (s', Aborted, e)"
  shows "undone (cr_target r) (cr_request r) s'"
proof -
  obtain s1 where a: "abort env (cr_target r) s = (s1, None)" and s': "s' = operation_Abort r s1"
    using run by (auto simp: cancel_action_def split: prod.splits option.splits)
  note done_ = abort_returns [OF inv a]
  obtain s0 where s0: "sv_registry s1 = sv_registry (fst (stopper (cr_target r) s0))" "sv_registry s0 = sv_registry s"
    using done_(2) by blast
  have "held r (sv_registry s1)" unfolding s0(1) by (rule held_kept [OF _ locks]) (simp add: s0(2) h)
  moreover have "registry_ok (sv_registry s1)" using done_(3) by (simp add: service_inv_def)
  ultimately have "find_challenge (sv_registry s') (cr_request r) = None"
    by (simp add: s' operation_Abort_def removeWithTombstone_effect)
  then show ?thesis using done_(1) by (auto simp: undone_def s' operation_Abort_def)
qed

end

lemma find_operation_opened:
  "find_operation c now actor rid reg = Opened r0 \<Longrightarrow> find_challenge reg rid = Some r0 \<and> owner r0 = actor"
  by (auto simp: find_operation_def replay_tombstone_def split: option.splits if_splits)

text \<open>An immediate answer that \<open>Cancel\<close> takes for success.\<close>

lemma find_operation_terminal:
  assumes "find_operation LiveContext now actor rid reg = Answer a ch e"
    and "e = None \<or> (\<exists>x. e = Some x \<and> errors_is x ErrAuthenticationAborted)"
  shows "\<exists>t. find_tombstone reg rid = Some t \<and> ts_actor t = actor \<and> now < ts_expires t
    \<and> (ts_account t \<noteq> None \<or> ts_aborted t)"
  using assms by (auto simp: find_operation_def replay_tombstone_def context_error_def split: option.splits if_splits)

lemma projection_simps [simp]:
  "ch_request (projection r) = cr_request r" "ch_target (projection r) = cr_target r"
  by (simp_all add: projection_def)

context service_over_store
begin

lemma Cancel_success:
  assumes inv: "service_inv s" and locks: "\<And>t s. keeps_challenge t s (fst (stopper t s))"
    and stop: "\<And>t s e. snd (stopper t s) = Some e \<Longrightarrow> plain_error e"
    and pointers: "\<And>held s. service_inv s \<Longrightarrow> keeps_targets s (lock held s)"
    and run: "Cancel env actor rid s = (s', None)"
  shows "s' = s \<and> (\<exists>t. find_tombstone (sv_registry s) rid = Some t \<and> ts_actor t = actor \<and> sv_now s < ts_expires t
      \<and> (ts_account t \<noteq> None \<or> ts_aborted t))
    \<or> (\<exists>r. find_challenge (sv_registry s) rid = Some r \<and> owner r = actor \<and> undone (cr_target r) rid s')"
proof -
  have ctx: "sv_ctx s = LiveContext" "rid \<noteq> nil_uuid" and run': "(case operate env actor rid (cancel_action env) s of
       (s1, result, None) \<Rightarrow> (s1, None)
     | (s1, result, Some e) \<Rightarrow>
         (case (errors_is e ErrRuntimeChallengeExpired, res_challenge result) of
            (True, Some ch) \<Rightarrow>
              (case expireChallenge env ch s1 of (s2, _, expired) \<Rightarrow>
                 (s2, if expired = Some (Sentinel ErrChallengeExpired) then None else expired))
          | _ \<Rightarrow>
              (s1, if errors_is e ErrAuthenticationAborted then None
                   else if errors_is e ErrRuntimeChallengeNotFound then Some (Sentinel ErrChallengeNotFound)
                   else Some e))) = (s', None)"
    using run by (auto simp: Cancel_def validateServiceContext_def split: ctx.splits if_splits)
  show ?thesis
  proof (cases "find_operation (sv_ctx s) (sv_now s) actor rid (sv_registry s)")
    case (Answer a ch e)
    have op: "operate env actor rid (cancel_action env) s = (s, \<lparr>res_account = a, res_challenge = ch\<rparr>, e)"
      by (simp add: operate_def Answer)
    have "ch = None" using find_operation_answer [OF Answer] by simp
    then have "s' = s" "e = None \<or> (\<exists>x. e = Some x \<and> errors_is x ErrAuthenticationAborted)"
      using run' [unfolded op] by (auto split: option.splits bool.splits if_splits)
    then show ?thesis using find_operation_terminal [of "sv_now s" actor rid "sv_registry s" a ch e] Answer ctx by auto
  next
    case found: (Opened r0)
    note r0 = find_operation_opened [OF found]
    have rid: "cr_request r0 = rid" using r0 find_challengeD by blast
    let ?s = "lock r0 s"
    have invl: "service_inv ?s" by (rule waited_keeps [OF inv])
    then have ok: "registry_ok (sv_registry ?s)" by (simp add: service_inv_def)
    have target: "cr_target q = cr_target r0" if "q \<in> set (challenges (sv_registry ?s))" "cr_addr q = cr_addr r0" for q
      using pointers [OF inv, of r0] that find_challengeD r0 unfolding keeps_targets_def by blast
    show ?thesis
    proof (cases "lock_operation (sv_now ?s) actor r0 (sv_registry ?s)")
      case (Answer a ch e)
      have op: "operate env actor rid (cancel_action env) s = (?s, \<lparr>res_account = a, res_challenge = ch\<rparr>, e)"
        by (simp add: operate_def found Answer env_ports Let_def)
      obtain q where q: "ch = Some (projection q)" "e = Some (Sentinel ErrRuntimeChallengeExpired)"
        "q \<in> set (challenges (sv_registry ?s))" "cr_addr q = cr_addr r0" "cr_request q = rid"
        using Answer run' [unfolded op] rid
        by (auto simp: lock_operation_def current_def registered_def split: option.splits if_splits bool.splits
            dest: find_challengeD)
      obtain r1 where "expireChallenge env (projection q) ?s = (s', r1, Some (Sentinel ErrChallengeExpired))"
        using run' [unfolded op] q(1,2) expire_fails by (auto split: prod.splits if_splits) fastforce
      then have "undone (cr_target q) rid s'" using expire_undone [OF invl] ctx(2) q(5) by fastforce
      then show ?thesis using r0 target [OF q(3,4)] by auto
    next
      case (Opened q)
      note q = lock_operation_opened [OF ok Opened]
      let ?s1 = "?s\<lparr>sv_opctx := sv_ctx ?s\<rparr>"
      obtain s2 ending e where act: "cancel_action env q ?s1 = (s2, ending, e)" by (metis prod_cases3)
      have "ending = Aborted \<and> s' = s2"
      proof (cases ending)
        case StillOpen
        then obtain x where x: "abort env (cr_target q) ?s1 = (s2, Some x)" "e = Some x"
          using act by (auto simp: cancel_action_def split: prod.splits option.splits)
        have op: "operate env actor rid (cancel_action env) s = (s2, challenge_answer (projection (deref (sv_registry s2) q)), Some x)"
          by (simp add: operate_def found Opened env_ports Let_def act StillOpen x(2))
        have "plain_error x" by (rule abort_fails_plain [OF stop x(1)])
        then show ?thesis using run' [unfolded op] by (auto simp: plain_error_def split: if_splits)
      next
        case (Completed a)
        then show ?thesis using act by (auto simp: cancel_action_def split: prod.splits option.splits)
      next
        case Aborted
        then have "e = None" using act by (auto simp: cancel_action_def split: prod.splits option.splits)
        then have op: "operate env actor rid (cancel_action env) s = (s2, no_answer, None)"
          by (simp add: operate_def found Opened env_ports Let_def act Aborted)
        then show ?thesis using run' [unfolded op] Aborted by simp
      qed
      moreover have "held q (sv_registry ?s1)" using q held_self by simp
      ultimately have "undone (cr_target q) (cr_request q) s'"
        using cancel_action_undone [of ?s1 q s' e, OF _ _ locks] act invl by simp
      then show ?thesis using r0 target [of q] q rid by auto
    qed
  qed
qed

end

text \<open>C25: When a cancellation succeeds, the authentication is over. Either the request had ended before, and
  nothing has changed, or the account of the challenge is stored as disconnected, without a session,
  and the challenge is gone, whether it was still usable or had expired.\<close>

theorem cancellation_undoes:
  assumes "service_over_store fresh draw gap stopper provider lock trylock"
    and "served_from (store_environment operators fresh clk ttl draw gap stopper provider lock trylock) ttl s"
    and "\<And>t s1. keeps_challenge t s1 (fst (stopper t s1))"
    and "\<And>t s1 e. snd (stopper t s1) = Some e \<Longrightarrow> plain_error e"
    and "\<And>r s1. service_inv s1 \<Longrightarrow> keeps_targets s1 (lock r s1)"
    and "Cancel (store_environment operators fresh clk ttl draw gap stopper provider lock trylock) actor rid (request_at now c s)
      = (s', None)"
  shows "s' = request_at now c s \<and> (\<exists>t. find_tombstone (sv_registry s) rid = Some t \<and> ts_actor t = actor
      \<and> now < ts_expires t \<and> (ts_account t \<noteq> None \<or> ts_aborted t))
    \<or> (\<exists>r. find_challenge (sv_registry s) rid = Some r \<and> owner r = actor \<and> undone (cr_target r) rid s')"
proof -
  have inv: "service_inv (request_at now c s)"
    using service_over_store.served_inv [OF assms(1,2)] by (simp add: request_at_def)
  show ?thesis using service_over_store.Cancel_success [OF assms(1) inv assms(3-6)] by (simp add: request_at_def)
qed

section \<open>A concrete service\<close>

definition demo_provider :: "db provider" where
  "demo_provider = \<lparr>send_code = (\<lambda>t phone s. (s, Inr demo_code)),
     sign_in = (\<lambda>t phone code hash s. (s\<lparr>sv_durable := store_session (target_account t) (sv_durable s)\<rparr>, Inr demo_profile)),
     check_password = (\<lambda>t password s. (s, Inl (Sentinel ErrInvalidPassword)))\<rparr>"

definition demo_environment :: "db environment" where
  "demo_environment = store_environment {1} counting_id id 600 counting_draw id (\<lambda>t s. (s, None)) (Some demo_provider)
     (\<lambda>_ s. s) (\<lambda>_ s. (s, True))"

lemma demo_over_store:
  "service_over_store counting_id counting_draw id (\<lambda>t s. (s, None)) (Some demo_provider) (\<lambda>_ s. s) (\<lambda>_ s. (s, True))"
  by unfold_locales (auto simp: counting_id counting_draw demo_provider_def intro!: service_inv_step intro: account_step.save_session)

definition demo_started :: "db service" where
  "demo_started = fst (Start demo_environment 1 demo_phone (request_at 6 LiveContext (NewService 600 5 adb0)))"

lemma adb0_reachable: "reachable accounts_init account_step adb0"
  by (rule reachable.initial) (simp add: accounts_init_def adb0_def)

lemma demo_served: "served_from demo_environment 600 demo_started"
proof -
  have "service_step demo_environment (NewService 600 5 adb0)
      (serve demo_environment (StartRequest 1 demo_phone) (request_at 6 LiveContext (NewService 600 5 adb0)))"
    by (rule service_step.serves)
  then have "(service_step demo_environment)\<^sup>*\<^sup>* (NewService 600 5 adb0) demo_started"
    by (simp add: demo_started_def r_into_rtranclp)
  then show ?thesis using adb0_reachable by (auto simp: served_from_def)
qed

lemma counting_draw_first: "usable_request reg 1 \<Longrightarrow> counting_draw reg = 1"
  by (simp add: counting_draw_def nextRequestID.simps)

lemma demo_auth_phone: "auth_normalizePhone demo_phone = Inr demo_number"
proof -
  have "map plain_space demo_phone = demo_phone" by (simp add: demo_phone_def plain_space_def is_space_def)
  then show ?thesis using conjunct1 [OF phone_both [of demo_phone]] normalize_demo by simp
qed

lemma demo_number_again: "normalizePhone demo_number = Returns demo_number"
  using phone_canonical [OF normalize_demo] by simp

definition demo_started_row :: account_row where
  "demo_started_row = admitted_row 6 1 1 demo_number 606"

lemma demo_begin: "BeginOrResume {1} 6 1 1 demo_number 606 adb0
    = (adb0\<lparr>operator_accounts := [demo_started_row]\<rparr>, Returns (begin_result_of BeginStarted demo_started_row))"
  by (simp add: BeginOrResume_def demo_number_again find_phone_def account_checks_def adb0_def admitted_row_def
      demo_number_ok demo_started_row_def)

definition demo_started_target :: RuntimeTarget where
  "demo_started_target = \<lparr>target_operator = 1, target_account = 1, target_status = Authenticating, target_version = 2\<rparr>"

lemma demo_target_of: "authTarget 1 (account_view demo_started_row) = demo_started_target"
  by (simp add: authTarget_def account_view_def demo_started_row_def admitted_row_def demo_started_target_def)

definition demo_challenge :: challengeRecord where
  "demo_challenge = (new_record 0 1 demo_started_target demo_number 606)\<lparr>cr_hash := [97], cr_delivery := runes_of ''Telegram code'',
     cr_ready := True\<rparr>"

definition demo_registry :: challengeRegistry where
  "demo_registry = fst (create_challenge 1 demo_started_target demo_number 606 (newChallengeRegistry 600))"

lemma demo_prepare: "Prepare LiveContext 6 counting_draw demo_started_target demo_number 606 (newChallengeRegistry 600)
    = (demo_registry, reservation_of True (new_record 0 1 demo_started_target demo_number 606), None)"
proof -
  have trim: "TrimSpace demo_number \<noteq> []" by (simp add: demo_number_def TrimSpace_def is_space_def)
  have c: "cleanup 6 (newChallengeRegistry 600) = newChallengeRegistry 600" by (simp add: cleanup_def newChallengeRegistry_def)
  have d: "counting_draw (newChallengeRegistry 600) = 1"
    by (rule counting_draw_first) (simp add: usable_request_def newChallengeRegistry_def find_challenge_def find_tombstone_def)
  have v: "validateTarget demo_started_target = None" "target_status demo_started_target = Authenticating"
    by (simp_all add: validateTarget_def demo_started_target_def)
  have n: "rg_closed (newChallengeRegistry 600) = False" "targetSlots (newChallengeRegistry 600) t = None"
    "actorSlots (newChallengeRegistry 600) a = None" "challenges (newChallengeRegistry 600) = []"
    "tombstones (newChallengeRegistry 600) = []" "rg_capacity (newChallengeRegistry 600) = 4096"
    "next_addr (newChallengeRegistry 600) = 0" for t a
    by (simp_all add: newChallengeRegistry_def maxLiveChallenges_def)
  show ?thesis using trim
    by (simp add: Prepare_def c d n v Let_def context_error_def demo_registry_def create_challenge_def slot_record_def)
qed

definition demo_ready :: challengeRegistry where
  "demo_ready = demo_registry\<lparr>challenges := [demo_challenge]\<rparr>"

lemma demo_registry_simps:
  "challenges demo_registry = [new_record 0 1 demo_started_target demo_number 606]" "tombstones demo_registry = []"
  "rg_closed demo_registry = False" "rg_ttl demo_registry = 600"
  by (simp_all add: demo_registry_def create_challenge_def Let_def newChallengeRegistry_def)

lemma demo_commit: "commit LiveContext 6 (reservation_of True (new_record 0 1 demo_started_target demo_number 606)) demo_code demo_registry
    = (demo_ready, projection demo_challenge, None)"
  by (simp add: commit_def attach_def context_error_def demo_registry_simps reservation_of_def registered_def find_challenge_def
      deref_def new_record_def demo_code_def put_record_def demo_ready_def demo_challenge_def Let_def TrimSpace_def)

definition demo_state :: "db service" where
  "demo_state = \<lparr>sv_registry = demo_ready, sv_closed = False, sv_durable = adb0\<lparr>operator_accounts := [demo_started_row]\<rparr>,
     sv_now = 6, sv_ctx = LiveContext, sv_opctx = LiveContext\<rparr>"

lemma demo_valid_begin: "validateBeginResult (begin_result_of BeginStarted demo_started_row) = None"
  by (simp add: validateBeginResult_def validate_begin_def begin_result_of_def account_view_def demo_started_row_def
      admitted_row_def auth_expiry_def)

lemma demo_id: "counting_id adb0 = 1"
  by (simp add: counting_id_def adb0_def)

lemma demo_started: "demo_started = demo_state"
proof -
  let ?s = "request_at 6 LiveContext (NewService 600 5 adb0)"
  let ?s1 = "?s\<lparr>sv_durable := adb0\<lparr>operator_accounts := [demo_started_row]\<rparr>\<rparr>"
  have s: "sv_ctx ?s = LiveContext" "sv_now ?s = 6" "sv_closed ?s = False" "sv_registry ?s = newChallengeRegistry 600"
    "sv_durable ?s = adb0" by (simp_all add: request_at_def NewService_def)
  have e: "en_ttl demo_environment = 600" "en_draw demo_environment = counting_draw" "en_provider demo_environment = Some demo_provider"
    by (simp_all add: demo_environment_def store_environment_def)
  have b: "lifecycle_Begin (en_ports demo_environment) 1 demo_number 606 ?s
      = (?s1, Returns (begin_result_of BeginStarted demo_started_row))"
    by (simp add: lifecycle_Begin_def demo_environment_def store_environment_def service_persistence_def on_store_def s
        demo_id demo_begin demo_valid_begin)
  have out: "br_outcome (begin_result_of BeginStarted demo_started_row) = BeginStarted"
    "br_account (begin_result_of BeginStarted demo_started_row) = account_view demo_started_row"
    "br_expires (begin_result_of BeginStarted demo_started_row) = 606"
    by (simp_all add: begin_result_of_def demo_started_row_def admitted_row_def auth_expiry_def)
  have send: "send_code demo_provider t phone x = (x, Inr demo_code)" for t phone x by (simp add: demo_provider_def)
  have created: "rv_created (reservation_of True r)" for r by (simp add: reservation_of_def)
  have s1: "sv_ctx ?s1 = LiveContext" "sv_now ?s1 = 6" "sv_registry ?s1 = newChallengeRegistry 600"
    using s by simp_all
  have run: "reserve_and_send demo_environment demo_started_target demo_number 606 ?s1
      = (?s1\<lparr>sv_registry := demo_ready\<rparr>, challenge_answer (projection demo_challenge), None)"
    by (simp add: reserve_and_send_def s e demo_prepare created sendCode_def send demo_commit)
  have "Start demo_environment 1 demo_phone ?s = (?s1\<lparr>sv_registry := demo_ready\<rparr>, challenge_answer (projection demo_challenge), None)"
    by (simp add: Start_def s e validateServiceContext_def demo_auth_phone Acquire_def b out demo_target_of run)
  then show ?thesis by (simp add: demo_started_def demo_state_def request_at_def NewService_def)
qed



lemma demo_lookup:
  "find_challenge demo_ready 1 = Some demo_challenge" "rg_closed demo_ready = False" "challenges demo_ready = [demo_challenge]"
  "tombstones demo_ready = []"
  by (simp_all add: demo_ready_def find_challenge_def demo_challenge_def new_record_def demo_registry_simps)

lemma demo_challenge_simps:
  "cr_request demo_challenge = 1" "owner demo_challenge = 1" "cr_addr demo_challenge = 0" "cr_target demo_challenge = demo_started_target"
  "cr_expires demo_challenge = 606" "cr_ready demo_challenge" "cr_pendingProfile demo_challenge = None"
  "cr_stage demo_challenge = StageCode" "cr_codeAttempts demo_challenge = 0"
  by (simp_all add: demo_challenge_def new_record_def owner_def demo_started_target_def)

lemma demo_open:
  "find_operation LiveContext 7 1 1 demo_ready = Opened demo_challenge"
  "lock_operation 7 1 demo_challenge demo_ready = Opened demo_challenge"
  by (simp_all add: find_operation_def lock_operation_def context_error_def demo_lookup demo_challenge_simps current_def
      registered_def deref_def)



lemma demo_locks: "keeps_challenge t s (fst (sign_in demo_provider t' phone code hash s))"
  "keeps_challenge t s (fst (check_password demo_provider t' password s))" "keeps_challenge t s s"
  by (auto simp: keeps_challenge_def demo_provider_def)

lemma demo_pointers: "service_inv s \<Longrightarrow> keeps_targets s s"
  using distinct_key_unique [OF registry_okD(2)] by (auto simp: keeps_targets_def service_inv_def)



theorem service_consistent_witness:
  "\<exists>a \<in> set (operator_accounts (sv_durable demo_started)). oa_id a = target_account (cr_target demo_challenge)"
  using service_consistent [OF demo_over_store demo_served [unfolded demo_environment_def]]
  by (auto simp: demo_started demo_state_def demo_lookup)

text \<open>A provider that would answer only where it may be asked.\<close>

theorem provider_asked_safely_witness:
  "\<exists>q. (\<forall>x. sign_in q demo_target [] [] [] x = (x, Inl Panicked)) \<and>
     Code (store_environment {1} counting_id id 600 counting_draw id (\<lambda>t s. (s, None)) (Some q) (\<lambda>_ s. s) (\<lambda>_ s. (s, True)))
       1 1 [50] (request_at 7 LiveContext demo_started)
     = Code demo_environment 1 1 [50] (request_at 7 LiveContext demo_started)"
proof -
  define q where "q = demo_provider\<lparr>sign_in := (\<lambda>t phone code hash s. if hash = [] then (s, Inl Panicked)
    else sign_in demo_provider t phone code hash s)\<rparr>"
  have "sign_in q t phone code' hash s1 = sign_in demo_provider t phone code' hash s1"
    if "may_sign_in 1 1 [50] t phone code' hash s1" for t phone code' hash s1
    using that by (auto simp: may_sign_in_def q_def)
  moreover have "send_code q = send_code demo_provider" "check_password q = check_password demo_provider" by (simp_all add: q_def)
  ultimately have "Code (store_environment {1} counting_id id 600 counting_draw id (\<lambda>t s. (s, None)) (Some q) (\<lambda>_ s. s) (\<lambda>_ s. (s, True)))
       1 1 [50] (request_at 7 LiveContext demo_started)
     = Code demo_environment 1 1 [50] (request_at 7 LiveContext demo_started)"
    using provider_asked_safely [where q = q and actor = 1 and rid = 1 and code = "[50]" and now = 7 and c = LiveContext,
        OF demo_over_store demo_served [unfolded demo_environment_def]]
    by (simp add: demo_environment_def)
  moreover have "sign_in q demo_target [] [] [] x = (x, Inl Panicked)" for x by (simp add: q_def)
  ultimately show ?thesis by blast
qed

text \<open>The cancellation of the demonstrated challenge.\<close>

lemma demo_abort: "\<exists>d. abort demo_environment demo_started_target (request_at 7 LiveContext demo_state)
    = ((request_at 7 LiveContext demo_state)\<lparr>sv_durable := d\<rparr>, None)"
proof -
  let ?s = "request_at 7 LiveContext demo_state"
  let ?d = "adb0\<lparr>operator_accounts := [demo_started_row]\<rparr>"
  let ?d1 = "adb0\<lparr>operator_accounts := [aborting_row 7 demo_started_row]\<rparr>"
  have s: "sv_now ?s = 7" "sv_durable ?s = ?d" by (simp_all add: request_at_def demo_state_def)
  have v: "validOwnership 1 1" "version_usable 2" "version_usable 3" "validateTarget demo_started_target = None"
    by (simp_all add: validOwnership_def version_usable_def MaxInt64_def validateTarget_def demo_started_target_def)
  have ok: "write_violation ?d (aborting_row 7 demo_started_row) = None"
    "write_violation ?d1 (aborted_row 7 (aborting_row 7 demo_started_row)) = None"
    by (simp_all add: write_violation_def identity_taken_def adb0_def account_checks_def aborting_row_def aborted_row_def
        demo_started_row_def admitted_row_def demo_number_ok)
  have w: "write_account (aborting_row 7 demo_started_row) ?d = ?d1"
    by (simp add: write_account_def aborting_row_def demo_started_row_def admitted_row_def adb0_def)
  have b: "BeginAbort 7 1 1 2 ?d = (?d1, Returns 3)"
    using ok(1) w by (simp add: BeginAbort_def v find_account_def adb0_def) (simp add: demo_started_row_def admitted_row_def)
  have c: "CompleteAbort 7 1 1 3 ?d1 = (delete_session 1 (write_account (aborted_row 7 (aborting_row 7 demo_started_row)) ?d1), Returns ())"
    using ok(2) by (simp add: CompleteAbort_def v find_account_def adb0_def)
      (simp add: demo_started_row_def admitted_row_def aborting_row_def)
  have tt: "target_operator demo_started_target = 1" "target_account demo_started_target = 1" "target_version demo_started_target = 2"
    by (simp_all add: demo_started_target_def)
  have "abort demo_environment demo_started_target ?s
      = (?s\<lparr>sv_durable := delete_session 1 (write_account (aborted_row 7 (aborting_row 7 demo_started_row)) ?d1)\<rparr>, None)"
    by (simp add: abort_def Abort_def v stop_and_complete_def demo_environment_def store_environment_def service_persistence_def
        on_store_def s tt b c)
  then show ?thesis by blast
qed

lemma demo_cancel_run: "\<exists>s2. Cancel demo_environment 1 1 (request_at 7 LiveContext demo_started) = (s2, None)"
proof -
  let ?s = "request_at 7 LiveContext demo_state"
  have s: "sv_ctx ?s = LiveContext" "sv_now ?s = 7" "sv_registry ?s = demo_ready" "?s\<lparr>sv_opctx := LiveContext\<rparr> = ?s"
    by (simp_all add: request_at_def demo_state_def)
  have lock: "en_lock demo_environment x y = y" for x y by (simp add: demo_environment_def store_environment_def)
  obtain d where a: "abort demo_environment demo_started_target ?s = (?s\<lparr>sv_durable := d\<rparr>, None)" using demo_abort by blast
  have "cancel_action demo_environment demo_challenge ?s = (operation_Abort demo_challenge (?s\<lparr>sv_durable := d\<rparr>), Aborted, None)"
    by (simp add: cancel_action_def demo_challenge_simps a)
  then have "operate demo_environment 1 1 (cancel_action demo_environment) ?s
      = (operation_Abort demo_challenge (?s\<lparr>sv_durable := d\<rparr>), no_answer, None)"
    by (simp add: operate_def s demo_open lock Let_def)
  then show ?thesis unfolding demo_started by (simp add: Cancel_def validateServiceContext_def s)
qed

theorem cancellation_undoes_witness:
  "undone demo_started_target 1 (fst (Cancel demo_environment 1 1 (request_at 7 LiveContext demo_started)))"
proof -
  obtain s2 where run: "Cancel demo_environment 1 1 (request_at 7 LiveContext demo_started) = (s2, None)"
    using demo_cancel_run by blast
  have "find_tombstone (sv_registry demo_started) 1 = None"
    by (simp add: demo_started demo_state_def find_tombstone_def demo_lookup)
  moreover have "find_challenge (sv_registry demo_started) 1 = Some demo_challenge"
    by (simp add: demo_started demo_state_def demo_lookup)
  ultimately have "undone demo_started_target 1 s2"
    using cancellation_undoes [OF demo_over_store demo_served [unfolded demo_environment_def] _ _ demo_pointers
        run [unfolded demo_environment_def]] demo_locks(3) demo_challenge_simps(4) by auto
  then show ?thesis by (simp add: run)
qed

section \<open>A cancellation whose runtime does not stop\<close>

text \<open>The stopper fails: the account is disconnecting by then, but the challenge stays live and open, so the
  next code is still submitted to Telegram for it.\<close>

definition stuck_environment :: "db environment" where
  "stuck_environment = store_environment {1} counting_id id 600 counting_draw id
     (\<lambda>t s. (s, Some (Foreign ''stop''))) (Some demo_provider) (\<lambda>_ s. s) (\<lambda>_ s. (s, True))"

lemma stuck_begin_abort:
  "BeginAbort 7 1 1 2 (adb0\<lparr>operator_accounts := [demo_started_row]\<rparr>)
     = (adb0\<lparr>operator_accounts := [aborting_row 7 demo_started_row]\<rparr>, Returns 3)"
proof -
  let ?d = "adb0\<lparr>operator_accounts := [demo_started_row]\<rparr>"
  have v: "validOwnership 1 1" "version_usable 2"
    by (simp_all add: validOwnership_def version_usable_def MaxInt64_def)
  have ok: "write_violation ?d (aborting_row 7 demo_started_row) = None"
    by (simp add: write_violation_def identity_taken_def adb0_def account_checks_def aborting_row_def
        demo_started_row_def admitted_row_def demo_number_ok)
  have w: "write_account (aborting_row 7 demo_started_row) ?d = adb0\<lparr>operator_accounts := [aborting_row 7 demo_started_row]\<rparr>"
    by (simp add: write_account_def aborting_row_def demo_started_row_def admitted_row_def adb0_def)
  show ?thesis
    using ok w by (simp add: BeginAbort_def v find_account_def adb0_def) (simp add: demo_started_row_def admitted_row_def)
qed

theorem code_after_failed_cancel:
  "\<exists>s e. Cancel stuck_environment 1 1 (request_at 7 LiveContext demo_started) = (s, Some e)
    \<and> map oa_status (operator_accounts (sv_durable s)) = [Disconnecting]
    \<and> find_operation LiveContext 8 1 1 (sv_registry s) = Opened demo_challenge
    \<and> lock_operation 8 1 demo_challenge (sv_registry s) = Opened demo_challenge"
proof -
  let ?s = "request_at 7 LiveContext demo_state"
  let ?d = "adb0\<lparr>operator_accounts := [aborting_row 7 demo_started_row]\<rparr>"
  let ?e = "Wrap ''stop telegram account runtime'' [Foreign ''stop'']"
  have s: "sv_ctx ?s = LiveContext" "sv_now ?s = 7" "sv_registry ?s = demo_ready" "?s\<lparr>sv_opctx := LiveContext\<rparr> = ?s"
    "sv_durable ?s = adb0\<lparr>operator_accounts := [demo_started_row]\<rparr>"
    by (simp_all add: request_at_def demo_state_def)
  have lock: "en_lock stuck_environment x y = y" for x y by (simp add: stuck_environment_def store_environment_def)
  have t: "target_operator demo_started_target = 1" "target_account demo_started_target = 1"
    "target_version demo_started_target = 2" "validateTarget demo_started_target = None"
    by (simp_all add: demo_started_target_def validateTarget_def)
  have a: "abort stuck_environment demo_started_target ?s = (?s\<lparr>sv_durable := ?d\<rparr>, Some ?e)"
    by (simp add: abort_def Abort_def stop_and_complete_def stuck_environment_def store_environment_def
        service_persistence_def on_store_def s t stuck_begin_abort)
  have "operate stuck_environment 1 1 (cancel_action stuck_environment) ?s
      = (?s\<lparr>sv_durable := ?d\<rparr>, challenge_answer (projection (deref demo_ready demo_challenge)), Some ?e)"
    by (simp add: operate_def s demo_open lock Let_def cancel_action_def demo_challenge_simps a)
  then have "Cancel stuck_environment 1 1 ?s = (?s\<lparr>sv_durable := ?d\<rparr>, Some ?e)"
    by (simp add: Cancel_def validateServiceContext_def s)
  moreover have "map oa_status (operator_accounts ?d) = [Disconnecting]"
    by (simp add: aborting_row_def)
  moreover have "find_operation LiveContext 8 1 1 demo_ready = Opened demo_challenge"
    "lock_operation 8 1 demo_challenge demo_ready = Opened demo_challenge"
    by (simp_all add: find_operation_def lock_operation_def context_error_def demo_lookup demo_challenge_simps current_def
        registered_def deref_def)
  ultimately show ?thesis unfolding demo_started by (intro exI) (auto simp: s)
qed

end
