(* ===== verification/Delivery_Worker.thy ===== *)
theory Delivery_Worker
  imports Go_Errors "HOL-Library.Multiset"
begin

text \<open>
  The delivery worker (\<open>internal/entrypoint/background/deliveryworker/worker.go\<close>): its configuration in
  64-bit durations, the trackers its goroutines share, and the goroutines themselves. \<open>Run\<close>, the claim
  coordinator and each execution are program counters (\<open>run_phase\<close>, \<open>coordinator\<close>, \<open>execution\<close>) in the
  state \<open>worker\<close>; one transition is the code between two blocking points, and \<open>worker_step\<close> lets them
  interleave freely. What a port answers is an argument of the transition: \<open>Claim\<close>, \<open>Command\<close>, \<open>Renew\<close>,
  \<open>Execute\<close> and \<open>Release\<close> may return anything at any time, return late, or panic. \<open>w_log\<close> is a history
  variable: what happened to which task.
\<close>

section \<open>Configuration\<close>

type_synonym int64 = "64 word"

record worker_config =
  EmptyPoll :: int64
  ExecutionTimeout :: int64
  DrainTimeout :: int64
  CleanupTimeout :: int64
  LeaseDuration :: int64
  LeaseSafetyMargin :: int64

definition Defaults :: worker_config where
  "Defaults = \<lparr>EmptyPoll = 250000000, ExecutionTimeout = 30000000000, DrainTimeout = 8000000000,
     CleanupTimeout = 2000000000, LeaseDuration = 60000000000, LeaseSafetyMargin = 5000000000\<rparr>"

definition maxDuration :: int64 where
  "maxDuration = 9223372036854775807"

definition OutcomeFinalizationTimeout :: int64 where
  "OutcomeFinalizationTimeout = 2000000000"

definition invalid_config :: "string \<Rightarrow> go_error" where
  "invalid_config what = Wrap what [Sentinel ErrInvalidConfig]"

definition LeaseSafetyDuration :: "worker_config \<Rightarrow> go_error + int64" where
  "LeaseSafetyDuration config =
    (if sint (ExecutionTimeout config) \<le> 0 then Inl (invalid_config ''execution timeout must be positive'')
     else if sint (LeaseSafetyMargin config) \<le> 0 then Inl (invalid_config ''lease safety margin must be positive'')
     else if sint (maxDuration - OutcomeFinalizationTimeout) < sint (ExecutionTimeout config)
     then Inl (invalid_config ''execution timeout and outcome finalization timeout overflow'')
     else let withoutMargin = ExecutionTimeout config + OutcomeFinalizationTimeout in
       if sint (maxDuration - LeaseSafetyMargin config) < sint withoutMargin
       then Inl (invalid_config ''execution timeout, outcome finalization timeout, and lease safety margin overflow'')
       else Inr (withoutMargin + LeaseSafetyMargin config))"

text \<open>The code ranges over a map, so with several bad durations any of them may be named.\<close>

definition config_durations :: "worker_config \<Rightarrow> (string \<times> int64) list" where
  "config_durations config =
    [(''empty poll'', EmptyPoll config), (''execution timeout'', ExecutionTimeout config),
     (''drain timeout'', DrainTimeout config), (''cleanup timeout'', CleanupTimeout config),
     (''lease duration'', LeaseDuration config), (''lease safety margin'', LeaseSafetyMargin config)]"

definition Validate :: "worker_config \<Rightarrow> go_error option" where
  "Validate config =
    (case find (\<lambda>(name, duration). sint duration \<le> 0) (config_durations config) of
       Some (name, _) \<Rightarrow> Some (invalid_config (name @ '' must be positive''))
     | None \<Rightarrow>
         (case LeaseSafetyDuration config of
            Inl err \<Rightarrow> Some err
          | Inr leaseSafety \<Rightarrow>
              if sint (LeaseDuration config) \<le> sint leaseSafety
              then Some (invalid_config ''lease duration must exceed execution safety bound'')
              else if sint (maxDuration - CleanupTimeout config) < sint (DrainTimeout config)
              then Some (invalid_config ''drain and cleanup timeouts overflow'')
              else None))"

section \<open>The trackers\<close>

text \<open>\<open>at_done\<close>: the current \<open>doneCh\<close> is closed. \<open>add\<close> replaces the channel only before \<open>stop\<close>, and \<open>Run\<close>
  fetches it after \<open>stop\<close>, so one flag is enough.\<close>

record activeTracker =
  at_count :: int
  at_stopped :: bool
  at_done :: bool

definition newActiveTracker :: activeTracker where
  "newActiveTracker = \<lparr>at_count = 0, at_stopped = False, at_done = True\<rparr>"

definition tracker_add :: "activeTracker \<Rightarrow> activeTracker \<times> bool" where
  "tracker_add tracker =
    (if at_stopped tracker then (tracker, False)
     else let tracker = (if at_count tracker = 0 then tracker\<lparr>at_done := False\<rparr> else tracker)
          in (tracker\<lparr>at_count := at_count tracker + 1\<rparr>, True))"

definition doneOne :: "activeTracker \<Rightarrow> activeTracker" where
  "doneOne tracker =
    (let tracker = tracker\<lparr>at_count := at_count tracker - 1\<rparr>
     in if at_count tracker = 0 then tracker\<lparr>at_done := True\<rparr> else tracker)"

definition tracker_stop :: "activeTracker \<Rightarrow> activeTracker" where
  "tracker_stop tracker = tracker\<lparr>at_stopped := True\<rparr>"

record failureState =
  fs_failures :: "go_error list"
  fs_first :: "go_error option"
  fs_signal :: bool

definition newFailureState :: failureState where
  "newFailureState = \<lparr>fs_failures = [], fs_first = None, fs_signal = False\<rparr>"

definition record_failure :: "go_error \<Rightarrow> failureState \<Rightarrow> failureState" where
  "record_failure failure state = state\<lparr>fs_failures := fs_failures state @ [failure]\<rparr>"

definition fatal :: "go_error \<Rightarrow> failureState \<Rightarrow> failureState" where
  "fatal failure state =
     state\<lparr>fs_failures := fs_failures state @ [failure],
       fs_first := (if fs_first state = None then Some failure else fs_first state),
       fs_signal := True\<rparr>"

definition joined :: "failureState \<Rightarrow> go_error option" where
  "joined state = errors_join (map Some (fs_failures state))"

section \<open>The goroutines\<close>

text \<open>What a call of a port that is guarded by \<open>recover\<close> yields: its results, or the recovered panic, which
  is an error or another value.\<close>

datatype 'a reply = Replied 'a | Recovered "go_error option"

definition panicFailure :: "string \<Rightarrow> go_error option \<Rightarrow> go_error" where
  "panicFailure stage recovered = Wrap (stage @ '' panicked'') (case recovered of Some cause \<Rightarrow> [cause] | None \<Rightarrow> [])"

text \<open>What the coordinator does once a release has returned.\<close>

datatype after_release =
    AfterClaimFailure go_error | AfterLate | AfterAdmission go_error | AfterResolve go_error
  | AfterNilCommand go_error | AfterRenewal go_error

text \<open>A release carries its cause and the deadline of its context.\<close>

datatype ('t, 'a, 'c) coordinator =
    TakingSlot
  | Claiming
  | Polling time
  | Resolving 't 'a
  | Renewing 't 'c
  | Releasing 't go_error time after_release
  | CoordinatorDone

datatype ('t, 'c) execution =
    Starting 't 'c
  | Executing 't 'c time
  | ReleasingPanicked 't go_error time
  | ReleasingFailed 't go_error time
  | Leaving

datatype run_phase =
    Selecting
  | Stopping go_error
  | Draining go_error time time
  | Cleaning go_error time
  | Returned "go_error option"

datatype 't event =
    Claimed 't | Dropped 't | Started 't | Succeeded 't | ReleasedUnused 't | ReleasedAfter 't

record ('t, 'a, 'c) worker =
  w_now :: time
  w_parent :: "go_error option"       \<comment> \<open>\<open>parent.Err()\<close>\<close>
  w_claims :: "go_error option"       \<comment> \<open>the cause the claim context was cancelled with\<close>
  w_execution :: bool                 \<comment> \<open>the execution root was cancelled\<close>
  w_active :: activeTracker
  w_failures :: failureState
  w_cleanup :: "time option"          \<comment> \<open>the deadline of the shared cleanup context\<close>
  w_slots :: nat
  w_coordinator :: "('t, 'a, 'c) coordinator"
  w_executions :: "('t, 'c) execution list"
  w_run :: run_phase
  w_log :: "'t event list"

definition executionCapacity :: nat where
  "executionCapacity = 4"

section \<open>Shared effects\<close>

definition cancel_claims :: "go_error \<Rightarrow> ('t, 'a, 'c) worker \<Rightarrow> ('t, 'a, 'c) worker" where
  "cancel_claims cause w = w\<lparr>w_claims := (if w_claims w = None then Some cause else w_claims w)\<rparr>"

definition stopClaims :: "go_error option \<Rightarrow> ('t, 'a, 'c) worker \<Rightarrow> ('t, 'a, 'c) worker" where
  "stopClaims cause w =
     cancel_claims (case cause of None \<Rightarrow> Sentinel ErrCanceled | Some e \<Rightarrow> e) w"

definition reportFatal :: "go_error option \<Rightarrow> ('t, 'a, 'c) worker \<Rightarrow> ('t, 'a, 'c) worker" where
  "reportFatal failure w =
    (case failure of None \<Rightarrow> w
     | Some e \<Rightarrow> stopClaims (Some e) (w\<lparr>w_failures := fatal e (w_failures w)\<rparr>))"

definition recordFailure :: "go_error option \<Rightarrow> ('t, 'a, 'c) worker \<Rightarrow> ('t, 'a, 'c) worker" where
  "recordFailure failure w =
    (case failure of None \<Rightarrow> w | Some e \<Rightarrow> w\<lparr>w_failures := record_failure e (w_failures w)\<rparr>)"

definition free_slot :: "('t, 'a, 'c) worker \<Rightarrow> ('t, 'a, 'c) worker" where
  "free_slot w = w\<lparr>w_slots := w_slots w - 1\<rparr>"

definition logged :: "'t event \<Rightarrow> ('t, 'a, 'c) worker \<Rightarrow> ('t, 'a, 'c) worker" where
  "logged e w = w\<lparr>w_log := w_log w @ [e]\<rparr>"

definition at_point :: "('t, 'a, 'c) coordinator \<Rightarrow> ('t, 'a, 'c) worker \<Rightarrow> ('t, 'a, 'c) worker" where
  "at_point pc w = w\<lparr>w_coordinator := pc\<rparr>"

definition claims_done :: "('t, 'a, 'c) worker \<Rightarrow> bool" where
  "claims_done w \<longleftrightarrow> w_claims w \<noteq> None"

definition claimCause :: "('t, 'a, 'c) worker \<Rightarrow> go_error" where
  "claimCause w = (case w_claims w of Some cause \<Rightarrow> cause | None \<Rightarrow> Foreign ''delivery claim stopped'')"

text \<open>The deadline of the context a release gets.\<close>

definition forRelease :: "worker_config \<Rightarrow> ('t, 'a, 'c) worker \<Rightarrow> time" where
  "forRelease config w =
    (case w_cleanup w of Some deadline \<Rightarrow> deadline | None \<Rightarrow> w_now w + sint (CleanupTimeout config))"

definition begin_release ::
  "worker_config \<Rightarrow> 't \<Rightarrow> go_error \<Rightarrow> after_release \<Rightarrow> ('t, 'a, 'c) worker \<Rightarrow> ('t, 'a, 'c) worker" where
  "begin_release config task cause after w = at_point (Releasing task cause (forRelease config w) after) w"

definition safe_reply :: "string \<Rightarrow> go_error option reply \<Rightarrow> go_error option" where
  "safe_reply stage reply =
    (case reply of Replied failure \<Rightarrow> failure | Recovered v \<Rightarrow> Some (panicFailure stage v))"

definition safeRenew :: "go_error option reply \<Rightarrow> go_error option" where
  "safeRenew = safe_reply ''delivery task renewal''"

definition safeRelease :: "go_error option reply \<Rightarrow> go_error option" where
  "safeRelease = safe_reply ''delivery task release''"

section \<open>The coordinator\<close>

text \<open>\<open>taskAdmission\<close>: the task may not be an \<open>AdmittedTask\<close> (\<open>Replied None\<close>) and its method may panic.\<close>

definition taskAdmission :: "'a option reply \<Rightarrow> go_error + 'a" where
  "taskAdmission reply =
    (case reply of
       Recovered v \<Rightarrow> Inl (Wrap '''' [Sentinel ErrMalformedTask, panicFailure ''read delivery task admission'' v])
     | Replied None \<Rightarrow> Inl (Wrap ''claimed task has no account admission'' [Sentinel ErrMalformedTask])
     | Replied (Some admission) \<Rightarrow> Inr admission)"

definition after_claim_failure ::
  "go_error \<Rightarrow> go_error option \<Rightarrow> ('t, 'a, 'c) worker \<Rightarrow> ('t, 'a, 'c) worker" where
  "after_claim_failure claimFailure releaseFailure w =
    (let w = free_slot w in
     if claims_done w then at_point CoordinatorDone (recordFailure releaseFailure w)
     else at_point CoordinatorDone
       (reportFatal (errors_join [Some (Wrap ''claim delivery task'' [claimFailure]), releaseFailure]) w))"

text \<open>From the return of \<open>Claim\<close> to the next call. \<open>admission\<close> is what the task's \<open>Admission\<close> method does.\<close>

definition after_claim ::
  "worker_config \<Rightarrow> ('t option \<times> go_error option) reply \<Rightarrow> 'a option reply
   \<Rightarrow> ('t, 'a, 'c) worker \<Rightarrow> ('t, 'a, 'c) worker" where
  "after_claim config reply admission w =
    (case reply of
       Recovered v \<Rightarrow> at_point CoordinatorDone (reportFatal (Some (panicFailure ''delivery worker coordinator'' v)) w)
     | Replied (task, Some claimFailure) \<Rightarrow>
         if errors_is claimFailure ErrEmpty
         then at_point (Polling (w_now w + sint (EmptyPoll config)))
                (free_slot (case task of None \<Rightarrow> w | Some t \<Rightarrow> logged (Dropped t) (logged (Claimed t) w)))
         else (case task of
            Some t \<Rightarrow> begin_release config t claimFailure (AfterClaimFailure claimFailure) (logged (Claimed t) w)
          | None \<Rightarrow> after_claim_failure claimFailure None w)
     | Replied (None, None) \<Rightarrow>
         at_point CoordinatorDone
           (reportFatal (Some (Foreign ''claim delivery task: nil task without error'')) (free_slot w))
     | Replied (Some t, None) \<Rightarrow>
         (let w = logged (Claimed t) w in
          if claims_done w then begin_release config t (claimCause w) AfterLate w
          else case taskAdmission admission of
            Inl admissionFailure \<Rightarrow> begin_release config t admissionFailure (AfterAdmission admissionFailure) w
          | Inr a \<Rightarrow> at_point (Resolving t a) w))"

definition after_resolve ::
  "worker_config \<Rightarrow> 't \<Rightarrow> ('c option \<times> go_error option) reply \<Rightarrow> ('t, 'a, 'c) worker \<Rightarrow> ('t, 'a, 'c) worker" where
  "after_resolve config t reply w =
    (case reply of
       Recovered v \<Rightarrow> let failure = panicFailure ''delivery command resolver'' v
                     in begin_release config t failure (AfterResolve failure) w
     | Replied (_, Some failure) \<Rightarrow> begin_release config t failure (AfterResolve failure) w
     | Replied (None, None) \<Rightarrow>
         let failure = Foreign ''resolve delivery command: nil command without error''
         in begin_release config t failure (AfterNilCommand failure) w
     | Replied (Some command, None) \<Rightarrow>
         if claims_done w then begin_release config t (claimCause w) AfterLate w
         else at_point (Renewing t command) w)"

definition after_renew ::
  "worker_config \<Rightarrow> 't \<Rightarrow> 'c \<Rightarrow> go_error option reply \<Rightarrow> ('t, 'a, 'c) worker \<Rightarrow> ('t, 'a, 'c) worker" where
  "after_renew config t command reply w =
    (case safeRenew reply of
       Some renewalFailure \<Rightarrow> begin_release config t renewalFailure (AfterRenewal renewalFailure) w
     | None \<Rightarrow>
         (case tracker_add (w_active w) of
            (active, True) \<Rightarrow> at_point TakingSlot (logged (Started t)
                (w\<lparr>w_active := active, w_executions := w_executions w @ [Starting t command]\<rparr>))
          | (_, False) \<Rightarrow> begin_release config t (claimCause w) AfterLate w))"

definition releaseLate :: "go_error option \<Rightarrow> ('t, 'a, 'c) worker \<Rightarrow> ('t, 'a, 'c) worker" where
  "releaseLate releaseFailure w =
    (case releaseFailure of None \<Rightarrow> w
     | Some failure \<Rightarrow>
         (let failure = Some (Wrap ''release late delivery task'' [failure])
          in if claims_done w then recordFailure failure w else reportFatal failure w))"

definition settle_release ::
  "after_release \<Rightarrow> go_error option \<Rightarrow> ('t, 'a, 'c) worker \<Rightarrow> ('t, 'a, 'c) worker" where
  "settle_release after releaseFailure w =
    (case after of
       AfterClaimFailure claimFailure \<Rightarrow> after_claim_failure claimFailure releaseFailure w
     | AfterLate \<Rightarrow> at_point CoordinatorDone (free_slot (releaseLate releaseFailure w))
     | AfterAdmission failure \<Rightarrow>
         at_point CoordinatorDone (reportFatal (errors_join [Some failure, releaseFailure]) (free_slot w))
     | AfterResolve failure \<Rightarrow>
         (let w = free_slot w in
          if claims_done w then at_point CoordinatorDone (recordFailure releaseFailure w)
          else if errors_is failure ErrAccountAdmissionRejected
          then (if releaseFailure \<noteq> None
                then at_point CoordinatorDone (reportFatal (errors_join [Some failure, releaseFailure]) w)
                else at_point TakingSlot w)
          else at_point CoordinatorDone
            (reportFatal (errors_join [Some (Wrap ''resolve delivery command'' [failure]), releaseFailure]) w))
     | AfterNilCommand failure \<Rightarrow>
         at_point CoordinatorDone (reportFatal (errors_join [Some failure, releaseFailure]) (free_slot w))
     | AfterRenewal failure \<Rightarrow>
         at_point TakingSlot
           (if releaseFailure = None then free_slot w
            else reportFatal (errors_join [Some (Wrap ''renew delivery lease'' [failure]), releaseFailure])
              (free_slot w)))"

definition after_release ::
  "'t \<Rightarrow> after_release \<Rightarrow> go_error option reply \<Rightarrow> ('t, 'a, 'c) worker \<Rightarrow> ('t, 'a, 'c) worker" where
  "after_release t after reply w = settle_release after (safeRelease reply) (logged (ReleasedUnused t) w)"

section \<open>An execution\<close>

definition put_execution :: "nat \<Rightarrow> ('t, 'c) execution \<Rightarrow> ('t, 'a, 'c) worker \<Rightarrow> ('t, 'a, 'c) worker" where
  "put_execution i e w = w\<lparr>w_executions := (w_executions w)[i := e]\<rparr>"

definition start_execution ::
  "worker_config \<Rightarrow> nat \<Rightarrow> 't \<Rightarrow> 'c \<Rightarrow> ('t, 'a, 'c) worker \<Rightarrow> ('t, 'a, 'c) worker" where
  "start_execution config i t command w =
     put_execution i (Executing t command (w_now w + sint (ExecutionTimeout config))) w"

text \<open>The deferred calls run last first: the slot is freed, then \<open>doneOne\<close>.\<close>

definition leave_slot :: "nat \<Rightarrow> ('t, 'a, 'c) worker \<Rightarrow> ('t, 'a, 'c) worker" where
  "leave_slot i w = free_slot (put_execution i Leaving w)"

definition leave :: "nat \<Rightarrow> ('t, 'a, 'c) worker \<Rightarrow> ('t, 'a, 'c) worker" where
  "leave i w = w\<lparr>w_active := doneOne (w_active w),
     w_executions := take i (w_executions w) @ drop (Suc i) (w_executions w)\<rparr>"

definition after_execute ::
  "worker_config \<Rightarrow> nat \<Rightarrow> 't \<Rightarrow> go_error option reply \<Rightarrow> ('t, 'a, 'c) worker \<Rightarrow> ('t, 'a, 'c) worker" where
  "after_execute config i t reply w =
    (case reply of
       Recovered v \<Rightarrow>
         put_execution i (ReleasingPanicked t (panicFailure ''delivery task execution'' v) (forRelease config w)) w
     | Replied None \<Rightarrow> leave_slot i (logged (Succeeded t) w)
     | Replied (Some failure) \<Rightarrow> put_execution i (ReleasingFailed t failure (forRelease config w)) w)"

definition after_panic_release ::
  "nat \<Rightarrow> 't \<Rightarrow> go_error \<Rightarrow> go_error option reply \<Rightarrow> ('t, 'a, 'c) worker \<Rightarrow> ('t, 'a, 'c) worker" where
  "after_panic_release i t failure reply w =
     leave_slot i (reportFatal (errors_join [Some failure, safeRelease reply]) (logged (ReleasedAfter t) w))"

definition after_failed_release ::
  "nat \<Rightarrow> 't \<Rightarrow> go_error \<Rightarrow> go_error option reply \<Rightarrow> ('t, 'a, 'c) worker \<Rightarrow> ('t, 'a, 'c) worker" where
  "after_failed_release i t failure reply w =
    (let w = logged (ReleasedAfter t) w;
         releaseFailure = safeRelease reply;
         both = errors_join [Some (Wrap ''execute delivery task'' [failure]), releaseFailure]
     in leave_slot i
       (if errors_is failure ErrOutcomeFinalization then reportFatal both w
        else if releaseFailure \<noteq> None then reportFatal both w
        else w))"

section \<open>Run\<close>

definition start_worker :: "time \<Rightarrow> ('t, 'a, 'c) worker" where
  "start_worker now = \<lparr>w_now = now, w_parent = None, w_claims = None, w_execution = False,
     w_active = newActiveTracker, w_failures = newFailureState, w_cleanup = None, w_slots = 0,
     w_coordinator = TakingSlot, w_executions = [], w_run = Selecting, w_log = []\<rparr>"

definition Run :: "worker_config \<Rightarrow> go_error option \<Rightarrow> time \<Rightarrow> go_error + ('t, 'a, 'c) worker" where
  "Run config parent now =
    (case Validate config of
       Some err \<Rightarrow> Inl (Wrap ''validate delivery worker config'' [err])
     | None \<Rightarrow> (case parent of Some err \<Rightarrow> Inl err | None \<Rightarrow> Inr (start_worker now)))"

text \<open>The three cases of the \<open>select\<close>; the code takes any whose channel is ready.\<close>

definition parent_stopped :: "('t, 'a, 'c) worker \<Rightarrow> ('t, 'a, 'c) worker" where
  "parent_stopped w = (case w_parent w of None \<Rightarrow> w
     | Some stopCause \<Rightarrow> stopClaims (Some stopCause) (w\<lparr>w_run := Stopping stopCause\<rparr>))"

definition fatal_signalled :: "('t, 'a, 'c) worker \<Rightarrow> ('t, 'a, 'c) worker" where
  "fatal_signalled w = (case fs_first (w_failures w) of None \<Rightarrow> w
     | Some stopCause \<Rightarrow> stopClaims (Some stopCause) (w\<lparr>w_run := Stopping stopCause\<rparr>))"

definition coordinator_ended :: "('t, 'a, 'c) worker \<Rightarrow> ('t, 'a, 'c) worker" where
  "coordinator_ended w =
    (case fs_first (w_failures w) of
       Some stopCause \<Rightarrow> stopClaims (Some stopCause) (w\<lparr>w_run := Stopping stopCause\<rparr>)
     | None \<Rightarrow>
         (case w_parent w of
            Some stopCause \<Rightarrow> stopClaims (Some stopCause) (w\<lparr>w_run := Stopping stopCause\<rparr>)
          | None \<Rightarrow>
              let stopCause = Foreign ''delivery worker coordinator stopped unexpectedly''
              in stopClaims (Some stopCause)
                (w\<lparr>w_failures := fatal stopCause (w_failures w), w_run := Stopping stopCause\<rparr>)))"

text \<open>\<open>time.Time.Add\<close> of the sum of both timeouts, which \<open>Validate\<close> checked in 64 bits.\<close>

definition begin_drain :: "worker_config \<Rightarrow> go_error \<Rightarrow> ('t, 'a, 'c) worker \<Rightarrow> ('t, 'a, 'c) worker" where
  "begin_drain config stopCause w = w\<lparr>w_active := tracker_stop (w_active w),
     w_run := Draining stopCause (w_now w + sint (DrainTimeout config))
       (w_now w + sint (DrainTimeout config + CleanupTimeout config))\<rparr>"

text \<open>\<open>waitForChannelsUntil\<close>: it keeps waiting (\<open>None\<close>), or reports whether every channel was closed
  before the deadline.\<close>

definition waitForChannelsUntil :: "time \<Rightarrow> time \<Rightarrow> bool list \<Rightarrow> bool option" where
  "waitForChannelsUntil now deadline channels =
    (if \<not> now < deadline then Some False
     else if list_all id channels then Some True else None)"

definition begin_cleanup ::
  "worker_config \<Rightarrow> go_error \<Rightarrow> time \<Rightarrow> ('t, 'a, 'c) worker \<Rightarrow> ('t, 'a, 'c) worker" where
  "begin_cleanup config stopCause shutdownDeadline w =
    (let cleanupDeadline = w_now w + sint (CleanupTimeout config);
         cleanupDeadline = (if shutdownDeadline < cleanupDeadline then shutdownDeadline else cleanupDeadline)
     in w\<lparr>w_execution := True, w_cleanup := Some cleanupDeadline,
          w_run := Cleaning stopCause cleanupDeadline\<rparr>)"

definition run_result :: "go_error \<Rightarrow> bool \<Rightarrow> failureState \<Rightarrow> go_error option" where
  "run_result stopCause cleanupFinished failures =
    (let failure = joined failures;
         failure = (if fs_first failures = None then errors_join [Some stopCause, failure] else failure)
     in if cleanupFinished then failure else errors_join [failure, Some (Sentinel ErrShutdownTimeout)])"

definition finish_run :: "go_error \<Rightarrow> bool \<Rightarrow> ('t, 'a, 'c) worker \<Rightarrow> ('t, 'a, 'c) worker" where
  "finish_run stopCause cleanupFinished w =
     w\<lparr>w_run := Returned (run_result stopCause cleanupFinished (w_failures w))\<rparr>"

definition coordinator_closed :: "('t, 'a, 'c) worker \<Rightarrow> bool" where
  "coordinator_closed w \<longleftrightarrow> (case w_coordinator w of CoordinatorDone \<Rightarrow> True | _ \<Rightarrow> False)"

section \<open>Interleavings\<close>

text \<open>The caller cancels its context with an error and a cause; the claim context inherits the cause, the
  execution root does not (\<open>context.WithoutCancel\<close>).\<close>

definition cancel_parent :: "go_error \<Rightarrow> go_error \<Rightarrow> ('t, 'a, 'c) worker \<Rightarrow> ('t, 'a, 'c) worker" where
  "cancel_parent err cause w =
     cancel_claims cause (w\<lparr>w_parent := (if w_parent w = None then Some err else w_parent w)\<rparr>)"

inductive coordinator_step ::
  "worker_config \<Rightarrow> ('t, 'a, 'c) worker \<Rightarrow> ('t, 'a, 'c) worker \<Rightarrow> bool"
  for config :: worker_config where
  take_slot: "w_coordinator w = TakingSlot \<Longrightarrow> w_slots w < executionCapacity \<Longrightarrow>
    coordinator_step config w (at_point Claiming (w\<lparr>w_slots := w_slots w + 1\<rparr>))"
| give_up: "w_coordinator w = TakingSlot \<Longrightarrow> claims_done w \<Longrightarrow>
    coordinator_step config w (at_point CoordinatorDone w)"
| claim_returns: "w_coordinator w = Claiming \<Longrightarrow>
    coordinator_step config w (after_claim config reply admission w)"
| poll_ends: "w_coordinator w = Polling deadline \<Longrightarrow> deadline \<le> w_now w \<Longrightarrow>
    coordinator_step config w (at_point TakingSlot w)"
| poll_stops: "w_coordinator w = Polling deadline \<Longrightarrow> claims_done w \<Longrightarrow>
    coordinator_step config w (at_point CoordinatorDone w)"
| resolve_returns: "w_coordinator w = Resolving t a \<Longrightarrow>
    coordinator_step config w (after_resolve config t resolved w)"
| renew_returns: "w_coordinator w = Renewing t command \<Longrightarrow>
    coordinator_step config w (after_renew config t command answer w)"
| release_returns: "w_coordinator w = Releasing t cause deadline after \<Longrightarrow>
    coordinator_step config w (after_release t after answer w)"

inductive execution_step ::
  "worker_config \<Rightarrow> ('t, 'a, 'c) worker \<Rightarrow> ('t, 'a, 'c) worker \<Rightarrow> bool"
  for config :: worker_config where
  starts: "i < length (w_executions w) \<Longrightarrow> w_executions w ! i = Starting t command \<Longrightarrow>
    execution_step config w (start_execution config i t command w)"
| execute_returns: "i < length (w_executions w) \<Longrightarrow> w_executions w ! i = Executing t command deadline \<Longrightarrow>
    execution_step config w (after_execute config i t answer w)"
| panic_released: "i < length (w_executions w) \<Longrightarrow> w_executions w ! i = ReleasingPanicked t failure deadline \<Longrightarrow>
    execution_step config w (after_panic_release i t failure answer w)"
| failure_released: "i < length (w_executions w) \<Longrightarrow> w_executions w ! i = ReleasingFailed t failure deadline \<Longrightarrow>
    execution_step config w (after_failed_release i t failure answer w)"
| leaves: "i < length (w_executions w) \<Longrightarrow> w_executions w ! i = Leaving \<Longrightarrow>
    execution_step config w (leave i w)"

inductive run_step ::
  "worker_config \<Rightarrow> ('t, 'a, 'c) worker \<Rightarrow> ('t, 'a, 'c) worker \<Rightarrow> bool"
  for config :: worker_config where
  select_parent: "w_run w = Selecting \<Longrightarrow> w_parent w \<noteq> None \<Longrightarrow> run_step config w (parent_stopped w)"
| select_fatal: "w_run w = Selecting \<Longrightarrow> fs_signal (w_failures w) \<Longrightarrow> run_step config w (fatal_signalled w)"
| select_ended: "w_run w = Selecting \<Longrightarrow> coordinator_closed w \<Longrightarrow> run_step config w (coordinator_ended w)"
| drain: "w_run w = Stopping cause \<Longrightarrow> run_step config w (begin_drain config cause w)"
| cleanup: "w_run w = Draining cause drainDeadline shutdownDeadline \<Longrightarrow>
    waitForChannelsUntil (w_now w) drainDeadline [at_done (w_active w)] = Some drained \<Longrightarrow>
    run_step config w (begin_cleanup config cause shutdownDeadline w)"
| return: "w_run w = Cleaning cause deadline \<Longrightarrow>
    waitForChannelsUntil (w_now w) deadline [at_done (w_active w), coordinator_closed w] = Some finished \<Longrightarrow>
    run_step config w (finish_run cause finished w)"

inductive worker_step ::
  "worker_config \<Rightarrow> ('t, 'a, 'c) worker \<Rightarrow> ('t, 'a, 'c) worker \<Rightarrow> bool"
  for config :: worker_config where
  coordinator: "coordinator_step config w w' \<Longrightarrow> worker_step config w w'"
| execution: "execution_step config w w' \<Longrightarrow> worker_step config w w'"
| running: "run_step config w w' \<Longrightarrow> worker_step config w w'"
| time: "w_now w \<le> later \<Longrightarrow> worker_step config w (w\<lparr>w_now := later\<rparr>)"
| cancelled: "worker_step config w (cancel_parent err cause w)"

definition worker_init :: "worker_config \<Rightarrow> ('t, 'a, 'c) worker \<Rightarrow> bool" where
  "worker_init config w \<longleftrightarrow> (\<exists>now. Run config None now = Inr w)"

end
