(* ===== verification/Worker_Invariant.thy ===== *)
theory Worker_Invariant
  imports Delivery_Worker Transition_System
begin

text \<open>
  The invariant of the delivery worker and its preservation by every interleaved transition: the
  execution slots, the active tracker, the account of every claimed task, and what the phases of \<open>Run\<close>
  know about the other goroutines. \<open>delivery_worker\<close> and \<open>settled_worker\<close> are the instances of the
  transition system interface the properties use.
\<close>

section \<open>Where a task is\<close>

fun coordinator_hand :: "('t, 'a, 'c) coordinator \<Rightarrow> 't multiset" where
  "coordinator_hand (Resolving t _) = {#t#}"
| "coordinator_hand (Renewing t _) = {#t#}"
| "coordinator_hand (Releasing t _ _ _) = {#t#}"
| "coordinator_hand _ = {#}"

fun execution_hand :: "('t, 'c) execution \<Rightarrow> 't multiset" where
  "execution_hand (Starting t _) = {#t#}"
| "execution_hand (Executing t _ _) = {#t#}"
| "execution_hand (ReleasingPanicked t _ _) = {#t#}"
| "execution_hand (ReleasingFailed t _ _) = {#t#}"
| "execution_hand Leaving = {#}"

definition executing :: "('t, 'c) execution list \<Rightarrow> 't multiset" where
  "executing es = \<Sum>\<^sub># (mset (map execution_hand es))"

text \<open>Executions that still hold their slot.\<close>

definition working :: "('t, 'c) execution list \<Rightarrow> nat" where
  "working es = length (filter (\<lambda>e. execution_hand e \<noteq> {#}) es)"

fun holds_slot :: "('t, 'a, 'c) coordinator \<Rightarrow> bool" where
  "holds_slot TakingSlot = False"
| "holds_slot (Polling _) = False"
| "holds_slot CoordinatorDone = False"
| "holds_slot _ = True"

section \<open>The history of the tasks\<close>

definition history :: "('t event \<Rightarrow> 't multiset) \<Rightarrow> 't event list \<Rightarrow> 't multiset" where
  "history f log = \<Sum>\<^sub># (mset (map f log))"

fun is_claimed :: "'t event \<Rightarrow> 't multiset" where
  "is_claimed (Claimed t) = {#t#}" | "is_claimed _ = {#}"

fun is_started :: "'t event \<Rightarrow> 't multiset" where
  "is_started (Started t) = {#t#}" | "is_started _ = {#}"

fun is_unused :: "'t event \<Rightarrow> 't multiset" where
  "is_unused (Dropped t) = {#t#}" | "is_unused (ReleasedUnused t) = {#t#}" | "is_unused _ = {#}"

fun is_ended :: "'t event \<Rightarrow> 't multiset" where
  "is_ended (Succeeded t) = {#t#}" | "is_ended (ReleasedAfter t) = {#t#}" | "is_ended _ = {#}"

lemma history_simps [simp]:
  "history f [] = {#}" "history f (e # log) = f e + history f log"
  "history f (log @ log') = history f log + history f log'"
  by (simp_all add: history_def)

lemma executing_simps [simp]:
  "executing [] = {#}" "executing (e # es) = execution_hand e + executing es"
  "executing (es @ es') = executing es + executing es'"
  by (simp_all add: executing_def)

lemma working_simps [simp]:
  "working [] = 0" "working (e # es) = (if execution_hand e = {#} then 0 else 1) + working es"
  "working (es @ es') = working es + working es'"
  by (simp_all add: working_def)

section \<open>The invariant\<close>

definition slots_ok :: "('t, 'a, 'c) worker \<Rightarrow> bool" where
  "slots_ok w \<longleftrightarrow> w_slots w \<le> executionCapacity
     \<and> (if coordinator_closed w then working (w_executions w) \<le> w_slots w
        else w_slots w = working (w_executions w) + (if holds_slot (w_coordinator w) then 1 else 0))"

definition tracker_ok :: "('t, 'a, 'c) worker \<Rightarrow> bool" where
  "tracker_ok w \<longleftrightarrow> at_count (w_active w) = int (length (w_executions w))
     \<and> at_done (w_active w) = (w_executions w = [])"

definition accounted :: "('t, 'a, 'c) worker \<Rightarrow> bool" where
  "accounted w \<longleftrightarrow>
     history is_claimed (w_log w)
       = coordinator_hand (w_coordinator w) + history is_unused (w_log w) + history is_started (w_log w)
   \<and> history is_started (w_log w) = executing (w_executions w) + history is_ended (w_log w)"

definition stopping :: "run_phase \<Rightarrow> bool" where
  "stopping r \<longleftrightarrow> (case r of Selecting \<Rightarrow> False | _ \<Rightarrow> True)"

definition drained :: "run_phase \<Rightarrow> bool" where
  "drained r \<longleftrightarrow> (case r of Selecting \<Rightarrow> False | Stopping _ \<Rightarrow> False | _ \<Rightarrow> True)"

text \<open>Places the coordinator reaches only after the claim context is done.\<close>

fun needs_stop :: "('t, 'a, 'c) coordinator \<Rightarrow> bool" where
  "needs_stop CoordinatorDone = True"
| "needs_stop (Releasing _ _ _ AfterLate) = True"
| "needs_stop _ = False"

lemma needs_stop_Releasing [simp]: "needs_stop (Releasing t c d after) \<longleftrightarrow> after = AfterLate"
  by (cases after) simp_all

definition stops_ok :: "('t, 'a, 'c) worker \<Rightarrow> bool" where
  "stops_ok w \<longleftrightarrow> at_stopped (w_active w) = drained (w_run w)
     \<and> (needs_stop (w_coordinator w) \<or> stopping (w_run w) \<or> fs_first (w_failures w) \<noteq> None \<or> w_parent w \<noteq> None
        \<longrightarrow> claims_done w)"

definition failures_ok :: "('t, 'a, 'c) worker \<Rightarrow> bool" where
  "failures_ok w \<longleftrightarrow> fs_signal (w_failures w) = (fs_first (w_failures w) \<noteq> None)
     \<and> set_option (fs_first (w_failures w)) \<subseteq> set (fs_failures (w_failures w))"

text \<open>Everything the worker claimed is settled and its goroutines are gone.\<close>

definition quiet :: "('t, 'a, 'c) worker \<Rightarrow> bool" where
  "quiet w \<longleftrightarrow> w_executions w = [] \<and> coordinator_closed w"

definition covers :: "go_error \<Rightarrow> go_error \<Rightarrow> bool" where
  "covers e f \<longleftrightarrow> (\<forall>s. errors_is f s \<longrightarrow> errors_is e s)"

definition explained :: "('t, 'a, 'c) worker \<Rightarrow> go_error \<Rightarrow> bool" where
  "explained w e \<longleftrightarrow> (\<forall>f \<in> set (fs_failures (w_failures w)). covers e f)
     \<and> (fs_first (w_failures w) = None \<longrightarrow> (\<exists>p. w_parent w = Some p \<and> covers e p))"

fun phase_ok :: "run_phase \<Rightarrow> ('t, 'a, 'c) worker \<Rightarrow> bool" where
  "phase_ok Selecting w = True"
| "phase_ok (Stopping c) w = (fs_first (w_failures w) = None \<longrightarrow> w_parent w = Some c)"
| "phase_ok (Draining c _ _) w = (fs_first (w_failures w) = None \<longrightarrow> w_parent w = Some c)"
| "phase_ok (Cleaning c _) w = (fs_first (w_failures w) = None \<longrightarrow> w_parent w = Some c)"
| "phase_ok (Returned r) w =
     (\<exists>e. r = Some e \<and> (errors_is e ErrShutdownTimeout \<or> quiet w \<and> explained w e))"

definition worker_ok :: "('t, 'a, 'c) worker \<Rightarrow> bool" where
  "worker_ok w \<longleftrightarrow> slots_ok w \<and> tracker_ok w \<and> accounted w \<and> stops_ok w \<and> failures_ok w \<and> phase_ok (w_run w) w"

section \<open>Reports\<close>

lemmas report_defs = cancel_claims_def stopClaims_def reportFatal_def recordFailure_def record_failure_def
  fatal_def

lemma errors_join_not_None [simp]: "errors_join (Some e # es) \<noteq> None"
  by (simp add: errors_join_None)

text \<open>A report touches the failures and the claim context, so it commutes with the other effects.\<close>

lemma reportFatal_fields [simp]:
  "w_now (reportFatal f w) = w_now w" "w_parent (reportFatal f w) = w_parent w"
  "w_execution (reportFatal f w) = w_execution w" "w_active (reportFatal f w) = w_active w"
  "w_cleanup (reportFatal f w) = w_cleanup w" "w_slots (reportFatal f w) = w_slots w"
  "w_coordinator (reportFatal f w) = w_coordinator w" "w_executions (reportFatal f w) = w_executions w"
  "w_run (reportFatal f w) = w_run w" "w_log (reportFatal f w) = w_log w"
  by (simp_all add: report_defs split: option.split)

lemma recordFailure_fields [simp]:
  "w_now (recordFailure f w) = w_now w" "w_parent (recordFailure f w) = w_parent w"
  "w_claims (recordFailure f w) = w_claims w"
  "w_execution (recordFailure f w) = w_execution w" "w_active (recordFailure f w) = w_active w"
  "w_cleanup (recordFailure f w) = w_cleanup w" "w_slots (recordFailure f w) = w_slots w"
  "w_coordinator (recordFailure f w) = w_coordinator w" "w_executions (recordFailure f w) = w_executions w"
  "w_run (recordFailure f w) = w_run w" "w_log (recordFailure f w) = w_log w"
  by (simp_all add: report_defs split: option.split)

lemma report_commutes:
  "reportFatal f (w\<lparr>w_slots := n\<rparr>) = (reportFatal f w)\<lparr>w_slots := n\<rparr>"
  "reportFatal f (w\<lparr>w_log := log\<rparr>) = (reportFatal f w)\<lparr>w_log := log\<rparr>"
  "recordFailure f (w\<lparr>w_slots := n\<rparr>) = (recordFailure f w)\<lparr>w_slots := n\<rparr>"
  "recordFailure f (w\<lparr>w_log := log\<rparr>) = (recordFailure f w)\<lparr>w_log := log\<rparr>"
  by (simp_all add: report_defs split: option.split)

lemma claims_done_simps [simp]:
  "claims_done (w\<lparr>w_slots := n\<rparr>) = claims_done w" "claims_done (w\<lparr>w_log := log\<rparr>) = claims_done w"
  by (simp_all add: claims_done_def)

lemma claims_done_reportFatal [simp]: "claims_done (reportFatal f w) \<longleftrightarrow> claims_done w \<or> f \<noteq> None"
  by (auto simp: report_defs claims_done_def split: option.split)

text \<open>What the phases of \<open>Run\<close> know survives reports while something is still running.\<close>

lemma phase_ok_moves:
  assumes "phase_ok r w" "w_parent v = w_parent w" "\<not> quiet w"
    and "fs_first (w_failures v) = None \<Longrightarrow> fs_first (w_failures w) = None"
  shows "phase_ok r v"
  using assms by (cases r) auto

lemma failures_ok_reports:
  assumes "failures_ok w"
  shows "failures_ok (reportFatal f w)" "failures_ok (recordFailure f w)"
  using assms by (auto simp: report_defs failures_ok_def split: option.split)

lemma first_reports:
  "fs_first (w_failures (reportFatal f w)) = None \<Longrightarrow> fs_first (w_failures w) = None"
  "fs_first (w_failures (recordFailure f w)) = fs_first (w_failures w)"
  "fs_first (w_failures (reportFatal f w)) \<noteq> fs_first (w_failures w) \<Longrightarrow> f \<noteq> None"
  by (auto simp: report_defs split: option.splits if_splits)

lemma worker_ok_reports:
  assumes "worker_ok w" "\<not> quiet w"
  shows "worker_ok (reportFatal f w)" "worker_ok (recordFailure f w)"
proof -
  note parts = assms(1) [unfolded worker_ok_def]
  have "phase_ok (w_run w) (reportFatal f w)" "phase_ok (w_run w) (recordFailure f w)"
    using phase_ok_moves [of "w_run w" w "reportFatal f w"] phase_ok_moves [of "w_run w" w "recordFailure f w"]
      parts assms(2) first_reports(1) [of f w] first_reports(2) [of f w] by simp_all
  moreover have "stops_ok (reportFatal f w)" "stops_ok (recordFailure f w)"
    using parts first_reports(2,3) [of f w]
    by (auto simp: stops_ok_def claims_done_def [of "recordFailure f w"]
        claims_done_def [of w])
  ultimately show "worker_ok (reportFatal f w)" "worker_ok (recordFailure f w)"
    using parts failures_ok_reports [of w f]
    by (simp_all add: worker_ok_def slots_ok_def tracker_ok_def accounted_def coordinator_closed_def)
qed

section \<open>Moves of the coordinator\<close>

lemma coordinator_move:
  assumes "worker_ok w" "\<not> coordinator_closed w"
    and same: "w_parent v = w_parent w" "w_claims v = w_claims w" "w_active v = w_active w"
      "w_failures v = w_failures w" "w_executions v = w_executions w" "w_run v = w_run w"
    and log: "w_log v = w_log w @ events"
      "coordinator_hand (w_coordinator w) + history is_claimed events
         = coordinator_hand (w_coordinator v) + history is_unused events"
      "history is_started events = {#}" "history is_ended events = {#}"
    and slots: "w_slots v \<le> executionCapacity"
      "w_coordinator v \<noteq> CoordinatorDone \<Longrightarrow>
         w_slots v + (if holds_slot (w_coordinator w) then 1 else 0)
           = w_slots w + (if holds_slot (w_coordinator v) then 1 else 0)"
      "w_coordinator v = CoordinatorDone \<Longrightarrow>
         w_slots w \<le> w_slots v + (if holds_slot (w_coordinator w) then 1 else 0)"
    and stop: "needs_stop (w_coordinator v) \<Longrightarrow> claims_done w"
  shows "worker_ok v"
proof -
  note parts = assms(1) [unfolded worker_ok_def]
  have closed: "coordinator_closed v \<longleftrightarrow> w_coordinator v = CoordinatorDone"
    by (simp add: coordinator_closed_def split: coordinator.split)
  have all: "history f (w_log v) = history f (w_log w) + history f events" for f :: "'a event \<Rightarrow> 'a multiset"
    unfolding log(1) by (simp add: history_def)
  have "slots_ok v" using parts assms(2) slots unfolding slots_ok_def closed same by auto
  moreover have "accounted v" using parts log(2-) unfolding accounted_def all same by simp
  moreover have "phase_ok (w_run v) v" unfolding same(6)
    by (rule phase_ok_moves [of _ w]) (use parts assms(2) same in \<open>simp_all add: quiet_def\<close>)
  moreover have "stops_ok v" using parts stop unfolding stops_ok_def same claims_done_def by blast
  ultimately show ?thesis using parts
    by (simp add: worker_ok_def tracker_ok_def failures_ok_def same)
qed

text \<open>The moves of the code, each a report followed by a change of place.\<close>

lemma not_quiet: "\<not> coordinator_closed w \<Longrightarrow> \<not> quiet w"
  by (simp add: quiet_def)

lemma closed_iff: "coordinator_closed w \<longleftrightarrow> w_coordinator w = CoordinatorDone"
  by (simp add: coordinator_closed_def split: coordinator.split)

lemma slots_held:
  assumes "worker_ok w" "holds_slot (w_coordinator w)"
  shows "0 < w_slots w" "w_slots w \<le> executionCapacity" "\<not> coordinator_closed w"
  using assms by (cases "w_coordinator w"; simp add: worker_ok_def slots_ok_def coordinator_closed_def)+

lemma stays_bounded:
  assumes "worker_ok w"
  shows "w_slots w \<le> executionCapacity"
  using assms by (simp add: worker_ok_def slots_ok_def)

lemmas move_defs = at_point_def free_slot_def logged_def begin_release_def report_commutes

text \<open>A task in the coordinator's hand goes to its release, keeping the slot.\<close>

lemma begin_release_ok:
  assumes "worker_ok w" "holds_slot (w_coordinator w)" "coordinator_hand (w_coordinator w) = {#t#}"
    and "after = AfterLate \<Longrightarrow> claims_done w"
  shows "worker_ok (begin_release config t cause after w)"
  by (rule coordinator_move [OF assms(1), where events = "[]"])
    (use assms slots_held [OF assms(1,2)] in \<open>simp_all add: move_defs\<close>)

lemma claimed_release_ok:
  assumes "worker_ok w" "w_coordinator w = Claiming" and "after = AfterLate \<Longrightarrow> claims_done w"
  shows "worker_ok (begin_release config t cause after (logged (Claimed t) w))"
  by (rule coordinator_move [OF assms(1), where events = "[Claimed t]"])
    (use assms stays_bounded [OF assms(1)] in \<open>simp_all add: move_defs closed_iff history_def\<close>)

lemma exit_ok:
  assumes "worker_ok w" "holds_slot (w_coordinator w)" "coordinator_hand (w_coordinator w) = {#}"
  shows "worker_ok (at_point CoordinatorDone (reportFatal (Some e) w))"
    "worker_ok (at_point CoordinatorDone (reportFatal (Some e) (free_slot w)))"
    "claims_done w \<Longrightarrow> worker_ok (at_point CoordinatorDone (free_slot w))"
proof -
  note held = slots_held [OF assms(1,2)]
  have r: "worker_ok (reportFatal (Some e) w)" by (rule worker_ok_reports [OF assms(1) not_quiet [OF held(3)]])
  show "worker_ok (at_point CoordinatorDone (reportFatal (Some e) w))"
    "worker_ok (at_point CoordinatorDone (reportFatal (Some e) (free_slot w)))"
    by (rule coordinator_move [OF r, where events = "[]"];
        use assms held in \<open>simp add: move_defs coordinator_closed_def\<close>)+
  show "claims_done w \<Longrightarrow> worker_ok (at_point CoordinatorDone (free_slot w))"
    by (rule coordinator_move [OF assms(1), where events = "[]"])
      (use assms held in \<open>simp_all add: move_defs coordinator_closed_def\<close>)
qed

text \<open>A release has returned: the task leaves the coordinator's hand and the slot is freed.\<close>

lemma release_moves:
  assumes "worker_ok w" "w_coordinator w = Releasing t cause deadline after"
  defines "v \<equiv> free_slot (logged (ReleasedUnused t) w)"
  shows "worker_ok (at_point CoordinatorDone (reportFatal (Some e) v))"
    "claims_done w \<Longrightarrow> worker_ok (at_point CoordinatorDone (recordFailure f v))"
    "worker_ok (at_point TakingSlot v)" "worker_ok (at_point TakingSlot (reportFatal f v))"
proof -
  have hold: "holds_slot (w_coordinator w)" using assms(2) by simp
  note held = slots_held [OF assms(1) hold]
  note r = worker_ok_reports [OF assms(1) not_quiet [OF held(3)]]
  show "worker_ok (at_point CoordinatorDone (reportFatal (Some e) v))"
    by (rule coordinator_move [OF r(1) [of "Some e"], where events = "[ReleasedUnused t]"])
      (use assms held in \<open>simp_all add: move_defs closed_iff history_def\<close>)
  show "worker_ok (at_point CoordinatorDone (recordFailure f v))" if "claims_done w"
    by (rule coordinator_move [OF r(2) [of f], where events = "[ReleasedUnused t]"])
      (use assms held that in \<open>simp_all add: move_defs closed_iff history_def claims_done_def\<close>)
  show "worker_ok (at_point TakingSlot v)"
    by (rule coordinator_move [OF assms(1), where events = "[ReleasedUnused t]"])
      (use assms held in \<open>simp_all add: move_defs closed_iff history_def\<close>)
  show "worker_ok (at_point TakingSlot (reportFatal f v))"
    by (rule coordinator_move [OF r(1) [of f], where events = "[ReleasedUnused t]"])
      (use assms held in \<open>simp_all add: move_defs closed_iff history_def\<close>)
qed

lemma errors_join_Some: "\<exists>e. errors_join (Some x # es) = Some e"
  using errors_join_not_None [of x es] by blast

lemma after_release_ok:
  assumes ok: "worker_ok w" and at: "w_coordinator w = Releasing t cause deadline after"
  shows "worker_ok (after_release t after reply w)"
proof -
  let ?v = "logged (ReleasedUnused t) w" and ?f = "safeRelease reply"
  note m = release_moves [OF ok at]
  have done_v: "claims_done ?v = claims_done w" "claims_done (free_slot ?v) = claims_done w"
    by (simp_all add: move_defs)
  have join: "worker_ok (at_point CoordinatorDone (reportFatal (errors_join [Some x, ?f]) (free_slot ?v)))" for x
    using errors_join_Some [of x "[?f]"] m(1) by auto
  have "worker_ok (settle_release after ?f ?v)"
  proof (cases after)
    case (AfterClaimFailure failure)
    then show ?thesis using m(2) join
      by (simp add: settle_release_def after_claim_failure_def Let_def done_v)
  next
    case AfterLate
    then have "claims_done w" using ok at by (simp add: worker_ok_def stops_ok_def)
    moreover have "free_slot (recordFailure f ?v) = recordFailure f (free_slot ?v)" for f
      by (simp add: move_defs)
    ultimately show ?thesis using AfterLate m(2) [of None] m(2)
      by (simp add: settle_release_def releaseLate_def done_v recordFailure_def [of None] split: option.split)
  next
    case (AfterResolve failure)
    then show ?thesis using m(2,3) join by (simp add: settle_release_def Let_def done_v)
  next
    case (AfterRenewal failure)
    then show ?thesis using m(3,4) by (simp add: settle_release_def)
  qed (use join in \<open>simp_all add: settle_release_def\<close>)
  then show ?thesis by (simp add: after_release_def)
qed

lemma after_claim_ok:
  assumes ok: "worker_ok w" and at: "w_coordinator w = Claiming"
  shows "worker_ok (after_claim config reply admission w)"
proof -
  have hold: "holds_slot (w_coordinator w)" "coordinator_hand (w_coordinator w) = {#}" using at by simp_all
  note held = slots_held [OF ok hold(1)] and x = exit_ok [OF ok hold]
  have poll: "worker_ok (at_point (Polling d) (free_slot w))" for d
    by (rule coordinator_move [OF ok, where events = "[]"])
      (use at held in \<open>simp_all add: move_defs closed_iff\<close>)
  have dropped: "worker_ok (at_point (Polling d) (free_slot (logged (Dropped t) (logged (Claimed t) w))))" for d t
    by (rule coordinator_move [OF ok, where events = "[Claimed t, Dropped t]"])
      (use at held in \<open>simp_all add: move_defs closed_iff history_def\<close>)
  have resolving: "worker_ok (at_point (Resolving t a) (logged (Claimed t) w))" for t a
    by (rule coordinator_move [OF ok, where events = "[Claimed t]"])
      (use at held in \<open>simp_all add: move_defs closed_iff history_def\<close>)
  have failed: "worker_ok (after_claim_failure failure None w)" for failure
    using x(2) x(3) errors_join_Some [of "Wrap ''claim delivery task'' [failure]" "[None]"]
    by (auto simp: after_claim_failure_def Let_def recordFailure_def free_slot_def)
  have release: "after \<noteq> AfterLate \<or> claims_done w \<Longrightarrow>
      worker_ok (begin_release config t cause after (logged (Claimed t) w))" for t cause after
    by (rule claimed_release_ok [OF ok at]) blast
  have "claims_done (logged e w) = claims_done w" for e by (simp add: logged_def)
  then show ?thesis
    unfolding after_claim_def Let_def
    using x(1,2) poll dropped resolving failed release
    by (auto split: reply.split prod.split option.split sum.split)
qed

lemma after_resolve_ok:
  assumes ok: "worker_ok w" and at: "w_coordinator w = Resolving t a"
  shows "worker_ok (after_resolve config t reply w)"
proof -
  have hold: "holds_slot (w_coordinator w)" "coordinator_hand (w_coordinator w) = {#t#}" using at by simp_all
  note held = slots_held [OF ok hold(1)]
  have release: "after \<noteq> AfterLate \<or> claims_done w \<Longrightarrow> worker_ok (begin_release config t cause after w)"
    for cause after by (rule begin_release_ok [OF ok hold]) blast
  have renewing: "worker_ok (at_point (Renewing t c) w)" for c
    by (rule coordinator_move [OF ok, where events = "[]"]) (use at held in \<open>simp_all add: move_defs closed_iff\<close>)
  show ?thesis unfolding after_resolve_def Let_def using release renewing
    by (auto split: reply.split prod.split option.split)
qed

text \<open>A renewed task is handed to a new execution together with the slot.\<close>

lemma started_ok:
  assumes ok: "worker_ok w" and at: "w_coordinator w = Renewing t command"
    and "tracker_add (w_active w) = (active, True)"
  shows "worker_ok (at_point TakingSlot (logged (Started t)
    (w\<lparr>w_active := active, w_executions := w_executions w @ [Starting t command]\<rparr>)))"
    (is "worker_ok ?v")
proof -
  note parts = ok [unfolded worker_ok_def]
  have active: "at_count active = at_count (w_active w) + 1" "\<not> at_done active"
    "at_stopped active = at_stopped (w_active w)"
    using assms(3) parts by (auto simp: tracker_add_def Let_def tracker_ok_def split: if_splits)
  have "phase_ok (w_run w) ?v"
    by (rule phase_ok_moves [of _ w]) (use parts at in \<open>simp_all add: move_defs quiet_def closed_iff\<close>)
  then show ?thesis using parts at active
    by (simp add: worker_ok_def slots_ok_def tracker_ok_def accounted_def stops_ok_def failures_ok_def
        move_defs closed_iff claims_done_def)
qed

lemma after_renew_ok:
  assumes ok: "worker_ok w" and at: "w_coordinator w = Renewing t command"
  shows "worker_ok (after_renew config t command reply w)"
proof -
  have hold: "holds_slot (w_coordinator w)" "coordinator_hand (w_coordinator w) = {#t#}" using at by simp_all
  have release: "after \<noteq> AfterLate \<or> claims_done w \<Longrightarrow> worker_ok (begin_release config t cause after w)"
    for cause after by (rule begin_release_ok [OF ok hold]) blast
  have refused: "tracker_add (w_active w) = (active, False) \<Longrightarrow> claims_done w" for active
    using ok by (auto simp: worker_ok_def stops_ok_def tracker_add_def Let_def drained_def stopping_def
        split: if_splits run_phase.splits)
  show ?thesis unfolding after_renew_def using release refused started_ok [OF ok at]
    by (auto split: option.split prod.split bool.split)
qed

lemma coordinator_step_ok:
  assumes "coordinator_step config w v" "worker_ok w"
  shows "worker_ok v"
  using assms
proof cases
  case take_slot
  then show ?thesis using assms(2)
    by (intro coordinator_move [OF assms(2), where events = "[]"]) (simp_all add: at_point_def closed_iff)
next
  case give_up
  then show ?thesis using stays_bounded [OF assms(2)]
    by (intro coordinator_move [OF assms(2), where events = "[]"]) (simp_all add: at_point_def closed_iff)
next
  case poll_ends
  then show ?thesis using stays_bounded [OF assms(2)]
    by (intro coordinator_move [OF assms(2), where events = "[]"]) (simp_all add: at_point_def closed_iff)
next
  case poll_stops
  then show ?thesis using stays_bounded [OF assms(2)]
    by (intro coordinator_move [OF assms(2), where events = "[]"]) (simp_all add: at_point_def closed_iff)
qed (use assms(2) in \<open>auto intro: after_claim_ok after_resolve_ok after_renew_ok after_release_ok\<close>)

section \<open>Moves of an execution\<close>

lemma split_at: "i < length es \<Longrightarrow> es ! i = e \<Longrightarrow> \<exists>xs ys. es = xs @ e # ys \<and> length xs = i"
  using id_take_nth_drop [of i es] by (metis length_take min.absorb4)

lemma execution_move:
  assumes "worker_ok w" "w_executions w = xs @ e # ys"
    and same: "w_parent v = w_parent w" "w_claims v = w_claims w" "w_active v = w_active w"
      "w_failures v = w_failures w" "w_coordinator v = w_coordinator w" "w_run v = w_run w"
    and es: "w_executions v = xs @ e' # ys"
    and log: "w_log v = w_log w @ events"
      "history is_claimed events = {#}" "history is_unused events = {#}" "history is_started events = {#}"
      "execution_hand e = execution_hand e' + history is_ended events"
    and slots: "w_slots v + (if execution_hand e = {#} then 0 else 1)
      = w_slots w + (if execution_hand e' = {#} then 0 else 1)"
  shows "worker_ok v"
proof -
  note parts = assms(1) [unfolded worker_ok_def]
  have all: "history f (w_log v) = history f (w_log w) + history f events" for f :: "'a event \<Rightarrow> 'a multiset"
    unfolding log(1) by (simp add: history_def)
  have closed: "coordinator_closed v = coordinator_closed w" by (simp add: coordinator_closed_def same)
  have less: "execution_hand e = {#} \<Longrightarrow> execution_hand e' = {#}" using log(5) by simp
  have "slots_ok v" using parts slots less unfolding slots_ok_def closed same es assms(2)
    by (auto split: if_splits)
  moreover have "accounted v" using parts log unfolding accounted_def all same es assms(2)
    by (simp add: ac_simps)
  moreover have "phase_ok (w_run v) v" unfolding same(6)
    by (rule phase_ok_moves [of _ w]) (use parts assms(2) same in \<open>simp_all add: quiet_def\<close>)
  moreover have "tracker_ok v" using parts unfolding tracker_ok_def same es assms(2) by simp
  ultimately show ?thesis using parts
    by (simp add: worker_ok_def failures_ok_def stops_ok_def claims_done_def same)
qed

lemma leave_slot_ok:
  assumes ok: "worker_ok w" and es: "w_executions w = xs @ e # ys"
    and hand: "execution_hand e = {#t#}" "is_ended ended = {#t#}" "is_claimed ended = {#}"
      "is_unused ended = {#}" "is_started ended = {#}"
  shows "worker_ok (leave_slot (length xs) (logged ended w))"
    "worker_ok (leave_slot (length xs) (reportFatal f (logged ended w)))"
proof -
  have "\<not> quiet w" using es by (simp add: quiet_def)
  from worker_ok_reports(1) [OF ok this] have r: "worker_ok (reportFatal f w)" .
  have "0 < w_slots w" using ok es hand(1) by (auto simp: worker_ok_def slots_ok_def split: if_splits)
  then show "worker_ok (leave_slot (length xs) (logged ended w))"
    by (intro execution_move [OF ok es, where e' = Leaving and events = "[ended]"])
      (use hand es in \<open>simp_all add: leave_slot_def put_execution_def move_defs history_def\<close>)
  show "worker_ok (leave_slot (length xs) (reportFatal f (logged ended w)))"
    by (rule execution_move [OF r _, where e = e and e' = Leaving and events = "[ended]"])
      (use hand es \<open>0 < w_slots w\<close> in \<open>simp_all add: leave_slot_def put_execution_def move_defs history_def\<close>)
qed

lemma put_execution_ok:
  assumes "worker_ok w" "w_executions w = xs @ e # ys" "execution_hand e' = execution_hand e"
  shows "worker_ok (put_execution (length xs) e' w)"
  by (rule execution_move [OF assms(1,2), where e' = e' and events = "[]"])
    (use assms in \<open>simp_all add: put_execution_def\<close>)

lemma leave_ok:
  assumes ok: "worker_ok w" and es: "w_executions w = xs @ Leaving # ys"
  shows "worker_ok (leave (length xs) w)"
proof -
  note parts = ok [unfolded worker_ok_def]
  let ?v = "leave (length xs) w"
  have v: "w_executions ?v = xs @ ys" "w_slots ?v = w_slots w" "w_coordinator ?v = w_coordinator w"
    "w_log ?v = w_log w" "w_claims ?v = w_claims w" "w_failures ?v = w_failures w" "w_parent ?v = w_parent w"
    "w_run ?v = w_run w" "w_active ?v = doneOne (w_active w)"
    by (simp_all add: leave_def es)
  have "phase_ok (w_run w) ?v"
    by (rule phase_ok_moves [of _ w]) (use parts es v in \<open>simp_all add: quiet_def\<close>)
  moreover have "tracker_ok ?v" using parts unfolding tracker_ok_def v es
    by (cases xs; cases ys) (simp_all add: doneOne_def Let_def)
  moreover have "stops_ok ?v" using parts unfolding stops_ok_def v claims_done_def
    by (simp add: doneOne_def Let_def)
  moreover have "slots_ok ?v" "accounted ?v" "failures_ok ?v"
    using parts unfolding slots_ok_def accounted_def failures_ok_def closed_iff v es
    by (simp_all split: if_split_asm)
  ultimately show ?thesis using v by (simp add: worker_ok_def)
qed

lemma execution_step_ok:
  assumes "execution_step config w v" "worker_ok w"
  shows "worker_ok v"
  using assms(1)
proof cases
  case (starts i t command)
  obtain xs ys where es: "w_executions w = xs @ Starting t command # ys" "length xs = i"
    using split_at [OF starts(2,3)] by blast
  show ?thesis unfolding starts(1) start_execution_def es(2) [symmetric]
    by (rule put_execution_ok [OF assms(2) es(1)]) simp
next
  case (execute_returns i t command deadline answer)
  obtain xs ys where es: "w_executions w = xs @ Executing t command deadline # ys" "length xs = i"
    using split_at [OF execute_returns(2,3)] by blast
  note put = put_execution_ok [OF assms(2) es(1)]
  show ?thesis unfolding execute_returns(1) after_execute_def es(2) [symmetric]
    by (auto split: reply.split option.split intro!: put leave_slot_ok(1) [OF assms(2) es(1)])
next
  case (panic_released i t failure deadline answer)
  obtain xs ys where es: "w_executions w = xs @ ReleasingPanicked t failure deadline # ys" "length xs = i"
    using split_at [OF panic_released(2,3)] by blast
  show ?thesis unfolding panic_released(1) after_panic_release_def es(2) [symmetric]
    by (auto intro!: leave_slot_ok [OF assms(2) es(1)])
next
  case (failure_released i t failure deadline answer)
  obtain xs ys where es: "w_executions w = xs @ ReleasingFailed t failure deadline # ys" "length xs = i"
    using split_at [OF failure_released(2,3)] by blast
  show ?thesis unfolding failure_released(1) after_failed_release_def Let_def es(2) [symmetric]
    by (auto intro!: leave_slot_ok [OF assms(2) es(1)])
next
  case (leaves i)
  obtain xs ys where es: "w_executions w = xs @ Leaving # ys" "length xs = i"
    using split_at [OF leaves(2,3)] by blast
  show ?thesis unfolding leaves(1) es(2) [symmetric] by (rule leave_ok [OF assms(2) es(1)])
qed

section \<open>The phases of Run\<close>

lemma stopClaims_ok:
  assumes "worker_ok w" "w_run w = Selecting" "fs_first (w_failures w) = None \<Longrightarrow> w_parent w = Some c"
  shows "worker_ok (stopClaims e (w\<lparr>w_run := Stopping c\<rparr>))"
  using assms by (simp add: worker_ok_def slots_ok_def tracker_ok_def accounted_def stops_ok_def failures_ok_def
      coordinator_closed_def claims_done_def report_defs drained_def stopping_def split: option.split)

lemma covers_refl [simp]: "covers e e"
  by (simp add: covers_def)

lemma errors_join_covers:
  assumes "errors_join es = Some e" "Some f \<in> set es"
  shows "covers e f"
  using assms by (auto simp: covers_def errors_join_is)

lemma covers_trans: "covers e f \<Longrightarrow> covers f g \<Longrightarrow> covers e g"
  by (simp add: covers_def)

lemma joined_covers:
  assumes "joined fs = Some e" "f \<in> set (fs_failures fs)"
  shows "covers e f"
  using errors_join_covers [OF assms(1) [unfolded joined_def]] assms(2) by simp

lemma joined_Some: "f \<in> set (fs_failures fs) \<Longrightarrow> \<exists>e. joined fs = Some e"
  using errors_join_None [of "map Some (fs_failures fs)"] by (auto simp: joined_def)

text \<open>What \<open>Run\<close> returns: never nil; the timeout when something was still running, and every failure.\<close>

lemma run_result_explains:
  assumes "failures_ok w" "fs_first (w_failures w) = None \<Longrightarrow> w_parent w = Some c"
  shows "\<exists>e. run_result c finished (w_failures w) = Some e
    \<and> (\<not> finished \<longrightarrow> errors_is e ErrShutdownTimeout) \<and> explained w e"
proof -
  let ?fs = "w_failures w"
  define r where "r = (if fs_first ?fs = None then errors_join [Some c, joined ?fs] else joined ?fs)"
  have "\<exists>e. r = Some e"
    using assms(1) joined_Some [of _ ?fs] errors_join_Some [of c "[joined ?fs]"]
    by (auto simp: r_def failures_ok_def)
  then obtain e where r: "r = Some e" by blast
  have all: "covers e f" if "f \<in> set (fs_failures ?fs)" for f
  proof (cases "fs_first ?fs")
    case None
    from joined_Some [OF that] obtain j where j: "joined ?fs = Some j" ..
    have "covers e j" using r None j by (auto simp: r_def intro: errors_join_covers)
    then show ?thesis using joined_covers [OF j that] by (rule covers_trans)
  qed (use r joined_covers that in \<open>auto simp: r_def\<close>)
  have cause: "fs_first ?fs = None \<Longrightarrow> covers e c"
    using r by (auto simp: r_def intro: errors_join_covers)
  have ex: "explained w e" using all cause assms(2) by (auto simp: explained_def)
  show ?thesis
  proof (cases finished)
    case True
    then show ?thesis using r ex by (simp add: run_result_def Let_def r_def)
  next
    case False
    obtain e' where e': "errors_join [Some e, Some (Sentinel ErrShutdownTimeout)] = Some e'"
      using errors_join_Some by blast
    have "covers e' e" "covers e' (Sentinel ErrShutdownTimeout)"
      by (rule errors_join_covers [OF e'], simp)+
    then have "explained w e'" "errors_is e' ErrShutdownTimeout"
      using ex covers_trans by (auto simp: explained_def) (auto simp: covers_def)
    moreover have "run_result c finished ?fs = Some e'"
      using False r e' by (simp add: run_result_def Let_def r_def)
    ultimately show ?thesis by blast
  qed
qed

lemma wait_True: "waitForChannelsUntil now deadline channels = Some True \<Longrightarrow> list_all id channels"
  by (simp add: waitForChannelsUntil_def split: if_split_asm)

lemma run_step_ok:
  assumes "run_step config w v" "worker_ok w"
  shows "worker_ok v"
  using assms(1)
proof cases
  case select_parent
  then show ?thesis using stopClaims_ok [OF assms(2) select_parent(2)]
    by (auto simp: parent_stopped_def split: option.split)
next
  case select_fatal
  then show ?thesis using stopClaims_ok [OF assms(2) select_fatal(2)] assms(2)
    by (auto simp: fatal_signalled_def split: option.split)
next
  case select_ended
  let ?e = "Foreign ''delivery worker coordinator stopped unexpectedly''"
  have "claims_done w" using assms(2) select_ended(3) by (simp add: worker_ok_def stops_ok_def closed_iff)
  then have "worker_ok (w\<lparr>w_failures := fatal ?e (w_failures w)\<rparr>)"
    using assms(2) select_ended(2)
    by (auto simp: worker_ok_def slots_ok_def tracker_ok_def accounted_def stops_ok_def failures_ok_def
        coordinator_closed_def claims_done_def fatal_def)
  from stopClaims_ok [OF this, of ?e "Some ?e"] stopClaims_ok [OF assms(2)] select_ended
  show ?thesis by (auto simp: coordinator_ended_def Let_def fatal_def split: option.split)
next
  case (drain cause)
  then show ?thesis using assms(2)
    by (simp add: begin_drain_def worker_ok_def slots_ok_def tracker_ok_def accounted_def stops_ok_def
        failures_ok_def coordinator_closed_def claims_done_def tracker_stop_def drained_def stopping_def)
next
  case (cleanup cause drainDeadline shutdownDeadline drained)
  then show ?thesis using assms(2)
    by (simp add: begin_cleanup_def Let_def worker_ok_def slots_ok_def tracker_ok_def accounted_def stops_ok_def
        failures_ok_def coordinator_closed_def claims_done_def drained_def stopping_def)
next
  case (return cause deadline finished)
  note parts = assms(2) [unfolded worker_ok_def]
  obtain e where e: "run_result cause finished (w_failures w) = Some e"
    "\<not> finished \<longrightarrow> errors_is e ErrShutdownTimeout" "explained w e"
    using run_result_explains [of w cause finished] parts return(2) by auto
  have "finished \<Longrightarrow> quiet w"
    using wait_True [of _ _ "[at_done (w_active w), coordinator_closed w]"] return(3) parts
    by (auto simp: quiet_def tracker_ok_def)
  then have "phase_ok (Returned (Some e)) v" using e return(1)
    by (auto simp: finish_run_def quiet_def explained_def coordinator_closed_def)
  then show ?thesis using parts return e(1)
    by (simp add: finish_run_def worker_ok_def slots_ok_def tracker_ok_def accounted_def stops_ok_def
        failures_ok_def coordinator_closed_def claims_done_def drained_def stopping_def del: phase_ok.simps)
qed

lemma worker_step_ok:
  assumes "worker_step config w v" "worker_ok w"
  shows "worker_ok v"
  using assms(1)
proof cases
  case (time later)
  have "phase_ok (w_run w) v" using assms(2) time(1)
    by (cases "w_run w") (auto simp: worker_ok_def quiet_def explained_def coordinator_closed_def)
  then show ?thesis using assms(2) time(1)
    by (simp add: worker_ok_def slots_ok_def tracker_ok_def accounted_def stops_ok_def failures_ok_def
        coordinator_closed_def claims_done_def)
next
  case (cancelled err cause)
  have "phase_ok (w_run w) v" using assms(2) cancelled
    by (cases "w_run w")
      (auto simp: worker_ok_def quiet_def explained_def coordinator_closed_def cancel_parent_def report_defs)
  then show ?thesis using assms(2) cancelled
    by (simp add: worker_ok_def slots_ok_def tracker_ok_def accounted_def stops_ok_def failures_ok_def
        coordinator_closed_def claims_done_def cancel_parent_def report_defs)
qed (use assms(2) in \<open>auto intro: coordinator_step_ok execution_step_ok run_step_ok\<close>)

lemma worker_init_ok: "worker_init config w \<Longrightarrow> worker_ok w"
  by (auto simp: worker_init_def Run_def start_worker_def newActiveTracker_def newFailureState_def
      worker_ok_def slots_ok_def tracker_ok_def accounted_def stops_ok_def failures_ok_def
      coordinator_closed_def drained_def stopping_def split: option.splits)

interpretation delivery_worker: invariant_system "worker_init config" "worker_step config" worker_ok
  for config by unfold_locales (fact worker_init_ok, rule worker_step_ok)

end
