(* ===== verification/Worker_Properties.thy ===== *)
theory Worker_Properties
  imports Worker_Invariant
begin

text \<open>
  The properties of the delivery worker: the bound on concurrent executions and the account of every
  claimed task, what a returned \<open>Run\<close> leaves behind, that its shutdown is bounded whatever the ports
  do, and the 64-bit arithmetic of its lease bound.
\<close>

section \<open>Along a run\<close>

lemma log_simps [simp]:
  "w_log (at_point pc w) = w_log w" "w_log (free_slot w) = w_log w" "w_log (logged e w) = w_log w @ [e]"
  "w_log (put_execution i x w) = w_log w" "w_log (begin_release config t cause after w) = w_log w"
  by (simp_all add: at_point_def free_slot_def logged_def put_execution_def begin_release_def)

lemma stopped_simps [simp]:
  "w_active (at_point pc w) = w_active w" "w_active (free_slot w) = w_active w"
  "w_active (logged e w) = w_active w" "w_active (put_execution i x w) = w_active w"
  "w_active (begin_release config t cause after w) = w_active w"
  by (simp_all add: at_point_def free_slot_def logged_def put_execution_def begin_release_def)

lemma releaseLate_fields [simp]:
  "w_log (releaseLate f w) = w_log w" "w_active (releaseLate f w) = w_active w"
  by (simp_all add: releaseLate_def Let_def split: option.split)

lemmas starts_defs = after_claim_def after_resolve_def after_renew_def after_release_def settle_release_def
  after_claim_failure_def Let_def

text \<open>Once \<open>stop\<close> was called on the tracker no execution begins.\<close>

lemma coordinator_starts_nothing:
  assumes "coordinator_step config w v" "at_stopped (w_active w)"
  shows "at_stopped (w_active v) \<and> history is_started (w_log v) = history is_started (w_log w)"
  using assms
proof cases
  case (renew_returns t command answer)
  then show ?thesis using assms(2)
    by (simp add: after_renew_def tracker_add_def split: option.split)
next
  case (release_returns t cause deadline after answer)
  then show ?thesis using assms(2) by (cases after) (simp_all add: starts_defs)
next
  case (claim_returns reply admission)
  show ?thesis unfolding claim_returns(1) starts_defs using assms(2)
    by (auto split: reply.split prod.split option.split sum.split)
next
  case (resolve_returns t a resolved)
  show ?thesis unfolding resolve_returns(1) starts_defs using assms(2)
    by (auto split: reply.split prod.split option.split)
qed (simp_all add: at_point_def)

lemma execution_starts_nothing:
  assumes "execution_step config w v"
  shows "at_stopped (w_active v) = at_stopped (w_active w)
    \<and> history is_started (w_log v) = history is_started (w_log w)"
  using assms
  by cases (auto simp: start_execution_def after_execute_def after_panic_release_def after_failed_release_def
      leave_slot_def leave_def doneOne_def Let_def split: reply.split option.split)

lemma run_keeps_log:
  assumes "run_step config w v"
  shows "w_log v = w_log w \<and> (at_stopped (w_active w) \<longrightarrow> at_stopped (w_active v))"
  using assms
  by cases (auto simp: parent_stopped_def fatal_signalled_def coordinator_ended_def begin_drain_def
      begin_cleanup_def finish_run_def tracker_stop_def report_defs Let_def split: option.split)

lemma stopped_step:
  assumes "worker_step config w v" "at_stopped (w_active w)"
  shows "at_stopped (w_active v) \<and> history is_started (w_log v) = history is_started (w_log w)"
  using assms(1)
proof cases
  case coordinator
  then show ?thesis using coordinator_starts_nothing assms(2) by blast
next
  case execution
  then show ?thesis using execution_starts_nothing assms(2) by blast
next
  case running
  then show ?thesis using run_keeps_log assms(2) by fastforce
qed (use assms(2) in \<open>auto simp: cancel_parent_def report_defs\<close>)

text \<open>A worker whose goroutines have ended does nothing any more.\<close>

lemma quiet_step:
  assumes "worker_step config w v" "quiet w"
  shows "quiet v \<and> w_log v = w_log w"
  using assms(1)
proof cases
  case coordinator
  then show ?thesis using assms(2) by cases (auto simp: quiet_def coordinator_closed_def)
next
  case execution
  then show ?thesis using assms(2) by cases (auto simp: quiet_def)
next
  case running
  then show ?thesis using assms(2)
    by cases (auto simp: quiet_def coordinator_closed_def parent_stopped_def fatal_signalled_def
        coordinator_ended_def begin_drain_def begin_cleanup_def finish_run_def report_defs Let_def
        split: option.split)
qed (use assms(2) in \<open>auto simp: quiet_def coordinator_closed_def cancel_parent_def report_defs\<close>)

definition same_starts :: "'t multiset \<Rightarrow> ('t, 'a, 'c) worker \<Rightarrow> bool" where
  "same_starts ts w \<longleftrightarrow> at_stopped (w_active w) \<and> history is_started (w_log w) = ts"

definition finished_with :: "'t event list \<Rightarrow> ('t, 'a, 'c) worker \<Rightarrow> bool" where
  "finished_with log w \<longleftrightarrow> quiet w \<and> w_log w = log"

interpretation stopped_worker: absorbing_system "worker_init config" "worker_step config" worker_ok same_starts
  for config by unfold_locales (auto simp: same_starts_def dest: stopped_step)

interpretation finished_worker: absorbing_system "worker_init config" "worker_step config" worker_ok finished_with
  for config by unfold_locales (auto simp: finished_with_def dest: quiet_step)

lemma reachable_worker_ok:
  "reachable (worker_init config) (worker_step config) w \<Longrightarrow> worker_ok w"
  by (rule delivery_worker.inv_reachable)

section \<open>The 64-bit durations\<close>

lemma sint_le_max: "sint (x :: int64) \<le> 9223372036854775807" "- 9223372036854775808 \<le> sint (x :: int64)"
  using sint_range_size [of x] by (simp_all add: word_size)

lemma sint_plus:
  fixes a b :: int64
  assumes "- 9223372036854775808 \<le> sint a + sint b" "sint a + sint b \<le> 9223372036854775807"
  shows "sint (a + b) = sint a + sint b"
  using assms signed_take_bit_int_eq_self [of 63 "sint a + sint b"] by (simp add: sint_word_ariths)

lemma sint_minus:
  fixes a b :: int64
  assumes "- 9223372036854775808 \<le> sint a - sint b" "sint a - sint b \<le> 9223372036854775807"
  shows "sint (a - b) = sint a - sint b"
  using assms signed_take_bit_int_eq_self [of 63 "sint a - sint b"] by (simp add: sint_word_ariths)

lemma constants: "sint maxDuration = 9223372036854775807" "sint OutcomeFinalizationTimeout = 2000000000"
  by (simp_all add: maxDuration_def OutcomeFinalizationTimeout_def)

lemma max_minus: "0 < sint a \<Longrightarrow> sint (maxDuration - a) = 9223372036854775807 - sint a"
  using sint_minus [of maxDuration a] sint_le_max [of a] by (simp add: constants)

text \<open>The safety bound, or an error exactly when it has no 64-bit value.\<close>

lemma LeaseSafetyDuration_exact:
  fixes config
  defines "e \<equiv> sint (ExecutionTimeout config)" and "m \<equiv> sint (LeaseSafetyMargin config)"
  shows "(case LeaseSafetyDuration config of
     Inr d \<Rightarrow> 0 < e \<and> 0 < m \<and> sint d = e + 2000000000 + m
   | Inl f \<Rightarrow> errors_is f ErrInvalidConfig \<and> \<not> (0 < e \<and> 0 < m \<and> e + 2000000000 + m \<le> 9223372036854775807))"
proof (cases "0 < e \<and> 0 < m")
  case True
  have max: "sint (maxDuration - OutcomeFinalizationTimeout) = 9223372036854775807 - 2000000000"
    "sint (maxDuration - LeaseSafetyMargin config) = 9223372036854775807 - m"
    using max_minus [of OutcomeFinalizationTimeout] max_minus [of "LeaseSafetyMargin config"] True
    by (simp_all add: constants m_def)
  have add: "e \<le> 9223372036854775807 - 2000000000 \<Longrightarrow>
      sint (ExecutionTimeout config + OutcomeFinalizationTimeout) = e + 2000000000"
    using sint_plus [of "ExecutionTimeout config" OutcomeFinalizationTimeout] True by (simp add: constants e_def)
  have add': "e + 2000000000 \<le> 9223372036854775807 - m \<Longrightarrow>
      sint (ExecutionTimeout config + OutcomeFinalizationTimeout + LeaseSafetyMargin config) = e + 2000000000 + m"
    using sint_plus [of "ExecutionTimeout config + OutcomeFinalizationTimeout" "LeaseSafetyMargin config"] add True
    by (simp add: m_def)
  show ?thesis using True max add add'
    by (simp add: LeaseSafetyDuration_def Let_def invalid_config_def e_def m_def)
next
  case False
  then show ?thesis by (auto simp: LeaseSafetyDuration_def Let_def invalid_config_def e_def m_def)
qed

lemma Validate_cases:
  "(Validate config = None \<longleftrightarrow>
      0 < sint (EmptyPoll config) \<and> 0 < sint (ExecutionTimeout config) \<and> 0 < sint (DrainTimeout config)
    \<and> 0 < sint (CleanupTimeout config) \<and> 0 < sint (LeaseDuration config) \<and> 0 < sint (LeaseSafetyMargin config)
    \<and> sint (ExecutionTimeout config) + sint OutcomeFinalizationTimeout + sint (LeaseSafetyMargin config)
        < sint (LeaseDuration config)
    \<and> sint (DrainTimeout config) + sint (CleanupTimeout config) \<le> sint maxDuration)
   \<and> (case Validate config of
        None \<Rightarrow> sint (DrainTimeout config + CleanupTimeout config)
          = sint (DrainTimeout config) + sint (CleanupTimeout config)
      | Some f \<Rightarrow> errors_is f ErrInvalidConfig)"
proof -
  have exact: "0 < sint (CleanupTimeout config) \<Longrightarrow>
      sint (maxDuration - CleanupTimeout config) = 9223372036854775807 - sint (CleanupTimeout config)"
    by (rule max_minus)
  have sum: "0 < sint (DrainTimeout config) \<Longrightarrow> 0 < sint (CleanupTimeout config) \<Longrightarrow>
      sint (DrainTimeout config) + sint (CleanupTimeout config) \<le> 9223372036854775807 \<Longrightarrow>
      sint (DrainTimeout config + CleanupTimeout config)
        = sint (DrainTimeout config) + sint (CleanupTimeout config)"
    using sint_plus [of "DrainTimeout config" "CleanupTimeout config"] by simp
  have safety: "0 < sint (ExecutionTimeout config) \<Longrightarrow> 0 < sint (LeaseSafetyMargin config) \<Longrightarrow>
      LeaseSafetyDuration config = Inl f \<Longrightarrow>
      \<not> sint (ExecutionTimeout config) + 2000000000 + sint (LeaseSafetyMargin config) < sint (LeaseDuration config)" for f
    using LeaseSafetyDuration_exact [of config] sint_le_max(1) [of "LeaseDuration config"] by auto
  show ?thesis using LeaseSafetyDuration_exact [of config] exact sum safety
    unfolding Validate_def config_durations_def
    by (auto simp: constants invalid_config_def split: sum.splits)
qed

lemma Validate_sum:
  assumes "Validate config = None"
  shows "sint (DrainTimeout config + CleanupTimeout config)
    = sint (DrainTimeout config) + sint (CleanupTimeout config)"
    "0 < sint (DrainTimeout config)" "0 < sint (CleanupTimeout config)"
  using Validate_cases [of config] assms by simp_all

section \<open>The shutdown budget\<close>

text \<open>\<open>Run\<close> has stopped, and its remaining deadlines lie before \<open>limit\<close>.\<close>

definition due_by :: "time \<Rightarrow> ('t, 'a, 'c) worker \<Rightarrow> bool" where
  "due_by limit w \<longleftrightarrow> (case w_run w of
     Draining _ drainDeadline shutdownDeadline \<Rightarrow> drainDeadline \<le> limit \<and> shutdownDeadline \<le> limit
   | Cleaning _ deadline \<Rightarrow> deadline \<le> limit | Returned _ \<Rightarrow> True | _ \<Rightarrow> False)"

lemma run_simps [simp]:
  "w_run (at_point pc w) = w_run w" "w_run (free_slot w) = w_run w" "w_run (logged e w) = w_run w"
  "w_run (put_execution i x w) = w_run w" "w_run (begin_release config t cause after w) = w_run w"
  "w_run (releaseLate f w) = w_run w" "w_run (leave i w) = w_run w"
  by (simp_all add: at_point_def free_slot_def logged_def put_execution_def begin_release_def
      releaseLate_def leave_def Let_def split: option.split)

lemma coordinator_keeps_run: "coordinator_step config w v \<Longrightarrow> w_run v = w_run w"
proof (induction rule: coordinator_step.cases)
  case (claim_returns w reply admission)
  then show ?case unfolding starts_defs by (auto split: reply.split prod.split option.split sum.split)
next
  case (resolve_returns w t a resolved)
  then show ?case unfolding starts_defs by (auto split: reply.split prod.split option.split)
next
  case (renew_returns w t command answer)
  then show ?case unfolding after_renew_def by (auto split: option.split prod.split bool.split)
next
  case (release_returns w t cause deadline after answer)
  then show ?case by (cases after) (simp_all add: starts_defs)
qed simp_all

lemma execution_keeps_run: "execution_step config w v \<Longrightarrow> w_run v = w_run w"
  by (induction rule: execution_step.cases)
    (auto simp: start_execution_def after_execute_def after_panic_release_def after_failed_release_def
      leave_slot_def Let_def split: reply.split option.split)

lemma due_by_step:
  assumes "worker_step config w v" "due_by limit w"
  shows "due_by limit v"
  using assms(1)
proof cases
  case coordinator
  then show ?thesis using coordinator_keeps_run [OF coordinator] assms(2) by (simp add: due_by_def)
next
  case execution
  then show ?thesis using execution_keeps_run [OF execution] assms(2) by (simp add: due_by_def)
next
  case running
  then show ?thesis using assms(2)
    by cases (auto simp: due_by_def begin_cleanup_def finish_run_def Let_def)
qed (use assms(2) in \<open>simp_all add: due_by_def cancel_parent_def report_defs\<close>)

interpretation due_worker: absorbing_system "worker_init config" "worker_step config" "\<lambda>_. True" due_by
  for config by unfold_locales (simp_all add: due_by_step)

lemma overdue: "\<not> now < deadline \<Longrightarrow> waitForChannelsUntil now deadline channels = Some False"
  by (simp add: waitForChannelsUntil_def)

lemma cleaning_returns:
  assumes "w_run w = Cleaning cause deadline" "deadline \<le> w_now w"
  shows "run_step config w (finish_run cause False w)"
  by (rule run_step.return [OF assms(1)]) (rule overdue, use assms(2) in simp)

section \<open>The properties\<close>

lemma size_executing: "size (executing es) = working es"
proof (induction es)
  case (Cons e es)
  then show ?case by (cases e) simp_all
qed simp

text \<open>C30: in every interleaving at most four executions hold a slot, and every task the worker was
  handed is in exactly one place: with the coordinator, given back or dropped without an execution, in
  one execution, or ended, by success or by a release after the execution. No task is executed
  without having been claimed, and none twice for one claim.\<close>
theorem claimed_tasks_accounted:
  assumes "reachable (worker_init config) (worker_step config) w"
  shows "size (executing (w_executions w)) \<le> 4 \<and>
    history is_claimed (w_log w) = coordinator_hand (w_coordinator w) + history is_unused (w_log w)
      + executing (w_executions w) + history is_ended (w_log w) \<and>
    history is_started (w_log w) = executing (w_executions w) + history is_ended (w_log w)"
proof -
  note ok = reachable_worker_ok [OF assms]
  have "working (w_executions w) \<le> w_slots w"
    using ok by (auto simp: worker_ok_def slots_ok_def split: if_splits)
  then have "size (executing (w_executions w)) \<le> 4"
    using stays_bounded [OF ok] by (simp add: size_executing executionCapacity_def)
  then show ?thesis using ok by (simp add: worker_ok_def accounted_def ac_simps)
qed

text \<open>C31: what a returned \<open>Run\<close> means. It never returns nil. Unless it reports the shutdown timeout,
  every goroutine of the worker has ended, every claimed task was executed with success, released or
  dropped, nothing happens to any task from then on, and the error carries every recorded failure, or
  the error of the cancelled parent when nothing failed. From the moment the tracker is stopped no
  execution begins, timeout or not.\<close>
theorem shutdown_settles:
  assumes "reachable (worker_init config) (worker_step config) w" and "rtranclp (worker_step config) w v"
  shows "case w_run w of
      Returned r \<Rightarrow> (\<exists>e. r = Some e \<and> (errors_is e ErrShutdownTimeout \<or>
        w_executions w = [] \<and> w_coordinator w = CoordinatorDone \<and> w_log v = w_log w
        \<and> history is_claimed (w_log w) = history is_unused (w_log w) + history is_ended (w_log w)
        \<and> (\<forall>f \<in> set (fs_failures (w_failures w)). \<forall>s. errors_is f s \<longrightarrow> errors_is e s)
        \<and> (fs_first (w_failures w) = None \<longrightarrow>
             (\<exists>p. w_parent w = Some p \<and> (\<forall>s. errors_is p s \<longrightarrow> errors_is e s)))))
        \<and> history is_started (w_log v) = history is_started (w_log w)
    | Draining cause drainDeadline shutdownDeadline \<Rightarrow> history is_started (w_log v) = history is_started (w_log w)
    | Cleaning cause deadline \<Rightarrow> history is_started (w_log v) = history is_started (w_log w)
    | _ \<Rightarrow> True"
proof -
  note ok = reachable_worker_ok [OF assms(1)]
  have starts: "history is_started (w_log v) = history is_started (w_log w)" if "drained (w_run w)"
    using stopped_worker.holds_run [OF assms(2) ok, of "history is_started (w_log w)"] that ok
    by (simp add: same_starts_def worker_ok_def stops_ok_def)
  have log: "w_log v = w_log w" if "quiet w"
    using finished_worker.holds_run [OF assms(2) ok, of "w_log w"] that by (simp add: finished_with_def)
  show ?thesis
  proof (cases "w_run w")
    case (Returned r)
    then obtain e where e: "r = Some e" "errors_is e ErrShutdownTimeout \<or> quiet w \<and> explained w e"
      using ok by (auto simp: worker_ok_def)
    have "quiet w \<Longrightarrow> history is_claimed (w_log w) = history is_unused (w_log w) + history is_ended (w_log w)"
      using ok by (simp add: worker_ok_def accounted_def quiet_def closed_iff)
    then show ?thesis using Returned e log starts
      by (auto simp: drained_def quiet_def closed_iff explained_def covers_def)
  qed (use starts in \<open>auto simp: drained_def\<close>)
qed

text \<open>C32: the shutdown is bounded. From the moment \<open>Run\<close> begins to drain under a valid configuration,
  whatever the coordinator, the executions and the ports do or fail to do: once the drain and the
  cleanup budget have passed, \<open>Run\<close> returns by its own steps alone.\<close>
theorem shutdown_bounded:
  assumes "Validate config = None" and "w_run w = Stopping cause"
    and "rtranclp (worker_step config) (begin_drain config cause w) v"
    and "w_now w + sint (DrainTimeout config) + sint (CleanupTimeout config) \<le> w_now v"
  shows "\<exists>u r. rtranclp (run_step config) v u \<and> w_run u = Returned r"
proof -
  let ?limit = "w_now w + sint (DrainTimeout config) + sint (CleanupTimeout config)"
  have "due_by ?limit (begin_drain config cause w)"
    using assms(1) Validate_sum [OF assms(1)] by (simp add: due_by_def begin_drain_def)
  then have due: "due_by (w_now v) v"
    using due_worker.holds_run [OF assms(3) TrueI, of ?limit] assms(4)
    by (auto simp: due_by_def split: run_phase.splits)
  have cleaning: "\<exists>u r. rtranclp (run_step config) x u \<and> w_run u = Returned r"
    if "w_run x = Cleaning c d" "d \<le> w_now x" for x c d
    by (rule exI, rule exI, rule conjI, rule r_into_rtranclp, rule cleaning_returns [OF that])
      (simp add: finish_run_def)
  show ?thesis
  proof (cases "w_run v")
    case (Draining c drainDeadline shutdownDeadline)
    let ?x = "begin_cleanup config c shutdownDeadline v"
    have step: "run_step config v ?x"
      by (rule run_step.cleanup [OF Draining]) (rule overdue, use due Draining in \<open>simp add: due_by_def\<close>)
    have "\<exists>u r. rtranclp (run_step config) ?x u \<and> w_run u = Returned r"
      by (rule cleaning [of ?x c]) (use due Draining in \<open>auto simp: begin_cleanup_def due_by_def Let_def\<close>)
    then show ?thesis using step by (meson converse_rtranclp_into_rtranclp)
  next
    case (Cleaning c d)
    then show ?thesis using due cleaning by (simp add: due_by_def)
  qed (use due in \<open>auto simp: due_by_def\<close>)
qed

text \<open>The configuration check is exact over the 64-bit durations: a configuration is accepted if and
  only if all six durations are positive, the lease exceeds the execution timeout plus the
  finalisation timeout plus the margin as integers, and the two shutdown budgets have a 64-bit sum;
  none of the sums it computes wraps around, and a refusal is an invalid-configuration error.\<close>
theorem Validate_exact:
  "(Validate config = None \<longleftrightarrow>
      0 < sint (EmptyPoll config) \<and> 0 < sint (ExecutionTimeout config) \<and> 0 < sint (DrainTimeout config)
    \<and> 0 < sint (CleanupTimeout config) \<and> 0 < sint (LeaseDuration config) \<and> 0 < sint (LeaseSafetyMargin config)
    \<and> sint (ExecutionTimeout config) + sint OutcomeFinalizationTimeout + sint (LeaseSafetyMargin config)
        < sint (LeaseDuration config)
    \<and> sint (DrainTimeout config) + sint (CleanupTimeout config) \<le> sint maxDuration)
   \<and> (case Validate config of
        None \<Rightarrow> sint (DrainTimeout config + CleanupTimeout config)
          = sint (DrainTimeout config) + sint (CleanupTimeout config)
      | Some f \<Rightarrow> errors_is f ErrInvalidConfig)"
  by (rule Validate_cases)

section \<open>A concrete run\<close>

text \<open>One task is claimed and executed; the parent is cancelled meanwhile, the execution fails, the task is
  released, and \<open>Run\<close> returns.\<close>

type_synonym demo_worker = "(nat, unit, unit) worker"

definition demo_claiming :: demo_worker where
  "demo_claiming = at_point Claiming ((start_worker 0)\<lparr>w_slots := 1\<rparr>)"

definition demo_resolving :: demo_worker where
  "demo_resolving = after_claim Defaults (Replied (Some 7, None)) (Replied (Some ())) demo_claiming"

definition demo_renewing :: demo_worker where
  "demo_renewing = after_resolve Defaults 7 (Replied (Some (), None)) demo_resolving"

definition demo_started :: demo_worker where
  "demo_started = after_renew Defaults 7 () (Replied None) demo_renewing"

definition demo_busy :: demo_worker where
  "demo_busy = start_execution Defaults 0 7 () demo_started"

definition demo_cancelled :: demo_worker where
  "demo_cancelled = at_point CoordinatorDone (cancel_parent (Sentinel ErrCanceled) (Sentinel ErrCanceled) demo_busy)"

definition demo_stopping :: demo_worker where
  "demo_stopping = parent_stopped demo_cancelled"

definition demo_draining :: demo_worker where
  "demo_draining = begin_drain Defaults (Sentinel ErrCanceled) demo_stopping"

definition demo_failed :: demo_worker where
  "demo_failed = after_execute Defaults 0 7 (Replied (Some (Foreign ''refused''))) demo_draining"

definition demo_released :: demo_worker where
  "demo_released = after_failed_release 0 7 (Foreign ''refused'') (Replied None) demo_failed"

definition demo_left :: demo_worker where
  "demo_left = leave 0 demo_released"

definition demo_cleaning :: demo_worker where
  "demo_cleaning = begin_cleanup Defaults (Sentinel ErrCanceled) 10000000000 demo_left"

definition demo_returned :: demo_worker where
  "demo_returned = finish_run (Sentinel ErrCanceled) True demo_cleaning"

lemmas demo_worker_defs = demo_claiming_def demo_resolving_def demo_renewing_def demo_started_def demo_busy_def
  demo_cancelled_def demo_stopping_def demo_draining_def demo_failed_def demo_released_def demo_left_def
  demo_cleaning_def demo_returned_def

lemma demo_worker_evaluates:
  "w_coordinator demo_claiming = Claiming" "w_coordinator demo_resolving = Resolving 7 ()"
  "w_coordinator demo_renewing = Renewing 7 ()" "w_executions demo_started = [Starting 7 ()]"
  "w_coordinator demo_busy = TakingSlot" "w_executions demo_busy = [Executing 7 () 30000000000]"
  "w_run demo_cancelled = Selecting" "w_parent demo_cancelled = Some (Sentinel ErrCanceled)"
  "w_run demo_stopping = Stopping (Sentinel ErrCanceled)"
  "w_executions demo_draining = [Executing 7 () 30000000000]"
  "w_executions demo_failed = [ReleasingFailed 7 (Foreign ''refused'') 2000000000]"
  "w_executions demo_released = [Leaving]" "w_now demo_left = 0" "at_done (w_active demo_left)"
  "w_run demo_left = Draining (Sentinel ErrCanceled) 8000000000 10000000000"
  "w_run demo_cleaning = Cleaning (Sentinel ErrCanceled) 2000000000" "w_now demo_cleaning = 0"
  "at_done (w_active demo_cleaning)" "w_coordinator demo_cleaning = CoordinatorDone"
  "w_run demo_returned = Returned (Some (Join [Sentinel ErrCanceled]))"
  by code_simp+

lemma demo_worker_steps:
  "worker_step Defaults (start_worker 0) demo_claiming" "worker_step Defaults demo_claiming demo_resolving"
  "worker_step Defaults demo_resolving demo_renewing" "worker_step Defaults demo_renewing demo_started"
  "worker_step Defaults demo_started demo_busy"
  "rtranclp (worker_step Defaults) demo_busy demo_cancelled"
  "worker_step Defaults demo_cancelled demo_stopping" "worker_step Defaults demo_stopping demo_draining"
  "worker_step Defaults demo_draining demo_failed" "worker_step Defaults demo_failed demo_released"
  "worker_step Defaults demo_released demo_left" "worker_step Defaults demo_left demo_cleaning"
  "worker_step Defaults demo_cleaning demo_returned"
proof -
  note co = worker_step.coordinator and ex = worker_step.execution and ru = worker_step.running
  note at = demo_worker_evaluates
  let ?c = "cancel_parent (Sentinel ErrCanceled) (Sentinel ErrCanceled) demo_busy"
  show "worker_step Defaults (start_worker 0) demo_claiming"
    using co [OF coordinator_step.take_slot [of "start_worker 0 :: demo_worker"]]
    by (simp add: demo_claiming_def start_worker_def executionCapacity_def)
  show "worker_step Defaults demo_claiming demo_resolving"
    unfolding demo_resolving_def by (rule co [OF coordinator_step.claim_returns [OF at(1)]])
  show "worker_step Defaults demo_resolving demo_renewing"
    unfolding demo_renewing_def by (rule co [OF coordinator_step.resolve_returns [OF at(2)]])
  show "worker_step Defaults demo_renewing demo_started"
    unfolding demo_started_def by (rule co [OF coordinator_step.renew_returns [OF at(3)]])
  show "worker_step Defaults demo_started demo_busy"
    unfolding demo_busy_def by (rule ex [OF execution_step.starts]) (simp_all add: at)
  have "worker_step Defaults demo_busy ?c" by (rule worker_step.cancelled)
  moreover have "worker_step Defaults ?c demo_cancelled" unfolding demo_cancelled_def
    by (rule co [OF coordinator_step.give_up])
      (simp_all add: at(5) cancel_parent_def cancel_claims_def claims_done_def)
  ultimately show "rtranclp (worker_step Defaults) demo_busy demo_cancelled" by simp
  show "worker_step Defaults demo_cancelled demo_stopping"
    unfolding demo_stopping_def by (rule ru [OF run_step.select_parent]) (simp_all add: at)
  show "worker_step Defaults demo_stopping demo_draining"
    unfolding demo_draining_def by (rule ru [OF run_step.drain [OF at(9)]])
  show "worker_step Defaults demo_draining demo_failed"
    unfolding demo_failed_def by (rule ex [OF execution_step.execute_returns]) (simp_all add: at)
  show "worker_step Defaults demo_failed demo_released"
    unfolding demo_released_def by (rule ex [OF execution_step.failure_released]) (simp_all add: at)
  show "worker_step Defaults demo_released demo_left"
    unfolding demo_left_def by (rule ex [OF execution_step.leaves]) (simp_all add: at)
  show "worker_step Defaults demo_left demo_cleaning"
    unfolding demo_cleaning_def
    by (rule ru [OF run_step.cleanup [OF at(15), where drained = True]]) (simp add: waitForChannelsUntil_def at)
  show "worker_step Defaults demo_cleaning demo_returned"
    unfolding demo_returned_def
    by (rule ru [OF run_step.return [OF at(16)]]) (simp add: waitForChannelsUntil_def at coordinator_closed_def)
qed

lemma demo_worker_init: "worker_init Defaults (start_worker 0)"
proof -
  have "Validate Defaults = None" by code_simp
  then show ?thesis by (auto simp: worker_init_def Run_def)
qed

lemma demo_busy_reachable: "reachable (worker_init Defaults) (worker_step Defaults) demo_busy"
proof (rule reachable_run)
  show "reachable (worker_init Defaults) (worker_step Defaults) (start_worker 0 :: demo_worker)"
    by (rule reachable.initial) (rule demo_worker_init)
  show "rtranclp (worker_step Defaults) (start_worker 0) demo_busy"
    using demo_worker_steps(1-5) by (meson converse_rtranclp_into_rtranclp rtranclp.rtrancl_refl)
qed

lemma demo_returned_reachable: "reachable (worker_init Defaults) (worker_step Defaults) demo_returned"
  by (rule reachable_run [OF demo_busy_reachable])
    (use demo_worker_steps(6-13) in \<open>meson rtranclp.rtrancl_into_rtrancl\<close>)

theorem claimed_tasks_accounted_witness:
  "executing (w_executions demo_busy) = {#7#} \<and> history is_claimed (w_log demo_busy) = {#7#}"
proof -
  have es: "executing (w_executions demo_busy) = {#7#}" "w_coordinator demo_busy = TakingSlot"
    "w_log demo_busy = [Claimed 7, Started 7]"
    by (simp add: demo_worker_evaluates, code_simp, code_simp)
  then show ?thesis using claimed_tasks_accounted [OF demo_busy_reachable] by simp
qed

theorem shutdown_settles_witness:
  "\<exists>e. w_run demo_returned = Returned (Some e) \<and> errors_is e ErrCanceled
     \<and> history is_claimed (w_log demo_returned) = history is_ended (w_log demo_returned)"
proof -
  have r: "w_run demo_returned = Returned (Some (Join [Sentinel ErrCanceled]))" by (rule demo_worker_evaluates)
  have log: "w_log demo_returned = [Claimed 7, Started 7, ReleasedAfter 7]" by code_simp
  show ?thesis using shutdown_settles [OF demo_returned_reachable rtranclp.rtrancl_refl] by (simp add: r log)
qed

theorem shutdown_bounded_witness:
  "\<exists>u r. rtranclp (run_step Defaults) (demo_draining\<lparr>w_now := 10000000000\<rparr>) u \<and> w_run u = Returned r"
proof (rule shutdown_bounded [of Defaults demo_stopping "Sentinel ErrCanceled"])
  show "Validate Defaults = None" by code_simp
  show "w_run demo_stopping = Stopping (Sentinel ErrCanceled)" by (rule demo_worker_evaluates)
  have now: "w_now demo_draining = 0" "w_now demo_stopping = 0" by code_simp+
  then have "worker_step Defaults demo_draining (demo_draining\<lparr>w_now := 10000000000\<rparr>)"
    by (intro worker_step.time) simp
  then show "rtranclp (worker_step Defaults) (begin_drain Defaults (Sentinel ErrCanceled) demo_stopping)
      (demo_draining\<lparr>w_now := 10000000000\<rparr>)"
    by (simp add: demo_draining_def)
  show "w_now demo_stopping + sint (DrainTimeout Defaults) + sint (CleanupTimeout Defaults)
      \<le> w_now (demo_draining\<lparr>w_now := 10000000000\<rparr>)"
    by (simp add: now Defaults_def)
qed

end
