(* ===== verification/Worker_Leases.thy ===== *)
theory Worker_Leases
  imports Worker_Properties Run_Invariant
begin

text \<open>
  The delivery worker over the PostgreSQL queue: its ports are \<open>Claim\<close>, \<open>Renew\<close>, \<open>Release\<close> and the
  dispatch of \<open>pg/deliveries\<close>, each transaction one step, and between any two of them the other
  processes of the system run transactions of their own. \<open>leased\<close> is what a lease token still holds;
  the only transaction that adds to it is the claim that draws the token.
\<close>

section \<open>What a token holds\<close>

definition leased :: "db \<Rightarrow> uuid \<Rightarrow> coordinates set" where
  "leased s token = {d_key d | d. d \<in> set (deliveries s) \<and> holds_lease token d}"

definition no_new_lease :: "db \<Rightarrow> db \<Rightarrow> bool" where
  "no_new_lease s s' \<longleftrightarrow> (\<forall>token. leased s' token \<subseteq> leased s token)"

lemma no_new_leaseD: "no_new_lease s s' \<Longrightarrow> leased s' token \<subseteq> leased s token"
  by (simp add: no_new_lease_def)

lemma no_new_lease_same [simp]: "deliveries s' = deliveries s \<Longrightarrow> no_new_lease s s'"
  by (simp add: no_new_lease_def leased_def)

lemma leased_iff: "k \<in> leased s token \<longleftrightarrow> (\<exists>d \<in> set (deliveries s). d_key d = k \<and> holds_lease token d)"
  by (auto simp: leased_def)

text \<open>A row of the table after an update: an old row outside the predicate, or an updated one.\<close>

lemma leased_update_iff:
  "k \<in> leased (s\<lparr>deliveries := update_where p f (deliveries s)\<rparr>) token \<longleftrightarrow>
     (\<exists>d \<in> set (deliveries s). \<not> p d \<and> d_key d = k \<and> holds_lease token d
        \<or> p d \<and> d_key (f d) = k \<and> holds_lease token (f d))"
  unfolding leased_iff by (auto simp: update_where_def split: if_split_asm)

lemma no_new_lease_update:
  assumes "\<And>d token. d \<in> set (deliveries s) \<Longrightarrow> p d \<Longrightarrow> holds_lease token (f d) \<Longrightarrow>
      d_key (f d) = d_key d \<and> holds_lease token d"
  shows "no_new_lease s (s\<lparr>deliveries := update_where p f (deliveries s)\<rparr>)"
  unfolding no_new_lease_def
proof (intro allI subsetI)
  fix token k assume "k \<in> leased (s\<lparr>deliveries := update_where p f (deliveries s)\<rparr>) token"
  then obtain d where "d \<in> set (deliveries s)"
    "\<not> p d \<and> d_key d = k \<and> holds_lease token d \<or> p d \<and> d_key (f d) = k \<and> holds_lease token (f d)"
    unfolding leased_update_iff by blast
  then show "k \<in> leased s token" unfolding leased_iff using assms [of d token] by auto
qed

lemma leased_cleared:
  assumes "\<And>d. \<not> holds_lease token (f d)" "\<And>d. d_key d = k \<Longrightarrow> holds_lease token d \<Longrightarrow> p d"
  shows "leased (s\<lparr>deliveries := update_where p f (deliveries s)\<rparr>) token \<subseteq> leased s token - {k}"
proof
  fix x assume "x \<in> leased (s\<lparr>deliveries := update_where p f (deliveries s)\<rparr>) token"
  then obtain d where d: "d \<in> set (deliveries s)" "\<not> p d" "d_key d = x" "holds_lease token d"
    unfolding leased_update_iff using assms(1) by blast
  then have "x \<noteq> k" using assms(2) by blast
  then show "x \<in> leased s token - {k}" using d unfolding Diff_iff leased_iff by blast
qed

lemma holds_lease_simps [simp]:
  "\<not> holds_lease token (clear_lease d)" "\<not> holds_lease token (release_delivery now cause d)"
  "\<not> holds_lease token (admit_row now d)" "\<not> holds_lease token (sent_row now d)"
  "\<not> holds_lease token (negative_row now c m g a d)" "\<not> holds_lease token (stop_delivery now d)"
  "holds_lease token (d\<lparr>d_until := u\<rparr>) = holds_lease token d"
  "holds_lease token (d\<lparr>d_error := e, d_updated := now\<rparr>) = holds_lease token d"
  by (simp_all add: holds_lease_def row_defs)

lemma holds_lease_reap: "holds_lease token (reap_row c now s d) \<Longrightarrow> holds_lease token d"
  by (simp add: reap_row_def split: reap_verdict.splits)

lemma no_new_lease_Renew: "Renew at lease t s = (s', res) \<Longrightarrow> no_new_lease s s'"
  by (erule Renew_cases) (auto intro!: no_new_lease_update)

lemma no_new_lease_finalize_sent:
  "finalize_sent at k random attempt s = (s', res) \<Longrightarrow> no_new_lease s s'"
  by (erule finalize_sent_cases) (auto intro!: no_new_lease_update)

lemma no_new_lease_finalizeNegative:
  "no_new_lease s (finalizeNegative at k token cause message attempt random s)"
  by (rule finalizeNegative_cases [of at k token cause message attempt random s])
    (auto intro!: no_new_lease_update)

lemma no_new_lease_quarantine: "no_new_lease s (quarantine at k token message attempt random s)"
  by (auto simp: quarantine_def intro!: no_new_lease_update)

lemma no_new_lease_Reap: "no_new_lease s (fst (Reap c at locked s))"
  unfolding Reap_def Let_def fst_conv by (rule no_new_lease_update) (auto simp: reap_row_key dest: holds_lease_reap)

lemma no_new_lease_Stop: "Stop at sc m s = (s', res) \<Longrightarrow> no_new_lease s s'"
proof (erule Stop_cases)
  fix row run
  let ?hit = "\<lambda>d. mailing_of (d_key d) = m \<and> run_of (d_key d) = run_id run \<and> d_status d = DPending"
  have "no_new_lease s (s\<lparr>deliveries := update_where ?hit (stop_delivery at) (deliveries s)\<rparr>)"
    by (rule no_new_lease_update) simp
  then show "no_new_lease s s'"
    if "s' = set_mailing_status at m MStopped
       (s\<lparr>runs := update_where (\<lambda>r. run_mailing r = m \<and> run_id r = run_id run \<and> active_run r)
           (cancel_run at) (runs s),
         deliveries := update_where ?hit (stop_delivery at) (deliveries s)\<rparr>)"
    using that by (simp add: no_new_lease_def leased_def set_mailing_status_def)
qed simp

lemma no_new_lease_Queue: "Queue at rid sc m s = (s', res) \<Longrightarrow> no_new_lease s s'"
  by (erule Queue_cases)
    (auto simp: no_new_lease_def leased_def queued_db_def set_mailing_status_def holds_lease_def new_delivery_def)

lemma deliveries_reconcile: "reconcileCandidate at c s = (s', res) \<Longrightarrow> deliveries s' = deliveries s"
  by (auto simp: reconcileCandidate_def Let_def split: option.splits if_split_asm)

lemma Release_leased:
  assumes "Release at cause t s = (s', res)" "cause \<noteq> NilError"
  shows "leased s' (task_token t) \<subseteq> leased s (task_token t) - {task_key t}" "no_new_lease s s'" "res = Returns ()"
proof -
  have s': "s' = s\<lparr>deliveries := update_where (\<lambda>d. d_key d = task_key t \<and> holds_lease (task_token t) d)
      (release_delivery at cause) (deliveries s)\<rparr>" and res: "res = Returns ()"
    using assms by (simp_all add: Release_def)
  show "no_new_lease s s'" unfolding s' by (rule no_new_lease_update) simp
  show "leased s' (task_token t) \<subseteq> leased s (task_token t) - {task_key t}"
    unfolding s' by (rule leased_cleared) simp_all
  show "res = Returns ()" by (fact res)
qed

lemma no_new_lease_Release: "Release at cause t s = (s', res) \<Longrightarrow> no_new_lease s s'"
  by (cases "cause = NilError") (simp add: Release_def, rule Release_leased(2))

lemma admit_leased:
  assumes "admit at k token s = (s', Some adm)"
  shows "leased s' token' \<subseteq> leased s token' - {k}"
proof -
  obtain body random attempt where "adm = (body, random, attempt)" by (cases adm)
  with assms have "admit at k token s = (s', Some (body, random, attempt))" by simp
  then show ?thesis by (rule admit_Some) (simp add: leased_cleared)
qed

lemma no_new_lease_admit: "admit at k token s = (s', adm) \<Longrightarrow> no_new_lease s s'"
proof (cases adm)
  case None
  then show "admit at k token s = (s', adm) \<Longrightarrow> ?thesis" using admit_None [of at k token s s'] by simp
next
  case (Some x)
  then show "admit at k token s = (s', adm) \<Longrightarrow> ?thesis" using admit_leased [of at k token s s' x]
    unfolding no_new_lease_def by blast
qed

text \<open>A claim gives its token one row, the task's; other tokens gain nothing.\<close>

lemma Claim_cases:
  assumes "Claim lease at token locked s = (s', res)"
  obtains "s' = s" "\<And>t. res \<noteq> Returns t"
  | d run account where "claim_join s d = Some (run, account)"
      "s' = s\<lparr>deliveries := update_where (\<lambda>x. d_key x = d_key d)
         (lease_delivery at lease token (run_generation run)) (deliveries s)\<rparr>"
      "res = (if oa_version account \<le> 0 then Fails (Wrap ''invalid account status version'' [])
         else Returns \<lparr>task_route = oa_id account, task_version = of_int (oa_version account),
                task_key = d_key d, task_token = token\<rparr>)"
proof (cases "lease \<le> 0 \<or> claim_candidate at locked s = None")
  case True
  then have "s' = s" "\<forall>t. res \<noteq> Returns t" using assms by (auto simp: Claim_def split: if_split_asm)
  then show thesis using that(1) by blast
next
  case False
  then obtain d where d: "\<not> lease \<le> 0" "claim_candidate at locked s = Some d" by auto
  then obtain run account where j: "claim_join s d = Some (run, account)"
    using claim_candidate_Some by fastforce
  show thesis
    by (rule that(2) [OF j]) (use assms d j in \<open>simp_all add: Claim_def\<close>)
qed

lemma claim_join_account: "claim_join s d = Some (run, account) \<Longrightarrow> account \<in> set (operator_accounts s)"
  by (auto simp: claim_join_def find_active_account_def dest!: find_Some_set split: option.splits if_split_asm)

lemma Claim_leased:
  assumes "Claim lease at token locked s = (s', res)" "\<forall>a \<in> set (operator_accounts s). 0 < oa_version a"
  shows "token' \<noteq> token \<Longrightarrow> leased s' token' \<subseteq> leased s token'"
    "case res of Returns t \<Rightarrow> task_token t = token \<and> leased s' token \<subseteq> insert (task_key t) (leased s token)
       | _ \<Rightarrow> s' = s"
proof -
  note cs = Claim_cases [OF assms(1)]
  have lease: "holds_lease token' (lease_delivery at lease token g d) \<longleftrightarrow> token' = token \<and> d_status d = DPending"
    for token' g d by (auto simp: holds_lease_def lease_delivery_def)
  show "leased s' token' \<subseteq> leased s token'" if "token' \<noteq> token"
    using cs
  proof cases
    case (2 d run account)
    show ?thesis unfolding 2(2) by (auto simp: leased_update_iff lease that) (auto simp: leased_iff)
  qed simp
  show "case res of Returns t \<Rightarrow> task_token t = token \<and> leased s' token \<subseteq> insert (task_key t) (leased s token)
      | _ \<Rightarrow> s' = s"
    using cs
  proof cases
    case 1
    then show ?thesis by (simp split: outcome.split)
  next
    case (2 d run account)
    have "0 < oa_version account" using assms(2) claim_join_account [OF 2(1)] by blast
    moreover have "leased s' token \<subseteq> insert (d_key d) (leased s token)"
      unfolding 2(2) by (auto simp: leased_update_iff) (auto simp: leased_iff)
    ultimately show ?thesis using 2(3) by simp
  qed
qed


section \<open>The other processes\<close>

text \<open>One transaction of another process: other workers, the reaper, the reconciler, the console, the
  account components. Its times are arbitrary; a claim draws a token this worker has not drawn
  (\<open>uuid.New\<close>), and account versions stay positive (the CHECK constraint of the table).\<close>

inductive peer_step :: "uuid set \<Rightarrow> db \<Rightarrow> db \<Rightarrow> bool" for drawn :: "uuid set" where
  queue: "Queue at rid sc m s = (s', queued) \<Longrightarrow> peer_step drawn s s'"
| stop: "Stop at sc m s = (s', stopped) \<Longrightarrow> peer_step drawn s s'"
| claim: "Claim lease at token locked s = (s', claimed) \<Longrightarrow> token \<notin> drawn \<Longrightarrow> peer_step drawn s s'"
| renew: "Renew at lease t s = (s', renewed) \<Longrightarrow> peer_step drawn s s'"
| release: "Release at cause t s = (s', released) \<Longrightarrow> peer_step drawn s s'"
| admits: "admit at k token s = (s', admitted) \<Longrightarrow> peer_step drawn s s'"
| delivered: "finalize_sent at k random attempt s = (s', finalized) \<Longrightarrow> peer_step drawn s s'"
| refused: "peer_step drawn s (finalizeNegative at k token cause text attempt random s)"
| interrupted: "peer_step drawn s (quarantine at k token text attempt random s)"
| reap: "peer_step drawn s (fst (Reap c at locked s))"
| reconcile: "reconcileCandidate at c s = (s', verdict) \<Longrightarrow> peer_step drawn s s'"
| accounts: "peer_step drawn s (s\<lparr>operator_accounts := xs, sessions := ys, dialog_syncs := zs\<rparr>)"

definition versions_positive :: "db \<Rightarrow> bool" where
  "versions_positive s \<longleftrightarrow> (\<forall>a \<in> set (operator_accounts s). 0 < oa_version a)"

lemma peer_step_leased:
  assumes "peer_step drawn s s'" "versions_positive s" "token \<in> drawn"
  shows "leased s' token \<subseteq> leased s token"
  using assms(1)
proof cases
  case (claim lease at token' locked claimed)
  have "token \<noteq> token'" using claim(2) assms(3) by blast
  then show ?thesis by (rule Claim_leased(1) [OF claim(1) assms(2) [unfolded versions_positive_def]])
next
  case reconcile
  then show ?thesis using deliveries_reconcile by (fastforce simp: leased_def)
next
  case accounts
  then show ?thesis by (simp add: leased_def)
qed (rule no_new_leaseD, blast intro: no_new_lease_Queue no_new_lease_Stop no_new_lease_Renew
    no_new_lease_Release no_new_lease_admit no_new_lease_finalize_sent no_new_lease_finalizeNegative
    no_new_lease_quarantine no_new_lease_Reap)+

section \<open>The worker over the queue\<close>

text \<open>How far the dispatch of a task is; a session of its own per claim.\<close>

datatype dispatch = NotAdmitted | InFlight nat int | Answered "unit outcome"

text \<open>\<open>sy_drawn\<close>: the tokens of this worker's claims. \<open>sy_unanswered\<close>: claims whose answer was lost with the
  connection or the context. \<open>sy_failed\<close>: releases that did not reach the database, with their error.\<close>

record ('a, 'c) system =
  sy_worker :: "(task, 'a, 'c) worker"
  sy_db :: db
  sy_calls :: "uuid \<Rightarrow> dispatch"
  sy_drawn :: "uuid set"
  sy_unanswered :: "uuid set"
  sy_failed :: "(uuid \<times> go_error) set"

fun error_reply :: "unit outcome \<Rightarrow> go_error option reply" where
  "error_reply (Returns ()) = Replied None"
| "error_reply (Fails e) = Replied (Some e)"
| "error_reply Panics = Recovered None"

fun claim_reply :: "task outcome \<Rightarrow> (task option \<times> go_error option) reply" where
  "claim_reply (Returns t) = Replied (Some t, None)"
| "claim_reply (Fails e) = Replied (None, Some e)"
| "claim_reply Panics = Recovered None"

text \<open>The command of a task is \<open>delivery.New\<close>: its \<open>Execute\<close> is the dispatch under a label.\<close>

fun execute_reply :: "unit outcome \<Rightarrow> go_error option reply" where
  "execute_reply (Fails e) = Replied (Some (Wrap ''execute mailing delivery'' [e]))"
| "execute_reply res = error_reply res"

text \<open>What the worker does without its store.\<close>

inductive local_step ::
  "worker_config \<Rightarrow> ('t, 'a, 'c) worker \<Rightarrow> ('t, 'a, 'c) worker \<Rightarrow> bool" for config :: worker_config where
  waits: "coordinator_step config w w' \<Longrightarrow> w_coordinator w = TakingSlot \<or> w_coordinator w = Polling until \<Longrightarrow>
    local_step config w w'"
| resolves: "w_coordinator w = Resolving t a \<Longrightarrow> local_step config w (after_resolve config t resolved w)"
| begins: "i < length (w_executions w) \<Longrightarrow> w_executions w ! i = Starting t command \<Longrightarrow>
    local_step config w (start_execution config i t command w)"
| leaves: "i < length (w_executions w) \<Longrightarrow> w_executions w ! i = Leaving \<Longrightarrow> local_step config w (leave i w)"
| runs: "run_step config w w' \<Longrightarrow> local_step config w w'"
| clock: "w_now w \<le> later \<Longrightarrow> local_step config w (w\<lparr>w_now := later\<rparr>)"
| cancels: "local_step config w (cancel_parent err cause w)"

text \<open>The release an execution waits for: task, cause, and what follows.\<close>

definition execution_release ::
  "nat \<Rightarrow> ('t, 'c) execution
   \<Rightarrow> ('t \<times> go_error \<times> (go_error option reply \<Rightarrow> ('t, 'a, 'c) worker \<Rightarrow> ('t, 'a, 'c) worker)) option" where
  "execution_release i e = (case e of
     ReleasingPanicked t failure _ \<Rightarrow> Some (t, failure, after_panic_release i t failure)
   | ReleasingFailed t failure _ \<Rightarrow> Some (t, failure, after_failed_release i t failure)
   | _ \<Rightarrow> None)"

text \<open>A call of the store ends with its transaction, or with an error and the transaction committed or not
  (\<open>may_commit\<close>). \<open>text_of\<close> is what \<open>Error()\<close> yields, \<open>None\<close> when it panics.\<close>

definition shown :: "(go_error \<Rightarrow> byte list option) \<Rightarrow> go_error \<Rightarrow> error_text" where
  "shown text_of e = (case text_of e of None \<Rightarrow> ErrorPanics | Some bytes \<Rightarrow> ErrorText bytes)"

definition may_commit :: "db \<Rightarrow> db \<Rightarrow> db \<Rightarrow> bool" where
  "may_commit s s' committed \<longleftrightarrow> s' = s \<or> s' = committed"

abbreviation executing_at :: "('a, 'c) system \<Rightarrow> nat \<Rightarrow> task \<Rightarrow> bool" where
  "executing_at y i t \<equiv> i < length (w_executions (sy_worker y))
     \<and> (\<exists>command deadline. w_executions (sy_worker y) ! i = Executing t command deadline)"

definition set_call :: "task \<Rightarrow> dispatch \<Rightarrow> ('a, 'c) system \<Rightarrow> ('a, 'c) system" where
  "set_call t call y = y\<lparr>sy_calls := (sy_calls y)(task_token t := call)\<rparr>"

inductive dispatch_step :: "(go_error \<Rightarrow> byte list option) \<Rightarrow> ('a, 'c) system \<Rightarrow> ('a, 'c) system \<Rightarrow> bool"
  for text_of :: "go_error \<Rightarrow> byte list option" where
  admitted: "executing_at y i t \<Longrightarrow> sy_calls y (task_token t) = NotAdmitted \<Longrightarrow>
    admit at (task_key t) (task_token t) (sy_db y) = (s', Some (body, random, attempt)) \<Longrightarrow>
    dispatch_step text_of y (set_call t (InFlight attempt random) (y\<lparr>sy_db := s'\<rparr>))"
| stale: "executing_at y i t \<Longrightarrow> sy_calls y (task_token t) = NotAdmitted \<Longrightarrow>
    admit at (task_key t) (task_token t) (sy_db y) = (s', None) \<Longrightarrow>
    dispatch_step text_of y (set_call t (Answered (Fails (Sentinel ErrStaleDelivery))) (y\<lparr>sy_db := s'\<rparr>))"
| admission_failed: "executing_at y i t \<Longrightarrow> sy_calls y (task_token t) = NotAdmitted \<Longrightarrow>
    admit at (task_key t) (task_token t) (sy_db y) = (committed, adm) \<Longrightarrow> may_commit (sy_db y) s' committed \<Longrightarrow>
    dispatch_step text_of y
      (set_call t (Answered (Fails (Wrap ''admit mailing delivery'' [e]))) (y\<lparr>sy_db := s'\<rparr>))"
| sent: "executing_at y i t \<Longrightarrow> sy_calls y (task_token t) = InFlight attempt random \<Longrightarrow>
    finalize_sent at (task_key t) random attempt (sy_db y) = (s', res) \<Longrightarrow>
    dispatch_step text_of y (set_call t (Answered res) (y\<lparr>sy_db := s'\<rparr>))"
| interrupted: "executing_at y i t \<Longrightarrow> sy_calls y (task_token t) = InFlight attempt random \<Longrightarrow>
    is_context_error failure \<Longrightarrow>
    dispatch_step text_of y (set_call t (Answered (Returns ()))
      (y\<lparr>sy_db := quarantine at (task_key t) (task_token t) (shown text_of failure) attempt random (sy_db y)\<rparr>))"
| refused: "executing_at y i t \<Longrightarrow> sy_calls y (task_token t) = InFlight attempt random \<Longrightarrow>
    \<not> is_context_error failure \<Longrightarrow>
    dispatch_step text_of y (set_call t (Answered (Returns ()))
      (y\<lparr>sy_db := finalizeNegative at (task_key t) (task_token t) failure (shown text_of failure) attempt random
          (sy_db y)\<rparr>))"
| not_finalized: "executing_at y i t \<Longrightarrow> sy_calls y (task_token t) = InFlight attempt random \<Longrightarrow>
    s' \<in> {sy_db y, fst (finalize_sent at (task_key t) random attempt (sy_db y)),
      quarantine at (task_key t) (task_token t) (shown text_of failure) attempt random (sy_db y),
      finalizeNegative at (task_key t) (task_token t) failure (shown text_of failure) attempt random (sy_db y)} \<Longrightarrow>
    dispatch_step text_of y (set_call t
      (Answered (Fails (Wrap ''finalize mailing delivery'' [Sentinel ErrOutcomeFinalization, e])))
      (y\<lparr>sy_db := s'\<rparr>))"

inductive system_step ::
  "worker_config \<Rightarrow> duration \<Rightarrow> (go_error \<Rightarrow> byte list option) \<Rightarrow> ('a, 'c) system \<Rightarrow> ('a, 'c) system \<Rightarrow> bool"
  for config :: worker_config and lease :: duration and text_of :: "go_error \<Rightarrow> byte list option" where
  peer: "peer_step (sy_drawn y) (sy_db y) s' \<Longrightarrow> versions_positive s' \<Longrightarrow>
    system_step config lease text_of y (y\<lparr>sy_db := s'\<rparr>)"
| local: "local_step config (sy_worker y) w' \<Longrightarrow> system_step config lease text_of y (y\<lparr>sy_worker := w'\<rparr>)"
| dispatches: "dispatch_step text_of y y' \<Longrightarrow> system_step config lease text_of y y'"
| claims: "w_coordinator (sy_worker y) = Claiming \<Longrightarrow> token \<notin> sy_drawn y \<Longrightarrow>
    \<forall>d \<in> set (deliveries (sy_db y)). d_token d \<noteq> Some token \<Longrightarrow>
    Claim lease at token locked (sy_db y) = (s', res) \<Longrightarrow>
    system_step config lease text_of y
      (y\<lparr>sy_worker := after_claim config (claim_reply res) admission (sy_worker y), sy_db := s',
         sy_calls := (sy_calls y)(token := NotAdmitted), sy_drawn := insert token (sy_drawn y)\<rparr>)"
| claim_lost: "w_coordinator (sy_worker y) = Claiming \<Longrightarrow> token \<notin> sy_drawn y \<Longrightarrow>
    Claim lease at token locked (sy_db y) = (committed, res) \<Longrightarrow> may_commit (sy_db y) s' committed \<Longrightarrow>
    system_step config lease text_of y
      (y\<lparr>sy_worker := after_claim config (Replied (None, Some e)) admission (sy_worker y), sy_db := s',
         sy_drawn := insert token (sy_drawn y), sy_unanswered := insert token (sy_unanswered y),
         sy_calls := (sy_calls y)(token := NotAdmitted)\<rparr>)"
| renews: "w_coordinator (sy_worker y) = Renewing t command \<Longrightarrow>
    Renew at (sint (LeaseDuration config)) t (sy_db y) = (s', res) \<Longrightarrow>
    system_step config lease text_of y
      (y\<lparr>sy_worker := after_renew config t command (error_reply res) (sy_worker y), sy_db := s'\<rparr>)"
| renew_lost: "w_coordinator (sy_worker y) = Renewing t command \<Longrightarrow>
    Renew at (sint (LeaseDuration config)) t (sy_db y) = (committed, res) \<Longrightarrow>
    may_commit (sy_db y) s' committed \<Longrightarrow>
    system_step config lease text_of y
      (y\<lparr>sy_worker := after_renew config t command (Replied (Some e)) (sy_worker y), sy_db := s'\<rparr>)"
| releases: "w_coordinator (sy_worker y) = Releasing t cause deadline after \<Longrightarrow>
    Release at (shown text_of cause) t (sy_db y) = (s', res) \<Longrightarrow>
    system_step config lease text_of y
      (y\<lparr>sy_worker := after_release t after (error_reply res) (sy_worker y), sy_db := s'\<rparr>)"
| release_lost: "w_coordinator (sy_worker y) = Releasing t cause deadline after \<Longrightarrow>
    Release at (shown text_of cause) t (sy_db y) = (committed, res) \<Longrightarrow> may_commit (sy_db y) s' committed \<Longrightarrow>
    system_step config lease text_of y
      (y\<lparr>sy_worker := after_release t after (Replied (Some e)) (sy_worker y), sy_db := s',
         sy_failed := insert (task_token t, e) (sy_failed y)\<rparr>)"
| executed: "executing_at y i t \<Longrightarrow> sy_calls y (task_token t) = Answered res \<Longrightarrow>
    system_step config lease text_of y
      (y\<lparr>sy_worker := after_execute config i t (execute_reply res) (sy_worker y)\<rparr>)"
| panicked: "executing_at y i t \<Longrightarrow>
    system_step config lease text_of y
      (y\<lparr>sy_worker := after_execute config i t (Recovered v) (sy_worker y)\<rparr>)"
| gives_back: "i < length (w_executions (sy_worker y)) \<Longrightarrow>
    execution_release i (w_executions (sy_worker y) ! i) = Some (t, failure, continue) \<Longrightarrow>
    Release at (shown text_of failure) t (sy_db y) = (s', res) \<Longrightarrow>
    system_step config lease text_of y
      (y\<lparr>sy_worker := continue (error_reply res) (sy_worker y), sy_db := s'\<rparr>)"
| give_back_lost: "i < length (w_executions (sy_worker y)) \<Longrightarrow>
    execution_release i (w_executions (sy_worker y) ! i) = Some (t, failure, continue) \<Longrightarrow>
    Release at (shown text_of failure) t (sy_db y) = (committed, res) \<Longrightarrow> may_commit (sy_db y) s' committed \<Longrightarrow>
    system_step config lease text_of y
      (y\<lparr>sy_worker := continue (Replied (Some e)) (sy_worker y), sy_db := s',
         sy_failed := insert (task_token t, e) (sy_failed y)\<rparr>)"

end
