(* ===== verification/Worker_Shutdown.thy ===== *)
theory Worker_Shutdown
  imports Worker_Leases Pipeline_Demo
begin

text \<open>
  What a shutdown leaves in the queue: the invariant of the worker over its store. Every token the
  worker drew holds at most the row of a task still in hand, unless the claim's answer was lost or the
  task's release failed; and every failed release is among the recorded failures.
\<close>

section \<open>Tasks in hand\<close>

definition hand :: "('t, 'a, 'c) worker \<Rightarrow> 't multiset" where
  "hand w = coordinator_hand (w_coordinator w) + executing (w_executions w)"

lemma hand_simps [simp]:
  "hand (at_point pc w) = coordinator_hand pc + executing (w_executions w)"
  "hand (begin_release config t cause after w) = add_mset t (executing (w_executions w))"
  "hand (free_slot w) = hand w" "hand (logged e w) = hand w" "hand (reportFatal f w) = hand w"
  "hand (recordFailure f w) = hand w" "hand (stopClaims c w) = hand w" "hand (releaseLate f w) = hand w"
  by (simp_all add: hand_def at_point_def begin_release_def free_slot_def logged_def stopClaims_def
      cancel_claims_def releaseLate_def Let_def split: option.split)

lemma executions_simps [simp]:
  "w_executions (at_point pc w) = w_executions w" "w_executions (free_slot w) = w_executions w"
  "w_executions (logged e w) = w_executions w" "w_executions (begin_release config t cause after w) = w_executions w"
  "w_executions (releaseLate f w) = w_executions w"
  by (simp_all add: at_point_def begin_release_def free_slot_def logged_def releaseLate_def Let_def
      split: option.split)

lemma hand_after_claim:
  assumes "w_coordinator w = Claiming"
  shows "hand (after_claim config (Replied (Some t, None)) admission w) = add_mset t (hand w)"
    "hand (after_claim config (Replied (None, Some e)) admission w) = hand w"
    "hand (after_claim config (Recovered v) admission w) = hand w"
  using assms by (simp_all add: after_claim_def after_claim_failure_def Let_def hand_def [of w] split: sum.split)

lemma hand_after_resolve:
  assumes "w_coordinator w = Resolving t a"
  shows "hand (after_resolve config t reply w) = hand w"
  using assms by (auto simp: after_resolve_def Let_def hand_def [of w] split: reply.split prod.split option.split)

lemma hand_after_renew:
  assumes "w_coordinator w = Renewing t command"
  shows "hand (after_renew config t command reply w) = hand w"
  using assms
  by (auto simp: after_renew_def hand_def [of w] hand_def [of "logged _ _"] split: option.split prod.split bool.split)

lemma hand_after_release:
  assumes "w_coordinator w = Releasing t cause deadline after"
  shows "hand w = add_mset t (hand (after_release t after reply w))"
  using assms
  by (cases after) (simp_all add: after_release_def settle_release_def after_claim_failure_def Let_def
      hand_def [of w])

lemma hand_put_execution:
  assumes "w_executions w = xs @ e # ys"
  shows "hand (put_execution (length xs) e' w) + execution_hand e = hand w + execution_hand e'"
  using assms by (simp add: hand_def put_execution_def ac_simps)

lemma hand_leave_slot:
  assumes "w_executions w = xs @ e # ys"
  shows "hand (leave_slot (length xs) (logged ev w)) + execution_hand e = hand w"
    "hand (leave_slot (length xs) (reportFatal f (logged ev w))) + execution_hand e = hand w"
  using assms by (simp_all add: leave_slot_def hand_def put_execution_def free_slot_def logged_def ac_simps)

lemma hand_leave: "w_executions w = xs @ Leaving # ys \<Longrightarrow> hand (leave (length xs) w) = hand w"
  by (simp add: hand_def leave_def)

lemma hand_run_step: "run_step config w w' \<Longrightarrow> hand w' = hand w"
  by (induction rule: run_step.cases)
    (auto simp: hand_def parent_stopped_def fatal_signalled_def coordinator_ended_def begin_drain_def
      begin_cleanup_def finish_run_def report_defs Let_def split: option.split)

lemma hand_local_step:
  assumes "local_step config w w'"
  shows "hand w' = hand w"
  using assms
proof cases
  case (waits until)
  from waits(1,2) show ?thesis by cases (auto simp: hand_def at_point_def)
next
  case (resolves t a resolved)
  show ?thesis unfolding resolves(1) by (rule hand_after_resolve [OF resolves(2)])
next
  case (begins i t command)
  obtain xs ys where es: "w_executions w = xs @ Starting t command # ys" "length xs = i"
    using split_at [OF begins(2,3)] by blast
  show ?thesis
    using hand_put_execution [OF es(1), of "Executing t command (w_now w + sint (ExecutionTimeout config))"]
    unfolding begins(1) start_execution_def es(2) [symmetric] by simp
next
  case (leaves i)
  obtain xs ys where es: "w_executions w = xs @ Leaving # ys" "length xs = i"
    using split_at [OF leaves(2,3)] by blast
  show ?thesis unfolding leaves(1) es(2) [symmetric] by (rule hand_leave [OF es(1)])
next
  case runs
  then show ?thesis by (rule hand_run_step)
qed (simp_all add: hand_def cancel_parent_def cancel_claims_def)

section \<open>Failures are kept\<close>

definition failures :: "('t, 'a, 'c) worker \<Rightarrow> go_error set" where
  "failures w = set (fs_failures (w_failures w))"

lemma failures_simps [simp]:
  "failures (at_point pc w) = failures w" "failures (free_slot w) = failures w"
  "failures (logged e w) = failures w" "failures (begin_release config t cause after w) = failures w"
  "failures (put_execution i x w) = failures w" "failures (stopClaims c w) = failures w"
  "failures (reportFatal f w) = set_option f \<union> failures w"
  "failures (recordFailure f w) = set_option f \<union> failures w"
  "failures (leave i w) = failures w" "failures (leave_slot i w) = failures w"
  by (auto simp: failures_def at_point_def free_slot_def logged_def begin_release_def put_execution_def
      leave_def leave_slot_def report_defs split: option.split)

lemma failures_releaseLate:
  "failures (releaseLate f w) = (case f of None \<Rightarrow> {} | Some e \<Rightarrow> {Wrap ''release late delivery task'' [e]}) \<union> failures w"
  by (simp add: releaseLate_def Let_def split: option.split)

lemma failures_coordinator: "coordinator_step config w v \<Longrightarrow> failures w \<subseteq> failures v"
proof (induction rule: coordinator_step.cases)
  case (claim_returns w reply admission)
  then show ?case unfolding starts_defs by (auto split: reply.split prod.split option.split sum.split)
next
  case (resolve_returns w t a resolved)
  then show ?case unfolding starts_defs by (auto split: reply.split prod.split option.split)
next
  case (renew_returns w t command answer)
  then show ?case unfolding after_renew_def
    by (auto simp: failures_def logged_def at_point_def begin_release_def split: option.split prod.split bool.split)
next
  case (release_returns w t cause deadline after answer)
  then show ?case by (cases after) (auto simp: starts_defs failures_releaseLate)
qed (simp_all add: failures_def at_point_def)

lemma failures_execution: "execution_step config w v \<Longrightarrow> failures w \<subseteq> failures v"
  by (induction rule: execution_step.cases)
    (auto simp: start_execution_def after_execute_def after_panic_release_def after_failed_release_def
      Let_def split: reply.split option.split)

lemma failures_run: "run_step config w v \<Longrightarrow> failures w \<subseteq> failures v"
  by (induction rule: run_step.cases)
    (auto simp: failures_def parent_stopped_def fatal_signalled_def coordinator_ended_def begin_drain_def
      begin_cleanup_def finish_run_def report_defs Let_def split: option.split)

lemma failures_step:
  assumes "worker_step config w v"
  shows "failures w \<subseteq> failures v"
  using assms
proof cases
  case coordinator
  then show ?thesis by (rule failures_coordinator)
next
  case execution
  then show ?thesis by (rule failures_execution)
next
  case running
  then show ?thesis by (rule failures_run)
qed (simp_all add: failures_def cancel_parent_def cancel_claims_def)

text \<open>A failed release is recorded, on every path.\<close>

lemma covers_join: "Some f \<in> set es \<Longrightarrow> \<exists>e. errors_join es = Some e \<and> covers e f"
  using errors_join_None [of es] errors_join_covers by blast

lemma covers_Wrap: "covers (Wrap m [e]) e"
  by (simp add: covers_def)

lemma release_failure_recorded:
  "\<exists>f \<in> failures (after_release t after (Replied (Some e)) w). covers f e"
proof -
  have join: "\<exists>f \<in> set_option (errors_join [x, Some e]). covers f e" for x
    using covers_join [of e "[x, Some e]"] by auto
  show ?thesis
    using join
    by (cases after) (auto simp: after_release_def settle_release_def after_claim_failure_def Let_def
        safeRelease_def safe_reply_def failures_releaseLate intro: covers_Wrap)
qed

lemma execution_failure_recorded:
  assumes "execution_release i x = Some (t, failure, continue)"
  shows "\<exists>f \<in> failures (continue (Replied (Some e)) w). covers f e"
proof -
  have join: "\<exists>f \<in> set_option (errors_join [x, Some e]) \<union> A. covers f e" for x A
    using covers_join [of e "[x, Some e]"] by auto
  show ?thesis using assms join
    by (auto simp: execution_release_def after_panic_release_def after_failed_release_def Let_def
        safeRelease_def safe_reply_def split: execution.splits)
qed

section \<open>The invariant\<close>

fun past_admission :: "dispatch \<Rightarrow> bool" where
  "past_admission (InFlight _ _) = True"
| "past_admission (Answered (Returns _)) = True"
| "past_admission _ = False"

definition tokens_in_hand :: "('a, 'c) system \<Rightarrow> bool" where
  "tokens_in_hand y \<longleftrightarrow> (\<forall>t \<in># hand (sy_worker y).
     task_token t \<in> sy_drawn y \<and> leased (sy_db y) (task_token t) \<subseteq> {task_key t})"

definition leases_accounted :: "('a, 'c) system \<Rightarrow> bool" where
  "leases_accounted y \<longleftrightarrow> (\<forall>token \<in> sy_drawn y. leased (sy_db y) token \<noteq> {} \<longrightarrow>
     (\<exists>t \<in># hand (sy_worker y). task_token t = token) \<or> token \<in> sy_unanswered y \<or> token \<in> fst ` sy_failed y)"

definition calls_ok :: "('a, 'c) system \<Rightarrow> bool" where
  "calls_ok y \<longleftrightarrow> (\<forall>token \<in> sy_drawn y. past_admission (sy_calls y token) \<longrightarrow> leased (sy_db y) token = {})"

definition failures_reported :: "('a, 'c) system \<Rightarrow> bool" where
  "failures_reported y \<longleftrightarrow> (\<forall>(token, e) \<in> sy_failed y. \<exists>f \<in> failures (sy_worker y). covers f e)"

definition system_ok :: "('a, 'c) system \<Rightarrow> bool" where
  "system_ok y \<longleftrightarrow> worker_ok (sy_worker y) \<and> versions_positive (sy_db y) \<and> tokens_in_hand y
     \<and> leases_accounted y \<and> calls_ok y \<and> failures_reported y"

lemmas system_ok_defs = tokens_in_hand_def leases_accounted_def calls_ok_def failures_reported_def

text \<open>The general step: the tokens in the worker's name lose rows only, and a task leaves the hand only
  when its token holds nothing any more, or its release failed.\<close>

lemma system_move:
  assumes ok: "system_ok y"
    and worker: "worker_ok (sy_worker z)" "failures (sy_worker y) \<subseteq> failures (sy_worker z)"
    and db: "versions_positive (sy_db z)"
      "\<And>token. token \<in> sy_drawn y \<Longrightarrow> leased (sy_db z) token \<subseteq> leased (sy_db y) token"
    and same: "sy_drawn z = sy_drawn y" "sy_unanswered z = sy_unanswered y"
    and calls: "\<And>token. token \<in> sy_drawn y \<Longrightarrow> past_admission (sy_calls z token) \<Longrightarrow>
        past_admission (sy_calls y token) \<or> leased (sy_db z) token = {}"
    and failed: "sy_failed y \<subseteq> sy_failed z"
      "\<And>token e. (token, e) \<in> sy_failed z - sy_failed y \<Longrightarrow> \<exists>f \<in> failures (sy_worker z). covers f e"
    and hands: "hand (sy_worker z) \<subseteq># hand (sy_worker y)"
      "\<And>t. t \<in># hand (sy_worker y) - hand (sy_worker z) \<Longrightarrow>
         leased (sy_db z) (task_token t) = {} \<or> task_token t \<in> fst ` sy_failed z"
  shows "system_ok z"
proof -
  note parts = ok [unfolded system_ok_def]
  have sub: "t \<in># hand (sy_worker y)" if "t \<in># hand (sy_worker z)" for t
    using mset_subset_eqD [OF hands(1) that] .
  have "tokens_in_hand z" unfolding tokens_in_hand_def same
  proof (intro ballI conjI)
    fix t assume "t \<in># hand (sy_worker z)"
    then have t: "task_token t \<in> sy_drawn y" "leased (sy_db y) (task_token t) \<subseteq> {task_key t}"
      using parts sub unfolding tokens_in_hand_def by blast+
    then show "task_token t \<in> sy_drawn y" "leased (sy_db z) (task_token t) \<subseteq> {task_key t}"
      using db(2) by blast+
  qed
  moreover have "leases_accounted z" unfolding leases_accounted_def same
  proof (intro ballI impI)
    fix token assume "token \<in> sy_drawn y" "leased (sy_db z) token \<noteq> {}"
    moreover from this have "leased (sy_db y) token \<noteq> {}" using db(2) by blast
    ultimately consider t where "t \<in># hand (sy_worker y)" "task_token t = token"
      | "token \<in> sy_unanswered y \<or> token \<in> fst ` sy_failed y"
      using parts unfolding leases_accounted_def by blast
    then show "(\<exists>t \<in># hand (sy_worker z). task_token t = token) \<or> token \<in> sy_unanswered y \<or> token \<in> fst ` sy_failed z"
    proof cases
      case (1 t)
      show ?thesis
      proof (cases "t \<in># hand (sy_worker z)")
        case False
        then have "t \<in># hand (sy_worker y) - hand (sy_worker z)"
          using 1(1) by (simp add: in_diff_count not_in_iff)
        from hands(2) [OF this] show ?thesis using 1(2) \<open>leased (sy_db z) token \<noteq> {}\<close> by blast
      qed (use 1(2) in blast)
    qed (use failed(1) in blast)
  qed
  moreover have "calls_ok z" unfolding calls_ok_def same
    using parts calls db(2) unfolding calls_ok_def by blast
  moreover have "failures_reported z" unfolding failures_reported_def
    using parts worker(2) failed(2) unfolding failures_reported_def by blast
  ultimately show ?thesis using worker(1) db(1) by (simp add: system_ok_def)
qed

section \<open>Every step keeps it\<close>

lemma accounts_simps:
  "Claim lease at token locked s = (s', res) \<Longrightarrow> operator_accounts s' = operator_accounts s"
  "Renew at lease t s = (s', renewed) \<Longrightarrow> operator_accounts s' = operator_accounts s"
  "Release at cause t s = (s', released) \<Longrightarrow> operator_accounts s' = operator_accounts s"
  "admit at k token s = (s', adm) \<Longrightarrow> operator_accounts s' = operator_accounts s"
  "finalize_sent at k random attempt s = (s', released) \<Longrightarrow> operator_accounts s' = operator_accounts s"
  "operator_accounts (finalizeNegative at k token e message attempt random s) = operator_accounts s"
  "operator_accounts (quarantine at k token message attempt random s) = operator_accounts s"
proof -
  show "Claim lease at token locked s = (s', res) \<Longrightarrow> operator_accounts s' = operator_accounts s"
    by (erule Claim_cases) simp_all
  show "Renew at lease t s = (s', renewed) \<Longrightarrow> operator_accounts s' = operator_accounts s"
    by (erule Renew_cases) simp_all
  show "Release at cause t s = (s', released) \<Longrightarrow> operator_accounts s' = operator_accounts s"
    by (auto simp: Release_def split: if_split_asm)
  show "admit at k token s = (s', adm) \<Longrightarrow> operator_accounts s' = operator_accounts s"
    by (cases adm) (auto dest: admit_None elim!: admit_Some)
  show "finalize_sent at k random attempt s = (s', released) \<Longrightarrow> operator_accounts s' = operator_accounts s"
    by (erule finalize_sent_cases) simp_all
  show "operator_accounts (finalizeNegative at k token e message attempt random s) = operator_accounts s"
    by (rule finalizeNegative_cases [of at k token e message attempt random s]) simp_all
  show "operator_accounts (quarantine at k token message attempt random s) = operator_accounts s"
    by (simp add: quarantine_def)
qed

lemma local_worker_step: "local_step config w w' \<Longrightarrow> worker_step config w w'"
  by (induction rule: local_step.cases)
    (auto intro: worker_step.intros coordinator_step.resolve_returns execution_step.starts execution_step.leaves)

lemma versions_kept:
  "versions_positive s \<Longrightarrow> operator_accounts s' = operator_accounts s \<Longrightarrow> versions_positive s'"
  by (simp add: versions_positive_def)

lemma executing_in_hand: "executing_at y i t \<Longrightarrow> t \<in># hand (sy_worker y)"
proof -
  assume "executing_at y i t"
  then obtain command deadline where e: "i < length (w_executions (sy_worker y))"
    "w_executions (sy_worker y) ! i = Executing t command deadline" by blast
  from split_at [OF e] obtain xs ys where "w_executions (sy_worker y) = xs @ Executing t command deadline # ys"
    by blast
  then show ?thesis by (simp add: hand_def)
qed

lemma in_hand_leased:
  assumes "system_ok y" "t \<in># hand (sy_worker y)"
  shows "task_token t \<in> sy_drawn y" "leased (sy_db y) (task_token t) \<subseteq> {task_key t}"
  using assms by (auto simp: system_ok_def tokens_in_hand_def)

text \<open>A change of the database and of one call, the worker waiting.\<close>

lemma call_move:
  assumes ok: "system_ok y" and "executing_at y i t" and "versions_positive s'" "no_new_lease (sy_db y) s'"
    and "past_admission call \<Longrightarrow> past_admission (sy_calls y (task_token t)) \<or> leased s' (task_token t) = {}"
  shows "system_ok (set_call t call (y\<lparr>sy_db := s'\<rparr>))"
  by (rule system_move [OF ok])
    (use assms in \<open>auto simp: set_call_def system_ok_def no_new_lease_def split: if_split_asm\<close>)

lemma may_commit_simps:
  assumes "may_commit s s' committed" "no_new_lease s committed" "operator_accounts committed = operator_accounts s"
  shows "no_new_lease s s'" "operator_accounts s' = operator_accounts s"
  using assms by (auto simp: may_commit_def)

lemma dispatch_step_ok:
  assumes "dispatch_step text_of y z" "system_ok y"
  shows "system_ok z"
proof -
  have v: "versions_positive (sy_db y)" using assms(2) by (simp add: system_ok_def)
  note move = call_move [OF assms(2)]
  from assms(1) show ?thesis
  proof cases
    case (admitted i t at s' body random attempt)
    have "leased s' (task_token t) \<subseteq> leased (sy_db y) (task_token t) - {task_key t}"
      by (rule admit_leased [OF admitted(4)])
    then have "leased s' (task_token t) = {}"
      using in_hand_leased(2) [OF assms(2) executing_in_hand [OF admitted(2)]] by blast
    then show ?thesis unfolding admitted(1)
      by (intro move [OF admitted(2) versions_kept [OF v accounts_simps(4) [OF admitted(4)]]]
          no_new_lease_admit [OF admitted(4)]) simp
  next
    case (stale i t at s')
    then have "s' = sy_db y" using admit_None by blast
    then show ?thesis unfolding stale(1) by (intro move [OF stale(2)]) (simp_all add: v)
  next
    case (admission_failed i t at committed adm s' e)
    note c = may_commit_simps [OF admission_failed(5) no_new_lease_admit [OF admission_failed(4)]
        accounts_simps(4) [OF admission_failed(4)]]
    show ?thesis unfolding admission_failed(1) 
      by (rule move [OF admission_failed(2) versions_kept [OF v c(2)] c(1)]) simp
  next
    case (sent i t attempt random at s' res)
    show ?thesis unfolding sent(1)
      by (rule move [OF sent(2) versions_kept [OF v accounts_simps(5) [OF sent(4)]]
            no_new_lease_finalize_sent [OF sent(4)]]) (simp add: sent(3))
  next
    case (interrupted i t attempt random failure at)
    show ?thesis unfolding interrupted(1)
      by (rule move [OF interrupted(2) versions_kept [OF v accounts_simps(7)] no_new_lease_quarantine])
        (simp add: interrupted(3))
  next
    case (refused i t attempt random failure at)
    show ?thesis unfolding refused(1)
      by (rule move [OF refused(2) versions_kept [OF v accounts_simps(6)] no_new_lease_finalizeNegative])
        (simp add: refused(3))
  next
    case (not_finalized i t attempt random s' at failure e)
    obtain s1 res where s1: "finalize_sent at (task_key t) random attempt (sy_db y) = (s1, res)" by fastforce
    have c: "no_new_lease (sy_db y) s'" "operator_accounts s' = operator_accounts (sy_db y)"
      using not_finalized(4) no_new_lease_finalize_sent [OF s1] accounts_simps(5) [OF s1]
        no_new_lease_quarantine no_new_lease_finalizeNegative accounts_simps(6,7) s1 by auto
    show ?thesis unfolding not_finalized(1)
      by (rule move [OF not_finalized(2) versions_kept [OF v c(2)] c(1)]) simp
  qed
qed

text \<open>A store call of the worker that leaves the task where it is, in hand.\<close>

lemma keep_move:
  assumes ok: "system_ok y" and w: "worker_step config (sy_worker y) w'" "hand w' = hand (sy_worker y)"
    and "no_new_lease (sy_db y) s'" "operator_accounts s' = operator_accounts (sy_db y)"
  shows "system_ok (y\<lparr>sy_worker := w', sy_db := s'\<rparr>)"
  by (rule system_move [OF ok])
    (use assms worker_step_ok [OF w(1)] failures_step [OF w(1)] in
      \<open>auto simp: system_ok_def no_new_lease_def versions_positive_def\<close>)

text \<open>A release: the task leaves the hand.\<close>

lemma release_move:
  assumes ok: "system_ok y" and w: "worker_step config (sy_worker y) w'" "hand (sy_worker y) = add_mset t (hand w')"
    and r: "Release at (shown text_of cause) t (sy_db y) = (s', res)"
  shows "system_ok (y\<lparr>sy_worker := w', sy_db := s'\<rparr>)"
proof -
  have "shown text_of cause \<noteq> NilError" by (simp add: shown_def split: option.split)
  note rel = Release_leased [OF r this]
  have "t \<in># hand (sy_worker y)" using w(2) by simp
  then have "leased s' (task_token t) = {}" using rel(1) in_hand_leased(2) [OF ok] by blast
  then show ?thesis
    by (intro system_move [OF ok])
      (use assms worker_step_ok [OF w(1)] failures_step [OF w(1)] accounts_simps(3) [OF r] rel(2) in
        \<open>auto simp: system_ok_def no_new_lease_def versions_positive_def\<close>)
qed

lemma lost_release_move:
  assumes ok: "system_ok y" and w: "worker_step config (sy_worker y) w'" "hand (sy_worker y) = add_mset t (hand w')"
    and r: "Release at (shown text_of cause) t (sy_db y) = (committed, res)" "may_commit (sy_db y) s' committed"
    and f: "\<exists>f \<in> failures w'. covers f e"
  shows "system_ok (y\<lparr>sy_worker := w', sy_db := s', sy_failed := insert (task_token t, e) (sy_failed y)\<rparr>)"
proof -
  note c = may_commit_simps [OF r(2) no_new_lease_Release [OF r(1)] accounts_simps(3) [OF r(1)]]
  show ?thesis
    by (rule system_move [OF ok])
      (use assms c worker_step_ok [OF w(1)] failures_step [OF w(1)] in
        \<open>auto simp: system_ok_def no_new_lease_def versions_positive_def\<close>)
qed

text \<open>A draw: the token is new to the worker; what it holds belongs to the task that came with it.\<close>

lemma draw_move:
  assumes ok: "system_ok y" and fresh: "token \<notin> sy_drawn y"
    and worker: "worker_ok (sy_worker z)" "failures (sy_worker y) \<subseteq> failures (sy_worker z)"
    and db: "versions_positive (sy_db z)"
      "\<And>token'. token' \<in> sy_drawn y \<Longrightarrow> leased (sy_db z) token' \<subseteq> leased (sy_db y) token'"
    and z: "sy_drawn z = insert token (sy_drawn y)" "sy_failed z = sy_failed y"
      "sy_unanswered y \<subseteq> sy_unanswered z" "\<And>token'. token' \<noteq> token \<Longrightarrow> sy_calls z token' = sy_calls y token'"
    and hands: "hand (sy_worker z) = hand (sy_worker y) + taken"
      "\<And>t. t \<in># taken \<Longrightarrow> task_token t = token \<and> leased (sy_db z) token \<subseteq> {task_key t}"
    and new: "leased (sy_db z) token = {} \<or> taken \<noteq> {#} \<or> token \<in> sy_unanswered z"
      "past_admission (sy_calls z token) \<Longrightarrow> leased (sy_db z) token = {}"
  shows "system_ok z"
proof -
  note parts = ok [unfolded system_ok_def]
  have "tokens_in_hand z" unfolding tokens_in_hand_def z(1)
  proof (intro ballI)
    fix t assume "t \<in># hand (sy_worker z)"
    then consider "t \<in># hand (sy_worker y)" | "t \<in># taken" using hands(1) by auto
    then show "task_token t \<in> insert token (sy_drawn y) \<and> leased (sy_db z) (task_token t) \<subseteq> {task_key t}"
    proof cases
      case 1
      then have "task_token t \<in> sy_drawn y" "leased (sy_db y) (task_token t) \<subseteq> {task_key t}"
        using parts by (auto simp: tokens_in_hand_def)
      then show ?thesis using db(2) by blast
    qed (use hands(2) in auto)
  qed
  moreover have "leases_accounted z" unfolding leases_accounted_def z(1)
  proof (intro ballI impI)
    fix x assume x: "x \<in> insert token (sy_drawn y)" "leased (sy_db z) x \<noteq> {}"
    show "(\<exists>t \<in># hand (sy_worker z). task_token t = x) \<or> x \<in> sy_unanswered z \<or> x \<in> fst ` sy_failed z"
    proof (cases "x = token")
      case True
      then show ?thesis using new(1) x(2) hands multiset_nonemptyE by fastforce
    next
      case False
      then have "x \<in> sy_drawn y" "leased (sy_db y) x \<noteq> {}" using x db(2) by blast+
      then show ?thesis using parts hands(1) z(2,3) unfolding leases_accounted_def by fastforce
    qed
  qed
  moreover have "calls_ok z" unfolding calls_ok_def z(1)
  proof (intro ballI impI)
    fix x assume x: "x \<in> insert token (sy_drawn y)" "past_admission (sy_calls z x)"
    show "leased (sy_db z) x = {}"
    proof (cases "x = token")
      case False
      then show ?thesis using x z(4) parts db(2) unfolding calls_ok_def by fastforce
    qed (use new(2) x(2) in blast)
  qed
  moreover have "failures_reported z" unfolding failures_reported_def z(2)
    using parts worker(2) unfolding failures_reported_def by blast
  ultimately show ?thesis using worker(1) db(1) by (simp add: system_ok_def)
qed

lemma claim_step:
  assumes "w_coordinator w = Claiming"
  shows "worker_step config w (after_claim config reply admission w)"
  by (intro worker_step.coordinator coordinator_step.claim_returns assms)

lemma claim_move:
  assumes ok: "system_ok y" and at: "w_coordinator (sy_worker y) = Claiming"
    and fresh: "token \<notin> sy_drawn y" "\<forall>d \<in> set (deliveries (sy_db y)). d_token d \<noteq> Some token"
    and c: "Claim lease at token locked (sy_db y) = (s', res)"
  shows "system_ok (y\<lparr>sy_worker := after_claim config (claim_reply res) admission (sy_worker y), sy_db := s',
    sy_calls := (sy_calls y)(token := NotAdmitted), sy_drawn := insert token (sy_drawn y)\<rparr>)"
proof -
  note parts = ok [unfolded system_ok_def]
  note step = claim_step [OF at, of config "claim_reply res" admission]
  have none: "leased (sy_db y) token = {}"
    using fresh(2) by (auto simp: leased_def holds_lease_def)
  have pos: "\<forall>a \<in> set (operator_accounts (sy_db y)). 0 < oa_version a"
    using parts by (simp add: versions_positive_def)
  note cl = Claim_leased [OF c pos]
  have others: "leased s' token' \<subseteq> leased (sy_db y) token'" if "token' \<in> sy_drawn y" for token'
    using cl(1) that fresh(1) by metis
  define taken where "taken = (case res of Returns t \<Rightarrow> {#t#} | _ \<Rightarrow> {#})"
  have new: "hand (after_claim config (claim_reply res) admission (sy_worker y)) = hand (sy_worker y) + taken"
    "\<And>t. t \<in># taken \<Longrightarrow> task_token t = token \<and> leased s' token \<subseteq> {task_key t}"
    "leased s' token = {} \<or> taken \<noteq> {#}"
    using cl(2) none by (auto simp: hand_after_claim [OF at] taken_def split: outcome.splits)
  show ?thesis
    by (rule draw_move [OF ok fresh(1), where taken = taken])
      (use others new worker_step_ok [OF step] failures_step [OF step] parts
        versions_kept [OF _ accounts_simps(1) [OF c]] in auto)
qed

lemma lost_claim_move:
  assumes ok: "system_ok y" and at: "w_coordinator (sy_worker y) = Claiming" and fresh: "token \<notin> sy_drawn y"
    and c: "Claim lease at token locked (sy_db y) = (committed, res)" "may_commit (sy_db y) s' committed"
  shows "system_ok (y\<lparr>sy_worker := after_claim config (Replied (None, Some e)) admission (sy_worker y), sy_db := s',
    sy_drawn := insert token (sy_drawn y), sy_unanswered := insert token (sy_unanswered y),
    sy_calls := (sy_calls y)(token := NotAdmitted)\<rparr>)"
proof -
  note parts = ok [unfolded system_ok_def]
  note step = claim_step [OF at, of config "Replied (None, Some e)" admission]
  have pos: "\<forall>a \<in> set (operator_accounts (sy_db y)). 0 < oa_version a"
    using parts by (simp add: versions_positive_def)
  have others: "leased s' token' \<subseteq> leased (sy_db y) token'" if "token' \<in> sy_drawn y" for token'
    using Claim_leased(1) [OF c(1) pos, of token'] c(2) that fresh by (auto simp: may_commit_def)
  have v: "versions_positive s'"
    using c(2) parts versions_kept [OF _ accounts_simps(1) [OF c(1)]] by (auto simp: may_commit_def)
  show ?thesis
    by (rule draw_move [OF ok fresh, where taken = "{#}"])
      (use others worker_step_ok [OF step] failures_step [OF step] v parts in
        \<open>auto simp: hand_after_claim [OF at]\<close>)
qed

text \<open>The end of an execution.\<close>

lemma executed_move:
  assumes ok: "system_ok y" and at: "executing_at y i t"
    and gone: "reply = Replied None \<Longrightarrow> leased (sy_db y) (task_token t) = {}"
  shows "system_ok (y\<lparr>sy_worker := after_execute config i t reply (sy_worker y)\<rparr>)"
proof -
  let ?w = "sy_worker y" and ?v = "after_execute config i t reply (sy_worker y)"
  from at obtain command deadline where e: "i < length (w_executions ?w)"
    "w_executions ?w ! i = Executing t command deadline" by blast
  from split_at [OF e] obtain xs ys where es: "w_executions ?w = xs @ Executing t command deadline # ys" "length xs = i"
    by blast
  have step: "worker_step config ?w ?v"
    by (rule worker_step.execution [OF execution_step.execute_returns [OF e]])
  have hands: "hand ?v = hand ?w \<or> reply = Replied None \<and> hand ?w = add_mset t (hand ?v)"
    using hand_put_execution [OF es(1), of "ReleasingPanicked t f d" for f d]
      hand_put_execution [OF es(1), of "ReleasingFailed t f d" for f d]
      hand_leave_slot(1) [OF es(1), of "Succeeded t"] es(2)
    by (auto simp: after_execute_def split: reply.split option.split)
  show ?thesis
    by (rule system_move [OF ok])
      (use ok hands gone worker_step_ok [OF step] failures_step [OF step] in \<open>auto simp: system_ok_def\<close>)
qed

lemma execution_release_step:
  assumes "i < length (w_executions w)" "execution_release i (w_executions w ! i) = Some (t, failure, continue)"
  shows "worker_step config w (continue reply w)" "hand w = add_mset t (hand (continue reply w))"
proof -
  obtain deadline where c: "w_executions w ! i = ReleasingPanicked t failure deadline \<and> continue = after_panic_release i t failure
      \<or> w_executions w ! i = ReleasingFailed t failure deadline \<and> continue = after_failed_release i t failure"
    using assms(2) by (auto simp: execution_release_def split: execution.splits)
  then show "worker_step config w (continue reply w)"
    using assms(1) by (auto intro: worker_step.execution execution_step.panic_released execution_step.failure_released)
  define x where "x = w_executions w ! i"
  from split_at [OF assms(1) x_def [symmetric]] obtain xs ys where
    es: "w_executions w = xs @ x # ys" "length xs = i" by blast
  have "execution_hand x = {#t#}" using c by (auto simp: x_def)
  then show "hand w = add_mset t (hand (continue reply w))"
    using hand_leave_slot(1) [OF es(1), of "ReleasedAfter t"] hand_leave_slot(2) [OF es(1), of _ "ReleasedAfter t"]
      c es(2) by (auto simp: after_panic_release_def after_failed_release_def Let_def)
qed

lemma system_step_ok:
  assumes "system_step config lease text_of y z" "system_ok y"
  shows "system_ok z"
proof -
  note ok = assms(2) and parts = assms(2) [unfolded system_ok_def]
  from assms(1) show ?thesis
  proof cases
    case (peer s')
    show ?thesis unfolding peer(1)
      by (rule system_move [OF ok]) (use parts peer(3) peer_step_leased [OF peer(2)] in auto)
  next
    case (local w')
    note step = local_worker_step [OF local(2)]
    show ?thesis unfolding local(1)
      by (rule system_move [OF ok])
        (use parts worker_step_ok [OF step] failures_step [OF step] hand_local_step [OF local(2)] in auto)
  next
    case dispatches
    then show ?thesis using dispatch_step_ok ok by blast
  next
    case (claims token at locked s' res admission)
    show ?thesis unfolding claims(1) by (rule claim_move [OF ok claims(2-5)])
  next
    case (claim_lost token at locked committed res s' e admission)
    show ?thesis unfolding claim_lost(1) by (rule lost_claim_move [OF ok claim_lost(2-5)])
  next
    case (renews t command at s' res)
    show ?thesis unfolding renews(1)
      by (rule keep_move [OF ok worker_step.coordinator [OF coordinator_step.renew_returns [OF renews(2)]]
            hand_after_renew [OF renews(2)] no_new_lease_Renew [OF renews(3)] accounts_simps(2) [OF renews(3)]])
  next
    case (renew_lost t command at committed res s' e)
    note c = may_commit_simps [OF renew_lost(4) no_new_lease_Renew [OF renew_lost(3)]
        accounts_simps(2) [OF renew_lost(3)]]
    show ?thesis unfolding renew_lost(1)
      by (rule keep_move [OF ok worker_step.coordinator [OF coordinator_step.renew_returns [OF renew_lost(2)]]
            hand_after_renew [OF renew_lost(2)] c])
  next
    case (releases t cause deadline after at s' res)
    show ?thesis unfolding releases(1)
      by (rule release_move [OF ok worker_step.coordinator [OF coordinator_step.release_returns [OF releases(2)]]
            hand_after_release [OF releases(2)] releases(3)])
  next
    case (release_lost t cause deadline after at committed res s' e)
    show ?thesis unfolding release_lost(1)
      by (rule lost_release_move [OF ok
            worker_step.coordinator [OF coordinator_step.release_returns [OF release_lost(2)]]
            hand_after_release [OF release_lost(2)] release_lost(3,4) release_failure_recorded])
  next
    case (executed i t res)
    have "execute_reply res = Replied None \<Longrightarrow> leased (sy_db y) (task_token t) = {}"
      using parts executed(3) in_hand_leased(1) [OF ok executing_in_hand [OF executed(2)]]
      by (cases res) (auto simp: calls_ok_def)
    then show ?thesis unfolding executed(1) by (rule executed_move [OF ok executed(2)])
  next
    case (panicked i t v)
    show ?thesis unfolding panicked(1) by (rule executed_move [OF ok panicked(2)]) simp
  next
    case (gives_back i t failure continue at s' res)
    show ?thesis unfolding gives_back(1)
      by (rule release_move [OF ok execution_release_step [OF gives_back(2,3)] gives_back(4)])
  next
    case (give_back_lost i t failure continue at committed res s' e)
    show ?thesis unfolding give_back_lost(1)
      by (rule lost_release_move [OF ok execution_release_step [OF give_back_lost(2,3)] give_back_lost(4,5)
            execution_failure_recorded [OF give_back_lost(3)]])
  qed
qed

definition system_init :: "worker_config \<Rightarrow> ('a, 'c) system \<Rightarrow> bool" where
  "system_init config y \<longleftrightarrow> worker_init config (sy_worker y) \<and> versions_positive (sy_db y)
     \<and> sy_drawn y = {} \<and> sy_unanswered y = {} \<and> sy_failed y = {}"

lemma system_init_ok: "system_init config y \<Longrightarrow> system_ok y"
proof -
  assume i: "system_init config y"
  then have "hand (sy_worker y) = {#}"
    by (auto simp: system_init_def worker_init_def Run_def start_worker_def hand_def
        split: option.splits dest: sym)
  then show ?thesis using i worker_init_ok [of config "sy_worker y"]
    by (simp add: system_init_def system_ok_def system_ok_defs)
qed

interpretation worker_queue: invariant_system "system_init config" "system_step config lease text_of" system_ok
  for config lease text_of by unfold_locales (rule system_init_ok, assumption, rule system_step_ok)

section \<open>The property\<close>

text \<open>C4: a worker that has shut down in time leaves no lease behind. Over the PostgreSQL queue, with
  other processes running transactions at any moment and any call of the store failing before or after
  its commit: once \<open>Run\<close> has returned without the shutdown timeout, no pending delivery is leased under
  a token this worker drew, except where the answer of the claim itself was lost, or where giving the
  task back failed and the returned error carries that failure.\<close>
theorem leases_given_back:
  assumes "reachable (system_init config) (system_step config lease text_of) y"
    and "w_run (sy_worker y) = Returned (Some e)" and "\<not> errors_is e ErrShutdownTimeout"
    and "d \<in> set (deliveries (sy_db y))" "d_status d = DPending" "d_token d = Some token" "token \<in> sy_drawn y"
  shows "token \<in> sy_unanswered y
    \<or> (\<exists>f. (token, f) \<in> sy_failed y \<and> (\<forall>s. errors_is f s \<longrightarrow> errors_is e s))"
proof -
  note ok = worker_queue.inv_reachable [OF assms(1), unfolded system_ok_def]
  have quiet: "quiet (sy_worker y)" "explained (sy_worker y) e"
    using ok assms(2,3) by (auto simp: worker_ok_def)
  then have "hand (sy_worker y) = {#}" by (simp add: hand_def quiet_def closed_iff)
  moreover have "leased (sy_db y) token \<noteq> {}"
    using assms(4-6) by (auto simp: leased_def holds_lease_def)
  ultimately have "token \<in> sy_unanswered y \<or> token \<in> fst ` sy_failed y"
    using ok assms(7) by (simp add: leases_accounted_def)
  then consider "token \<in> sy_unanswered y" | f where "(token, f) \<in> sy_failed y" by force
  then show ?thesis
  proof cases
    case (2 f)
    then obtain g where "g \<in> failures (sy_worker y)" "covers g f"
      using ok by (auto simp: failures_reported_def)
    then have "covers e f" using quiet(2) covers_trans by (auto simp: explained_def failures_def)
    then show ?thesis using 2 by (auto simp: covers_def)
  qed blast
qed

section \<open>A shutdown that loses a lease\<close>

text \<open>The task of the first demo delivery is claimed, its command cannot be resolved, and the release does
  not reach the database.\<close>

definition lost_task :: task where
  "lost_task = \<lparr>task_route = 20, task_version = 3, task_key = Coordinates 10 40 30, task_token = 50\<rparr>"

type_synonym lost_worker = "(task, unit, unit) worker"

definition lost_claiming :: lost_worker where
  "lost_claiming = at_point Claiming ((start_worker 0)\<lparr>w_slots := 1\<rparr>)"

definition lost_resolving :: lost_worker where
  "lost_resolving = after_claim Defaults (Replied (Some lost_task, None)) (Replied (Some ())) lost_claiming"

definition lost_releasing :: lost_worker where
  "lost_releasing = after_resolve Defaults lost_task (Replied (None, Some (Foreign ''no runtime''))) lost_resolving"

definition lost_released :: lost_worker where
  "lost_released = after_release lost_task (AfterResolve (Foreign ''no runtime''))
     (Replied (Some (Foreign ''connection lost''))) lost_releasing"

definition lost_stopping :: lost_worker where
  "lost_stopping = fatal_signalled lost_released"

definition lost_cause :: go_error where
  "lost_cause = Join [Wrap ''resolve delivery command'' [Foreign ''no runtime''], Foreign ''connection lost'']"

definition lost_draining :: lost_worker where
  "lost_draining = begin_drain Defaults lost_cause lost_stopping"

definition lost_cleaning :: lost_worker where
  "lost_cleaning = begin_cleanup Defaults lost_cause 10000000000 lost_draining"

definition lost_returned :: lost_worker where
  "lost_returned = finish_run lost_cause True lost_cleaning"

lemma lost_worker_evaluates:
  "w_coordinator lost_claiming = Claiming" "w_coordinator lost_resolving = Resolving lost_task ()"
  "w_coordinator lost_releasing
     = Releasing lost_task (Foreign ''no runtime'') 2000000000 (AfterResolve (Foreign ''no runtime''))"
  "w_run lost_released = Selecting" "fs_signal (w_failures lost_released)"
  "w_run lost_stopping = Stopping lost_cause"
  "w_run lost_draining = Draining lost_cause 8000000000 10000000000" "w_now lost_draining = 0"
  "at_done (w_active lost_draining)"
  "w_run lost_cleaning = Cleaning lost_cause 2000000000" "w_now lost_cleaning = 0"
  "at_done (w_active lost_cleaning)" "coordinator_closed lost_cleaning"
  "w_run lost_returned = Returned (Some (Join [lost_cause]))"
  by code_simp+

definition lost_system :: "lost_worker \<Rightarrow> db \<Rightarrow> uuid set \<Rightarrow> (uuid \<times> go_error) set \<Rightarrow> (unit, unit) system" where
  "lost_system w s drawn failed = \<lparr>sy_worker = w, sy_db = s, sy_calls = (\<lambda>_. NotAdmitted), sy_drawn = drawn,
     sy_unanswered = {}, sy_failed = failed\<rparr>"

lemma lost_local:
  "local_step Defaults w w' \<Longrightarrow> system_step Defaults lease text_of (lost_system w s drawn failed) (lost_system w' s drawn failed)"
  using system_step.local [of Defaults "lost_system w s drawn failed" w' lease text_of]
  by (simp add: lost_system_def)

lemma lost_claim: "Claim (30 * second) 5 50 {} (p_db demo_queued) = (p_db demo_claimed, Returns lost_task)"
proof -
  have "snd (Claim (30 * second) 5 50 {} (p_db demo_queued)) = Returns lost_task" by code_simp
  then show ?thesis by (simp add: demo_claimed_def with_db_def prod_eq_iff)
qed

lemma lost_row: "\<exists>d \<in> set (deliveries (p_db demo_claimed)). d_status d = DPending \<and> d_token d = Some 50"
  by code_simp

lemma lost_system_steps:
  defines "failed \<equiv> {(50, Foreign ''connection lost'')}"
  defines "step \<equiv> system_step Defaults (30 * second) (\<lambda>_. None)"
  shows "step (lost_system (start_worker 0) (p_db demo_queued) {} {}) (lost_system lost_claiming (p_db demo_queued) {} {})"
    "step (lost_system lost_claiming (p_db demo_queued) {} {}) (lost_system lost_resolving (p_db demo_claimed) {50} {})"
    "step (lost_system lost_resolving (p_db demo_claimed) {50} {}) (lost_system lost_releasing (p_db demo_claimed) {50} {})"
    "step (lost_system lost_releasing (p_db demo_claimed) {50} {}) (lost_system lost_released (p_db demo_claimed) {50} failed)"
    "step (lost_system lost_released s {50} failed) (lost_system lost_stopping s {50} failed)"
    "step (lost_system lost_stopping s {50} failed) (lost_system lost_draining s {50} failed)"
    "step (lost_system lost_draining s {50} failed) (lost_system lost_cleaning s {50} failed)"
    "step (lost_system lost_cleaning s {50} failed) (lost_system lost_returned s {50} failed)"
proof -
  note at = lost_worker_evaluates
  have take: "coordinator_step Defaults (start_worker 0) lost_claiming"
    using coordinator_step.take_slot [of "start_worker 0 :: lost_worker"]
    by (simp add: lost_claiming_def start_worker_def executionCapacity_def)
  show "step (lost_system (start_worker 0) (p_db demo_queued) {} {}) (lost_system lost_claiming (p_db demo_queued) {} {})"
    unfolding step_def by (rule lost_local [OF local_step.waits [OF take]]) (simp add: start_worker_def)
  show "step (lost_system lost_claiming (p_db demo_queued) {} {}) (lost_system lost_resolving (p_db demo_claimed) {50} {})"
  proof -
    have "\<forall>d \<in> set (deliveries (p_db demo_queued)). d_token d \<noteq> Some 50" by code_simp
    then show ?thesis
      using system_step.claims [of "lost_system lost_claiming (p_db demo_queued) {} {}" 50 "30 * second" 5 "{}"
          "p_db demo_claimed" "Returns lost_task" Defaults "\<lambda>_. None" "Replied (Some ())"] lost_claim at(1)
      by (simp add: step_def lost_system_def lost_resolving_def fun_upd_idem)
  qed
  show "step (lost_system lost_resolving (p_db demo_claimed) {50} {}) (lost_system lost_releasing (p_db demo_claimed) {50} {})"
    unfolding step_def lost_releasing_def by (rule lost_local [OF local_step.resolves [OF at(2)]])
  show "step (lost_system lost_releasing (p_db demo_claimed) {50} {}) (lost_system lost_released (p_db demo_claimed) {50} failed)"
  proof -
    obtain committed res where r: "Release 5 (shown (\<lambda>_. None) (Foreign ''no runtime'')) lost_task (p_db demo_claimed)
        = (committed, res)" by fastforce
    show ?thesis
      using system_step.release_lost [of "lost_system lost_releasing (p_db demo_claimed) {50} {}" lost_task
          "Foreign ''no runtime''" 2000000000 "AfterResolve (Foreign ''no runtime'')" 5 "\<lambda>_. None" committed res
          "p_db demo_claimed" Defaults "30 * second" "Foreign ''connection lost''"] at(3) r
      by (simp add: step_def failed_def lost_system_def lost_released_def may_commit_def)
        (simp add: lost_task_def)
  qed
  show "step (lost_system lost_released s {50} failed) (lost_system lost_stopping s {50} failed)"
    unfolding step_def lost_stopping_def
    by (intro lost_local local_step.runs run_step.select_fatal at(4,5))
  show "step (lost_system lost_stopping s {50} failed) (lost_system lost_draining s {50} failed)"
    unfolding step_def lost_draining_def by (intro lost_local local_step.runs run_step.drain at(6))
  show "step (lost_system lost_draining s {50} failed) (lost_system lost_cleaning s {50} failed)"
    unfolding step_def lost_cleaning_def
    by (rule lost_local [OF local_step.runs [OF run_step.cleanup [OF at(7), where drained = True]]])
      (simp add: waitForChannelsUntil_def at)
  show "step (lost_system lost_cleaning s {50} failed) (lost_system lost_returned s {50} failed)"
    unfolding step_def lost_returned_def
    by (rule lost_local [OF local_step.runs [OF run_step.return [OF at(10)]]])
      (simp add: waitForChannelsUntil_def at)
qed

lemma lost_reachable:
  "reachable (system_init Defaults) (system_step Defaults (30 * second) (\<lambda>_. None))
     (lost_system lost_returned (p_db demo_claimed) {50} {(50, Foreign ''connection lost'')})"
proof (rule reachable_run)
  have "Validate Defaults = None" "\<forall>a \<in> set (operator_accounts (p_db demo_queued)). 0 < oa_version a"
    by code_simp+
  then show "reachable (system_init Defaults) (system_step Defaults (30 * second) (\<lambda>_. None))
      (lost_system (start_worker 0) (p_db demo_queued) {} {})"
    by (intro reachable.initial)
      (simp add: system_init_def lost_system_def worker_init_def Run_def versions_positive_def, blast)
qed (use lost_system_steps in \<open>meson converse_rtranclp_into_rtranclp rtranclp.rtrancl_refl\<close>)

theorem leases_given_back_witness:
  "\<exists>f. (50, f) \<in> {(50 :: uuid, Foreign ''connection lost'')} \<and> (\<forall>s. errors_is f s \<longrightarrow> errors_is (Join [lost_cause]) s)"
proof -
  obtain d where d: "d \<in> set (deliveries (p_db demo_claimed))" "d_status d = DPending" "d_token d = Some 50"
    using lost_row by blast
  let ?y = "lost_system lost_returned (p_db demo_claimed) {50} {(50, Foreign ''connection lost'')}"
  have y: "w_run (sy_worker ?y) = Returned (Some (Join [lost_cause]))" "sy_db ?y = p_db demo_claimed"
    "50 \<in> sy_drawn ?y" "sy_unanswered ?y = {}" "sy_failed ?y = {(50, Foreign ''connection lost'')}"
    by (simp_all add: lost_system_def lost_worker_evaluates)
  have "\<not> errors_is (Join [lost_cause]) ErrShutdownTimeout" by (simp add: lost_cause_def)
  from leases_given_back [OF lost_reachable y(1) this, of d 50] show ?thesis
    unfolding y using d y(3) by blast
qed

end
