(* ===== verification/Base64.thy ===== *)
theory Base64
  imports Prelude
begin

text \<open>
  The part of Go's \<open>encoding/base64\<close> and \<open>strings\<close>/\<open>strconv\<close> packages that the operator
  credential code uses: the unpadded standard and URL encodings over strings of bytes (a Go
  \<open>string\<close> or \<open>[]byte\<close> is a list of \<open>char\<close>, which has exactly 256 values), \<open>strings.Split\<close> at a
  one-byte separator, decimal printing and \<open>strconv.ParseUint\<close>, with their round trips.
\<close>

section \<open>Alphabets\<close>

definition std_alphabet :: string where
  "std_alphabet = ''ABCDEFGHIJKLMNOPQRSTUVWXYZabcdefghijklmnopqrstuvwxyz0123456789+/''"

definition url_alphabet :: string where
  "url_alphabet = ''ABCDEFGHIJKLMNOPQRSTUVWXYZabcdefghijklmnopqrstuvwxyz0123456789-_''"

definition alphabet_ok :: "string \<Rightarrow> bool" where
  "alphabet_ok alphabet \<longleftrightarrow> length alphabet = 64 \<and> distinct alphabet
     \<and> CHR ''='' \<notin> set alphabet \<and> CHR 0x0A \<notin> set alphabet \<and> CHR 0x0D \<notin> set alphabet"

lemma std_alphabet_ok [simp]: "alphabet_ok std_alphabet"
  by code_simp

lemma url_alphabet_ok [simp]: "alphabet_ok url_alphabet"
  by code_simp

definition sextet :: "string \<Rightarrow> char \<Rightarrow> nat" where
  "sextet alphabet c = length (takeWhile (\<lambda>d. d \<noteq> c) alphabet)"

lemma sextet_nth [simp]:
  assumes "alphabet_ok alphabet" and "n < 64"
  shows "sextet alphabet (alphabet ! n) = n"
proof -
  have n: "n < length alphabet" and d: "distinct alphabet" using assms by (auto simp: alphabet_ok_def)
  have "takeWhile (\<lambda>d. d \<noteq> alphabet ! n) alphabet = take n alphabet"
    by (rule takeWhile_eq_take_P_nth) (use n d in \<open>auto simp: nth_eq_iff_index_eq\<close>)
  then show ?thesis using n by (simp add: sextet_def)
qed

lemma sextet_less:
  assumes "c \<in> set alphabet"
  shows "sextet alphabet c < length alphabet"
proof -
  have "takeWhile (\<lambda>d. d \<noteq> c) alphabet \<noteq> alphabet" using assms by (auto simp: takeWhile_eq_all_conv)
  then show ?thesis
    using length_takeWhile_le [of "\<lambda>d. d \<noteq> c" alphabet] takeWhile_eq_take [of "\<lambda>d. d \<noteq> c" alphabet]
    unfolding sextet_def by (metis le_neq_implies_less order_refl take_all_iff)
qed

lemma nth_sextet [simp]:
  assumes "c \<in> set alphabet"
  shows "alphabet ! sextet alphabet c = c"
  using nth_length_takeWhile [OF sextet_less [OF assms, unfolded sextet_def]]
  by (simp add: sextet_def)

section \<open>Quanta\<close>

definition bits24 :: "nat \<Rightarrow> nat list" where
  "bits24 v = [v div 262144, v div 4096 mod 64, v div 64 mod 64, v mod 64]"

definition bytes24 :: "nat \<Rightarrow> nat list" where
  "bytes24 v = [v div 65536, v div 256 mod 256, v mod 256]"

definition join_bytes :: "nat \<Rightarrow> nat \<Rightarrow> nat \<Rightarrow> nat" where
  "join_bytes a b c = a * 65536 + b * 256 + c"

definition join_sextets :: "nat \<Rightarrow> nat \<Rightarrow> nat \<Rightarrow> nat \<Rightarrow> nat" where
  "join_sextets p q r s = p * 262144 + q * 4096 + r * 64 + s"

lemma mod_low: "(s::nat) < m \<Longrightarrow> n = k * m + s \<Longrightarrow> n mod m = s"
  by simp

lemma bytes24_join [simp]:
  assumes "b < 256" and "c < 256"
  shows "bytes24 (join_bytes a b c) = [a, b, c]"
proof -
  have "(a * 65536 + b * 256 + c) div 65536 = a" by (rule div_nat_eqI) (use assms in simp_all)
  moreover have "(a * 65536 + b * 256 + c) div 256 = a * 256 + b" using assms by simp
  moreover have "(a * 65536 + b * 256 + c) mod 256 = c"
    by (rule mod_low [OF assms(2), of _ "a * 256 + b"]) simp
  ultimately show ?thesis using assms by (simp add: bytes24_def join_bytes_def)
qed

lemma join_sextets_bits24 [simp]:
  "join_sextets (v div 262144) (v div 4096 mod 64) (v div 64 mod 64) (v mod 64) = v"
proof -
  define w where "w = v div 64"
  define x where "x = w div 64"
  have "v div 262144 = x div 64" and "v div 4096 = x"
    by (simp_all add: x_def w_def div_mult2_eq [symmetric])
  moreover have "x div 64 * 64 + x mod 64 = x" and "x * 64 + w mod 64 = w" and "w * 64 + v mod 64 = v"
    unfolding x_def w_def by (rule div_mult_mod_eq)+
  ultimately show ?thesis unfolding join_sextets_def w_def [symmetric] by (simp only:)
qed

lemma bits24_join [simp]:
  assumes "q < 64" and "r < 64" and "s < 64"
  shows "bits24 (join_sextets p q r s) = [p, q, r, s]"
proof -
  have a: "join_sextets p q r s div 64 = p * 4096 + q * 64 + r"
    using assms by (simp add: join_sextets_def)
  have b: "join_sextets p q r s div 4096 = p * 64 + q"
    using assms by (simp add: join_sextets_def)
  have c: "join_sextets p q r s div 262144 = p"
    using assms by (simp add: join_sextets_def)
  have d: "join_sextets p q r s mod 64 = s"
    by (rule mod_low [OF assms(3), of _ "p * 4096 + q * 64 + r"]) (simp add: join_sextets_def)
  have e: "(p * 4096 + q * 64 + r) mod 64 = r"
    by (rule mod_low [OF assms(2), of _ "p * 64 + q"]) simp
  show ?thesis unfolding bits24_def a b c d e using assms by simp
qed

lemma bits24_bound:
  assumes "a < 256" and "b < 256" and "c < 256"
  shows "\<forall>x \<in> set (bits24 (join_bytes a b c)). x < 64"
  using assms by (simp add: bits24_def join_bytes_def less_mult_imp_div_less)

section \<open>RawEncoding.EncodeToString and DecodeString\<close>

definition byte_value :: "char \<Rightarrow> nat" where
  "byte_value c = of_char c"

definition byte_of :: "nat \<Rightarrow> char" where
  "byte_of n = char_of n"

lemma byte_value_less [simp]: "byte_value c < 256"
  by (simp add: byte_value_def)

lemma byte_of_value [simp]: "byte_of (byte_value c) = c"
  by (simp add: byte_of_def byte_value_def)

lemma byte_value_of [simp]: "n < 256 \<Longrightarrow> byte_value (byte_of n) = n"
  by (simp add: byte_value_def byte_of_def)

fun EncodeToString :: "string \<Rightarrow> string \<Rightarrow> string" where
  "EncodeToString alphabet [] = []"
| "EncodeToString alphabet [a] =
     map (nth alphabet) (take 2 (bits24 (join_bytes (byte_value a) 0 0)))"
| "EncodeToString alphabet [a, b] =
     map (nth alphabet) (take 3 (bits24 (join_bytes (byte_value a) (byte_value b) 0)))"
| "EncodeToString alphabet (a # b # c # rest) =
     map (nth alphabet) (bits24 (join_bytes (byte_value a) (byte_value b) (byte_value c)))
       @ EncodeToString alphabet rest"

text \<open>\<open>decodeQuantum\<close> drops the carriage returns and line feeds, refuses every other character
  outside the alphabet and a last group of one character, and ignores the unused low bits of a
  short last group (the encodings are not \<open>Strict\<close>).\<close>

fun decode_groups :: "string \<Rightarrow> string \<Rightarrow> string option" where
  "decode_groups alphabet [] = Some []"
| "decode_groups alphabet [p] = None"
| "decode_groups alphabet [p, q] =
     Some (map byte_of (take 1 (bytes24 (join_sextets (sextet alphabet p) (sextet alphabet q) 0 0))))"
| "decode_groups alphabet [p, q, r] =
     Some (map byte_of (take 2 (bytes24
       (join_sextets (sextet alphabet p) (sextet alphabet q) (sextet alphabet r) 0))))"
| "decode_groups alphabet (p # q # r # s # rest) =
     map_option (\<lambda>bytes. map byte_of (bytes24 (join_sextets (sextet alphabet p) (sextet alphabet q)
         (sextet alphabet r) (sextet alphabet s))) @ bytes) (decode_groups alphabet rest)"

definition DecodeString :: "string \<Rightarrow> string \<Rightarrow> string option" where
  "DecodeString alphabet encoded =
     (let kept = filter (\<lambda>c. c \<noteq> CHR 0x0A \<and> c \<noteq> CHR 0x0D) encoded
      in if set kept \<subseteq> set alphabet then decode_groups alphabet kept else None)"

definition EncodedLen :: "nat \<Rightarrow> nat" where
  "EncodedLen n = n div 3 * 4 + (n mod 3 * 8 + 5) div 6"

definition DecodedLen :: "nat \<Rightarrow> nat" where
  "DecodedLen n = n div 4 * 3 + n mod 4 * 6 div 8"

lemma length_bits24 [simp]: "length (bits24 v) = 4"
  by (simp add: bits24_def)

lemma length_bytes24 [simp]: "length (bytes24 v) = 3"
  by (simp add: bytes24_def)

lemma length_EncodeToString [simp]: "length (EncodeToString alphabet bytes) = EncodedLen (length bytes)"
  by (induction alphabet bytes rule: EncodeToString.induct) (simp_all add: EncodedLen_def div_add_self1)

lemma length_decode_groups:
  "decode_groups alphabet kept = Some bytes \<Longrightarrow> length bytes = DecodedLen (length kept)"
  by (induction alphabet kept arbitrary: bytes rule: decode_groups.induct) (auto simp: DecodedLen_def div_add_self1)

lemma bits24_alphabet:
  assumes "alphabet_ok alphabet" and "a < 256" and "b < 256" and "c < 256"
    and "x \<in> set (bits24 (join_bytes a b c))"
  shows "alphabet ! x \<in> set alphabet"
  using bits24_bound [OF assms(2-4)] assms(1,5) by (simp add: alphabet_ok_def)

lemma EncodeToString_alphabet:
  "alphabet_ok alphabet \<Longrightarrow> set (EncodeToString alphabet bytes) \<subseteq> set alphabet"
  by (induction alphabet bytes rule: EncodeToString.induct)
     (auto dest!: in_set_takeD elim!: bits24_alphabet [rotated 4])

section \<open>Decoding inverts encoding\<close>

lemma four_elements:
  "length xs = 4 \<Longrightarrow> xs = [xs ! 0, xs ! 1, xs ! 2, xs ! 3]"
  by (simp add: list_eq_iff_nth_eq numeral_eq_Suc less_Suc_eq)

lemma sextets_of_bits24:
  assumes "alphabet_ok alphabet" and "a < 256" and "b < 256" and "c < 256"
    and "bits24 (join_bytes a b c) = [p, q, r, s]"
  shows "sextet alphabet (alphabet ! p) = p" and "sextet alphabet (alphabet ! q) = q"
    and "sextet alphabet (alphabet ! r) = r" and "sextet alphabet (alphabet ! s) = s"
    and "join_sextets p q r s = join_bytes a b c"
proof -
  have "p < 64 \<and> q < 64 \<and> r < 64 \<and> s < 64" using bits24_bound [OF assms(2-4)] assms(5) by simp
  then show "sextet alphabet (alphabet ! p) = p" and "sextet alphabet (alphabet ! q) = q"
    and "sextet alphabet (alphabet ! r) = r" and "sextet alphabet (alphabet ! s) = s"
    using assms(1) by simp_all
  show "join_sextets p q r s = join_bytes a b c"
    using assms(5) join_sextets_bits24 [of "join_bytes a b c"] by (auto simp: bits24_def)
qed

lemma short_group_bits:
  "bits24 (join_bytes a 0 0) = [p, q, r, s] \<Longrightarrow> r = 0 \<and> s = 0"
  "bits24 (join_bytes a b 0) = [p, q, r, s] \<Longrightarrow> s = 0"
proof -
  have "a * 65536 div 64 mod 64 = 0" and "a * 65536 mod 64 = 0"
    using mod_low [of 0 64 _ "a * 16"] mod_low [of 0 64 _ "a * 1024"] by simp_all
  then show "bits24 (join_bytes a 0 0) = [p, q, r, s] \<Longrightarrow> r = 0 \<and> s = 0"
    by (auto simp: bits24_def join_bytes_def)
  have "(a * 65536 + b * 256) mod 64 = 0" by (rule mod_low [of _ _ _ "a * 1024 + b * 4"]) simp_all
  then show "bits24 (join_bytes a b 0) = [p, q, r, s] \<Longrightarrow> s = 0"
    by (auto simp: bits24_def join_bytes_def)
qed

lemma decode_groups_encode:
  assumes "alphabet_ok alphabet"
  shows "decode_groups alphabet (EncodeToString alphabet bytes) = Some bytes"
  using assms
proof (induction alphabet bytes rule: EncodeToString.induct)
  case (2 alphabet a)
  obtain p q r s where b: "bits24 (join_bytes (byte_value a) 0 0) = [p, q, r, s]"
    using four_elements [OF length_bits24] by metis
  show ?case
    using sextets_of_bits24 [OF "2.prems" _ _ _ b] short_group_bits(1) [OF b]
    by (simp add: b numeral_eq_Suc [of "num.Bit0 num.One"])
next
  case (3 alphabet a b)
  obtain p q r s where b: "bits24 (join_bytes (byte_value a) (byte_value b) 0) = [p, q, r, s]"
    using four_elements [OF length_bits24] by metis
  show ?case
    using sextets_of_bits24 [OF "3.prems" _ _ _ b] short_group_bits(2) [OF b] by (simp add: b)
next
  case (4 alphabet a b c rest)
  obtain p q r s where b: "bits24 (join_bytes (byte_value a) (byte_value b) (byte_value c)) = [p, q, r, s]"
    using four_elements [OF length_bits24] by metis
  show ?case
    using sextets_of_bits24 [OF "4.prems" _ _ _ b] 4 by (simp add: b)
qed simp

lemma DecodeString_EncodeToString [simp]:
  assumes "alphabet_ok alphabet"
  shows "DecodeString alphabet (EncodeToString alphabet bytes) = Some bytes"
proof -
  let ?e = "EncodeToString alphabet bytes"
  have "set ?e \<subseteq> set alphabet" by (rule EncodeToString_alphabet [OF assms])
  moreover from this have "filter (\<lambda>c. c \<noteq> CHR 0x0A \<and> c \<noteq> CHR 0x0D) ?e = ?e"
    using assms by (auto simp: filter_id_conv alphabet_ok_def)
  ultimately show ?thesis by (simp add: DecodeString_def decode_groups_encode [OF assms])
qed

lemma DecodedLen_div: "DecodedLen n = n * 3 div 4"
proof -
  have "n * 3 = n mod 4 * 3 + 4 * (n div 4 * 3)" using div_mult_mod_eq [of n 4] by linarith
  then have "n * 3 div 4 = n div 4 * 3 + n mod 4 * 3 div 4" by (metis add.commute div_mult_self2 zero_neq_numeral)
  then show ?thesis by (simp add: DecodedLen_def)
qed

lemma length_DecodeString:
  assumes "DecodeString alphabet encoded = Some bytes"
  shows "length bytes \<le> DecodedLen (length encoded)"
proof -
  let ?kept = "filter (\<lambda>c. c \<noteq> CHR 0x0A \<and> c \<noteq> CHR 0x0D) encoded"
  have "length bytes = DecodedLen (length ?kept)"
    using assms by (auto simp: DecodeString_def Let_def split: if_splits dest: length_decode_groups)
  moreover have "length ?kept \<le> length encoded" by simp
  ultimately show ?thesis by (simp add: DecodedLen_div div_le_mono)
qed

section \<open>\<open>strings.Split\<close> at a one-byte separator\<close>

fun Split :: "char \<Rightarrow> string \<Rightarrow> string list" where
  "Split sep [] = [[]]"
| "Split sep (c # s) =
     (if c = sep then [] # Split sep s
      else (case Split sep s of [] \<Rightarrow> [[c]] | part # parts \<Rightarrow> (c # part) # parts))"

fun Join :: "char \<Rightarrow> string list \<Rightarrow> string" where
  "Join sep [] = []"
| "Join sep [part] = part"
| "Join sep (part # parts) = part @ sep # Join sep parts"

lemma Split_not_Nil [simp]: "Split sep s \<noteq> []"
  by (cases s) (auto split: list.splits)

lemma Split_free [simp]: "sep \<notin> set s \<Longrightarrow> Split sep s = [s]"
  by (induction s) auto

lemma Split_append [simp]: "sep \<notin> set part \<Longrightarrow> Split sep (part @ sep # s) = part # Split sep s"
  by (induction part) auto

lemma Join_Cons: "parts \<noteq> [] \<Longrightarrow> Join sep (part # parts) = part @ sep # Join sep parts"
  by (cases parts) auto

lemma Join_Split [simp]: "Join sep (Split sep s) = s"
proof (induction s)
  case (Cons c s)
  then show ?case
    by (cases "Split sep s") (auto simp: Join_Cons split: list.splits, metis Join.simps(2,3) append_Cons list.exhaust)
qed simp

lemma Split_parts: "part \<in> set (Split sep s) \<Longrightarrow> sep \<notin> set part"
  by (induction s arbitrary: part) (auto split: if_splits list.splits)

section \<open>Decimal numbers\<close>

definition digit_char :: "nat \<Rightarrow> char" where
  "digit_char d = byte_of (48 + d)"

definition is_digit :: "char \<Rightarrow> bool" where
  "is_digit c \<longleftrightarrow> 48 \<le> byte_value c \<and> byte_value c \<le> 57"

definition digit_value :: "char \<Rightarrow> nat" where
  "digit_value c = byte_value c - 48"

text \<open>The \<open>%d\<close> verb on an unsigned value.\<close>

fun FormatUint :: "nat \<Rightarrow> string" where
  "FormatUint n = (if n < 10 then [digit_char n] else FormatUint (n div 10) @ [digit_char (n mod 10)])"

declare FormatUint.simps [simp del]

definition decimal :: "string \<Rightarrow> nat" where
  "decimal digits = foldl (\<lambda>n c. n * 10 + digit_value c) 0 digits"

text \<open>\<open>strconv.ParseUint(s, 10, 32)\<close>: only digits, and at least one; a value above \<open>2^32 - 1\<close> is a
  range error.\<close>

definition ParseUint32 :: "string \<Rightarrow> nat option" where
  "ParseUint32 s =
     (if s = [] \<or> \<not> list_all is_digit s then None
      else if 2 ^ 32 \<le> decimal s then None
      else Some (decimal s))"

lemma digit_char_facts [simp]:
  assumes "d < 10"
  shows "is_digit (digit_char d)" and "digit_value (digit_char d) = d"
  using assms by (simp_all add: is_digit_def digit_value_def digit_char_def)

lemma digit_char_value [simp]: "is_digit c \<Longrightarrow> digit_char (digit_value c) = c"
  by (simp add: is_digit_def digit_char_def digit_value_def)

lemma digit_value_less: "is_digit c \<Longrightarrow> digit_value c < 10"
  by (auto simp: is_digit_def digit_value_def)

lemma decimal_snoc [simp]: "decimal (s @ [c]) = decimal s * 10 + digit_value c"
  by (simp add: decimal_def)

lemma decimal_single [simp]: "decimal [c] = digit_value c"
  by (simp add: decimal_def)

lemma FormatUint_not_Nil [simp]: "FormatUint n \<noteq> []"
  by (subst FormatUint.simps) simp

lemma FormatUint_digits: "list_all is_digit (FormatUint n)"
  by (induction n rule: FormatUint.induct) (subst FormatUint.simps, simp)

lemma decimal_FormatUint [simp]: "decimal (FormatUint n) = n"
  by (induction n rule: FormatUint.induct) (subst FormatUint.simps, simp)

lemma ParseUint32_FormatUint [simp]: "n < 2 ^ 32 \<Longrightarrow> ParseUint32 (FormatUint n) = Some n"
  by (simp add: ParseUint32_def FormatUint_digits)

lemma hd_FormatUint: "0 < n \<Longrightarrow> hd (FormatUint n) \<noteq> CHR ''0''"
proof (induction n rule: FormatUint.induct)
  case (1 n)
  show ?case
  proof (cases "n < 10")
    case True
    have "digit_char n \<noteq> digit_char 0" using True 1(2) digit_char_facts(2) by (metis less_numeral_extra(3) zero_less_numeral)
    moreover have "digit_char 0 = CHR ''0''" by code_simp
    ultimately show ?thesis using True by (subst FormatUint.simps) simp
  next
    case False
    then show ?thesis using 1(1) by (subst FormatUint.simps) (simp add: hd_append)
  qed
qed

text \<open>A digit string with no leading zero is the printing of its value.\<close>

lemma decimal_pos: "list_all is_digit s \<Longrightarrow> s \<noteq> [] \<Longrightarrow> hd s \<noteq> CHR ''0'' \<Longrightarrow> 0 < decimal s"
proof (induction s rule: rev_induct)
  case (snoc c s)
  show ?case
  proof (cases "s = []")
    case True
    have "byte_value CHR ''0'' = 48" by code_simp
    then have "byte_value c \<noteq> 48" using snoc.prems(3) True by (metis append_Nil byte_of_value list.sel(1))
    then have "digit_value c \<noteq> 0" using snoc.prems(1) by (auto simp: is_digit_def digit_value_def)
    then show ?thesis using True by simp
  qed (use snoc in simp)
qed simp

lemma FormatUint_decimal:
  "list_all is_digit s \<Longrightarrow> s \<noteq> [] \<Longrightarrow> length s = 1 \<or> hd s \<noteq> CHR ''0'' \<Longrightarrow> FormatUint (decimal s) = s"
proof (induction s rule: rev_induct)
  case (snoc c s)
  have c: "is_digit c" using snoc.prems by simp
  show ?case
  proof (cases "s = []")
    case True
    then show ?thesis using c digit_value_less [OF c] by (subst FormatUint.simps) simp
  next
    case False
    then have "hd s \<noteq> CHR ''0''" using snoc.prems by simp
    with False have "0 < decimal s" and "FormatUint (decimal s) = s"
      using snoc decimal_pos [of s] by simp_all
    then show ?thesis using c digit_value_less [OF c] by (subst FormatUint.simps) simp
  qed
qed simp

end
