(* ===== verification/Password_Hash.thy ===== *)
theory Password_Hash
  imports Base64
begin

text \<open>
  The password credential primitive \<open>application/operatorcredentials/password/password.go\<close>:
  Argon2id parameters and their bounds, PHC strings and their strict parser, hashing and
  verification. \<open>argon2.IDKey\<close> of \<open>golang.org/x/crypto\<close> is the argument \<open>IDKey\<close>; the code relies
  on it returning exactly the requested number of bytes, which is the hypothesis of the lemmas
  that need it. The random source is the argument \<open>random\<close>: what \<open>io.ReadFull\<close> leaves in a buffer
  of the given length, or \<open>None\<close>. Zeroing secrets with \<open>clear\<close> has no value to model.
\<close>

named_theorems password_simps \<open>exact results of the password primitive\<close>

datatype password_error = ErrPasswordPolicy | ErrMalformedHash | ErrUnsupportedHash | ErrGenerateSalt

type_synonym idkey = "string \<Rightarrow> string \<Rightarrow> 32 word \<Rightarrow> 32 word \<Rightarrow> 8 word \<Rightarrow> 32 word \<Rightarrow> string"

record Parameters =
  MemoryKiB :: "32 word"
  Iterations :: "32 word"
  Parallelism :: "8 word"
  SaltLength :: "32 word"
  KeyLength :: "32 word"

record ParsedHash =
  Version :: "32 word"
  parsed_MemoryKiB :: "32 word"
  parsed_Iterations :: "32 word"
  parsed_Parallelism :: "8 word"
  parsed_salt :: string
  parsed_hash :: string

section \<open>Bounds\<close>

abbreviation MinPasswordLength :: nat where "MinPasswordLength \<equiv> 12"
abbreviation MaxPasswordBytes :: nat where "MaxPasswordBytes \<equiv> 1024"
abbreviation Argon2Version :: nat where "Argon2Version \<equiv> 19"
abbreviation maxMemoryKiB :: nat where "maxMemoryKiB \<equiv> 131072"
abbreviation maxIterations :: nat where "maxIterations \<equiv> 6"
abbreviation maxParallelism :: nat where "maxParallelism \<equiv> 4"
abbreviation maxEncodedHashSize :: nat where "maxEncodedHashSize \<equiv> 512"

definition defaultParameters :: Parameters where
  "defaultParameters =
     \<lparr>MemoryKiB = 65536, Iterations = 3, Parallelism = 1, SaltLength = 16, KeyLength = 32\<rparr>"

definition validatePassword :: "string \<Rightarrow> password_error + unit" where
  "validatePassword plaintext =
     (if length plaintext < MinPasswordLength \<or> MaxPasswordBytes < length plaintext
      then Inl ErrPasswordPolicy else Inr ())"

definition validate_parameters :: "Parameters \<Rightarrow> password_error + unit" where
  "validate_parameters p =
     (if MemoryKiB p < 8 \<or> 131072 < MemoryKiB p
         \<or> Iterations p < 1 \<or> 6 < Iterations p
         \<or> Parallelism p < 1 \<or> 4 < Parallelism p
         \<or> SaltLength p < 8 \<or> 64 < SaltLength p
         \<or> KeyLength p < 16 \<or> 64 < KeyLength p
         \<or> MemoryKiB p < 8 * ucast (Parallelism p)
      then Inl ErrMalformedHash else Inr ())"

section \<open>PHC strings\<close>

definition encodePHC :: "Parameters \<Rightarrow> string \<Rightarrow> string \<Rightarrow> string" where
  "encodePHC p salt derived =
     ''$argon2id$v='' @ FormatUint Argon2Version
     @ ''$m='' @ FormatUint (unat (MemoryKiB p))
     @ '',t='' @ FormatUint (unat (Iterations p))
     @ '',p='' @ FormatUint (unat (Parallelism p))
     @ ''$'' @ EncodeToString std_alphabet salt
     @ ''$'' @ EncodeToString std_alphabet derived"

definition parseParameter :: "string \<Rightarrow> string \<Rightarrow> nat \<Rightarrow> password_error + nat" where
  "parseParameter encoded name maximum =
     (let prefix = name @ ''='' in
      if take (length prefix) encoded \<noteq> prefix then Inl ErrMalformedHash
      else
        let digits = drop (length prefix) encoded in
        if digits = [] \<or> (1 < length digits \<and> digits ! 0 = CHR ''0'') then Inl ErrMalformedHash
        else (case ParseUint32 digits of
                None \<Rightarrow> Inl ErrMalformedHash
              | Some value \<Rightarrow> if maximum < value then Inl ErrMalformedHash else Inr value))"

definition parseParameters :: "string \<Rightarrow> password_error + Parameters" where
  "parseParameters encoded =
     (let parts = Split (CHR '','') encoded in
      if length parts \<noteq> 3 then Inl ErrMalformedHash
      else case parseParameter (parts ! 0) ''m'' maxMemoryKiB of
        Inl e \<Rightarrow> Inl e
      | Inr memory \<Rightarrow>
        (case parseParameter (parts ! 1) ''t'' maxIterations of
           Inl e \<Rightarrow> Inl e
         | Inr iterations \<Rightarrow>
           (case parseParameter (parts ! 2) ''p'' maxParallelism of
              Inl e \<Rightarrow> Inl e
            | Inr parallelism \<Rightarrow>
              let p = \<lparr>MemoryKiB = word_of_nat memory, Iterations = word_of_nat iterations,
                       Parallelism = word_of_nat parallelism, SaltLength = 8, KeyLength = 16\<rparr>
              in if MemoryKiB p < 8 \<or> Iterations p < 1 \<or> Parallelism p < 1
                    \<or> MemoryKiB p < 8 * ucast (Parallelism p)
                 then Inl ErrMalformedHash else Inr p)))"

definition decodeComponent :: "string \<Rightarrow> nat \<Rightarrow> nat \<Rightarrow> password_error + string" where
  "decodeComponent encoded minimum maximum =
     (if encoded = [] \<or> CHR ''='' \<in> set encoded then Inl ErrMalformedHash
      else if EncodedLen maximum < length encoded then Inl ErrMalformedHash
      else
        let decodedLength = DecodedLen (length encoded) in
        if decodedLength < minimum \<or> maximum < decodedLength then Inl ErrMalformedHash
        else (case DecodeString std_alphabet encoded of
                None \<Rightarrow> Inl ErrMalformedHash
              | Some decoded \<Rightarrow>
                  if length decoded < minimum \<or> maximum < length decoded
                     \<or> EncodeToString std_alphabet decoded \<noteq> encoded
                  then Inl ErrMalformedHash else Inr decoded))"

definition ParsePHC :: "string \<Rightarrow> password_error + ParsedHash" where
  "ParsePHC encoded =
     (if length encoded = 0 \<or> maxEncodedHashSize < length encoded then Inl ErrMalformedHash
      else
        let parts = Split (CHR ''$'') encoded in
        if length parts \<noteq> 6 \<or> parts ! 0 \<noteq> [] \<or> parts ! 1 \<noteq> ''argon2id''
        then (if 1 < length parts \<and> parts ! 1 \<noteq> ''argon2id'' then Inl ErrUnsupportedHash
              else Inl ErrMalformedHash)
        else if parts ! 2 \<noteq> ''v=19'' then Inl ErrUnsupportedHash
        else case parseParameters (parts ! 3) of
          Inl e \<Rightarrow> Inl e
        | Inr parameters \<Rightarrow>
          (case decodeComponent (parts ! 4) 8 64 of
             Inl _ \<Rightarrow> Inl ErrMalformedHash
           | Inr salt \<Rightarrow>
             (case decodeComponent (parts ! 5) 16 64 of
                Inl _ \<Rightarrow> Inl ErrMalformedHash
              | Inr derived \<Rightarrow>
                  Inr \<lparr>Version = word_of_nat Argon2Version, parsed_MemoryKiB = MemoryKiB parameters,
                       parsed_Iterations = Iterations parameters,
                       parsed_Parallelism = Parallelism parameters, parsed_salt = salt, parsed_hash = derived\<rparr>)))"

section \<open>Hashing and verification\<close>

definition hashWithReader ::
  "idkey \<Rightarrow> string \<Rightarrow> Parameters \<Rightarrow> (nat \<Rightarrow> string option) \<Rightarrow> password_error + string" where
  "hashWithReader IDKey plaintext p random =
     (case validatePassword plaintext of
        Inl e \<Rightarrow> Inl e
      | Inr _ \<Rightarrow>
        (case validate_parameters p of
           Inl e \<Rightarrow> Inl e
         | Inr _ \<Rightarrow>
           (case random (unat (SaltLength p)) of
              None \<Rightarrow> Inl ErrGenerateSalt
            | Some salt \<Rightarrow>
                Inr (encodePHC p salt
                  (IDKey plaintext salt (Iterations p) (MemoryKiB p) (Parallelism p) (KeyLength p))))))"

definition Hash :: "idkey \<Rightarrow> string \<Rightarrow> (nat \<Rightarrow> string option) \<Rightarrow> password_error + string" where
  "Hash IDKey plaintext random = hashWithReader IDKey plaintext defaultParameters random"

definition Verify :: "idkey \<Rightarrow> string \<Rightarrow> string \<Rightarrow> password_error + bool" where
  "Verify IDKey plaintext encoded =
     (case validatePassword plaintext of
        Inl e \<Rightarrow> Inl e
      | Inr _ \<Rightarrow>
        (case ParsePHC encoded of
           Inl e \<Rightarrow> Inl e
         | Inr parsed \<Rightarrow>
             Inr (IDKey plaintext (parsed_salt parsed) (parsed_Iterations parsed) (parsed_MemoryKiB parsed)
                    (parsed_Parallelism parsed) (word_of_nat (length (parsed_hash parsed))) = parsed_hash parsed)))"

definition NeedsRehashWithParameters :: "string \<Rightarrow> Parameters \<Rightarrow> password_error + bool" where
  "NeedsRehashWithParameters encoded current =
     (case validate_parameters current of
        Inl e \<Rightarrow> Inl e
      | Inr _ \<Rightarrow>
        (case ParsePHC encoded of
           Inl e \<Rightarrow> Inl e
         | Inr parsed \<Rightarrow>
             Inr (parsed_MemoryKiB parsed \<noteq> MemoryKiB current
                \<or> parsed_Iterations parsed \<noteq> Iterations current
                \<or> parsed_Parallelism parsed \<noteq> Parallelism current
                \<or> word_of_nat (length (parsed_salt parsed)) \<noteq> SaltLength current
                \<or> word_of_nat (length (parsed_hash parsed)) \<noteq> KeyLength current)))"

definition NeedsRehash :: "string \<Rightarrow> password_error + bool" where
  "NeedsRehash encoded = NeedsRehashWithParameters encoded defaultParameters"

section \<open>Exact results of the parser\<close>

lemma validatePassword_Inr [password_simps]:
  "validatePassword plaintext = Inr u \<longleftrightarrow> 12 \<le> length plaintext \<and> length plaintext \<le> 1024"
  by (auto simp: validatePassword_def)

lemma parseParameter_exact [password_simps]:
  assumes "maximum < 2 ^ 32"
  shows "parseParameter encoded name maximum = Inr value
    \<longleftrightarrow> encoded = name @ ''='' @ FormatUint value \<and> value \<le> maximum"
proof
  assume "parseParameter encoded name maximum = Inr value"
  then have *: "take (length (name @ ''='')) encoded = name @ ''=''"
    "drop (length (name @ ''='')) encoded \<noteq> []"
    "\<not> (1 < length (drop (length (name @ ''='')) encoded) \<and> drop (length (name @ ''='')) encoded ! 0 = CHR ''0'')"
    "ParseUint32 (drop (length (name @ ''='')) encoded) = Some value" "value \<le> maximum"
    unfolding parseParameter_def Let_def by (auto split: if_splits option.splits)
  define digits where "digits = drop (length (name @ ''='')) encoded"
  have "list_all is_digit digits" and v: "value = decimal digits" and ne: "digits \<noteq> []"
    using *(2,4) by (auto simp: ParseUint32_def digits_def split: if_splits)
  moreover have "length digits = 1 \<or> hd digits \<noteq> CHR ''0''"
    using *(3) ne unfolding digits_def [symmetric] by (cases digits) auto
  ultimately have "FormatUint value = digits" by (simp add: FormatUint_decimal)
  then show "encoded = name @ ''='' @ FormatUint value \<and> value \<le> maximum"
    using *(1,5) append_take_drop_id [of "length (name @ ''='')" encoded] by (simp add: digits_def)
next
  assume *: "encoded = name @ ''='' @ FormatUint value \<and> value \<le> maximum"
  have "\<not> (1 < length (FormatUint value) \<and> FormatUint value ! 0 = CHR ''0'')"
  proof (cases "value = 0")
    case True
    then show ?thesis by (subst (1) FormatUint.simps) simp
  qed (use hd_FormatUint [of "value"] in \<open>simp add: hd_conv_nth\<close>)
  moreover have "ParseUint32 (FormatUint value) = Some value" using * assms by simp
  ultimately show "parseParameter encoded name maximum = Inr value"
    using * by (auto simp: parseParameter_def Let_def)
qed

lemma FormatUint_free: "\<not> is_digit c \<Longrightarrow> c \<notin> set (FormatUint n)"
  using FormatUint_digits [of n] by (auto simp: list_all_iff)

lemma separators_not_digits [simp]: "\<not> is_digit CHR '',''" "\<not> is_digit CHR ''$''"
  by code_simp+

definition parameters_text :: "Parameters \<Rightarrow> string" where
  "parameters_text p = ''m='' @ FormatUint (unat (MemoryKiB p)) @ '',t='' @ FormatUint (unat (Iterations p))
     @ '',p='' @ FormatUint (unat (Parallelism p))"

definition cost_bounded :: "Parameters \<Rightarrow> bool" where
  "cost_bounded p \<longleftrightarrow> 8 \<le> MemoryKiB p \<and> MemoryKiB p \<le> 131072 \<and> Iterations p \<noteq> 0 \<and> Iterations p \<le> 6
     \<and> Parallelism p \<noteq> 0 \<and> Parallelism p \<le> 4 \<and> 8 * ucast (Parallelism p) \<le> MemoryKiB p"

lemma validate_parameters_Inr:
  "validate_parameters p = Inr u \<longleftrightarrow> cost_bounded p \<and> 8 \<le> SaltLength p \<and> SaltLength p \<le> 64
     \<and> 16 \<le> KeyLength p \<and> KeyLength p \<le> 64"
  by (auto simp: validate_parameters_def cost_bounded_def not_less)

lemma Split_parameters_text:
  "Split (CHR '','') (parameters_text p) =
     [''m='' @ FormatUint (unat (MemoryKiB p)), ''t='' @ FormatUint (unat (Iterations p)),
      ''p='' @ FormatUint (unat (Parallelism p))]"
proof -
  let ?m = "''m='' @ FormatUint (unat (MemoryKiB p))"
  let ?t = "''t='' @ FormatUint (unat (Iterations p))"
  let ?p = "''p='' @ FormatUint (unat (Parallelism p))"
  have "parameters_text p = ?m @ CHR '','' # ?t @ CHR '','' # ?p" by (simp add: parameters_text_def)
  moreover have "CHR '','' \<notin> set ?m" and "CHR '','' \<notin> set ?t" and "CHR '','' \<notin> set ?p"
    by (simp_all add: FormatUint_free)
  ultimately show ?thesis by (simp only: Split_append [of "CHR '',''"] Split_free not_False_eq_True)
qed

lemma unat_word_of_nat_small:
  "n \<le> 131072 \<Longrightarrow> unat (word_of_nat n :: 32 word) = n"
  "n \<le> 4 \<Longrightarrow> unat (word_of_nat n :: 8 word) = n"
  by (simp_all add: unat_of_nat take_bit_nat_eq_self_iff)

lemma three_elements: "length xs = 3 \<Longrightarrow> xs = [xs ! 0, xs ! 1, xs ! 2]"
  by (simp add: list_eq_iff_nth_eq numeral_eq_Suc less_Suc_eq)

lemma word_of_nat_le_small:
  "n \<le> 131072 \<Longrightarrow> (word_of_nat n :: 32 word) \<le> 131072"
  "n \<le> 6 \<Longrightarrow> (word_of_nat n :: 32 word) \<le> 6"
  "n \<le> 4 \<Longrightarrow> (word_of_nat n :: 8 word) \<le> 4"
  by (simp_all add: word_le_nat_alt unat_word_of_nat_small)

lemma parseParameters_exact [password_simps]:
  "parseParameters encoded = Inr p \<longleftrightarrow>
     encoded = parameters_text p \<and> cost_bounded p \<and> SaltLength p = 8 \<and> KeyLength p = 16"
proof
  let ?parts = "Split (CHR '','') encoded"
  assume *: "parseParameters encoded = Inr p"
  then obtain m i l where
    len: "length ?parts = 3"
    and m: "parseParameter (?parts ! 0) ''m'' maxMemoryKiB = Inr m"
    and i: "parseParameter (?parts ! 1) ''t'' maxIterations = Inr i"
    and l: "parseParameter (?parts ! 2) ''p'' maxParallelism = Inr l"
    and p: "p = \<lparr>MemoryKiB = word_of_nat m, Iterations = word_of_nat i,
       Parallelism = word_of_nat l, SaltLength = 8, KeyLength = 16\<rparr>"
    and low: "\<not> (MemoryKiB p < 8 \<or> Iterations p < 1 \<or> Parallelism p < 1 \<or> MemoryKiB p < 8 * ucast (Parallelism p))"
    unfolding parseParameters_def Let_def by (auto split: if_splits sum.splits)
  have exact: "?parts ! 0 = ''m='' @ FormatUint m \<and> m \<le> maxMemoryKiB"
    "?parts ! 1 = ''t='' @ FormatUint i \<and> i \<le> maxIterations"
    "?parts ! 2 = ''p='' @ FormatUint l \<and> l \<le> maxParallelism"
    using parseParameter_exact [THEN iffD1, OF _ m] parseParameter_exact [THEN iffD1, OF _ i]
      parseParameter_exact [THEN iffD1, OF _ l] by simp_all
  have bounds: "m \<le> 131072" "i \<le> 6" "l \<le> 4" using exact by simp_all
  have "encoded = Join (CHR '','') ?parts" by simp
  also have "\<dots> = Join (CHR '','') [?parts ! 0, ?parts ! 1, ?parts ! 2]"
    by (rule arg_cong [OF three_elements [OF len]])
  also have "\<dots> = parameters_text p"
    using exact bounds by (simp add: parameters_text_def p unat_word_of_nat_small)
  finally show "encoded = parameters_text p \<and> cost_bounded p \<and> SaltLength p = 8 \<and> KeyLength p = 16"
    using low word_of_nat_le_small bounds by (simp add: p cost_bounded_def not_less)
next
  assume *: "encoded = parameters_text p \<and> cost_bounded p \<and> SaltLength p = 8 \<and> KeyLength p = 16"
  have "unat (MemoryKiB p) \<le> 131072" "unat (Iterations p) \<le> 6" "unat (Parallelism p) \<le> 4"
    using * by (simp_all add: cost_bounded_def word_le_nat_alt)
  then have "parseParameter (''m='' @ FormatUint (unat (MemoryKiB p))) ''m'' maxMemoryKiB = Inr (unat (MemoryKiB p))"
    and "parseParameter (''t='' @ FormatUint (unat (Iterations p))) ''t'' maxIterations = Inr (unat (Iterations p))"
    and "parseParameter (''p='' @ FormatUint (unat (Parallelism p))) ''p'' maxParallelism = Inr (unat (Parallelism p))"
    by (simp_all add: parseParameter_exact)
  then show "parseParameters encoded = Inr p"
    using * by (auto simp: parseParameters_def Split_parameters_text cost_bounded_def not_less)
qed

lemma EncodedLen_mono: "m \<le> n \<Longrightarrow> EncodedLen m \<le> EncodedLen n"
proof -
  have "EncodedLen k = (k * 8 + 5) div 6" for k
  proof -
    have "k * 8 + 5 = (k mod 3 * 8 + 5) + 6 * (k div 3 * 4)" using div_mult_mod_eq [of k 3] by linarith
    then have "(k * 8 + 5) div 6 = k div 3 * 4 + (k mod 3 * 8 + 5) div 6"
      by (metis add.commute div_mult_self2 zero_neq_numeral)
    then show ?thesis by (simp add: EncodedLen_def)
  qed
  then show "m \<le> n \<Longrightarrow> EncodedLen m \<le> EncodedLen n" by (simp add: div_le_mono)
qed

lemma DecodedLen_EncodedLen [simp]: "DecodedLen (EncodedLen n) = n"
  using length_decode_groups [OF decode_groups_encode [OF std_alphabet_ok, of "replicate n CHR ''x''"]]
  by simp

lemma EncodeToString_free:
  "c \<notin> set std_alphabet \<Longrightarrow> c \<notin> set (EncodeToString std_alphabet bytes)"
  using EncodeToString_alphabet [OF std_alphabet_ok] by blast

lemma std_alphabet_free [simp]: "CHR ''='' \<notin> set std_alphabet" "CHR ''$'' \<notin> set std_alphabet"
  by code_simp+

lemma decodeComponent_exact [password_simps]:
  assumes "0 < minimum"
  shows "decodeComponent encoded minimum maximum = Inr decoded \<longleftrightarrow>
    encoded = EncodeToString std_alphabet decoded \<and> minimum \<le> length decoded \<and> length decoded \<le> maximum"
proof
  assume "decodeComponent encoded minimum maximum = Inr decoded"
  then show "encoded = EncodeToString std_alphabet decoded \<and> minimum \<le> length decoded \<and> length decoded \<le> maximum"
    unfolding decodeComponent_def Let_def by (auto split: if_splits option.splits)
next
  assume *: "encoded = EncodeToString std_alphabet decoded \<and> minimum \<le> length decoded \<and> length decoded \<le> maximum"
  have "encoded \<noteq> []"
  proof -
    have "EncodedLen 1 \<le> length encoded" using * assms by (simp add: EncodedLen_mono)
    then show ?thesis by (auto simp: EncodedLen_def)
  qed
  moreover have "CHR ''='' \<notin> set encoded" using * by (simp add: EncodeToString_free)
  moreover have "length encoded \<le> EncodedLen maximum" using * by (simp add: EncodedLen_mono)
  ultimately show "decodeComponent encoded minimum maximum = Inr decoded"
    using * by (simp add: decodeComponent_def not_less)
qed

text \<open>The strings \<open>encodePHC\<close> writes split into the six parts the parser expects.\<close>

lemma encodePHC_parts:
  "encodePHC p salt derived = Join (CHR ''$'')
     [[], ''argon2id'', ''v=19'', parameters_text p,
      EncodeToString std_alphabet salt, EncodeToString std_alphabet derived]"
proof -
  have "FormatUint 19 = ''19''" by code_simp
  then show ?thesis by (simp add: encodePHC_def parameters_text_def)
qed

lemma parameters_text_free: "CHR ''$'' \<notin> set (parameters_text p)"
  by (simp add: parameters_text_def FormatUint_free)

lemma Split_encodePHC:
  "Split (CHR ''$'') (encodePHC p salt derived) =
     [[], ''argon2id'', ''v=19'', parameters_text p,
      EncodeToString std_alphabet salt, EncodeToString std_alphabet derived]"
  by (simp add: encodePHC_parts Split_append [of "CHR ''$''" "[]", simplified]
      Split_append [of "CHR ''$''" "''argon2id''", simplified] Split_append [of "CHR ''$''" "''v=19''", simplified]
      parameters_text_free EncodeToString_free)

lemma length_FormatUint: "n < 10 ^ k \<Longrightarrow> 0 < k \<Longrightarrow> length (FormatUint n) \<le> k"
proof (induction n arbitrary: k rule: FormatUint.induct)
  case (1 n)
  show ?case
  proof (cases "n < 10")
    case True
    then show ?thesis using 1 by (subst FormatUint.simps) simp
  next
    case False
    obtain j where k: "k = Suc j" using 1(3) by (cases k) auto
    have "n div 10 < 10 ^ j" using 1(2) by (simp add: k less_mult_imp_div_less mult.commute)
    moreover have "0 < j" using False 1(2) by (cases j) (auto simp: k)
    ultimately have "length (FormatUint (n div 10)) \<le> j" using 1(1) [OF False] by blast
    then show ?thesis using False by (subst FormatUint.simps) (simp add: k)
  qed
qed

lemma length_encodePHC:
  assumes "cost_bounded p" and "length salt \<le> 64" and "length derived \<le> 64"
  shows "length (encodePHC p salt derived) \<le> 512" and "encodePHC p salt derived \<noteq> []"
proof -
  have "length (FormatUint (unat (MemoryKiB p))) \<le> 6" and "length (FormatUint (unat (Iterations p))) \<le> 1"
    and "length (FormatUint (unat (Parallelism p))) \<le> 1" and "length (FormatUint 19) \<le> 2"
    using assms(1) by (auto intro!: length_FormatUint simp: cost_bounded_def word_le_nat_alt)
  moreover have "EncodedLen (length salt) \<le> 86" and "EncodedLen (length derived) \<le> 86"
    using EncodedLen_mono [OF assms(2)] EncodedLen_mono [OF assms(3)] by (simp_all add: EncodedLen_def)
  ultimately show "length (encodePHC p salt derived) \<le> 512" by (simp add: encodePHC_def)
  show "encodePHC p salt derived \<noteq> []" by (simp add: encodePHC_def)
qed

definition parsed_of :: "Parameters \<Rightarrow> string \<Rightarrow> string \<Rightarrow> ParsedHash" where
  "parsed_of p salt derived =
     \<lparr>Version = 19, parsed_MemoryKiB = MemoryKiB p, parsed_Iterations = Iterations p,
      parsed_Parallelism = Parallelism p, parsed_salt = salt, parsed_hash = derived\<rparr>"

lemma ParsePHC_encodePHC [password_simps]:
  assumes "cost_bounded p" and "8 \<le> length salt" and "length salt \<le> 64"
    and "16 \<le> length derived" and "length derived \<le> 64"
  shows "ParsePHC (encodePHC p salt derived) = Inr (parsed_of p salt derived)"
proof -
  let ?p = "p\<lparr>SaltLength := 8, KeyLength := 16\<rparr>"
  have "parseParameters (parameters_text p) = Inr ?p"
    using assms(1) by (simp add: parseParameters_exact parameters_text_def cost_bounded_def)
  moreover have "decodeComponent (EncodeToString std_alphabet salt) 8 64 = Inr salt"
    and "decodeComponent (EncodeToString std_alphabet derived) 16 64 = Inr derived"
    using assms by (simp_all add: decodeComponent_exact)
  ultimately show ?thesis
    using length_encodePHC [OF assms(1,3,5)] assms
    by (simp add: ParsePHC_def Split_encodePHC parsed_of_def)
qed

lemma ParsePHC_Inr:
  assumes "ParsePHC encoded = Inr parsed"
  obtains p salt derived where "cost_bounded p" and "8 \<le> length salt" and "length salt \<le> 64"
    and "16 \<le> length derived" and "length derived \<le> 64"
    and "SaltLength p = word_of_nat (length salt)" and "KeyLength p = word_of_nat (length derived)"
    and "encoded = encodePHC p salt derived" and "parsed = parsed_of p salt derived"
proof -
  let ?parts = "Split (CHR ''$'') encoded"
  obtain q salt derived where
    head: "length ?parts = 6" "?parts ! 0 = []" "?parts ! 1 = ''argon2id''" "?parts ! 2 = ''v=19''"
    and q: "parseParameters (?parts ! 3) = Inr q"
    and salt: "decodeComponent (?parts ! 4) 8 64 = Inr salt"
    and derived: "decodeComponent (?parts ! 5) 16 64 = Inr derived"
    and parsed: "parsed = parsed_of q salt derived"
    using assms unfolding ParsePHC_def Let_def parsed_of_def
    by (auto split: if_splits sum.splits)
  let ?p = "q\<lparr>SaltLength := word_of_nat (length salt), KeyLength := word_of_nat (length derived)\<rparr>"
  have exact: "?parts ! 3 = parameters_text q" "cost_bounded q"
    "?parts ! 4 = EncodeToString std_alphabet salt" "?parts ! 5 = EncodeToString std_alphabet derived"
    using q salt derived by (simp_all add: parseParameters_exact decodeComponent_exact)
  have six: "?parts = [?parts ! 0, ?parts ! 1, ?parts ! 2, ?parts ! 3, ?parts ! 4, ?parts ! 5]"
    using head(1) by (simp add: list_eq_iff_nth_eq numeral_eq_Suc less_Suc_eq)
  have "encoded = Join (CHR ''$'') ?parts" by simp
  also have "\<dots> = Join (CHR ''$'') [?parts ! 0, ?parts ! 1, ?parts ! 2, ?parts ! 3, ?parts ! 4, ?parts ! 5]"
    by (rule arg_cong [OF six])
  also have "\<dots> = encodePHC ?p salt derived"
    unfolding head exact encodePHC_parts by (simp add: parameters_text_def)
  finally show thesis
    using exact(2) salt derived parsed
    by (intro that [of ?p salt derived]) (simp_all add: decodeComponent_exact cost_bounded_def parsed_of_def)
qed

section \<open>Properties of the primitive\<close>

text \<open>C33: the parser accepts exactly the strings that \<open>encodePHC\<close> writes for parameters inside the
  bounds, with a salt of 8 to 64 bytes and a key of 16 to 64 bytes, and returns what was encoded: no
  other spelling of a parameter, padding, line break or unused bit of a digit group is accepted.\<close>

theorem ParsePHC_exact:
  "ParsePHC encoded = Inr parsed \<longleftrightarrow>
     (\<exists>p. validate_parameters p = Inr () \<and> unat (SaltLength p) = length (parsed_salt parsed)
        \<and> unat (KeyLength p) = length (parsed_hash parsed)
        \<and> parsed = parsed_of p (parsed_salt parsed) (parsed_hash parsed)
        \<and> encoded = encodePHC p (parsed_salt parsed) (parsed_hash parsed))"
proof
  have small: "n \<le> 64 \<Longrightarrow> unat (word_of_nat n :: 32 word) = n" for n by (simp add: unat_word_of_nat_small)
  assume "ParsePHC encoded = Inr parsed"
  then obtain p salt derived where *: "cost_bounded p" "8 \<le> length salt" "length salt \<le> 64"
    "16 \<le> length derived" "length derived \<le> 64" "SaltLength p = word_of_nat (length salt)"
    "KeyLength p = word_of_nat (length derived)" "encoded = encodePHC p salt derived"
    "parsed = parsed_of p salt derived" by (rule ParsePHC_Inr)
  have "validate_parameters p = Inr ()"
    using * by (simp add: validate_parameters_Inr word_le_nat_alt small)
  then show "\<exists>p. validate_parameters p = Inr () \<and> unat (SaltLength p) = length (parsed_salt parsed)
        \<and> unat (KeyLength p) = length (parsed_hash parsed)
        \<and> parsed = parsed_of p (parsed_salt parsed) (parsed_hash parsed)
        \<and> encoded = encodePHC p (parsed_salt parsed) (parsed_hash parsed)"
    using * by (intro exI [of _ p]) (simp add: parsed_of_def small)
next
  assume "\<exists>p. validate_parameters p = Inr () \<and> unat (SaltLength p) = length (parsed_salt parsed)
        \<and> unat (KeyLength p) = length (parsed_hash parsed)
        \<and> parsed = parsed_of p (parsed_salt parsed) (parsed_hash parsed)
        \<and> encoded = encodePHC p (parsed_salt parsed) (parsed_hash parsed)"
  then show "ParsePHC encoded = Inr parsed"
    by (auto simp: validate_parameters_Inr word_le_nat_alt intro!: ParsePHC_encodePHC [THEN trans])
qed

lemma hashWithReader_Inr:
  assumes "hashWithReader IDKey plaintext p random = Inr encoded"
  obtains salt where "validatePassword plaintext = Inr ()" and "validate_parameters p = Inr ()"
    and "random (unat (SaltLength p)) = Some salt"
    and "encoded = encodePHC p salt
       (IDKey plaintext salt (Iterations p) (MemoryKiB p) (Parallelism p) (KeyLength p))"
  using assms by (auto simp: hashWithReader_def split: sum.splits option.splits)

text \<open>C34: a password hashed under any accepted parameters verifies: \<open>Verify\<close> on the stored string
  recomputes the key under the same salt and costs, so it answers true for the password that was
  hashed, and for any other password of admissible length exactly when the two derived keys agree.
  \<open>argon2.IDKey\<close> returns the requested number of bytes and \<open>io.ReadFull\<close> fills the salt buffer.\<close>

theorem Verify_hashed:
  assumes "\<And>secret salt t m l n. length (IDKey secret salt t m l n) = unat n"
    and "\<And>n s. random n = Some s \<Longrightarrow> length s = n"
    and "hashWithReader IDKey plaintext p random = Inr encoded"
    and "validatePassword candidate = Inr ()"
  shows "\<exists>salt. random (unat (SaltLength p)) = Some salt \<and>
    Verify IDKey candidate encoded = Inr
      (IDKey candidate salt (Iterations p) (MemoryKiB p) (Parallelism p) (KeyLength p)
         = IDKey plaintext salt (Iterations p) (MemoryKiB p) (Parallelism p) (KeyLength p))"
proof -
  obtain salt where p: "validate_parameters p = Inr ()" and s: "random (unat (SaltLength p)) = Some salt"
    and e: "encoded = encodePHC p salt
       (IDKey plaintext salt (Iterations p) (MemoryKiB p) (Parallelism p) (KeyLength p))"
    using assms(3) by (rule hashWithReader_Inr)
  have "ParsePHC encoded = Inr (parsed_of p salt
       (IDKey plaintext salt (Iterations p) (MemoryKiB p) (Parallelism p) (KeyLength p)))"
    using p unfolding e validate_parameters_Inr word_le_nat_alt
    by (intro ParsePHC_encodePHC) (simp_all add: assms(1) assms(2) [OF s])
  then show ?thesis
    using s assms(4) by (simp add: Verify_def parsed_of_def assms(1))
qed

definition demo_IDKey :: idkey where
  "demo_IDKey secret salt t m l n = take (unat n) (secret @ salt @ replicate (unat n) (byte_of (unat t)))"

definition demo_random :: "nat \<Rightarrow> string option" where
  "demo_random n = Some (replicate n CHR ''s'')"

lemma length_demo_IDKey: "length (demo_IDKey secret salt t m l n) = unat n"
  by (simp add: demo_IDKey_def)

lemma default_validates: "validate_parameters defaultParameters = Inr ()"
  by code_simp

lemma demo_hash:
  "\<exists>encoded. hashWithReader demo_IDKey ''correct horse'' defaultParameters demo_random = Inr encoded"
  by (simp add: hashWithReader_def validatePassword_def default_validates demo_random_def)

theorem Verify_hashed_witness:
  "\<exists>encoded. hashWithReader demo_IDKey ''correct horse'' defaultParameters demo_random = Inr encoded
     \<and> Verify demo_IDKey ''correct horse'' encoded = Inr True
     \<and> Verify demo_IDKey ''incorrect horse'' encoded = Inr False"
proof -
  obtain encoded where e: "hashWithReader demo_IDKey ''correct horse'' defaultParameters demo_random = Inr encoded"
    using demo_hash by blast
  have random: "demo_random n = Some s \<Longrightarrow> length s = n" for n s by (auto simp: demo_random_def)
  have other: "validatePassword ''incorrect horse'' = Inr ()" "validatePassword ''correct horse'' = Inr ()"
    by (simp_all add: validatePassword_def)
  note verify = Verify_hashed [OF length_demo_IDKey random e]
  have "demo_IDKey ''incorrect horse'' salt t m l 32 \<noteq> demo_IDKey ''correct horse'' salt t m l 32" for salt t m l
    by (simp add: demo_IDKey_def)
  then show ?thesis
    using e verify [OF _ other(1)] verify [OF _ other(2)] by (auto simp: defaultParameters_def)
qed

text \<open>C35: whatever string is presented as a stored hash, the key derivation only ever runs inside the
  cost bounds (at most 128 MiB, 6 passes, 4 lanes, a 64 byte salt and key): two implementations that
  agree on those inputs give the same answer, so a hostile hash cannot make \<open>Verify\<close> derive
  anything else.\<close>

theorem Verify_bounded_work:
  assumes "\<And>salt t m l n. m \<le> 131072 \<Longrightarrow> 8 * ucast l \<le> m \<Longrightarrow> t \<le> 6 \<Longrightarrow> l \<le> 4 \<Longrightarrow>
      length salt \<le> 64 \<Longrightarrow> n \<le> 64 \<Longrightarrow>
      IDKey plaintext salt t m l n = IDKey' plaintext salt t m l n"
  shows "Verify IDKey plaintext encoded = Verify IDKey' plaintext encoded"
proof (cases "ParsePHC encoded")
  case (Inr parsed)
  then obtain p salt derived where *: "cost_bounded p" "length salt \<le> 64" "length derived \<le> 64"
    "parsed = parsed_of p salt derived" by (rule ParsePHC_Inr)
  have "(word_of_nat (length derived) :: 32 word) \<le> 64"
    using *(3) by (simp add: word_le_nat_alt unat_word_of_nat_small)
  then have "IDKey plaintext salt (Iterations p) (MemoryKiB p) (Parallelism p) (word_of_nat (length derived))
      = IDKey' plaintext salt (Iterations p) (MemoryKiB p) (Parallelism p) (word_of_nat (length derived))"
    using * by (intro assms) (simp_all add: cost_bounded_def)
  then show ?thesis using *(4) by (simp add: Verify_def Inr parsed_of_def split: sum.split)
qed (simp add: Verify_def split: sum.split)

theorem Verify_bounded_work_witness:
  "Verify demo_IDKey ''correct horse'' ''$argon2id$v=19$m=1048576,t=9,p=1$c2FsdHNhbHQ$a2V5a2V5a2V5a2V5a2V5aw''
     = Verify (\<lambda>secret salt t m l n. if m \<le> 131072 then demo_IDKey secret salt t m l n else []) ''correct horse''
         ''$argon2id$v=19$m=1048576,t=9,p=1$c2FsdHNhbHQ$a2V5a2V5a2V5a2V5a2V5aw''"
  by (rule Verify_bounded_work) simp

text \<open>A freshly hashed password is up to date.\<close>

lemma NeedsRehash_Hash:
  assumes "\<And>secret salt t m l n. length (IDKey secret salt t m l n) = unat n"
    and "\<And>n s. random n = Some s \<Longrightarrow> length s = n"
    and "Hash IDKey plaintext random = Inr encoded"
  shows "NeedsRehash encoded = Inr False"
proof -
  let ?p = defaultParameters
  obtain salt where p: "validate_parameters ?p = Inr ()" and s: "random (unat (SaltLength ?p)) = Some salt"
    and e: "encoded = encodePHC ?p salt
       (IDKey plaintext salt (Iterations ?p) (MemoryKiB ?p) (Parallelism ?p) (KeyLength ?p))"
    using assms(3) unfolding Hash_def by (rule hashWithReader_Inr)
  have "ParsePHC encoded = Inr (parsed_of ?p salt
       (IDKey plaintext salt (Iterations ?p) (MemoryKiB ?p) (Parallelism ?p) (KeyLength ?p)))"
    using p unfolding e validate_parameters_Inr word_le_nat_alt
    by (intro ParsePHC_encodePHC) (simp_all add: assms(1) assms(2) [OF s])
  moreover have "length salt = 16" using assms(2) [OF s] by (simp add: defaultParameters_def)
  ultimately show ?thesis
    by (simp add: NeedsRehash_def NeedsRehashWithParameters_def p parsed_of_def assms(1))
       (simp add: defaultParameters_def)
qed

section \<open>The format the operators table accepts\<close>

text \<open>\<open>ck_operators_password_hash_format\<close>: 64 to 512 characters and the regular expression
  \<open>$argon2id$v=19$m=[1-9][0-9]*,t=[1-9][0-9]*,p=[1-9][0-9]*$[A-Za-z0-9+/]{11,86}$[A-Za-z0-9+/]{22,86}\<close>.\<close>

definition positive_decimal :: "string \<Rightarrow> string \<Rightarrow> bool" where
  "positive_decimal name s \<longleftrightarrow>
     (let digits = drop (length name) s in
      take (length name) s = name \<and> digits \<noteq> [] \<and> list_all is_digit digits \<and> hd digits \<noteq> CHR ''0'')"

definition base64_run :: "nat \<Rightarrow> nat \<Rightarrow> string \<Rightarrow> bool" where
  "base64_run low high s \<longleftrightarrow> low \<le> length s \<and> length s \<le> high \<and> list_all (\<lambda>c. c \<in> set std_alphabet) s"

definition password_hash_format :: "string \<Rightarrow> bool" where
  "password_hash_format s \<longleftrightarrow> 64 \<le> length s \<and> length s \<le> 512 \<and>
     (let parts = Split (CHR ''$'') s in
      length parts = 6 \<and> parts ! 0 = [] \<and> parts ! 1 = ''argon2id'' \<and> parts ! 2 = ''v=19''
      \<and> (let costs = Split (CHR '','') (parts ! 3) in
          length costs = 3 \<and> positive_decimal ''m='' (costs ! 0)
          \<and> positive_decimal ''t='' (costs ! 1) \<and> positive_decimal ''p='' (costs ! 2))
      \<and> base64_run 11 86 (parts ! 4) \<and> base64_run 22 86 (parts ! 5))"

lemma positive_decimal_FormatUint: "0 < n \<Longrightarrow> positive_decimal name (name @ FormatUint n)"
  by (simp add: positive_decimal_def FormatUint_digits hd_FormatUint)

lemma base64_run_encoded:
  "low \<le> EncodedLen (length s) \<Longrightarrow> EncodedLen (length s) \<le> high \<Longrightarrow>
     base64_run low high (EncodeToString std_alphabet s)"
  using EncodeToString_alphabet [OF std_alphabet_ok, of s] by (auto simp: base64_run_def list_all_iff)

lemma positive_decimal_parameter:
  "0 < n \<Longrightarrow> positive_decimal ''m='' (CHR ''m'' # CHR ''='' # FormatUint n)"
  "0 < n \<Longrightarrow> positive_decimal ''t='' (CHR ''t'' # CHR ''='' # FormatUint n)"
  "0 < n \<Longrightarrow> positive_decimal ''p='' (CHR ''p'' # CHR ''='' # FormatUint n)"
  using positive_decimal_FormatUint [of n "''m=''"] positive_decimal_FormatUint [of n "''t=''"]
    positive_decimal_FormatUint [of n "''p=''"] by simp_all

lemma encodePHC_format:
  assumes len: "length salt = 16" "length key = 32"
  shows "password_hash_format (encodePHC defaultParameters salt key)"
proof -
  let ?p = defaultParameters
  have costs: "unat (MemoryKiB ?p) = 65536" "unat (Iterations ?p) = 3" "unat (Parallelism ?p) = 1"
    by (simp_all add: defaultParameters_def)
  have "64 \<le> length (encodePHC ?p salt key)"
    by (simp add: encodePHC_def len EncodedLen_def)
  moreover have "length (encodePHC ?p salt key) \<le> 512"
    using default_validates by (intro length_encodePHC) (simp_all add: validate_parameters_Inr len)
  moreover have "base64_run 11 86 (EncodeToString std_alphabet salt)"
    and "base64_run 22 86 (EncodeToString std_alphabet key)"
    by (rule base64_run_encoded; simp add: len EncodedLen_def)+
  ultimately show ?thesis
    unfolding password_hash_format_def Split_encodePHC
    by (simp add: Split_parameters_text costs positive_decimal_parameter)
qed

text \<open>Every hash the production hasher returns passes the table's format check.\<close>

lemma Hash_format:
  assumes "\<And>secret salt t m l n. length (IDKey secret salt t m l n) = unat n"
    and "\<And>n s. random n = Some s \<Longrightarrow> length s = n"
    and "Hash IDKey plaintext random = Inr encoded"
  shows "password_hash_format encoded"
proof -
  let ?p = defaultParameters
  obtain salt where s: "random (unat (SaltLength ?p)) = Some salt"
    and e: "encoded = encodePHC ?p salt
       (IDKey plaintext salt (Iterations ?p) (MemoryKiB ?p) (Parallelism ?p) (KeyLength ?p))"
    using assms(3) unfolding Hash_def by (rule hashWithReader_Inr)
  have "length salt = 16" using assms(2) [OF s] by (simp add: defaultParameters_def)
  moreover have "unat (KeyLength ?p) = 32" by (simp add: defaultParameters_def)
  ultimately show ?thesis unfolding e by (intro encodePHC_format) (simp_all add: assms(1))
qed

end
