(* ===== verification/Web_Sessions.thy ===== *)
theory Web_Sessions
  imports Password_Hash Delivery_Failures Transition_System "HOL-Library.Product_Lexorder"
begin

text \<open>
  The PostgreSQL adapters of operator authentication: the tables \<open>operators\<close> and
  \<open>operator_web_sessions\<close> with their constraints and the trigger that revokes sessions when the
  token boundary moves, \<open>OperatorCredentialStore\<close> (\<open>pg/operator_credentials.go\<close>) and
  \<open>OperatorWebSessionStore\<close> (\<open>pg/operator_web_sessions.go\<close>). A transaction is one step on the rows.
  Each evaluation of \<open>clock_timestamp()\<close> is a reading of its own: \<open>clock n\<close> is the \<open>n\<close>-th reading of
  the call, and one reading serves the rows a statement scans. A generated key is the argument
  \<open>new_id\<close>; a row the constraints refuse makes the call fail and leaves the tables as they were.
\<close>

named_theorems session_simps \<open>equations of the session store\<close>

record operator_row =
  op_id :: uuid
  op_username :: string
  op_password_hash :: "string option"
  op_password_changed_at :: "time option"
  op_created_at :: time
  op_updated_at :: time
  op_tokens_invalid_before :: time
  op_enabled :: bool

record web_session_row =
  ws_id :: uuid
  ws_operator :: uuid
  ws_token_hash :: string
  ws_created_at :: time
  ws_last_seen_at :: time
  ws_idle_expires_at :: time
  ws_absolute_expires_at :: time
  ws_revoked_at :: "time option"

record auth_db =
  operators :: "operator_row list"
  web_sessions :: "web_session_row list"

datatype store_failure =
  InvalidUpdate | CredentialWriteFailed | CredentialNotFound | CredentialReadFailed
  | SessionInvalidInput | OperatorNotProvisioned | SessionInsertFailed
  | SessionNotValid | SessionRefreshFailed

type_synonym clock = "nat \<Rightarrow> time"

definition operatorWebSessionIdleLifetime :: duration where
  "operatorWebSessionIdleLifetime = 12 * 3600 * second"

definition operatorWebSessionAbsoluteLifetime :: duration where
  "operatorWebSessionAbsoluteLifetime = 7 * 24 * 3600 * second"

definition operatorWebSessionSeenThrottle :: duration where
  "operatorWebSessionSeenThrottle = 5 * 60 * second"

definition operatorWebSessionLimit :: nat where
  "operatorWebSessionLimit = 5"

section \<open>Constraints\<close>

text \<open>Go strings as PostgreSQL text: their runes, where an undecodable byte and NUL are refused.\<close>

function text_runes :: "byte list \<Rightarrow> rune option list" where
  "text_runes [] = []"
| "text_runes (b # bs) = (case decode_rune (b # bs) of (r, rest) \<Rightarrow> r # text_runes rest)"
  by pat_completeness auto
termination
  by (relation "measure length") (auto simp del: decode_rune.simps dest: decode_rune_shorter)

definition runes_of_text :: "string \<Rightarrow> rune option list" where
  "runes_of_text s = text_runes (map byte_value s)"

definition text_stores :: "string \<Rightarrow> bool" where
  "text_stores s \<longleftrightarrow> None \<notin> set (runes_of_text s) \<and> Some 0 \<notin> set (runes_of_text s)"

text \<open>\<open>strings.TrimSpace(s) != s\<close>.\<close>

definition trim_changes :: "string \<Rightarrow> bool" where
  "trim_changes s =
     (let space = (\<lambda>r. case r of Some c \<Rightarrow> is_space c | None \<Rightarrow> False);
          runes = runes_of_text s
      in rev (dropWhile space (rev (dropWhile space runes))) \<noteq> runes)"

definition operator_checks :: "operator_row \<Rightarrow> bool" where
  "operator_checks r \<longleftrightarrow>
     text_stores (op_username r) \<and> length (runes_of_text (op_username r)) \<le> 255
     \<and> (op_password_hash r = None \<longleftrightarrow> op_password_changed_at r = None)
     \<and> (case op_password_hash r of None \<Rightarrow> True | Some h \<Rightarrow> password_hash_format h)"

definition web_session_checks :: "web_session_row \<Rightarrow> bool" where
  "web_session_checks r \<longleftrightarrow> length (ws_token_hash r) = 32
     \<and> ws_created_at r \<le> ws_last_seen_at r \<and> ws_last_seen_at r \<le> ws_idle_expires_at r
     \<and> ws_idle_expires_at r \<le> ws_absolute_expires_at r"

section \<open>OperatorCredentialStore\<close>

record Credential =
  OperatorID :: uuid
  Username :: string
  PasswordHash :: string
  Enabled :: bool

text \<open>The trigger \<open>operators_revoke_web_sessions_after_credential_change\<close>.\<close>

definition revoke_after_credential_change ::
  "time \<Rightarrow> operator_row \<Rightarrow> operator_row \<Rightarrow> web_session_row list \<Rightarrow> web_session_row list" where
  "revoke_after_credential_change t old new rows =
     (if op_tokens_invalid_before old < op_tokens_invalid_before new
      then update_where (\<lambda>r. ws_operator r = op_id new \<and> ws_revoked_at r = None)
             (\<lambda>r. r\<lparr>ws_revoked_at := Some t\<rparr>) rows
      else rows)"

definition BootstrapOrReset ::
  "auth_db \<Rightarrow> clock \<Rightarrow> uuid \<Rightarrow> string \<Rightarrow> string \<Rightarrow> (store_failure + uuid \<times> string) \<times> auth_db" where
  "BootstrapOrReset db clock new_id username passwordHash =
     (if username = [] \<or> trim_changes username \<or> passwordHash = [] then (Inl InvalidUpdate, db)
      else case find (\<lambda>r. op_username r = username) (operators db) of
        None \<Rightarrow>
          (let row = \<lparr>op_id = new_id, op_username = username, op_password_hash = Some passwordHash,
                      op_password_changed_at = Some (clock 0), op_created_at = clock 1,
                      op_updated_at = clock 2, op_tokens_invalid_before = clock 3, op_enabled = True\<rparr>
           in if operator_checks row \<and> new_id \<notin> op_id ` set (operators db)
              then (Inr (new_id, username), db\<lparr>operators := operators db @ [row]\<rparr>)
              else (Inl CredentialWriteFailed, db))
      | Some old \<Rightarrow>
          (let row = old\<lparr>op_password_hash := Some passwordHash,
                         op_password_changed_at := Some (clock 4), op_updated_at := clock 5,
                         op_tokens_invalid_before := max (op_tokens_invalid_before old) (clock 6)\<rparr>
           in if operator_checks row
              then (Inr (op_id old, username),
                    db\<lparr>operators := update_where (\<lambda>r. op_username r = username) (\<lambda>_. row) (operators db),
                       web_sessions := revoke_after_credential_change (clock 7) old row (web_sessions db)\<rparr>)
              else (Inl CredentialWriteFailed, db)))"

definition FindCredential :: "auth_db \<Rightarrow> string \<Rightarrow> store_failure + Credential" where
  "FindCredential db username =
     (if username = [] \<or> trim_changes username then Inl CredentialNotFound
      else if \<not> text_stores username then Inl CredentialReadFailed
      else case find (\<lambda>r. op_username r = username) (operators db) of
        None \<Rightarrow> Inl CredentialNotFound
      | Some r \<Rightarrow>
          Inr \<lparr>OperatorID = op_id r, Username = op_username r,
               PasswordHash = (case op_password_hash r of Some h \<Rightarrow> h | None \<Rightarrow> []),
               Enabled = op_enabled r\<rparr>)"

section \<open>OperatorWebSessionStore\<close>

record StoredSession =
  ID :: uuid
  session_OperatorID :: uuid
  CreatedAt :: time
  LastSeenAt :: time
  IdleExpiresAt :: time
  AbsoluteExpiresAt :: time

definition stored_session :: "web_session_row \<Rightarrow> StoredSession" where
  "stored_session r = \<lparr>ID = ws_id r, session_OperatorID = ws_operator r, CreatedAt = ws_created_at r,
     LastSeenAt = ws_last_seen_at r, IdleExpiresAt = ws_idle_expires_at r,
     AbsoluteExpiresAt = ws_absolute_expires_at r\<rparr>"

definition live_at :: "time \<Rightarrow> web_session_row \<Rightarrow> bool" where
  "live_at t r \<longleftrightarrow> ws_revoked_at r = None \<and> t < ws_idle_expires_at r \<and> t < ws_absolute_expires_at r"

text \<open>\<open>row_number() OVER (ORDER BY last_seen_at DESC, created_at DESC, id DESC)\<close>; \<open>uuid\<close> values
  compare as unsigned numbers.\<close>

definition ranked :: "time \<Rightarrow> uuid \<Rightarrow> web_session_row list \<Rightarrow> web_session_row list" where
  "ranked t operator rows =
     sort_key (\<lambda>r. (- ws_last_seen_at r, - ws_created_at r, - uint (ws_id r)))
       (filter (\<lambda>r. ws_operator r = operator \<and> live_at t r) rows)"

definition prune_sessions :: "time \<Rightarrow> web_session_row list \<Rightarrow> web_session_row list" where
  "prune_sessions t rows = filter (live_at t) rows"

definition enforce_limit :: "time \<Rightarrow> time \<Rightarrow> uuid \<Rightarrow> web_session_row list \<Rightarrow> web_session_row list" where
  "enforce_limit t revoke_time operator rows =
     (let excess = drop (operatorWebSessionLimit - 1) (ranked t operator rows)
      in update_where (\<lambda>r. ws_id r \<in> set (map ws_id excess))
           (\<lambda>r. r\<lparr>ws_revoked_at := Some revoke_time\<rparr>) rows)"

definition CreateSession ::
  "auth_db \<Rightarrow> clock \<Rightarrow> uuid \<Rightarrow> uuid \<Rightarrow> string \<Rightarrow> string \<Rightarrow> string
     \<Rightarrow> (store_failure + StoredSession) \<times> auth_db" where
  "CreateSession db clock new_id operatorID verifiedUsername verifiedPasswordHash tokenHash =
     (if operatorID = nil_uuid \<or> verifiedUsername = [] \<or> verifiedPasswordHash = []
         \<or> length tokenHash \<noteq> 32
      then (Inl SessionInvalidInput, db)
      else if \<not> list_ex (\<lambda>r. op_id r = operatorID \<and> op_username r = verifiedUsername
                   \<and> op_password_hash r = Some verifiedPasswordHash \<and> op_enabled r
                   \<and> op_password_changed_at r \<noteq> None) (operators db)
      then (Inl OperatorNotProvisioned, db)
      else
        let rows = enforce_limit (clock 1) (clock 2) operatorID (prune_sessions (clock 0) (web_sessions db));
            row = \<lparr>ws_id = new_id, ws_operator = operatorID, ws_token_hash = tokenHash,
                   ws_created_at = clock 3, ws_last_seen_at = clock 4,
                   ws_idle_expires_at = clock 5 + operatorWebSessionIdleLifetime,
                   ws_absolute_expires_at = clock 6 + operatorWebSessionAbsoluteLifetime,
                   ws_revoked_at = None\<rparr>
        in if web_session_checks row \<and> new_id \<notin> ws_id ` set rows \<and> tokenHash \<notin> ws_token_hash ` set rows
           then (Inr (stored_session row), db\<lparr>web_sessions := rows @ [row]\<rparr>)
           else (Inl SessionInsertFailed, db))"

definition session_selected :: "auth_db \<Rightarrow> time \<Rightarrow> string \<Rightarrow> web_session_row \<Rightarrow> bool" where
  "session_selected db t tokenHash r \<longleftrightarrow>
     ws_token_hash r = tokenHash \<and> ws_revoked_at r = None
     \<and> t < ws_idle_expires_at r \<and> t < ws_absolute_expires_at r
     \<and> list_ex (\<lambda>p. op_id p = ws_operator r \<and> op_tokens_invalid_before p < ws_created_at r
           \<and> op_enabled p \<and> op_password_hash p \<noteq> None \<and> op_password_changed_at p \<noteq> None) (operators db)"

definition refresh_row :: "clock \<Rightarrow> web_session_row \<Rightarrow> web_session_row" where
  "refresh_row clock r = r\<lparr>ws_last_seen_at := clock 2,
     ws_idle_expires_at := min (clock 3 + operatorWebSessionIdleLifetime) (ws_absolute_expires_at r)\<rparr>"

definition FindValidSession ::
  "auth_db \<Rightarrow> clock \<Rightarrow> string \<Rightarrow> (store_failure + StoredSession) \<times> auth_db" where
  "FindValidSession db clock tokenHash =
     (if length tokenHash \<noteq> 32 then (Inl SessionInvalidInput, db)
      else case find (session_selected db (clock 0) tokenHash) (web_sessions db) of
        None \<Rightarrow> (Inl SessionNotValid, db)
      | Some row \<Rightarrow>
          (let rows = update_where (\<lambda>r. ws_id r = ws_id row \<and> ws_revoked_at r = None
                        \<and> operatorWebSessionSeenThrottle \<le> clock 1 - ws_last_seen_at r)
                        (refresh_row clock) (web_sessions db)
           in if list_all web_session_checks rows
              then (Inr (stored_session row), db\<lparr>web_sessions := rows\<rparr>)
              else (Inl SessionRefreshFailed, db)))"

definition RevokeSession :: "auth_db \<Rightarrow> clock \<Rightarrow> string \<Rightarrow> auth_db" where
  "RevokeSession db clock tokenHash =
     (if length tokenHash \<noteq> 32 then db
      else db\<lparr>web_sessions := update_where (\<lambda>r. ws_token_hash r = tokenHash \<and> ws_revoked_at r = None)
                (\<lambda>r. r\<lparr>ws_revoked_at := Some (clock 0)\<rparr>) (web_sessions db)\<rparr>)"

definition RevokeOperatorSessions :: "auth_db \<Rightarrow> clock \<Rightarrow> uuid \<Rightarrow> auth_db" where
  "RevokeOperatorSessions db clock operatorID =
     (if operatorID = nil_uuid then db
      else db\<lparr>web_sessions := update_where (\<lambda>r. ws_operator r = operatorID \<and> ws_revoked_at r = None)
                (\<lambda>r. r\<lparr>ws_revoked_at := Some (clock 0)\<rparr>) (web_sessions db)\<rparr>)"

end
