(* ===== verification/Operator_Sessions.thy ===== *)
theory Operator_Sessions
  imports Web_Sessions
begin

text \<open>
  The browser authentication service \<open>application/operatorsessions/service.go\<close> and the credential
  bootstrap service \<open>application/operatorcredentials/service.go\<close>. The password verifier, SHA-256,
  HMAC-SHA-256 and the bytes drawn by \<open>rand.Read\<close> are arguments. \<open>free_slot\<close> says whether the
  process-wide KDF semaphore has room when the verification starts.
\<close>

datatype session_error = ErrAuthentication | ErrSessionInvalid | VerifierFailed password_error | RevokeFailed

type_synonym verifier = "string \<Rightarrow> string \<Rightarrow> password_error + bool"

record Session =
  stored :: StoredSession
  Token :: string

section \<open>Tokens\<close>

definition decodeToken :: "string \<Rightarrow> string option" where
  "decodeToken token =
     (if length token \<noteq> EncodedLen 32 then None
      else case DecodeString url_alphabet token of
        None \<Rightarrow> None
      | Some raw \<Rightarrow> if length raw \<noteq> 32 then None else Some raw)"

definition TokenHash :: "(string \<Rightarrow> string) \<Rightarrow> string \<Rightarrow> string option" where
  "TokenHash sha256 token = (case decodeToken token of None \<Rightarrow> None | Some raw \<Rightarrow> Some (sha256 raw))"

definition SessionCSRFToken :: "(string \<Rightarrow> string \<Rightarrow> string) \<Rightarrow> string \<Rightarrow> string option" where
  "SessionCSRFToken hmac token =
     (case decodeToken token of
        None \<Rightarrow> None
      | Some _ \<Rightarrow> Some (EncodeToString url_alphabet (hmac token ''cresora/operator-session/csrf/v1'')))"

section \<open>Login\<close>

definition dummyPassword :: string where
  "dummyPassword = ''cresora-invalid-login-dummy''"

definition dummyPasswordHash :: string where
  "dummyPasswordHash = ''$argon2id$v=19$m=65536,t=3,p=1$zoGxWL7tL2reGa8XjQF2DA$xnf4h+1sCPEWwN91YzLwwULY/1eukz/ky3Mj1lKJcyo''"

definition verifyPassword :: "bool \<Rightarrow> verifier \<Rightarrow> string \<Rightarrow> string \<Rightarrow> session_error + bool" where
  "verifyPassword free_slot verifier plaintext encoded =
     (if free_slot
      then (case verifier plaintext encoded of Inl e \<Rightarrow> Inl (VerifierFailed e) | Inr b \<Rightarrow> Inr b)
      else Inl ErrAuthentication)"

text \<open>The part of \<open>Login\<close> between the credential lookup and the session insert: the credential it
  goes on with, or \<open>None\<close> when it returns \<open>ErrAuthentication\<close>. On a failed lookup only the result of
  \<open>dummyVerify\<close> is dropped.\<close>

definition login_accepts ::
  "bool \<Rightarrow> verifier \<Rightarrow> store_failure + Credential \<Rightarrow> string \<Rightarrow> string \<Rightarrow> Credential option" where
  "login_accepts free_slot verifier lookup username plaintext =
     (case lookup of
        Inl _ \<Rightarrow> None
      | Inr credential \<Rightarrow>
          let inputValid = (12 \<le> length plaintext \<and> length plaintext \<le> 1024);
              candidate = (if inputValid then plaintext else dummyPassword);
              verifyHash = (if PasswordHash credential = [] then dummyPasswordHash
                            else PasswordHash credential)
          in case verifyPassword free_slot verifier candidate verifyHash of
               Inl _ \<Rightarrow> None
             | Inr verified \<Rightarrow>
                 if \<not> verified \<or> \<not> inputValid \<or> \<not> Enabled credential
                    \<or> OperatorID credential = nil_uuid \<or> PasswordHash credential = []
                 then None
                 else if Username credential = [] \<or> Username credential \<noteq> username then None
                 else Some credential)"

definition login_finish ::
  "auth_db \<Rightarrow> clock \<Rightarrow> (string \<Rightarrow> string) \<Rightarrow> string option \<Rightarrow> uuid \<Rightarrow> Credential
     \<Rightarrow> (session_error + Session) \<times> auth_db" where
  "login_finish db clock sha256 draw new_id credential =
     (case draw of
        None \<Rightarrow> (Inl ErrAuthentication, db)
      | Some rawToken \<Rightarrow>
          (case CreateSession db clock new_id (OperatorID credential) (Username credential)
                  (PasswordHash credential) (sha256 rawToken) of
             (Inl _, db') \<Rightarrow> (Inl ErrAuthentication, db')
           | (Inr created, db') \<Rightarrow>
               if session_OperatorID created \<noteq> OperatorID credential
               then (Inl ErrAuthentication, db')
               else (Inr \<lparr>stored = created, Token = EncodeToString url_alphabet rawToken\<rparr>, db')))"

text \<open>\<open>meanwhile\<close> is what other connections commit between the lookup and the insert.\<close>

definition Login ::
  "auth_db \<Rightarrow> clock \<Rightarrow> bool \<Rightarrow> verifier \<Rightarrow> (string \<Rightarrow> string) \<Rightarrow> string option \<Rightarrow> uuid
     \<Rightarrow> (auth_db \<Rightarrow> auth_db) \<Rightarrow> string \<Rightarrow> string \<Rightarrow> (session_error + Session) \<times> auth_db" where
  "Login db clock free_slot verifier sha256 draw new_id meanwhile username plaintext =
     (case login_accepts free_slot verifier (FindCredential db username) username plaintext of
        None \<Rightarrow> (Inl ErrAuthentication, meanwhile db)
      | Some credential \<Rightarrow> login_finish (meanwhile db) clock sha256 draw new_id credential)"

section \<open>Validation and revocation\<close>

definition Validate_session ::
  "auth_db \<Rightarrow> clock \<Rightarrow> (string \<Rightarrow> string) \<Rightarrow> string \<Rightarrow> (session_error + Session) \<times> auth_db" where
  "Validate_session db clock sha256 token =
     (case decodeToken token of
        None \<Rightarrow> (Inl ErrSessionInvalid, db)
      | Some raw \<Rightarrow>
          (case FindValidSession db clock (sha256 raw) of
             (Inl _, db') \<Rightarrow> (Inl ErrSessionInvalid, db')
           | (Inr found, db') \<Rightarrow>
               if session_OperatorID found = nil_uuid then (Inl ErrSessionInvalid, db')
               else (Inr \<lparr>stored = found, Token = []\<rparr>, db')))"

definition Revoke :: "auth_db \<Rightarrow> clock \<Rightarrow> (string \<Rightarrow> string) \<Rightarrow> string \<Rightarrow> auth_db" where
  "Revoke db clock sha256 token =
     (case decodeToken token of None \<Rightarrow> db | Some raw \<Rightarrow> RevokeSession db clock (sha256 raw))"

definition Service_RevokeOperatorSessions :: "auth_db \<Rightarrow> clock \<Rightarrow> uuid \<Rightarrow> auth_db" where
  "Service_RevokeOperatorSessions db clock operatorID =
     (if operatorID = nil_uuid then db else RevokeOperatorSessions db clock operatorID)"

section \<open>Credential bootstrap\<close>

datatype bootstrap_error = ErrInvalidInput | HashFailed password_error | PersistFailed store_failure
  | ErrTTYRequired | ErrPasswordMismatch | PromptFailed

definition validateUsername :: "string \<Rightarrow> bootstrap_error + unit" where
  "validateUsername username =
     (if None \<in> set (runes_of_text username) \<or> username = [] \<or> trim_changes username
         \<or> 255 < length username
      then Inl ErrInvalidInput
      else if \<exists>c \<in> set username. byte_value c < 33 \<or> 126 < byte_value c then Inl ErrInvalidInput
      else Inr ())"

definition Service_BootstrapOrReset ::
  "auth_db \<Rightarrow> clock \<Rightarrow> uuid \<Rightarrow> (string \<Rightarrow> password_error + string) \<Rightarrow> string \<Rightarrow> string
     \<Rightarrow> (bootstrap_error + uuid \<times> string) \<times> auth_db" where
  "Service_BootstrapOrReset db clock new_id hasher username plaintext =
     (case validateUsername username of
        Inl e \<Rightarrow> (Inl e, db)
      | Inr _ \<Rightarrow>
        (case hasher plaintext of
           Inl e \<Rightarrow> (Inl (HashFailed e), db)
         | Inr hash \<Rightarrow>
           (case BootstrapOrReset db clock new_id username hash of
              (Inl e, db') \<Rightarrow> (Inl (PersistFailed e), db')
            | (Inr operator, db') \<Rightarrow> (Inr operator, db'))))"

text \<open>The interactive command \<open>operatorcredentials.Run\<close> (\<open>entrypoint/cli/operatorcredentials\<close>): the
  prompts answer with a string or fail.\<close>

definition Run_bootstrap ::
  "auth_db \<Rightarrow> clock \<Rightarrow> uuid \<Rightarrow> (string \<Rightarrow> password_error + string) \<Rightarrow> bool
     \<Rightarrow> string option \<Rightarrow> string option \<Rightarrow> string option
     \<Rightarrow> (bootstrap_error + uuid \<times> string) \<times> auth_db" where
  "Run_bootstrap db clock new_id hasher tty username first second_entry =
     (if \<not> tty then (Inl ErrTTYRequired, db)
      else case username of None \<Rightarrow> (Inl PromptFailed, db)
      | Some name \<Rightarrow>
        (case validateUsername name of
           Inl e \<Rightarrow> (Inl e, db)
         | Inr _ \<Rightarrow>
           (case first of None \<Rightarrow> (Inl PromptFailed, db)
            | Some p \<Rightarrow>
              (case second_entry of None \<Rightarrow> (Inl PromptFailed, db)
               | Some q \<Rightarrow>
                   if p \<noteq> q then (Inl ErrPasswordMismatch, db)
                   else Service_BootstrapOrReset db clock new_id hasher name p))))"

section \<open>Facts about the parts\<close>

lemma EncodedLen_32 [simp]: "EncodedLen 32 = 43"
  by (simp add: EncodedLen_def)

text \<open>The token \<open>Login\<close> hands out decodes to the bytes whose digest was stored.\<close>

lemma decodeToken_issued: "length raw = 32 \<Longrightarrow> decodeToken (EncodeToString url_alphabet raw) = Some raw"
  by (simp add: decodeToken_def)

lemma login_accepts_Some:
  "login_accepts free_slot verifier lookup username plaintext = Some credential \<longleftrightarrow>
     lookup = Inr credential \<and> free_slot \<and> 12 \<le> length plaintext \<and> length plaintext \<le> 1024
     \<and> verifier plaintext (PasswordHash credential) = Inr True \<and> Enabled credential
     \<and> OperatorID credential \<noteq> nil_uuid \<and> PasswordHash credential \<noteq> []
     \<and> Username credential \<noteq> [] \<and> Username credential = username"
  unfolding login_accepts_def verifyPassword_def Let_def
  by (auto split: sum.splits if_splits)

lemma FindCredential_Inr:
  "FindCredential db username = Inr c \<Longrightarrow> \<exists>r \<in> set (operators db). op_username r = username
     \<and> OperatorID c = op_id r \<and> Username c = username \<and> Enabled c = op_enabled r
     \<and> PasswordHash c = (case op_password_hash r of Some h \<Rightarrow> h | None \<Rightarrow> [])"
  unfolding FindCredential_def by (auto split: if_splits option.splits dest!: find_Some_set)

lemma CreateSession_Inr:
  assumes "CreateSession db clock new_id operator username h th = (Inr created, db')"
  obtains r row where "operator \<noteq> nil_uuid" and "length th = 32"
    and "r \<in> set (operators db)" and "op_id r = operator" and "op_username r = username"
    and "op_password_hash r = Some h" and "op_enabled r" and "op_password_changed_at r \<noteq> None"
    and "row = \<lparr>ws_id = new_id, ws_operator = operator, ws_token_hash = th, ws_created_at = clock 3,
       ws_last_seen_at = clock 4, ws_idle_expires_at = clock 5 + operatorWebSessionIdleLifetime,
       ws_absolute_expires_at = clock 6 + operatorWebSessionAbsoluteLifetime, ws_revoked_at = None\<rparr>"
    and "web_session_checks row" and "created = stored_session row"
    and "new_id \<notin> ws_id ` set (enforce_limit (clock 1) (clock 2) operator (prune_sessions (clock 0) (web_sessions db)))"
    and "th \<notin> ws_token_hash ` set (enforce_limit (clock 1) (clock 2) operator (prune_sessions (clock 0) (web_sessions db)))"
    and "db' = db\<lparr>web_sessions :=
       enforce_limit (clock 1) (clock 2) operator (prune_sessions (clock 0) (web_sessions db)) @ [row]\<rparr>"
  using assms unfolding CreateSession_def Let_def
  by (auto simp: list_ex_iff split: if_splits)

lemma CreateSession_Inl: "CreateSession db clock i operator u h th = (Inl e, db') \<Longrightarrow> db' = db"
  unfolding CreateSession_def Let_def by (auto split: if_splits)

lemma login_accepts_when:
  assumes "FindCredential db username = Inr credential" and "free_slot"
    and "12 \<le> length plaintext" and "length plaintext \<le> 1024"
    and "verifier plaintext (PasswordHash credential) = Inr True" and "Enabled credential"
    and "fst (CreateSession db' clock new_id (OperatorID credential) username (PasswordHash credential) th) = Inr created"
  shows "login_accepts free_slot verifier (FindCredential db username) username plaintext = Some credential"
proof -
  have "OperatorID credential \<noteq> nil_uuid" "username \<noteq> []" "PasswordHash credential \<noteq> []"
    using assms(7) by (auto simp: CreateSession_def)
  moreover have "Username credential = username" using FindCredential_Inr [OF assms(1)] by blast
  ultimately show ?thesis unfolding login_accepts_Some using assms by simp
qed

lemma login_finish_eq:
  assumes "CreateSession db clock new_id (OperatorID c) (Username c) (PasswordHash c) (sha256 raw) = (result, db')"
  shows "login_finish db clock sha256 (Some raw) new_id c =
    (case result of Inl _ \<Rightarrow> (Inl ErrAuthentication, db')
     | Inr created \<Rightarrow> (Inr \<lparr>stored = created, Token = EncodeToString url_alphabet raw\<rparr>, db'))"
proof (cases result)
  case (Inr created)
  have "session_OperatorID created = OperatorID c"
    using assms unfolding Inr by (rule CreateSession_Inr) (simp add: stored_session_def)
  then show ?thesis using Inr assms by (simp add: login_finish_def)
qed (simp add: login_finish_def assms)

text \<open>C36: \<open>Login\<close> succeeds exactly when the operator is stored and enabled under that very username,
  a KDF slot was free, the password has an admissible length and verifies against the stored hash,
  the random source answered, and the insert still found the credential that was verified; every
  other outcome, whatever its cause, is the one value \<open>ErrAuthentication\<close>.\<close>

theorem Login_exact:
  "case Login db clock free_slot verifier sha256 draw new_id meanwhile username plaintext of
     (Inl e, _) \<Rightarrow> e = ErrAuthentication \<and>
       (\<nexists>credential raw created. FindCredential db username = Inr credential \<and> free_slot
          \<and> 12 \<le> length plaintext \<and> length plaintext \<le> 1024
          \<and> verifier plaintext (PasswordHash credential) = Inr True \<and> Enabled credential \<and> draw = Some raw
          \<and> fst (CreateSession (meanwhile db) clock new_id (OperatorID credential) username
               (PasswordHash credential) (sha256 raw)) = Inr created)
   | (Inr session, db') \<Rightarrow>
       (\<exists>credential raw created. FindCredential db username = Inr credential \<and> free_slot
          \<and> 12 \<le> length plaintext \<and> length plaintext \<le> 1024
          \<and> verifier plaintext (PasswordHash credential) = Inr True \<and> Enabled credential \<and> draw = Some raw
          \<and> CreateSession (meanwhile db) clock new_id (OperatorID credential) username
              (PasswordHash credential) (sha256 raw) = (Inr created, db')
          \<and> session = \<lparr>stored = created, Token = EncodeToString url_alphabet raw\<rparr>)"
proof (cases "login_accepts free_slot verifier (FindCredential db username) username plaintext")
  case None
  then show ?thesis using login_accepts_when by (fastforce simp: Login_def)
next
  case (Some credential)
  note accepted = Some [unfolded login_accepts_Some]
  have login: "Login db clock free_slot verifier sha256 draw new_id meanwhile username plaintext =
      login_finish (meanwhile db) clock sha256 draw new_id credential"
    by (simp add: Login_def Some)
  show ?thesis
  proof (cases draw)
    case None
    then show ?thesis unfolding login by (simp add: login_finish_def)
  next
    case (Some raw)
    obtain result db' where c: "CreateSession (meanwhile db) clock new_id (OperatorID credential)
        (Username credential) (PasswordHash credential) (sha256 raw) = (result, db')" by fastforce
    have "Login db clock free_slot verifier sha256 draw new_id meanwhile username plaintext =
        (case result of Inl _ \<Rightarrow> (Inl ErrAuthentication, db')
         | Inr created \<Rightarrow> (Inr \<lparr>stored = created, Token = EncodeToString url_alphabet raw\<rparr>, db'))"
      unfolding login unfolding Some by (rule login_finish_eq) (rule c)
    then show ?thesis using accepted c Some by (cases result) auto
  qed
qed

end
