(* ===== verification/Session_System.thy ===== *)
theory Session_System
  imports Operator_Sessions
begin

text \<open>
  Operator authentication as a whole: logins in progress of any number of requests, the KDF
  semaphore, and the two tables, under every interleaving of the service's operations. A login is
  a program counter between the points where the code yields: after the credential lookup, inside
  the verification while it holds a KDF slot, and before the insert. The state also remembers, for
  the statements only, under which password and when each token digest was opened and last used.
\<close>

datatype login =
    LookedUp string string "store_failure + Credential" \<comment> \<open>\<open>Login\<close> before \<open>verifyPassword\<close>\<close>
  | Verifying string string "store_failure + Credential" \<comment> \<open>holds a slot of \<open>passwordVerificationSlots\<close>\<close>
  | Accepted string Credential \<comment> \<open>before \<open>rand.Read\<close> and \<open>CreateSession\<close>\<close>

record issue =
  opened_operator :: uuid
  opened_username :: string
  opened_password :: string
  opened_hash :: string
  opened_at :: time
  used_at :: time

record auth_state =
  auth_tables :: auth_db
  auth_now :: time
  kdf_slots :: nat
  logins :: "login list"
  opened :: "string \<Rightarrow> issue option"

definition passwordVerificationConcurrency :: nat where
  "passwordVerificationConcurrency = 8"

definition after_verification :: "string \<Rightarrow> Credential option \<Rightarrow> login list" where
  "after_verification plaintext accepted =
     (case accepted of None \<Rightarrow> [] | Some credential \<Rightarrow> [Accepted plaintext credential])"

definition record_opening ::
  "(string \<Rightarrow> string) \<Rightarrow> string option \<Rightarrow> string \<Rightarrow> Credential \<Rightarrow> session_error + Session \<Rightarrow> time
     \<Rightarrow> (string \<Rightarrow> issue option) \<Rightarrow> string \<Rightarrow> issue option" where
  "record_opening sha256 draw plaintext c result t known =
     (case (draw, result) of
        (Some raw, Inr _) \<Rightarrow> known(sha256 raw \<mapsto>
          \<lparr>opened_operator = OperatorID c, opened_username = Username c, opened_password = plaintext,
           opened_hash = PasswordHash c, opened_at = t, used_at = t\<rparr>)
      | _ \<Rightarrow> known)"

definition record_use ::
  "(string \<Rightarrow> string) \<Rightarrow> string \<Rightarrow> session_error + Session \<Rightarrow> time
     \<Rightarrow> (string \<Rightarrow> issue option) \<Rightarrow> string \<Rightarrow> issue option" where
  "record_use sha256 token result t known =
     (case (TokenHash sha256 token, result) of
        (Some h, Inr _) \<Rightarrow> known(h := map_option (\<lambda>i. i\<lparr>used_at := t\<rparr>) (known h))
      | _ \<Rightarrow> known)"

definition clock_from :: "time \<Rightarrow> clock \<Rightarrow> bool" where
  "clock_from t clock \<longleftrightarrow> t \<le> clock 0 \<and> mono clock"

definition auth_init :: "auth_state \<Rightarrow> bool" where
  "auth_init s \<longleftrightarrow> operators (auth_tables s) = [] \<and> web_sessions (auth_tables s) = []
     \<and> kdf_slots s = 0 \<and> logins s = [] \<and> opened s = Map.empty"

text \<open>Digests of fresh 32 byte draws do not collide with a digest seen before.\<close>

inductive auth_step ::
  "(string \<Rightarrow> string) \<Rightarrow> verifier \<Rightarrow> (string \<Rightarrow> password_error + string) \<Rightarrow> auth_state \<Rightarrow> auth_state \<Rightarrow> bool"
  for sha256 verifier hasher where
  login_begins:
    "auth_step sha256 verifier hasher s
       (s\<lparr>logins := logins s @ [LookedUp u p (FindCredential (auth_tables s) u)]\<rparr>)"
| slot_taken:
    "logins s = before @ LookedUp u p l # rest \<Longrightarrow> kdf_slots s < passwordVerificationConcurrency \<Longrightarrow>
     auth_step sha256 verifier hasher s
       (s\<lparr>kdf_slots := kdf_slots s + 1, logins := before @ Verifying u p l # rest\<rparr>)"
| slot_refused:
    "logins s = before @ LookedUp u p l # rest \<Longrightarrow> \<not> kdf_slots s < passwordVerificationConcurrency \<Longrightarrow>
     auth_step sha256 verifier hasher s
       (s\<lparr>logins := before @ after_verification p (login_accepts False verifier l u p) @ rest\<rparr>)"
| verified:
    "logins s = before @ Verifying u p l # rest \<Longrightarrow>
     auth_step sha256 verifier hasher s
       (s\<lparr>kdf_slots := kdf_slots s - 1,
          logins := before @ after_verification p (login_accepts True verifier l u p) @ rest\<rparr>)"
| session_opened:
    "logins s = before @ Accepted p c # rest \<Longrightarrow> clock_from (auth_now s) clock \<Longrightarrow>
     \<forall>raw. draw = Some raw \<longrightarrow> length raw = 32 \<and> opened s (sha256 raw) = None \<Longrightarrow>
     login_finish (auth_tables s) clock sha256 draw new_id c = (result, db) \<Longrightarrow>
     auth_step sha256 verifier hasher s
       (s\<lparr>auth_tables := db, auth_now := clock 7, logins := before @ rest,
          opened := record_opening sha256 draw p c result (clock 7) (opened s)\<rparr>)"
| session_validated:
    "clock_from (auth_now s) clock \<Longrightarrow>
     Validate_session (auth_tables s) clock sha256 token = (result, db) \<Longrightarrow>
     auth_step sha256 verifier hasher s
       (s\<lparr>auth_tables := db, auth_now := clock 7,
          opened := record_use sha256 token result (clock 7) (opened s)\<rparr>)"
| session_revoked:
    "clock_from (auth_now s) clock \<Longrightarrow>
     auth_step sha256 verifier hasher s
       (s\<lparr>auth_tables := Revoke (auth_tables s) clock sha256 token, auth_now := clock 7\<rparr>)"
| operator_sessions_revoked:
    "clock_from (auth_now s) clock \<Longrightarrow>
     auth_step sha256 verifier hasher s
       (s\<lparr>auth_tables := Service_RevokeOperatorSessions (auth_tables s) clock operator, auth_now := clock 7\<rparr>)"
| credential_written:
    "clock_from (auth_now s) clock \<Longrightarrow>
     Service_BootstrapOrReset (auth_tables s) clock new_id hasher u p = (result, db) \<Longrightarrow>
     auth_step sha256 verifier hasher s (s\<lparr>auth_tables := db, auth_now := clock 7\<rparr>)"
| operator_switched: \<comment> \<open>an administrator sets \<open>enabled\<close> by hand\<close>
    "auth_step sha256 verifier hasher s
       (s\<lparr>auth_tables := (auth_tables s)\<lparr>operators :=
          update_where (\<lambda>r. op_id r = operator) (\<lambda>r. r\<lparr>op_enabled := b\<rparr>) (operators (auth_tables s))\<rparr>\<rparr>)"

section \<open>The invariant\<close>

definition is_verifying :: "login \<Rightarrow> bool" where
  "is_verifying l \<longleftrightarrow> (case l of Verifying _ _ _ \<Rightarrow> True | _ \<Rightarrow> False)"

definition slots_ok :: "nat \<Rightarrow> login list \<Rightarrow> bool" where
  "slots_ok n ls \<longleftrightarrow> n = length (filter is_verifying ls) \<and> n \<le> passwordVerificationConcurrency"

definition admissible :: "verifier \<Rightarrow> string \<Rightarrow> string \<Rightarrow> bool" where
  "admissible verifier plaintext hash \<longleftrightarrow>
     12 \<le> length plaintext \<and> length plaintext \<le> 1024 \<and> verifier plaintext hash = Inr True"

definition login_ok :: "verifier \<Rightarrow> login \<Rightarrow> bool" where
  "login_ok verifier l \<longleftrightarrow>
     (case l of Accepted p c \<Rightarrow> admissible verifier p (PasswordHash c) | _ \<Rightarrow> True)"

definition operators_ok :: "time \<Rightarrow> operator_row list \<Rightarrow> bool" where
  "operators_ok t ops \<longleftrightarrow> distinct (map op_id ops) \<and> distinct (map op_username ops)
     \<and> (\<forall>r \<in> set ops. op_tokens_invalid_before r \<le> t)"

definition row_ok :: "operator_row list \<Rightarrow> (string \<Rightarrow> issue option) \<Rightarrow> time \<Rightarrow> web_session_row \<Rightarrow> bool" where
  "row_ok ops known t row \<longleftrightarrow>
     (\<exists>i r. known (ws_token_hash row) = Some i \<and> r \<in> set ops \<and> op_id r = ws_operator row
        \<and> opened_operator i = ws_operator row \<and> ws_operator row \<noteq> nil_uuid
        \<and> length (ws_token_hash row) = 32 \<and> ws_created_at row \<le> t \<and> used_at i \<le> t
        \<and> ws_absolute_expires_at row \<le> opened_at i + operatorWebSessionAbsoluteLifetime
        \<and> ws_idle_expires_at row \<le> used_at i + operatorWebSessionIdleLifetime
        \<and> (ws_revoked_at row = None \<longrightarrow> op_tokens_invalid_before r < ws_created_at row \<longrightarrow>
             op_password_hash r = Some (opened_hash i) \<and> op_username r = opened_username i))"

definition live_sessions :: "time \<Rightarrow> uuid \<Rightarrow> web_session_row list \<Rightarrow> nat" where
  "live_sessions t operator rows = count_where (\<lambda>r. ws_operator r = operator \<and> live_at t r) rows"

definition tables_ok :: "(string \<Rightarrow> issue option) \<Rightarrow> time \<Rightarrow> auth_db \<Rightarrow> bool" where
  "tables_ok known t db \<longleftrightarrow>
     operators_ok t (operators db)
     \<and> distinct (map ws_id (web_sessions db)) \<and> distinct (map ws_token_hash (web_sessions db))
     \<and> (\<forall>row \<in> set (web_sessions db). row_ok (operators db) known t row)
     \<and> (\<forall>operator. live_sessions t operator (web_sessions db) \<le> operatorWebSessionLimit)"

definition auth_ok :: "verifier \<Rightarrow> auth_state \<Rightarrow> bool" where
  "auth_ok verifier s \<longleftrightarrow>
     slots_ok (kdf_slots s) (logins s) \<and> list_all (login_ok verifier) (logins s)
     \<and> tables_ok (opened s) (auth_now s) (auth_tables s)
     \<and> (\<forall>h i. opened s h = Some i \<longrightarrow> admissible verifier (opened_password i) (opened_hash i))"

end
