(* ===== verification/Session_Invariant.thy ===== *)
theory Session_Invariant
  imports Session_System
begin

text \<open>
  The invariant of operator authentication is preserved by every step: the store operations keep
  the tables well formed, at most five sessions of an operator live, and every unrevoked session
  that passes the token boundary tied to the operator's current credential.
\<close>

section \<open>Clocks and counts\<close>

lemma clock_fromD: "clock_from t clock \<Longrightarrow> t \<le> clock n"
  unfolding clock_from_def by (meson le0 monoD order_trans)

lemma clock_from_mono: "clock_from t clock \<Longrightarrow> m \<le> n \<Longrightarrow> clock m \<le> clock n"
  unfolding clock_from_def by (meson monoD)

lemma count_where_le:
  "(\<And>x. x \<in> set xs \<Longrightarrow> P x \<Longrightarrow> Q x) \<Longrightarrow> count_where P xs \<le> count_where Q xs"
  by (induction xs) (auto simp: count_where_def le_SucI)

lemma count_update_where_le:
  "(\<And>x. x \<in> set xs \<Longrightarrow> P (if p x then f x else x) \<Longrightarrow> Q x) \<Longrightarrow>
     count_where P (update_where p f xs) \<le> count_where Q xs"
  by (induction xs) (auto simp: count_where_def le_SucI)

lemma count_filter_le: "count_where P (filter q xs) \<le> count_where P xs"
  by (induction xs) (auto simp: count_where_def)

lemma live_at_earlier: "live_at t' r \<Longrightarrow> t \<le> t' \<Longrightarrow> live_at t r"
  by (auto simp: live_at_def)

lemma live_sessions_later: "t \<le> t' \<Longrightarrow> live_sessions t' operator rows \<le> live_sessions t operator rows"
  unfolding live_sessions_def by (intro count_where_le) (auto intro: live_at_earlier)

lemma live_sessions_revoking:
  "live_sessions t operator (update_where p (\<lambda>r. r\<lparr>ws_revoked_at := Some x\<rparr>) rows) \<le> live_sessions t operator rows"
  unfolding live_sessions_def by (intro count_update_where_le) (auto simp: live_at_def split: if_splits)

section \<open>Rows\<close>

lemma row_ok_later: "row_ok ops known t row \<Longrightarrow> t \<le> t' \<Longrightarrow> row_ok ops known t' row"
  unfolding row_ok_def by force

lemma row_ok_revoked: "row_ok ops known t row \<Longrightarrow> row_ok ops known t (row\<lparr>ws_revoked_at := Some x\<rparr>)"
  unfolding row_ok_def by auto

lemma rows_update_where:
  assumes "\<forall>row \<in> set rows. P row" and "\<And>row. row \<in> set rows \<Longrightarrow> p row \<Longrightarrow> P row \<Longrightarrow> P (f row)"
  shows "\<forall>row \<in> set (update_where p f rows). P row"
  using assms by (auto simp: update_where_def)

lemma distinct_keys_update_where [session_simps]:
  "map ws_id (update_where p (\<lambda>r. r\<lparr>ws_revoked_at := x\<rparr>) rows) = map ws_id rows"
  "map ws_token_hash (update_where p (\<lambda>r. r\<lparr>ws_revoked_at := x\<rparr>) rows) = map ws_token_hash rows"
  "map ws_id (update_where p (refresh_row clock) rows) = map ws_id rows"
  "map ws_token_hash (update_where p (refresh_row clock) rows) = map ws_token_hash rows"
  by (rule map_key_update_where; simp add: refresh_row_def)+

lemma tables_ok_later:
  assumes "tables_ok known t db" and "t \<le> t'"
  shows "tables_ok known t' db"
  using assms live_sessions_later [OF assms(2)] unfolding tables_ok_def operators_ok_def
  by (meson order_trans row_ok_later)

lemma tables_ok_revoking:
  assumes "tables_ok known t db"
  shows "tables_ok known t (db\<lparr>web_sessions := update_where p (\<lambda>r. r\<lparr>ws_revoked_at := Some x\<rparr>) (web_sessions db)\<rparr>)"
  using assms live_sessions_revoking [of t _ p x "web_sessions db"] unfolding tables_ok_def
  by (auto simp: session_simps set_update_where row_ok_revoked intro: order_trans)

section \<open>The session limit\<close>

lemma count_ids_le:
  assumes "distinct (map key xs)" and "\<And>x. x \<in> set xs \<Longrightarrow> P x \<Longrightarrow> key x \<in> set K"
  shows "count_where P xs \<le> length K"
proof -
  have "count_where P xs = card (key ` set (filter P xs))"
    using distinct_map_filter [OF assms(1), of P] unfolding count_where_def
    by (metis distinct_card length_map set_map)
  also have "\<dots> \<le> card (set K)" by (intro card_mono) (use assms(2) in auto)
  also have "\<dots> \<le> length K" by (rule card_length)
  finally show ?thesis .
qed

lemma set_ranked: "set (ranked t operator rows) = {r \<in> set rows. ws_operator r = operator \<and> live_at t r}"
  by (auto simp: ranked_def)

lemma enforce_limit_bound:
  assumes "distinct (map ws_id rows)" and "t \<le> t'"
  shows "live_sessions t' operator (enforce_limit t x operator rows) \<le> operatorWebSessionLimit - 1"
proof -
  let ?ranked = "ranked t operator rows" and ?n = "operatorWebSessionLimit - 1"
  let ?result = "enforce_limit t x operator rows"
  have "count_where (\<lambda>r. ws_operator r = operator \<and> live_at t' r) ?result \<le> length (map ws_id (take ?n ?ranked))"
  proof (rule count_ids_le)
    show "distinct (map ws_id ?result)" using assms(1) by (simp add: enforce_limit_def session_simps)
    fix r assume r: "r \<in> set ?result" and live: "ws_operator r = operator \<and> live_at t' r"
    then obtain y where y: "y \<in> set rows" "r = (if ws_id y \<in> set (map ws_id (drop ?n ?ranked))
        then y\<lparr>ws_revoked_at := Some x\<rparr> else y)"
      unfolding enforce_limit_def Let_def set_update_where by blast
    have "ws_revoked_at r = None" using live by (simp add: live_at_def)
    then have kept: "ws_id r \<notin> ws_id ` set (drop ?n ?ranked)" and "r \<in> set rows"
      using y by (auto split: if_splits)
    then have "r \<in> set ?ranked" using live assms(2) by (auto simp: set_ranked intro: live_at_earlier)
    then have "r \<in> set (take ?n ?ranked) \<union> set (drop ?n ?ranked)" by (metis append_take_drop_id set_append)
    then show "ws_id r \<in> set (map ws_id (take ?n ?ranked))" using kept by auto
  qed
  also have "\<dots> \<le> ?n" by simp
  finally show ?thesis unfolding live_sessions_def .
qed

lemma enforce_limit_other:
  "live_sessions t' operator' (enforce_limit t x operator rows) \<le> live_sessions t' operator' rows"
  unfolding enforce_limit_def Let_def by (rule live_sessions_revoking)

section \<open>The store operations keep the tables well formed\<close>

lemma enforce_prune_rows:
  assumes "\<forall>row \<in> set rows. row_ok ops known t row"
  shows "\<forall>row \<in> set (enforce_limit a b operator (prune_sessions c rows)). row_ok ops known t row"
  using assms by (auto simp: enforce_limit_def prune_sessions_def set_update_where row_ok_revoked)

lemma enforce_prune_distinct:
  assumes "distinct (map ws_id rows)" and "distinct (map ws_token_hash rows)"
  shows "distinct (map ws_id (enforce_limit a b operator (prune_sessions c rows)))"
    and "distinct (map ws_token_hash (enforce_limit a b operator (prune_sessions c rows)))"
  using assms by (simp_all add: enforce_limit_def prune_sessions_def session_simps distinct_map_filter)

lemma new_session_live:
  assumes "distinct (map ws_id rows)" and "clock_from t clock"
    and "\<And>operator. live_sessions t operator rows \<le> operatorWebSessionLimit"
    and "ws_operator row = operator"
  shows "live_sessions (clock 7) op (enforce_limit (clock 1) b operator (prune_sessions (clock 0) rows) @ [row])
    \<le> operatorWebSessionLimit"
proof (cases "op = operator")
  case True
  have "live_sessions (clock 7) operator (enforce_limit (clock 1) b operator (prune_sessions (clock 0) rows))
      \<le> operatorWebSessionLimit - 1"
    using assms(1) clock_from_mono [OF assms(2), of 1 7]
    by (intro enforce_limit_bound) (simp_all add: prune_sessions_def distinct_map_filter)
  then show ?thesis by (simp add: True live_sessions_def count_where_def operatorWebSessionLimit_def)
next
  case False
  have "live_sessions (clock 7) op (enforce_limit (clock 1) b operator (prune_sessions (clock 0) rows))
      \<le> live_sessions (clock 7) op (prune_sessions (clock 0) rows)" by (rule enforce_limit_other)
  also have "\<dots> \<le> live_sessions (clock 7) op rows"
    unfolding live_sessions_def prune_sessions_def by (rule count_filter_le)
  also have "\<dots> \<le> live_sessions t op rows" by (rule live_sessions_later [OF clock_fromD [OF assms(2)]])
  finally show ?thesis
    using False assms(3) [of op] assms(4) by (simp add: live_sessions_def count_where_def)
qed

lemma tables_ok_CreateSession:
  assumes "tables_ok known t db" and "clock_from t clock" and "known th = None"
    and "CreateSession db clock new_id operator u h th = (Inr created, db')"
  shows "tables_ok (known(th \<mapsto> \<lparr>opened_operator = operator, opened_username = u, opened_password = p,
           opened_hash = h, opened_at = clock 7, used_at = clock 7\<rparr>)) (clock 7) db'"
proof -
  let ?known = "known(th \<mapsto> \<lparr>opened_operator = operator, opened_username = u, opened_password = p,
           opened_hash = h, opened_at = clock 7, used_at = clock 7\<rparr>)"
  let ?rows = "enforce_limit (clock 1) (clock 2) operator (prune_sessions (clock 0) (web_sessions db))"
  obtain r row where nil: "operator \<noteq> nil_uuid" "length th = 32"
    and r: "r \<in> set (operators db)" "op_id r = operator" "op_username r = u" "op_password_hash r = Some h"
    and row: "row = \<lparr>ws_id = new_id, ws_operator = operator, ws_token_hash = th, ws_created_at = clock 3,
       ws_last_seen_at = clock 4, ws_idle_expires_at = clock 5 + operatorWebSessionIdleLifetime,
       ws_absolute_expires_at = clock 6 + operatorWebSessionAbsoluteLifetime, ws_revoked_at = None\<rparr>"
    and fresh: "new_id \<notin> ws_id ` set ?rows" "th \<notin> ws_token_hash ` set ?rows"
    and db': "db' = db\<lparr>web_sessions := ?rows @ [row]\<rparr>"
    using assms(4) by (rule CreateSession_Inr)
  have ok: "distinct (map ws_id (web_sessions db))" "distinct (map ws_token_hash (web_sessions db))"
    "\<forall>row \<in> set (web_sessions db). row_ok (operators db) known t row"
    "\<And>operator. live_sessions t operator (web_sessions db) \<le> operatorWebSessionLimit"
    using assms(1) by (auto simp: tables_ok_def)
  have step: "clock 3 \<le> clock 7" "clock 5 \<le> clock 7" "clock 6 \<le> clock 7"
    using clock_from_mono [OF assms(2)] by simp_all
  have "row_ok (operators db) ?known (clock 7) row"
    using r step nil unfolding row_ok_def row by auto
  moreover have "\<forall>row \<in> set ?rows. row_ok (operators db) ?known (clock 7) row"
  proof
    fix x assume "x \<in> set ?rows"
    then have "row_ok (operators db) known t x" using enforce_prune_rows [OF ok(3)] by blast
    then have "row_ok (operators db) known (clock 7) x" by (rule row_ok_later [OF _ clock_fromD [OF assms(2)]])
    then show "row_ok (operators db) ?known (clock 7) x" using assms(3) unfolding row_ok_def by auto
  qed
  moreover have "operators_ok (clock 7) (operators db)"
    using tables_ok_later [OF assms(1) clock_fromD [OF assms(2)]] by (simp add: tables_ok_def)
  ultimately show ?thesis
    using new_session_live [OF ok(1) assms(2) ok(4), of row operator _ "clock 2"] enforce_prune_distinct [OF ok(1,2)] fresh
    by (auto simp: tables_ok_def db' row)
qed

lemma FindValidSession_Inr:
  assumes "FindValidSession db clock th = (Inr found, db')"
  obtains row where "row \<in> set (web_sessions db)" and "session_selected db (clock 0) th row"
    and "found = stored_session row"
    and "db' = db\<lparr>web_sessions := update_where (\<lambda>r. ws_id r = ws_id row \<and> ws_revoked_at r = None
       \<and> operatorWebSessionSeenThrottle \<le> clock 1 - ws_last_seen_at r) (refresh_row clock) (web_sessions db)\<rparr>"
  using assms unfolding FindValidSession_def Let_def
  by (auto split: if_splits option.splits dest!: find_Some_set)

lemma FindValidSession_Inl: "FindValidSession db clock th = (Inl e, db') \<Longrightarrow> db' = db"
  unfolding FindValidSession_def Let_def by (auto split: if_splits option.splits)

lemma tables_ok_FindValidSession:
  assumes "tables_ok known t db" and "clock_from t clock"
    and "FindValidSession db clock th = (Inr found, db')"
  shows "tables_ok (known(th := map_option (\<lambda>i. i\<lparr>used_at := clock 7\<rparr>) (known th))) (clock 7) db'"
proof -
  let ?known = "known(th := map_option (\<lambda>i. i\<lparr>used_at := clock 7\<rparr>) (known th))"
  obtain row where row: "row \<in> set (web_sessions db)" "session_selected db (clock 0) th row"
    and db': "db' = db\<lparr>web_sessions := update_where (\<lambda>r. ws_id r = ws_id row \<and> ws_revoked_at r = None
       \<and> operatorWebSessionSeenThrottle \<le> clock 1 - ws_last_seen_at r) (refresh_row clock) (web_sessions db)\<rparr>"
    using assms(3) by (rule FindValidSession_Inr)
  let ?p = "\<lambda>r. ws_id r = ws_id row \<and> ws_revoked_at r = None
       \<and> operatorWebSessionSeenThrottle \<le> clock 1 - ws_last_seen_at r"
  have ok: "distinct (map ws_id (web_sessions db))" "distinct (map ws_token_hash (web_sessions db))"
    "\<And>row. row \<in> set (web_sessions db) \<Longrightarrow> row_ok (operators db) known t row"
    "\<And>operator. live_sessions t operator (web_sessions db) \<le> operatorWebSessionLimit"
    using assms(1) by (auto simp: tables_ok_def)
  have only: "x \<in> set (web_sessions db) \<Longrightarrow> ws_id x = ws_id row \<Longrightarrow> x = row" for x
    using distinct_key_unique [OF ok(1)] row(1) by blast
  have th: "ws_token_hash row = th" and live: "live_at (clock 0) row"
    using row(2) by (auto simp: session_selected_def live_at_def)
  have rows: "\<forall>x \<in> set (web_sessions db'). row_ok (operators db) ?known (clock 7) x"
  proof
    fix x assume "x \<in> set (web_sessions db')"
    then obtain y where y: "y \<in> set (web_sessions db)" and x: "x = (if ?p y then refresh_row clock y else y)"
      by (auto simp: db' set_update_where)
    have y7: "row_ok (operators db) known t y" by (rule ok(3) [OF y])
    have times: "t \<le> clock 7" "clock 3 \<le> clock 7"
      using clock_fromD [OF assms(2)] clock_from_mono [OF assms(2)] by simp_all
    show "row_ok (operators db) ?known (clock 7) x"
    proof (cases "ws_token_hash y = th")
      case True
      then have "y = row" using distinct_key_unique [OF ok(2) y row(1)] th by simp
      moreover have "min (clock 3 + operatorWebSessionIdleLifetime) (ws_absolute_expires_at row)
          \<le> clock 7 + operatorWebSessionIdleLifetime" using times(2) by linarith
      ultimately show ?thesis
        using y7 times th unfolding row_ok_def x
        by (auto simp: refresh_row_def)
    next
      case False
      then have "x = y" using only [OF y] th unfolding x by auto
      then show ?thesis using row_ok_later [OF y7 times(1)] False unfolding row_ok_def by auto
    qed
  qed
  have "live_sessions (clock 7) op (web_sessions db') \<le> operatorWebSessionLimit" for op
  proof -
    have eq: "web_sessions db' = update_where ?p (refresh_row clock) (web_sessions db)" by (simp add: db')
    have "live_sessions (clock 7) op (web_sessions db') \<le> live_sessions (clock 0) op (web_sessions db)"
      unfolding live_sessions_def eq
    proof (rule count_update_where_le)
      fix x assume x: "x \<in> set (web_sessions db)"
        and alive: "ws_operator (if ?p x then refresh_row clock x else x) = op
          \<and> live_at (clock 7) (if ?p x then refresh_row clock x else x)"
      show "ws_operator x = op \<and> live_at (clock 0) x"
      proof (cases "?p x")
        case True
        then show ?thesis using only [OF x] live alive by (auto simp: refresh_row_def)
      next
        case False
        then show ?thesis using alive live_at_earlier [OF _ clock_from_mono [OF assms(2)], of 7 x 0] by auto
      qed
    qed
    then show ?thesis
      using live_sessions_later [OF clock_fromD [OF assms(2)], of 0 op "web_sessions db"] ok(4) [of op] by linarith
  qed
  moreover have "operators_ok (clock 7) (operators db)"
    using tables_ok_later [OF assms(1) clock_fromD [OF assms(2)]] by (simp add: tables_ok_def)
  ultimately show ?thesis
    using rows ok(1,2) by (simp add: tables_ok_def db' session_simps)
qed

lemma tables_ok_RevokeSession: "tables_ok known t db \<Longrightarrow> tables_ok known t (RevokeSession db clock th)"
  by (simp add: RevokeSession_def tables_ok_revoking)

lemma tables_ok_RevokeOperatorSessions:
  "tables_ok known t db \<Longrightarrow> tables_ok known t (RevokeOperatorSessions db clock operator)"
  by (simp add: RevokeOperatorSessions_def tables_ok_revoking)

section \<open>Credentials\<close>

lemma row_ok_operators:
  assumes "row_ok ops known t row"
    and "\<And>r. r \<in> set ops \<Longrightarrow> op_id r = ws_operator row \<Longrightarrow> \<exists>r' \<in> set ops'. op_id r' = op_id r
        \<and> (ws_revoked_at row = None \<longrightarrow> op_tokens_invalid_before r' < ws_created_at row \<longrightarrow>
             op_tokens_invalid_before r < ws_created_at row
             \<and> op_password_hash r' = op_password_hash r \<and> op_username r' = op_username r)"
  shows "row_ok ops' known t row"
  using assms unfolding row_ok_def by metis

lemma tables_ok_new_operator:
  assumes "tables_ok known t db" and "op_id r \<notin> op_id ` set (operators db)"
    and "op_username r \<notin> op_username ` set (operators db)" and "op_tokens_invalid_before r \<le> t"
  shows "tables_ok known t (db\<lparr>operators := operators db @ [r]\<rparr>)"
  using assms unfolding tables_ok_def operators_ok_def
  by (auto intro!: row_ok_operators [of "operators db" known t _ "operators db @ [r]"])

lemma set_username_row:
  assumes "distinct (map op_username ops)" and "old \<in> set ops"
  shows "r \<in> set (update_where (\<lambda>r. op_username r = op_username old) (\<lambda>_. new) ops)
    \<longleftrightarrow> r = new \<or> (r \<in> set ops \<and> r \<noteq> old)"
  using set_update_unique [OF assms, of r "\<lambda>_. new"] by simp

lemma tables_ok_reset:
  assumes ok: "tables_ok known t db" and clock: "clock_from t clock" and old: "old \<in> set (operators db)"
    and new: "new = old\<lparr>op_password_hash := Some h, op_password_changed_at := Some (clock 4),
      op_updated_at := clock 5, op_tokens_invalid_before := max (op_tokens_invalid_before old) (clock 6)\<rparr>"
  shows "tables_ok known (clock 7)
    (db\<lparr>operators := update_where (\<lambda>r. op_username r = op_username old) (\<lambda>_. new) (operators db),
        web_sessions := revoke_after_credential_change x old new (web_sessions db)\<rparr>)"
proof -
  let ?ops = "update_where (\<lambda>r. op_username r = op_username old) (\<lambda>_. new) (operators db)"
  let ?rows = "revoke_after_credential_change x old new (web_sessions db)"
  have ops: "distinct (map op_id (operators db))" "distinct (map op_username (operators db))"
    "\<forall>r \<in> set (operators db). op_tokens_invalid_before r \<le> t"
    using ok by (auto simp: tables_ok_def operators_ok_def)
  note member = set_username_row [OF ops(2) old]
  have same: "update_where (\<lambda>r. op_username r = op_username old) (\<lambda>_. new) (operators db)
      = update_where (\<lambda>r. op_username r = op_username old) (\<lambda>r. r\<lparr>op_password_hash := Some h,
      op_password_changed_at := Some (clock 4), op_updated_at := clock 5,
      op_tokens_invalid_before := max (op_tokens_invalid_before old) (clock 6)\<rparr>) (operators db)"
    using distinct_key_unique [OF ops(2) _ old] by (intro update_where_cong) (auto simp: new)
  have keys: "map op_id ?ops = map op_id (operators db)" "map op_username ?ops = map op_username (operators db)"
    unfolding same by (rule map_key_update_where; simp)+
  have "t \<le> clock 7" "clock 6 \<le> clock 7" using clock_fromD [OF clock] clock_from_mono [OF clock] by simp_all
  then have "operators_ok (clock 7) ?ops"
    using ops old keys unfolding operators_ok_def by (fastforce simp: member new)
  have "row_ok ?ops known (clock 7) row" if row: "row \<in> set ?rows" for row
  proof -
    have "\<forall>y \<in> set ?rows. row_ok (operators db) known t y
        \<and> (ws_operator y = op_id old \<longrightarrow> op_tokens_invalid_before old < op_tokens_invalid_before new \<longrightarrow> ws_revoked_at y \<noteq> None)"
      using ok unfolding tables_ok_def revoke_after_credential_change_def
      by (auto simp: set_update_where new row_ok_revoked)
    then have r: "row_ok (operators db) known t row"
      and revoked: "ws_operator row = op_id old \<Longrightarrow> op_tokens_invalid_before old < op_tokens_invalid_before new \<Longrightarrow> ws_revoked_at row \<noteq> None"
      using row by auto
    have created: "ws_created_at row \<le> clock 6"
      using r clock_fromD [OF clock, of 6] unfolding row_ok_def by auto
    have "row_ok ?ops known t row"
    proof (rule row_ok_operators [OF r])
      fix r assume r: "r \<in> set (operators db)" "op_id r = ws_operator row"
      show "\<exists>r' \<in> set ?ops. op_id r' = op_id r \<and> (ws_revoked_at row = None \<longrightarrow>
          op_tokens_invalid_before r' < ws_created_at row \<longrightarrow> op_tokens_invalid_before r < ws_created_at row
          \<and> op_password_hash r' = op_password_hash r \<and> op_username r' = op_username r)"
      proof (cases "r = old")
        case True
        have "new \<in> set ?ops" using member by blast
        moreover have "\<not> op_tokens_invalid_before new < ws_created_at row" using created by (simp add: new)
        ultimately show ?thesis using True by (intro bexI [of _ new]) (auto simp: new)
      qed (use r member in blast)
    qed
    then show ?thesis by (rule row_ok_later) fact
  qed
  moreover have "live_sessions (clock 7) op ?rows \<le> operatorWebSessionLimit" for op
  proof -
    have "live_sessions (clock 7) op ?rows \<le> live_sessions (clock 7) op (web_sessions db)"
      by (simp add: revoke_after_credential_change_def live_sessions_revoking)
    also have "\<dots> \<le> live_sessions t op (web_sessions db)" by (rule live_sessions_later) fact
    also have "\<dots> \<le> operatorWebSessionLimit" using ok by (simp add: tables_ok_def)
    finally show ?thesis .
  qed
  moreover have "map ws_id ?rows = map ws_id (web_sessions db)" "map ws_token_hash ?rows = map ws_token_hash (web_sessions db)"
    by (simp_all add: revoke_after_credential_change_def session_simps)
  ultimately show ?thesis
    using \<open>operators_ok (clock 7) ?ops\<close> ok by (simp add: tables_ok_def)
qed

lemma validateUsername_Inr: "validateUsername u = Inr x \<Longrightarrow> u \<noteq> []"
  by (auto simp: validateUsername_def split: if_splits)

lemma BootstrapOrReset_Inl: "BootstrapOrReset db clock i u h = (Inl e, db') \<Longrightarrow> db' = db"
  unfolding BootstrapOrReset_def Let_def by (auto split: if_splits option.splits)

lemma tables_ok_BootstrapOrReset:
  assumes ok: "tables_ok known t db" and clock: "clock_from t clock"
    and b: "BootstrapOrReset db clock new_id u h = (Inr answer, db')"
  shows "tables_ok known (clock 7) db'"
proof (cases "find (\<lambda>r. op_username r = u) (operators db)")
  case None
  let ?row = "\<lparr>op_id = new_id, op_username = u, op_password_hash = Some h, op_password_changed_at = Some (clock 0),
     op_created_at = clock 1, op_updated_at = clock 2, op_tokens_invalid_before = clock 3, op_enabled = True\<rparr>"
  have "db' = db\<lparr>operators := operators db @ [?row]\<rparr>" and "new_id \<notin> op_id ` set (operators db)"
    using b None unfolding BootstrapOrReset_def Let_def by (auto split: if_splits)
  moreover have "u \<notin> op_username ` set (operators db)" using None by (auto simp: find_None_set)
  ultimately show ?thesis
    using tables_ok_new_operator [OF tables_ok_later [OF ok clock_fromD [OF clock]], of ?row 7]
      clock_from_mono [OF clock, of 3 7] by simp
next
  case (Some old)
  then have old: "old \<in> set (operators db)" "op_username old = u" using find_Some_set by fastforce+
  define new where "new = old\<lparr>op_password_hash := Some h, op_password_changed_at := Some (clock 4),
      op_updated_at := clock 5, op_tokens_invalid_before := max (op_tokens_invalid_before old) (clock 6)\<rparr>"
  have "db' = db\<lparr>operators := update_where (\<lambda>r. op_username r = op_username old) (\<lambda>_. new) (operators db),
        web_sessions := revoke_after_credential_change (clock 7) old new (web_sessions db)\<rparr>"
    using b Some unfolding BootstrapOrReset_def Let_def new_def old(2) by (auto split: if_splits)
  then show ?thesis using tables_ok_reset [OF ok clock old(1) new_def] by simp
qed

lemma tables_ok_switched:
  assumes "tables_ok known t db"
  shows "tables_ok known t (db\<lparr>operators :=
    update_where (\<lambda>r. op_id r = operator) (\<lambda>r. r\<lparr>op_enabled := b\<rparr>) (operators db)\<rparr>)"
proof -
  let ?ops = "update_where (\<lambda>r. op_id r = operator) (\<lambda>r. r\<lparr>op_enabled := b\<rparr>) (operators db)"
  have "map op_id ?ops = map op_id (operators db)" "map op_username ?ops = map op_username (operators db)"
    by (rule map_key_update_where; simp)+
  moreover have "row_ok ?ops known t row" if "row_ok (operators db) known t row" for row
    by (rule row_ok_operators [OF that], rule_tac x = "if op_id r = operator then r\<lparr>op_enabled := b\<rparr> else r" in bexI)
       (auto simp: set_update_where intro: bexI [rotated])
  ultimately show ?thesis
    using assms by (auto simp: tables_ok_def operators_ok_def set_update_where)
qed

section \<open>Every step\<close>

lemma login_ok_after:
  "login_accepts f verifier l u p = r \<Longrightarrow> list_all (login_ok verifier) (after_verification p r)"
  by (auto simp: after_verification_def login_ok_def admissible_def login_accepts_Some split: option.split)

lemma no_slot_after [simp]: "filter is_verifying (after_verification p r) = []"
  by (auto simp: after_verification_def is_verifying_def split: option.split)

lemma login_finish_cases:
  assumes "login_finish db clock sha256 draw new_id c = (result, db')"
  obtains (failed) e where "result = Inl e" and "db' = db"
  | (created) raw created where "draw = Some raw" and "CreateSession db clock new_id (OperatorID c) (Username c)
      (PasswordHash c) (sha256 raw) = (Inr created, db')"
      and "result = Inr \<lparr>stored = created, Token = EncodeToString url_alphabet raw\<rparr>"
proof (cases draw)
  case None
  then show thesis using assms failed by (auto simp: login_finish_def)
next
  case (Some raw)
  obtain r db'' where c: "CreateSession db clock new_id (OperatorID c) (Username c) (PasswordHash c) (sha256 raw) = (r, db'')"
    by fastforce
  show thesis
  proof (cases r)
    case (Inl e)
    then show thesis using assms Some c failed by (auto simp: login_finish_def dest: CreateSession_Inl)
  next
    case (Inr x)
    have "session_OperatorID x = OperatorID c"
      using c unfolding Inr by (rule CreateSession_Inr) (simp add: stored_session_def)
    then show thesis using assms Some c Inr created by (auto simp: login_finish_def)
  qed
qed

lemma Validate_session_cases:
  assumes "Validate_session db clock sha256 token = (result, db')" and "\<forall>r \<in> set (web_sessions db). ws_operator r \<noteq> nil_uuid"
  obtains (failed) e where "result = Inl e" and "db' = db"
  | (found) raw row where "decodeToken token = Some raw" and "FindValidSession db clock (sha256 raw) = (Inr row, db')"
      and "result = Inr \<lparr>stored = row, Token = []\<rparr>"
proof (cases "decodeToken token")
  case None
  then show thesis using assms failed by (auto simp: Validate_session_def)
next
  case (Some raw)
  obtain r db'' where c: "FindValidSession db clock (sha256 raw) = (r, db'')" by fastforce
  show thesis
  proof (cases r)
    case (Inl e)
    then show thesis using assms Some c failed by (auto simp: Validate_session_def dest: FindValidSession_Inl)
  next
    case (Inr x)
    have "session_OperatorID x \<noteq> nil_uuid"
      using c unfolding Inr by (rule FindValidSession_Inr) (use assms(2) in \<open>auto simp: stored_session_def\<close>)
    then show thesis using assms Some c Inr found by (auto simp: Validate_session_def)
  qed
qed

lemma auth_ok_tables:
  "auth_ok verifier s \<Longrightarrow> \<forall>r \<in> set (web_sessions (auth_tables s)). ws_operator r \<noteq> nil_uuid"
  by (auto simp: auth_ok_def tables_ok_def row_ok_def)

lemma auth_ok_step:
  assumes "auth_ok verifier s" and "auth_step sha256 verifier hasher s t"
  shows "auth_ok verifier t"
  using assms(2)
proof cases
  case (login_begins u p)
  then show ?thesis using assms(1)
    by (simp add: auth_ok_def slots_ok_def is_verifying_def login_ok_def)
next
  case (slot_taken before u p l rest)
  then show ?thesis using assms(1)
    by (simp add: auth_ok_def slots_ok_def is_verifying_def login_ok_def)
next
  case (slot_refused before u p l rest)
  then show ?thesis using assms(1) login_ok_after [OF refl]
    by (simp add: auth_ok_def slots_ok_def is_verifying_def)
next
  case (verified before u p l rest)
  then show ?thesis using assms(1) login_ok_after [OF refl]
    by (simp add: auth_ok_def slots_ok_def is_verifying_def)
next
  case (session_opened before p c rest clock draw new_id result db)
  have ok: "tables_ok (opened s) (auth_now s) (auth_tables s)"
    "\<forall>h i. opened s h = Some i \<longrightarrow> admissible verifier (opened_password i) (opened_hash i)"
    and p: "admissible verifier p (PasswordHash c)"
    using assms(1) session_opened(2) by (auto simp: auth_ok_def login_ok_def)
  have "tables_ok (opened t) (auth_now t) (auth_tables t)
    \<and> (\<forall>h i. opened t h = Some i \<longrightarrow> admissible verifier (opened_password i) (opened_hash i))"
    using session_opened(5)
  proof (cases rule: login_finish_cases)
    case (failed e)
    then show ?thesis using ok tables_ok_later [OF ok(1) clock_fromD [OF session_opened(3)]] unfolding session_opened(1)
      by (simp add: record_opening_def split: option.split)
  next
    case (created raw x)
    have "opened s (sha256 raw) = None" using session_opened(4) created(1) by blast
    from tables_ok_CreateSession [OF ok(1) session_opened(3) this created(2), of p] show ?thesis
      using ok(2) p unfolding session_opened(1) by (simp add: record_opening_def created)
  qed
  then show ?thesis using assms(1) session_opened(2) unfolding auth_ok_def session_opened(1)
    by (simp add: slots_ok_def is_verifying_def)
next
  case (session_validated clock token result db)
  have ok: "tables_ok (opened s) (auth_now s) (auth_tables s)"
    "\<forall>h i. opened s h = Some i \<longrightarrow> admissible verifier (opened_password i) (opened_hash i)"
    using assms(1) by (auto simp: auth_ok_def)
  have "tables_ok (opened t) (auth_now t) (auth_tables t)
    \<and> (\<forall>h i. opened t h = Some i \<longrightarrow> admissible verifier (opened_password i) (opened_hash i))"
    using session_validated(3) auth_ok_tables [OF assms(1)]
  proof (cases rule: Validate_session_cases)
    case (failed e)
    then show ?thesis using ok tables_ok_later [OF ok(1) clock_fromD [OF session_validated(2)]]
      unfolding session_validated(1) by (simp add: record_use_def split: option.split)
  next
    case (found raw row)
    then show ?thesis
      using ok tables_ok_FindValidSession [OF ok(1) session_validated(2) found(2)] unfolding session_validated(1)
      by (auto simp: record_use_def TokenHash_def)
  qed
  then show ?thesis using assms(1) unfolding auth_ok_def session_validated(1) by simp
next
  case (session_revoked clock token)
  then show ?thesis
    using assms(1) tables_ok_RevokeSession tables_ok_later [OF _ clock_fromD [OF session_revoked(2)]]
    by (auto simp: auth_ok_def Revoke_def split: option.split)
next
  case (operator_sessions_revoked clock operator)
  then show ?thesis
    using assms(1) tables_ok_RevokeOperatorSessions tables_ok_later [OF _ clock_fromD [OF operator_sessions_revoked(2)]]
    by (auto simp: auth_ok_def Service_RevokeOperatorSessions_def)
next
  case (credential_written clock new_id u p result db)
  have ok: "tables_ok (opened s) (auth_now s) (auth_tables s)" using assms(1) by (simp add: auth_ok_def)
  then have "tables_ok (opened s) (clock 7) db"
    using credential_written(3) tables_ok_later [OF ok clock_fromD [OF credential_written(2)]]
      tables_ok_BootstrapOrReset [OF ok credential_written(2)]
    unfolding Service_BootstrapOrReset_def
    by (auto split: sum.splits prod.splits dest: BootstrapOrReset_Inl)
  then show ?thesis using assms(1) unfolding auth_ok_def credential_written(1) by simp
next
  case (operator_switched operator b)
  then show ?thesis using assms(1) tables_ok_switched by (simp add: auth_ok_def)
qed

lemma auth_ok_init: "auth_init s \<Longrightarrow> auth_ok verifier s"
  by (simp add: auth_init_def auth_ok_def slots_ok_def tables_ok_def operators_ok_def live_sessions_def count_where_def)

interpretation web_auth: invariant_system auth_init "auth_step sha256 verifier hasher" "auth_ok verifier"
  for sha256 verifier hasher
  by unfold_locales (rule auth_ok_init, assumption, rule auth_ok_step)

end
