(* ===== verification/Session_Properties.thy ===== *)
theory Session_Properties
  imports Session_Invariant
begin

text \<open>
  What operator authentication guarantees in every reachable state: an accepted session was opened
  with a password that verifies against the operator's current hash, no operator has more than five
  live sessions, and a session ended by a reset or a revocation is never accepted again.
\<close>

section \<open>Accepted sessions\<close>

text \<open>C37: in every reachable state, a token that \<open>Validate\<close> accepts was issued by a login that
  presented a password of admissible length verifying against the password hash the operator has
  \<^emph>\<open>now\<close>, under the operator's present username; the operator is enabled, the session was opened
  less than seven days ago and last used (or opened) less than twelve hours ago.\<close>

theorem session_means_current_password:
  assumes "reachable auth_init (auth_step sha256 verifier hasher) s"
    and "clock_from (auth_now s) clock"
    and "Validate_session (auth_tables s) clock sha256 token = (Inr session, db')"
  shows "\<exists>raw i r. decodeToken token = Some raw \<and> opened s (sha256 raw) = Some i
    \<and> r \<in> set (operators (auth_tables s)) \<and> op_id r = session_OperatorID (stored session)
    \<and> opened_operator i = op_id r \<and> op_enabled r
    \<and> op_password_hash r = Some (opened_hash i) \<and> op_username r = opened_username i
    \<and> 12 \<le> length (opened_password i) \<and> length (opened_password i) \<le> 1024
    \<and> verifier (opened_password i) (opened_hash i) = Inr True
    \<and> clock 0 < used_at i + 12 * 3600 * second \<and> clock 0 < opened_at i + 7 * 24 * 3600 * second"
proof -
  have ok: "auth_ok verifier s" by (rule web_auth.inv_reachable [OF assms(1)])
  from assms(3) auth_ok_tables [OF ok] obtain raw row where raw: "decodeToken token = Some raw"
    and f: "FindValidSession (auth_tables s) clock (sha256 raw) = (Inr (stored session), db')"
    by (rule Validate_session_cases) auto
  from f obtain row where row: "row \<in> set (web_sessions (auth_tables s))"
    and sel: "session_selected (auth_tables s) (clock 0) (sha256 raw) row"
    and st: "stored session = stored_session row" by (rule FindValidSession_Inr)
  from sel obtain p where p: "p \<in> set (operators (auth_tables s))" "op_id p = ws_operator row"
    "op_tokens_invalid_before p < ws_created_at row" "op_enabled p"
    and h: "ws_token_hash row = sha256 raw" and live: "ws_revoked_at row = None"
      "clock 0 < ws_idle_expires_at row" "clock 0 < ws_absolute_expires_at row"
    by (auto simp: session_selected_def list_ex_iff)
  have "row_ok (operators (auth_tables s)) (opened s) (auth_now s) row"
    using ok row by (simp add: auth_ok_def tables_ok_def)
  then obtain i r where i: "opened s (sha256 raw) = Some i" and r: "r \<in> set (operators (auth_tables s))" "op_id r = ws_operator row"
    and "opened_operator i = ws_operator row"
    and until: "ws_absolute_expires_at row \<le> opened_at i + operatorWebSessionAbsoluteLifetime"
      "ws_idle_expires_at row \<le> used_at i + operatorWebSessionIdleLifetime"
    and cur: "ws_revoked_at row = None \<Longrightarrow> op_tokens_invalid_before r < ws_created_at row \<Longrightarrow>
      op_password_hash r = Some (opened_hash i) \<and> op_username r = opened_username i"
    unfolding row_ok_def h by auto
  have "r = p"
    using ok r p(1,2) unfolding auth_ok_def tables_ok_def operators_ok_def
    by (metis distinct_key_unique)
  moreover have "admissible verifier (opened_password i) (opened_hash i)" using ok i by (auto simp: auth_ok_def)
  ultimately show ?thesis
    using raw i r p cur live until \<open>opened_operator i = ws_operator row\<close>
    unfolding st stored_session_def admissible_def operatorWebSessionAbsoluteLifetime_def operatorWebSessionIdleLifetime_def
    by (intro exI [of _ raw] exI [of _ i] exI [of _ r]) auto
qed

text \<open>C38: no operator ever has more than five live sessions, however logins, validations and
  revocations of any number of requests interleave, at any time from the last clock reading on.\<close>

theorem at_most_five_sessions:
  assumes "reachable auth_init (auth_step sha256 verifier hasher) s" and "auth_now s \<le> t"
  shows "length (filter (\<lambda>r. ws_operator r = operator \<and> live_at t r) (web_sessions (auth_tables s))) \<le> 5"
proof -
  have "live_sessions (auth_now s) operator (web_sessions (auth_tables s)) \<le> operatorWebSessionLimit"
    using web_auth.inv_reachable [OF assms(1)] by (simp add: auth_ok_def tables_ok_def)
  with live_sessions_later [OF assms(2)] have "live_sessions t operator (web_sessions (auth_tables s)) \<le> operatorWebSessionLimit"
    by (rule order_trans)
  then show ?thesis by (simp add: live_sessions_def count_where_def operatorWebSessionLimit_def)
qed

text \<open>At most eight verifications run at once, and each holds exactly one slot.\<close>

lemma verifications_bounded:
  assumes "reachable auth_init (auth_step sha256 verifier hasher) s"
  shows "kdf_slots s = length (filter is_verifying (logins s)) \<and> kdf_slots s \<le> 8"
  using web_auth.inv_reachable [OF assms] by (simp add: auth_ok_def slots_ok_def passwordVerificationConcurrency_def)

section \<open>Sessions that have ended\<close>

definition row_ended :: "operator_row list \<Rightarrow> string \<Rightarrow> web_session_row \<Rightarrow> bool" where
  "row_ended ops h row \<longleftrightarrow> ws_token_hash row = h \<longrightarrow> ws_revoked_at row \<noteq> None
     \<or> (\<forall>r \<in> set ops. op_id r = ws_operator row \<longrightarrow> ws_created_at row \<le> op_tokens_invalid_before r)"

definition ended_in :: "operator_row list \<Rightarrow> web_session_row list \<Rightarrow> string \<Rightarrow> bool" where
  "ended_in ops rows h \<longleftrightarrow> (\<forall>row \<in> set rows. row_ended ops h row)"

definition token_ended :: "string \<Rightarrow> auth_state \<Rightarrow> bool" where
  "token_ended h s \<longleftrightarrow> opened s h \<noteq> None \<and>
     ended_in (operators (auth_tables s)) (web_sessions (auth_tables s)) h"

lemma row_ended_keeps [simp]:
  "row_ended ops h (r\<lparr>ws_revoked_at := Some x\<rparr>)"
  "row_ended ops h (refresh_row clock r) = row_ended ops h r"
  by (auto simp: row_ended_def refresh_row_def)

lemma revoked_same [simp]: "x = x\<lparr>ws_revoked_at := Some c\<rparr> \<longleftrightarrow> ws_revoked_at x = Some c"
  by (cases x) simp

lemma switched_operator:
  assumes "r' \<in> set (update_where p (\<lambda>r. r\<lparr>op_enabled := b\<rparr>) ops)"
  shows "\<exists>r \<in> set ops. op_id r = op_id r' \<and> op_tokens_invalid_before r = op_tokens_invalid_before r'"
proof -
  obtain x where "x \<in> set ops" and "r' = (if p x then x\<lparr>op_enabled := b\<rparr> else x)"
    using assms unfolding set_update_where by blast
  then show ?thesis by (intro bexI [of _ x]) simp_all
qed

lemma ended_in_revoking:
  "ended_in ops rows h \<Longrightarrow> ended_in ops (update_where p (\<lambda>r. r\<lparr>ws_revoked_at := Some x\<rparr>) rows) h"
  by (auto simp: ended_in_def set_update_where)

lemma ended_in_refresh:
  "ended_in ops rows h \<Longrightarrow> ended_in ops (update_where p (refresh_row clock) rows) h"
  by (auto simp: ended_in_def set_update_where)

lemma ended_in_enforce:
  "ended_in ops rows h \<Longrightarrow> ended_in ops (enforce_limit a b operator (prune_sessions c rows)) h"
  by (auto simp: ended_in_def enforce_limit_def prune_sessions_def set_update_where)

lemma ended_in_operators:
  assumes "ended_in ops rows h" and "\<And>row r'. row \<in> set rows \<Longrightarrow> r' \<in> set ops' \<Longrightarrow> op_id r' = ws_operator row \<Longrightarrow>
      \<exists>r \<in> set ops. op_id r = op_id r' \<and> op_tokens_invalid_before r \<le> op_tokens_invalid_before r'"
  shows "ended_in ops' rows h"
proof -
  have "row_ended ops' h row" if row: "row \<in> set rows" for row
    using assms(1) assms(2) [OF row] row unfolding ended_in_def row_ended_def by (metis order_trans)
  then show ?thesis by (simp add: ended_in_def)
qed

lemma ended_in_BootstrapOrReset:
  assumes ok: "tables_ok known t db" and h: "ended_in (operators db) (web_sessions db) h"
    and b: "BootstrapOrReset db clock new_id u ph = (Inr answer, db')"
  shows "ended_in (operators db') (web_sessions db') h"
proof (cases "find (\<lambda>r. op_username r = u) (operators db)")
  case None
  then have db': "web_sessions db' = web_sessions db" and ops: "\<exists>r. operators db' = operators db @ [r] \<and> op_id r = new_id"
    and new: "new_id \<notin> op_id ` set (operators db)"
    using b unfolding BootstrapOrReset_def Let_def by (auto split: if_splits)
  have "ws_operator row \<in> op_id ` set (operators db)" if "row \<in> set (web_sessions db)" for row
  proof -
    have "row_ok (operators db) known t row" using ok that by (simp add: tables_ok_def)
    then show ?thesis unfolding row_ok_def by force
  qed
  then show ?thesis
    unfolding db' using ops new by (intro ended_in_operators [OF h]) force
next
  case (Some old)
  then have old: "old \<in> set (operators db)" "op_username old = u" using find_Some_set by fastforce+
  define new where "new = old\<lparr>op_password_hash := Some ph, op_password_changed_at := Some (clock 4),
      op_updated_at := clock 5, op_tokens_invalid_before := max (op_tokens_invalid_before old) (clock 6)\<rparr>"
  then have new: "op_id new = op_id old" "op_tokens_invalid_before old \<le> op_tokens_invalid_before new" by simp_all
  have db': "db' = db\<lparr>operators := update_where (\<lambda>r. op_username r = u) (\<lambda>_. new) (operators db),
        web_sessions := revoke_after_credential_change (clock 7) old new (web_sessions db)\<rparr>"
    using b Some unfolding BootstrapOrReset_def Let_def new_def by (auto split: if_splits)
  have "ended_in (operators db) (web_sessions db') h"
    using h ended_in_revoking unfolding db' by (auto simp: revoke_after_credential_change_def)
  then show ?thesis
    by (rule ended_in_operators) (use old new in \<open>auto simp: db' set_update_where split: if_splits\<close>)
qed

lemma token_ended_step:
  assumes "auth_ok verifier s" and "auth_step sha256 verifier hasher s t" and "token_ended h s"
  shows "token_ended h t"
  using assms(2)
proof cases
  case (session_opened before p c rest clock draw new_id result db)
  from session_opened(5) show ?thesis
  proof (cases rule: login_finish_cases)
    case (failed e)
    then show ?thesis using assms(3) unfolding session_opened(1)
      by (simp add: token_ended_def record_opening_def split: option.split)
  next
    case (created raw x)
    have "sha256 raw \<noteq> h" using session_opened(4) created(1) assms(3) by (auto simp: token_ended_def)
    then show ?thesis
      using created(2) assms(3) ended_in_enforce unfolding session_opened(1) token_ended_def
      by (elim CreateSession_Inr) (auto simp: record_opening_def created ended_in_def row_ended_def [of _ _ "\<lparr>ws_id = _, ws_operator = _, ws_token_hash = _, ws_created_at = _, ws_last_seen_at = _, ws_idle_expires_at = _, ws_absolute_expires_at = _, ws_revoked_at = _\<rparr>"])
  qed
next
  case (session_validated clock token result db)
  from session_validated(3) auth_ok_tables [OF assms(1)] show ?thesis
  proof (cases rule: Validate_session_cases)
    case (failed e)
    then show ?thesis using assms(3) unfolding session_validated(1)
      by (simp add: token_ended_def record_use_def split: option.split)
  next
    case (found raw row)
    from found(2) show ?thesis
      using assms(3) unfolding session_validated(1) token_ended_def
      by (elim FindValidSession_Inr) (auto simp: record_use_def TokenHash_def found ended_in_refresh)
  qed
next
  case (credential_written clock new_id u p result db)
  have ok: "tables_ok (opened s) (auth_now s) (auth_tables s)" using assms(1) by (simp add: auth_ok_def)
  show ?thesis
    using credential_written(3) assms(3) ended_in_BootstrapOrReset [OF ok]
    unfolding credential_written(1) token_ended_def Service_BootstrapOrReset_def
    by (auto split: sum.splits prod.splits dest: BootstrapOrReset_Inl)
next
  case (operator_switched operator b)
  have ops: "operators (auth_tables t) = update_where (\<lambda>r. op_id r = operator) (\<lambda>r. r\<lparr>op_enabled := b\<rparr>) (operators (auth_tables s))"
    by (simp add: operator_switched)
  have "ended_in (operators (auth_tables s)) (web_sessions (auth_tables s)) h" using assms(3) by (simp add: token_ended_def)
  then have "ended_in (operators (auth_tables t)) (web_sessions (auth_tables s)) h"
    by (rule ended_in_operators) (auto dest!: switched_operator simp: ops)
  then show ?thesis using assms(3) unfolding token_ended_def operator_switched by simp
qed (use assms(3) in \<open>auto simp: token_ended_def Revoke_def RevokeSession_def Service_RevokeOperatorSessions_def
       RevokeOperatorSessions_def ended_in_revoking split: option.split\<close>)

interpretation ended_token: absorbing_system auth_init "auth_step sha256 verifier hasher" "auth_ok verifier" token_ended
  for sha256 verifier hasher
  by unfold_locales (rule token_ended_step)

lemma ended_not_accepted:
  assumes "auth_ok verifier s" and "token_ended h s" and "TokenHash sha256 token = Some h"
  shows "fst (Validate_session (auth_tables s) clock sha256 token) = Inl ErrSessionInvalid"
proof (cases "fst (Validate_session (auth_tables s) clock sha256 token)")
  case (Inl e)
  then show ?thesis unfolding Validate_session_def by (auto split: option.splits prod.splits sum.splits if_splits)
next
  case (Inr session)
  then obtain db' where v: "Validate_session (auth_tables s) clock sha256 token = (Inr session, db')"
    by (metis prod.collapse)
  from v auth_ok_tables [OF assms(1)] obtain raw where raw: "decodeToken token = Some raw"
    and f: "FindValidSession (auth_tables s) clock (sha256 raw) = (Inr (stored session), db')"
    by (rule Validate_session_cases) auto
  from f obtain row where "row \<in> set (web_sessions (auth_tables s))"
    and "session_selected (auth_tables s) (clock 0) (sha256 raw) row" by (rule FindValidSession_Inr)
  then show ?thesis
    using assms(2,3) raw by (force simp: token_ended_def ended_in_def row_ended_def session_selected_def list_ex_iff TokenHash_def)
qed

lemma ended_for_good:
  assumes "auth_ok verifier s" and "token_ended h s" and "rtranclp (auth_step sha256 verifier hasher) s t"
    and "TokenHash sha256 token = Some h"
  shows "fst (Validate_session (auth_tables t) clock sha256 token) = Inl ErrSessionInvalid"
proof (rule ended_not_accepted [OF _ _ assms(4)])
  show "auth_ok verifier t" by (rule web_auth.inv_run [OF assms(3,1)])
  show "token_ended h t" by (rule ended_token.holds_run [OF assms(3,1,2)])
qed

lemma ended_in_reset:
  assumes tables: "tables_ok known t db" and clock: "clock_from t clock"
    and b: "BootstrapOrReset db clock new_id username ph = (Inr (operator, name), db')"
    and issue: "known h = Some i" "opened_operator i = operator"
  shows "ended_in (operators db') (web_sessions db') h"
proof (cases "find (\<lambda>r. op_username r = username) (operators db)")
  case None
  then have db': "web_sessions db' = web_sessions db" and new: "operator \<notin> op_id ` set (operators db)"
    using b unfolding BootstrapOrReset_def Let_def by (auto split: if_splits)
  have "ws_token_hash row \<noteq> h" if "row \<in> set (web_sessions db')" for row
  proof -
    have "row_ok (operators db) known t row" using tables that db' by (simp add: tables_ok_def)
    then show ?thesis using new issue unfolding row_ok_def by force
  qed
  then show ?thesis by (auto simp: ended_in_def row_ended_def)
next
  case (Some old)
  then have old: "old \<in> set (operators db)" "op_username old = username" using find_Some_set by fastforce+
  define new where "new = old\<lparr>op_password_hash := Some ph, op_password_changed_at := Some (clock 4),
      op_updated_at := clock 5, op_tokens_invalid_before := max (op_tokens_invalid_before old) (clock 6)\<rparr>"
  have db': "db' = db\<lparr>operators := update_where (\<lambda>r. op_username r = username) (\<lambda>_. new) (operators db),
        web_sessions := revoke_after_credential_change (clock 7) old new (web_sessions db)\<rparr>"
    and operator: "operator = op_id old"
    using b Some unfolding BootstrapOrReset_def Let_def new_def by (auto split: if_splits)
  note after = tables_ok_BootstrapOrReset [OF tables clock b]
  have "new \<in> set (operators db')" using old by (auto simp: db' set_update_where)
  then have unique: "r \<in> set (operators db') \<Longrightarrow> op_id r = operator \<Longrightarrow> r = new" for r
    using after operator distinct_key_unique [of op_id "operators db'"]
    by (auto simp: new_def tables_ok_def operators_ok_def)
  have "row_ended (operators db') h row" if row: "row \<in> set (web_sessions db')" for row
  proof -
    have "\<forall>y \<in> set (web_sessions db'). row_ok (operators db) known t y"
      using tables unfolding db' by (auto simp: tables_ok_def revoke_after_credential_change_def set_update_where row_ok_revoked)
    then have r: "row_ok (operators db) known t row" using row by blast
    then have "ws_created_at row \<le> clock 6" using clock_fromD [OF clock, of 6] unfolding row_ok_def by auto
    then have "ws_created_at row \<le> op_tokens_invalid_before r" if "r \<in> set (operators db')" "op_id r = operator" for r
      using unique [OF that] by (simp add: new_def)
    moreover have "ws_token_hash row = h \<Longrightarrow> ws_operator row = operator" using r issue unfolding row_ok_def by auto
    ultimately show ?thesis unfolding row_ended_def by metis
  qed
  then show ?thesis by (simp add: ended_in_def)
qed

text \<open>C39: once a credential reset of an operator has returned, no token opened for that operator
  before it is accepted again in any continuation, even if the trigger found the token boundary
  unmoved: the boundary itself then refuses the older sessions.\<close>

theorem reset_ends_sessions:
  assumes "reachable auth_init (auth_step sha256 verifier hasher) s"
    and "clock_from (auth_now s) clock"
    and "Service_BootstrapOrReset (auth_tables s) clock new_id hasher username plaintext = (Inr (operator, name), db)"
    and "opened s h = Some i" and "opened_operator i = operator" and "TokenHash sha256 token = Some h"
    and "rtranclp (auth_step sha256 verifier hasher) (s\<lparr>auth_tables := db, auth_now := clock 7\<rparr>) t"
  shows "fst (Validate_session (auth_tables t) later_clock sha256 token) = Inl ErrSessionInvalid"
proof (rule ended_for_good [OF _ _ assms(7,6)])
  have ok: "auth_ok verifier s" by (rule web_auth.inv_reachable [OF assms(1)])
  show "auth_ok verifier (s\<lparr>auth_tables := db, auth_now := clock 7\<rparr>)"
    by (rule auth_ok_step [OF ok auth_step.credential_written [OF assms(2,3)]])
  obtain ph where b: "BootstrapOrReset (auth_tables s) clock new_id username ph = (Inr (operator, name), db)"
    using assms(3) unfolding Service_BootstrapOrReset_def by (auto split: sum.splits prod.splits)
  have "tables_ok (opened s) (auth_now s) (auth_tables s)" using ok by (simp add: auth_ok_def)
  from ended_in_reset [OF this assms(2) b assms(4,5)]
  show "token_ended h (s\<lparr>auth_tables := db, auth_now := clock 7\<rparr>)"
    using assms(4) by (simp add: token_ended_def)
qed

text \<open>C40: a logout is final: after \<open>Revoke\<close> of a token that was ever issued, or after the sessions of
  its operator were revoked, no continuation accepts the token.\<close>

theorem revocation_is_final:
  assumes "reachable auth_init (auth_step sha256 verifier hasher) s"
    and "clock_from (auth_now s) clock" and "opened s h = Some i" and "TokenHash sha256 token = Some h"
    and "db = Revoke (auth_tables s) clock sha256 token
      \<or> db = Service_RevokeOperatorSessions (auth_tables s) clock (opened_operator i)"
    and "rtranclp (auth_step sha256 verifier hasher) (s\<lparr>auth_tables := db, auth_now := clock 7\<rparr>) t"
  shows "fst (Validate_session (auth_tables t) later_clock sha256 token) = Inl ErrSessionInvalid"
proof (rule ended_for_good [OF _ _ assms(6,4)])
  have ok: "auth_ok verifier s" by (rule web_auth.inv_reachable [OF assms(1)])
  show "auth_ok verifier (s\<lparr>auth_tables := db, auth_now := clock 7\<rparr>)"
    using assms(5) auth_ok_step [OF ok auth_step.session_revoked [OF assms(2)]]
      auth_ok_step [OF ok auth_step.operator_sessions_revoked [OF assms(2)]] by metis
  have rows: "ws_operator row = opened_operator i \<and> ws_operator row \<noteq> nil_uuid \<and> length h = 32"
    if "row \<in> set (web_sessions (auth_tables s))" "ws_token_hash row = h" for row
  proof -
    have "row_ok (operators (auth_tables s)) (opened s) (auth_now s) row"
      using ok that(1) by (simp add: auth_ok_def tables_ok_def)
    then show ?thesis using that(2) assms(3) unfolding row_ok_def by auto
  qed
  obtain raw where raw: "decodeToken token = Some raw" "sha256 raw = h"
    using assms(4) by (auto simp: TokenHash_def split: option.splits)
  from assms(5) show "token_ended h (s\<lparr>auth_tables := db, auth_now := clock 7\<rparr>)"
  proof
    assume "db = Revoke (auth_tables s) clock sha256 token"
    then show ?thesis
      using rows assms(3) raw
      by (auto simp: token_ended_def ended_in_def row_ended_def Revoke_def RevokeSession_def set_update_where split: if_splits)
  next
    assume "db = Service_RevokeOperatorSessions (auth_tables s) clock (opened_operator i)"
    then show ?thesis
      using rows assms(3)
      by (auto simp: token_ended_def ended_in_def row_ended_def Service_RevokeOperatorSessions_def
          RevokeOperatorSessions_def set_update_where split: if_splits)
  qed
qed

end
