(* ===== verification/Session_Demo.thy ===== *)
theory Session_Demo
  imports Session_Properties
begin

text \<open>
  A concrete run of operator authentication: an operator is provisioned, logs in, and is reset. It
  shows that the hypotheses of the session properties can be met.
\<close>

definition demo_phc :: string where
  "demo_phc = encodePHC defaultParameters (replicate 16 CHR ''s'') (replicate 32 CHR ''k'')"

definition demo_password :: string where
  "demo_password = ''correct horse battery''"

definition demo_hasher :: "string \<Rightarrow> password_error + string" where
  "demo_hasher p = Inr demo_phc"

definition demo_verifier :: verifier where
  "demo_verifier p h = Inr (h = demo_phc \<and> p = demo_password)"

definition demo_sha256 :: "string \<Rightarrow> string" where
  "demo_sha256 s = take 32 s"

definition demo_raw :: string where
  "demo_raw = replicate 32 CHR ''t''"

definition demo_token :: string where
  "demo_token = EncodeToString url_alphabet demo_raw"

definition demo_clock :: "int \<Rightarrow> clock" where
  "demo_clock t n = t + int n"

definition demo_operator :: operator_row where
  "demo_operator = \<lparr>op_id = 1, op_username = ''alice'', op_password_hash = Some demo_phc,
     op_password_changed_at = Some 0, op_created_at = 1, op_updated_at = 2,
     op_tokens_invalid_before = 3, op_enabled = True\<rparr>"

definition demo_session_row :: web_session_row where
  "demo_session_row = \<lparr>ws_id = 7, ws_operator = 1, ws_token_hash = demo_raw, ws_created_at = 13,
     ws_last_seen_at = 14, ws_idle_expires_at = 15 + operatorWebSessionIdleLifetime,
     ws_absolute_expires_at = 16 + operatorWebSessionAbsoluteLifetime, ws_revoked_at = None\<rparr>"

definition empty_tables :: auth_db where
  "empty_tables = \<lparr>operators = [], web_sessions = []\<rparr>"

definition demo_credential :: Credential where
  "demo_credential = \<lparr>OperatorID = 1, Username = ''alice'', PasswordHash = demo_phc, Enabled = True\<rparr>"

definition demo_start :: auth_state where
  "demo_start = \<lparr>auth_tables = empty_tables, auth_now = 0, kdf_slots = 0, logins = [], opened = Map.empty\<rparr>"

definition demo_issue :: issue where
  "demo_issue = \<lparr>opened_operator = 1, opened_username = ''alice'', opened_password = demo_password,
     opened_hash = demo_phc, opened_at = 17, used_at = 17\<rparr>"

definition demo_logged_in :: auth_state where
  "demo_logged_in = \<lparr>auth_tables = \<lparr>operators = [demo_operator], web_sessions = [demo_session_row]\<rparr>,
     auth_now = 17, kdf_slots = 0, logins = [], opened = [demo_raw \<mapsto> demo_issue]\<rparr>"

lemma demo_clock_from: "t \<le> u \<Longrightarrow> clock_from t (demo_clock u)"
  by (auto simp: clock_from_def demo_clock_def intro: monoI)

lemma demo_phc_facts [simp]: "password_hash_format demo_phc" "demo_phc \<noteq> []"
  by (simp add: demo_phc_def encodePHC_format, simp add: demo_phc_def encodePHC_def)

lemma alice_runes: "runes_of_text ''alice'' = map Some [97, 108, 105, 99, 101]"
  by (simp add: runes_of_text_def byte_value_def)

lemma alice_facts [simp]: "\<not> trim_changes ''alice''" "text_stores ''alice''"
    "length (runes_of_text ''alice'') = 5" "validateUsername ''alice'' = Inr ()"
proof -
  show trim: "\<not> trim_changes ''alice''" by (simp add: trim_changes_def alice_runes is_space_def)
  show "text_stores ''alice''" and "length (runes_of_text ''alice'') = 5"
    by (simp_all add: text_stores_def alice_runes)
  show "validateUsername ''alice'' = Inr ()"
    using trim by (simp add: validateUsername_def alice_runes byte_value_def)
qed

lemma demo_bootstrap:
  "Service_BootstrapOrReset empty_tables (demo_clock 0) 1 demo_hasher ''alice'' demo_password
     = (Inr (1, ''alice''), \<lparr>operators = [demo_operator], web_sessions = []\<rparr>)"
  by (simp add: Service_BootstrapOrReset_def demo_hasher_def BootstrapOrReset_def empty_tables_def
      operator_checks_def demo_clock_def demo_operator_def)

lemma demo_find_operator:
  "FindCredential \<lparr>operators = [demo_operator], web_sessions = ws\<rparr> ''alice'' = Inr demo_credential"
  by (simp add: FindCredential_def demo_operator_def demo_credential_def)

lemma demo_accepts:
  "login_accepts True demo_verifier (Inr demo_credential) ''alice'' demo_password = Some demo_credential"
  by (simp add: login_accepts_Some demo_credential_def demo_verifier_def demo_password_def)

lemma demo_raw_facts [simp]: "length demo_raw = 32" "demo_sha256 demo_raw = demo_raw"
  by (simp_all add: demo_raw_def demo_sha256_def)

lemma demo_finish:
  "login_finish \<lparr>operators = [demo_operator], web_sessions = []\<rparr> (demo_clock 10) demo_sha256 (Some demo_raw) 7
     demo_credential = (Inr \<lparr>stored = stored_session demo_session_row, Token = demo_token\<rparr>,
       \<lparr>operators = [demo_operator], web_sessions = [demo_session_row]\<rparr>)"
  by (simp add: login_finish_def CreateSession_def demo_credential_def demo_operator_def prune_sessions_def
      enforce_limit_def ranked_def demo_clock_def web_session_checks_def demo_session_row_def stored_session_def
      demo_token_def operatorWebSessionIdleLifetime_def operatorWebSessionAbsoluteLifetime_def)

lemma demo_token_hash: "TokenHash demo_sha256 demo_token = Some demo_raw"
  by (simp add: TokenHash_def demo_token_def decodeToken_issued)

lemma demo_session_reachable:
  "reachable auth_init (auth_step demo_sha256 demo_verifier demo_hasher) demo_logged_in"
proof -
  let ?step = "auth_step demo_sha256 demo_verifier demo_hasher"
  let ?db = "\<lparr>operators = [demo_operator], web_sessions = []\<rparr>"
  let ?s1 = "demo_start\<lparr>auth_tables := ?db, auth_now := demo_clock 0 7\<rparr>"
  let ?s2 = "?s1\<lparr>logins := [LookedUp ''alice'' demo_password (Inr demo_credential)]\<rparr>"
  let ?s3 = "?s2\<lparr>kdf_slots := 1, logins := [Verifying ''alice'' demo_password (Inr demo_credential)]\<rparr>"
  let ?s4 = "?s3\<lparr>kdf_slots := 0, logins := [Accepted demo_password demo_credential]\<rparr>"
  have 0: "reachable auth_init ?step demo_start"
    by (rule reachable.initial) (simp add: auth_init_def demo_start_def empty_tables_def)
  have 1: "?step demo_start ?s1"
    by (rule auth_step.credential_written [OF demo_clock_from])
       (use demo_bootstrap in \<open>simp_all add: demo_start_def\<close>)
  have 2: "?step ?s1 ?s2"
    using auth_step.login_begins [of demo_sha256 demo_verifier demo_hasher ?s1 "''alice''" demo_password]
    by (simp add: demo_find_operator demo_start_def)
  have 3: "?step ?s2 ?s3"
    using auth_step.slot_taken [of ?s2 "[]" "''alice''" demo_password "Inr demo_credential" "[]" demo_sha256 demo_verifier demo_hasher]
    by (simp add: demo_start_def passwordVerificationConcurrency_def)
  have 4: "?step ?s3 ?s4"
    using auth_step.verified [of ?s3 "[]" "''alice''" demo_password "Inr demo_credential" "[]" demo_sha256 demo_verifier demo_hasher]
    by (simp add: demo_start_def demo_accepts after_verification_def)
  have 5: "?step ?s4 demo_logged_in"
    using auth_step.session_opened [of ?s4 "[]" demo_password demo_credential "[]" "demo_clock 10" "Some demo_raw"
      demo_sha256 7 _ _ demo_verifier demo_hasher] demo_finish demo_clock_from [of 7 10]
    by (simp add: demo_start_def demo_clock_def record_opening_def demo_credential_def demo_issue_def demo_logged_in_def)
  show ?thesis using 0 1 2 3 4 5 by (meson reachable.later)
qed

lemma demo_validate:
  "Validate_session (auth_tables demo_logged_in) (demo_clock 20) demo_sha256 demo_token
     = (Inr \<lparr>stored = stored_session demo_session_row, Token = []\<rparr>, auth_tables demo_logged_in)"
proof -
  have "FindValidSession (auth_tables demo_logged_in) (demo_clock 20) demo_raw
      = (Inr (stored_session demo_session_row), auth_tables demo_logged_in)"
    by (simp add: FindValidSession_def session_selected_def demo_logged_in_def demo_session_row_def demo_clock_def
        demo_operator_def operatorWebSessionIdleLifetime_def operatorWebSessionAbsoluteLifetime_def
        operatorWebSessionSeenThrottle_def web_session_checks_def stored_session_def)
  then show ?thesis
    by (simp add: Validate_session_def demo_token_def decodeToken_issued stored_session_def demo_session_row_def)
qed

theorem session_means_current_password_witness:
  "\<exists>raw i r. decodeToken demo_token = Some raw \<and> opened demo_logged_in (demo_sha256 raw) = Some i
    \<and> r \<in> set (operators (auth_tables demo_logged_in)) \<and> op_id r = 1
    \<and> op_password_hash r = Some (opened_hash i) \<and> demo_verifier (opened_password i) (opened_hash i) = Inr True"
proof -
  have "clock_from (auth_now demo_logged_in) (demo_clock 20)"
    by (rule demo_clock_from) (simp add: demo_logged_in_def)
  from session_means_current_password [OF demo_session_reachable this demo_validate]
  show ?thesis unfolding stored_session_def demo_session_row_def by fastforce
qed

theorem at_most_five_sessions_witness:
  "length (filter (\<lambda>r. ws_operator r = 1 \<and> live_at 20 r) (web_sessions (auth_tables demo_logged_in))) \<le> 5"
  by (rule at_most_five_sessions [OF demo_session_reachable]) (simp add: demo_logged_in_def)

text \<open>The session is accepted before the reset and refused after it.\<close>

theorem reset_ends_sessions_witness:
  "fst (Validate_session (auth_tables demo_logged_in) (demo_clock 20) demo_sha256 demo_token)
       \<noteq> Inl ErrSessionInvalid
   \<and> fst (Validate_session (snd (Service_BootstrapOrReset (auth_tables demo_logged_in) (demo_clock 30) 2
           demo_hasher ''alice'' demo_password)) (demo_clock 40) demo_sha256 demo_token)
       = Inl ErrSessionInvalid"
proof -
  let ?answer = "Service_BootstrapOrReset (auth_tables demo_logged_in) (demo_clock 30) 2 demo_hasher ''alice'' demo_password"
  have "fst ?answer = Inr (1, ''alice'')"
    by (simp add: Service_BootstrapOrReset_def demo_hasher_def BootstrapOrReset_def demo_logged_in_def
        operator_checks_def demo_operator_def Let_def)
  then have answer: "?answer = (Inr (1, ''alice''), snd ?answer)" by (metis prod.collapse)
  have clock: "clock_from (auth_now demo_logged_in) (demo_clock 30)"
    by (rule demo_clock_from) (simp add: demo_logged_in_def)
  have opened: "opened demo_logged_in demo_raw = Some demo_issue" "opened_operator demo_issue = 1"
    by (simp_all add: demo_logged_in_def demo_issue_def)
  from reset_ends_sessions [OF demo_session_reachable clock answer opened demo_token_hash rtranclp.rtrancl_refl]
  show ?thesis by (simp add: demo_validate)
qed

theorem revocation_is_final_witness:
  "fst (Validate_session (Revoke (auth_tables demo_logged_in) (demo_clock 30) demo_sha256 demo_token)
       (demo_clock 40) demo_sha256 demo_token) = Inl ErrSessionInvalid"
proof -
  have clock: "clock_from (auth_now demo_logged_in) (demo_clock 30)"
    by (rule demo_clock_from) (simp add: demo_logged_in_def)
  have opened: "opened demo_logged_in demo_raw = Some demo_issue" by (simp add: demo_logged_in_def)
  from revocation_is_final [OF demo_session_reachable clock opened demo_token_hash disjI1 [OF refl] rtranclp.rtrancl_refl]
  show ?thesis by simp
qed

end
