(* ===== verification/Spec2Isabelle.thy ===== *)
theory Spec2Isabelle
  imports Delivery_Failures Operator_Account Operation_Properties Reconcile_Pass Account_Properties
    Recovery_Properties Service_Properties Worker_Shutdown Session_Demo
begin

text \<open>
  Cresora sends mailings through operators' Telegram accounts. An operator signs in to a browser console,
  connects Telegram accounts by phone, writes mailings and queues them; workers lease the deliveries of a
  queued mailing one at a time and hand each to the account's gotd client. PostgreSQL holds everything
  durable; the process holds phone challenges, gotd clients and the bookkeeping of its workers. The
  development models the core of the Go program under \<open>src/\<close> as HOL functions and step relations and
  proves what makes it correct. Paths below are relative to \<open>src/internal\<close> unless they start at \<open>src/\<close>.

  \<^bold>\<open>Parts and how they interact.\<close>
  The mailing store queues and stops mailings; \<open>Queue\<close> starts a run with one pending delivery per
  recipient, \<open>Stop\<close> ends it and advances the lease generation. The delivery worker claims deliveries,
  dispatches each, renews and releases its lease; the reaper takes expired sending leases back, the
  reconciler ends runs all of whose deliveries have an outcome; the invariant checker looks at the tables
  from outside. Operator accounts move along a lifecycle graph in the store; phone authentication brings
  an account from disconnected to active through a process-local challenge; disconnecting revokes the
  Telegram session through the runtime and then the row; startup recovery finishes what a crash
  interrupted. The account runtime registry owns the gotd client of each account, and every send, sign-in
  and logout passes its admission. Operator sessions guard the console.

  \<^bold>\<open>Shared theories.\<close>
  \<open>Prelude\<close>: identifiers, times, row sets (a table is a list of records; \<open>update_where\<close> is an SQL
  \<open>UPDATE\<close>). \<open>Transition_System\<close>: reachability and the locales \<open>invariant_system\<close> and
  \<open>absorbing_system\<close>, the interface every state machine is proved correct through. \<open>Go_Errors\<close>: error
  values as trees with \<open>errors.Is\<close>, \<open>errors.As\<close> and \<open>errors.Join\<close>.

  \<^bold>\<open>Delivery pipeline.\<close>
  \<open>Delivery_Failures\<close> (\<open>application/commands/delivery\<close>): classification of send errors, bounded
  diagnostics over UTF-8, the verdict on a run. \<open>Schema\<close>: tables and CHECK constraints of
  \<open>src/migrations\<close>. \<open>Mailing_Store\<close> (\<open>pg/mailings\<close>), \<open>Delivery_Store\<close> (\<open>pg/claims\<close>,
  \<open>pg/deliveries\<close>), \<open>Run_Store\<close> (\<open>pg/reaper\<close>, \<open>pg/reconciler\<close>), \<open>Invariant_Checks\<close>
  (\<open>pg/invariants\<close>): one function per statement or transaction. \<open>Queue_Invariant\<close> and \<open>Run_Invariant\<close>
  show that every transaction keeps \<open>queue_inv\<close>. \<open>Pipeline\<close> composes them into a step relation with a
  clock, the sends under way and two logs. The admission of a delivery (its \<open>UPDATE\<close> commits) and its
  hand-over (\<open>port.Send\<close> is called) are separate steps with a log each, and so is the finalisation:
  anything may commit in between, a worker may die, and the answer of the admission's commit may be
  lost (\<open>admit_unheard\<close>). The reaper's statement is two steps, its snapshot (\<open>reap_read\<close>) and its
  commit (\<open>reap\<close>); \<open>p_raced\<close> records that some pass has judged a row by parents changed in between, and
  \<open>queue_inv\<close> has a flag for the one clause this gives up, that open deliveries have an active run.
  \<open>Pipeline_Final\<close> shows what the machine never undoes; \<open>Pipeline_Properties\<close> and
  \<open>Operation_Properties\<close> state the properties, \<open>Pipeline_Demo\<close> holds the runs the witnesses use.
  \<open>Reconcile_Pass\<close> shows that a whole pass of the reconciler, with other transactions between those of
  its candidates, is a run of the machine, and what the pass achieves.

  \<^bold>\<open>Delivery worker.\<close>
  \<open>Delivery_Worker\<close> (\<open>entrypoint/background/deliveryworker/worker.go\<close>): Run, the claim coordinator and
  the executions as program counters; one transition is the code between two blocking points.
  \<open>Worker_Invariant\<close>: every claimed task is in exactly one place, slots are counted. \<open>Worker_Properties\<close>
  and \<open>Worker_Shutdown\<close>: settlement and bounded shutdown; \<open>Worker_Leases\<close> puts the worker on top of the
  pipeline and follows its lease tokens in the table.

  \<^bold>\<open>Operator accounts.\<close>
  \<open>Operator_Account\<close> (\<open>domain/operatoraccount\<close>): the lifecycle. \<open>Account_Store\<close>, \<open>Account_Invariant\<close>,
  \<open>Account_Properties\<close> (\<open>pg/operatoraccounts\<close>): the optimistic writes and their refinement of the domain.
  \<open>Remote_Disconnect\<close>, \<open>Disconnect_Properties\<close>, \<open>Recovery_Properties\<close>
  (\<open>application/operatoraccounts\<close>): disconnecting and startup recovery over ports, which are locales
  interpreted by the store. \<open>Auth_Lifecycle\<close>, \<open>Startup_Recovery\<close>: the durable half of authentication and
  the composition of \<open>src/cmd/app/operator_auth.go\<close>.

  \<^bold>\<open>Phone authentication\<close> (\<open>application/operatoraccountauth\<close>).
  \<open>Challenge_Registry\<close> and \<open>Registry_Invariant\<close>: live challenges, their identifiers and expiry.
  \<open>Auth_Service\<close>: the requests of the service. \<open>Service_Contract\<close> is the rely-guarantee argument that
  makes requests safe to interleave. \<open>Service_Store\<close> discharges it for the account store: the locale
  \<open>service_over_store\<close> says what calls that leave the process keep, \<open>record_locks\<close> adds the mutual
  exclusion of a challenge's \<open>record.mu\<close> during a provider call; other requests also run in the gap between
  the commit of an admission and the reservation of its challenge. The contracts are interpreted by runtimes without
  interference (\<open>quiet\<close>), with other requests served inside the calls (\<open>busy\<close>), and with those other
  requests waiting for the mutex where they need it (\<open>locking\<close>). \<open>Service_Answers\<close> and
  \<open>Service_Properties\<close> state what callers may rely on.

  \<^bold>\<open>Operator sign-in.\<close>
  \<open>Base64\<close> (the part of the Go library the code uses), \<open>Password_Hash\<close>
  (\<open>application/operatorcredentials/password\<close>), \<open>Web_Sessions\<close> (\<open>pg/operator_web_sessions.go\<close>,
  \<open>pg/operator_credentials.go\<close> and the trigger of the schema), \<open>Operator_Sessions\<close>
  (\<open>application/operatorsessions\<close>, \<open>application/operatorcredentials\<close>, the bootstrap command),
  \<open>Session_System\<close>, \<open>Session_Invariant\<close>, \<open>Session_Properties\<close>, \<open>Session_Demo\<close>: the composition as a
  step relation, its invariant, properties and a concrete run.
  \<^bold>\<open>Assumptions and bounds.\<close>
  A transaction is one step, serial with the others, at a clock that never goes back; the exception is
  the reaper's statement, whose judgement of the parent rows may be older than its update: that race is
  part of the pipeline. Fractional seconds given to SQL are exact. Lost connections and NUL bytes in texts are
  modelled only for the worker, whose ports may answer anything, for the admission of a delivery and for
  the reconciler's pass; the account, credential and web session stores do not fail for them. Within a request of the authentication
  service one clock reading stands for the code between two port calls; other requests run inside the
  provider's and the stopper's calls, during waits for a challenge's mutex and after the commit of an
  admission, not between the commit of a finalisation or abort and the registry's update that follows
  it. The admission gate appears as its closed flag, which others leave alone while a start holds the
  gate; starts of one stripe may overlap in the model, which allows more than the code does. Go's map order is the order of a list. In the web session store every
  \<open>clock_timestamp()\<close> is a reading of its own, one per statement for the rows it scans; fresh 32-byte
  draws do not collide; SHA-256, HMAC, Argon2 and the random source are parameters. Bounds are the
  program's own: five attempts per delivery, 4096 challenges, four executions of a worker, eight
  concurrent password verifications, five sessions of an operator. The only loops that needed a bound
  argument draw fresh identifiers, and end after at most as many draws as there are live ones.

  \<^bold>\<open>Not modelled.\<close>
  Generated code (the ogen server, router and codecs), HTML and HTTP handlers of the console, account and
  sign-in pages, the principal middleware, telemetry and logging, configuration parsing, wiring in
  \<open>src/cmd\<close>, the account runtime registry (\<open>transport/telegram/accountowner\<close>), which the modelled
  services see through ports that may answer anything, the fake transport, gotd's client and session storage, the dialog synchronisation and the
  read side of the mailing console. They translate requests and rows, call libraries or only start the
  parts above; the manifest lists each with its reason.
\<close>

end
